(* ===== verification/Prelude.thy ===== *)
theory Prelude
  imports "HOL-Library.Word"
begin

text \<open>
  Shared vocabulary of the development: machine integers, the result of a fallible Rust
  computation (an \<open>io::Error\<close> or a panic against a value), the two sequencing operators
  the components use for Rust's \<open>?\<close>, and the parts of \<open>Vec\<close> and slices that can panic.
  The collections \<open>res_simps\<close> (unfolding the result operators) and \<open>wf_intros\<close> (steps that
  keep a well-formedness predicate) are filled by the component theories.
\<close>

named_theorems res_simps
named_theorems wf_intros

section \<open>Machine integers and identifiers\<close>

type_synonym byte = "8 word"
type_synonym u16 = "16 word"
type_synonym u32 = "32 word"

text \<open>\<open>MId = usize\<close> is a table index; \<open>CId = u32\<close>; \<open>TypeId\<close> is opaque and only compared.\<close>

type_synonym mid = nat
type_synonym cid = u32
type_synonym type_id = nat

text \<open>\<open>SocketAddr\<close>: an address and a port, only compared by the program.\<close>

datatype sock_addr = SockAddr nat nat

section \<open>Errors and panics\<close>

text \<open>
  The kinds of \<open>io::Error\<close> the program creates or tests, and \<open>OtherKind\<close> for the rest of
  what the operating system can return. The message of an error is kept as the values that are
  formatted into it.
\<close>

datatype error_kind = WouldBlock | InvalidData | ConnectionAborted | NotConnected | ConnectionRefused | TimedOut
  | BrokenPipe | UnexpectedEof | InvalidInput | Other | OtherKind nat

datatype err_msg =
    MsgTooLarge nat mid nat \<comment> \<open>limit, message id, size\<close>
  | ConnectionClosed
  | HeaderIncomplete
  | HeaderTooLarge nat nat \<comment> \<open>announced length, limit\<close>
  | BadMid mid nat \<comment> \<open>message id, number of ids\<close>
  | InvalidCId
  | TypeNotRegistered
  | SerError string
  | SerializationError
  | DeserError string
  | NotDisconnectType
  | NotResponse mid
  | NotConnection mid
  | NoConnectionInTime
  | ConnectionDeser
  | UnknownAddress
  | UdpDropped
  | OsMessage

datatype io_error = IoError (err_kind: error_kind) (err_text: err_msg)

text \<open>Why a thread can panic in the modelled code.\<close>

datatype panic = IndexOutOfBounds | SliceOutOfRange | MissingKey | UnwrapNone | UnwrapErr io_error
  | UnwrapFailed | AssertFailed | ArithOverflow | ClockBeforeEpoch | DowncastFailed | NotRegistered

datatype fail = IoErr io_error | Panic panic

type_synonym 'a res = "fail + 'a"

abbreviation Err :: "error_kind \<Rightarrow> err_msg \<Rightarrow> 'a res" where
  "Err k m \<equiv> Inl (IoErr (IoError k m))"

abbreviation panics :: "panic \<Rightarrow> 'a res" where
  "panics p \<equiv> Inl (Panic p)"

abbreviation Ok :: "'a \<Rightarrow> 'a res" where
  "Ok x \<equiv> Inr x"

definition is_panic :: "'a res \<Rightarrow> bool" where
  "is_panic r = (case r of Inl (Panic p) \<Rightarrow> True | _ \<Rightarrow> False)"

lemma is_panic_simps [simp]:
  "is_panic (Inl e) \<longleftrightarrow> (\<exists>p. e = Panic p)" "\<not> is_panic (Inr x)"
  by (cases e) (simp_all add: is_panic_def)

text \<open>\<open>Result::unwrap\<close> and \<open>Option::unwrap\<close>: the failure becomes a panic.\<close>

fun unwrap_res :: "'a res \<Rightarrow> 'a res" where
  "unwrap_res (Inl (IoErr e)) = panics (UnwrapErr e)"
| "unwrap_res (Inl (Panic p)) = panics p"
| "unwrap_res (Inr x) = Ok x"

fun unwrap_opt :: "'a option \<Rightarrow> 'a res" where
  "unwrap_opt None = panics UnwrapNone"
| "unwrap_opt (Some x) = Ok x"

text \<open>Rust's \<open>?\<close> on a pure result, and on a result paired with the state it leaves behind.\<close>

fun and_then :: "'a res \<Rightarrow> ('a \<Rightarrow> 'b res) \<Rightarrow> 'b res" where
  "and_then (Inl e) f = Inl e"
| "and_then (Inr x) f = f x"

fun and_then_st :: "'a res \<times> 's \<Rightarrow> ('a \<Rightarrow> 's \<Rightarrow> 'b res \<times> 's) \<Rightarrow> 'b res \<times> 's" where
  "and_then_st (Inl e, s) f = (Inl e, s)"
| "and_then_st (Inr x, s) f = f x s"

lemma and_then_Inr_iff [res_simps]:
  "and_then r f = Inr y \<longleftrightarrow> (\<exists>x. r = Inr x \<and> f x = Inr y)"
  by (cases r) auto

lemma and_then_Inl_iff [res_simps]:
  "and_then r f = Inl e \<longleftrightarrow> r = Inl e \<or> (\<exists>x. r = Inr x \<and> f x = Inl e)"
  by (cases r) auto

lemma is_panic_and_then [res_simps]:
  "is_panic (and_then r f) \<longleftrightarrow> is_panic r \<or> (\<exists>x. r = Inr x \<and> is_panic (f x))"
  by (cases r) auto

lemma and_then_cong [fundef_cong]:
  "r = r' \<Longrightarrow> (\<And>x. r' = Inr x \<Longrightarrow> f x = f' x) \<Longrightarrow> and_then r f = and_then r' f'"
  by (cases r') auto

lemma unwrap_res_Inr_iff [res_simps]: "unwrap_res r = Inr x \<longleftrightarrow> r = Inr x"
  by (cases r rule: unwrap_res.cases) auto

lemma unwrap_opt_Inr_iff [res_simps]: "unwrap_opt m = Inr x \<longleftrightarrow> m = Some x"
  by (cases m) auto

lemma and_then_st_state:
  assumes "P s" "\<And>x. r = Inr x \<Longrightarrow> P (snd (f x s))"
  shows "P (snd (and_then_st (r, s) f))"
  using assms by (cases r) auto

section \<open>Vectors and slices\<close>

text \<open>\<open>v[i]\<close>, \<open>&v[a..b]\<close> and \<open>Vec::remove\<close> panic out of range.\<close>

definition index :: "'a list \<Rightarrow> nat \<Rightarrow> 'a res" where
  "index xs i = (if i < length xs then Ok (xs ! i) else panics IndexOutOfBounds)"

definition slice :: "nat \<Rightarrow> nat \<Rightarrow> 'a list \<Rightarrow> 'a list res" where
  "slice a b xs =
     (if a \<le> b \<and> b \<le> length xs then Ok (take (b - a) (drop a xs)) else panics SliceOutOfRange)"

definition vec_remove :: "nat \<Rightarrow> 'a list \<Rightarrow> ('a \<times> 'a list) res" where
  "vec_remove i xs =
     (if i < length xs then Ok (xs ! i, take i xs @ drop (Suc i) xs) else panics IndexOutOfBounds)"

definition hash_index :: "('k \<rightharpoonup> 'v) \<Rightarrow> 'k \<Rightarrow> 'v res" where
  "hash_index m k = (case m k of None \<Rightarrow> panics MissingKey | Some v \<Rightarrow> Ok v)"

lemma index_Inr_iff [res_simps]: "index xs i = Inr x \<longleftrightarrow> i < length xs \<and> x = xs ! i"
  by (auto simp: index_def)

lemma slice_Inr_iff [res_simps]:
  "slice a b xs = Inr ys \<longleftrightarrow> a \<le> b \<and> b \<le> length xs \<and> ys = take (b - a) (drop a xs)"
  by (auto simp: slice_def)

lemma hash_index_Inr_iff [res_simps]: "hash_index m k = Inr v \<longleftrightarrow> m k = Some v"
  by (auto simp: hash_index_def split: option.splits)

text \<open>
  \<open>for (i, b) in bytes.iter().enumerate() { buff[i + off] = *b; }\<close>, a loop of stores
  that panics at the first index out of range.
\<close>

fun store_at :: "nat \<Rightarrow> 'a list \<Rightarrow> 'a list \<Rightarrow> 'a list res" where
  "store_at off [] buff = Ok buff"
| "store_at off (b # bs) buff =
     (if off < length buff then store_at (Suc off) bs (buff[off := b])
      else panics IndexOutOfBounds)"

lemma store_at_in_range:
  "off + length bs \<le> length buff \<Longrightarrow>
   store_at off bs buff = Ok (take off buff @ bs @ drop (off + length bs) buff)"
proof (induction bs arbitrary: off buff)
  case Nil
  then show ?case by simp
next
  case (Cons b bs)
  have off: "off < length buff" using Cons.prems by simp
  have "take (Suc off) (buff[off := b]) = take off buff @ [b]"
    using off by (simp add: take_Suc_conv_app_nth)
  then show ?case
    using off Cons.IH [of "Suc off" "buff[off := b]"] Cons.prems by simp
qed

text \<open>A read that fills the front of a buffer with what arrived.\<close>

definition fill_front :: "'a list \<Rightarrow> 'a list \<Rightarrow> 'a list" where
  "fill_front bs buff = bs @ drop (length bs) buff"

lemma length_fill_front [simp]:
  "length bs \<le> length buff \<Longrightarrow> length (fill_front bs buff) = length buff"
  by (simp add: fill_front_def)

lemma take_fill_front [simp]: "take (length bs) (fill_front bs buff) = bs"
  by (simp add: fill_front_def)

section \<open>Checked and wrapping arithmetic on \<open>u32\<close>\<close>

text \<open>
  Rust's \<open>+=\<close> and \<open>-=\<close> on \<open>u32\<close> panic on overflow when the crate is built with overflow
  checks (the default for debug builds and tests) and wrap otherwise (release builds). The
  flag \<open>oc\<close> says which.
\<close>

definition add_u32 :: "bool \<Rightarrow> u32 \<Rightarrow> u32 \<Rightarrow> u32 res" where
  "add_u32 oc a b = (if oc \<and> 2 ^ 32 \<le> unat a + unat b then panics ArithOverflow else Ok (a + b))"

definition sub_u32 :: "bool \<Rightarrow> u32 \<Rightarrow> u32 \<Rightarrow> u32 res" where
  "sub_u32 oc a b = (if oc \<and> a < b then panics ArithOverflow else Ok (a - b))"

end
