(* ===== verification/Clock.thy ===== *)
theory Clock
  imports Prelude
begin

unbundle bit_operations_syntax

text \<open>
  \<open>src/time.rs\<close>: time stamps of UDP messages. Only the low 16 bits of the sender's clock
  travel; the receiver rebuilds the rest from its own clock. The system clock is an argument:
  nanoseconds since the Unix epoch, negative when the clock is set before it.
\<close>

definition unix_millis :: "int \<Rightarrow> u32 res" where
  "unix_millis now =
     (if now < 0 then panics ClockBeforeEpoch
      else let millis = now div 1000000 in Ok (word_of_int (millis AND 0xFFFFFFFF)))"

definition reconstruct_millis_inner :: "bool \<Rightarrow> u32 \<Rightarrow> u16 \<Rightarrow> u32 res" where
  "reconstruct_millis_inner oc now lsb =
     (let now_lsb = (ucast (now AND 0xFFFF) :: u16);
          msb = now AND 0xFFFF0000
      in and_then (if lsb > now_lsb then sub_u32 oc msb 0x00010000 else Ok msb)
           (\<lambda>msb. Ok (msb OR ucast lsb)))"

definition reconstruct_millis :: "bool \<Rightarrow> int \<Rightarrow> u16 \<Rightarrow> u32 res" where
  "reconstruct_millis oc now lsb =
     and_then (unix_millis now) (\<lambda>millis. reconstruct_millis_inner oc millis lsb)"

section \<open>The two halves of a stamp\<close>

lemma low_mask: "(0xFFFF :: u32) = mask 16"
  by (simp add: mask_eq_exp_minus_1)

lemma high_mask: "(0xFFFF0000 :: u32) = NOT (mask 16)"
  by (simp add: mask_eq_exp_minus_1)

lemma low_half: "(ucast (now AND 0xFFFF) :: u16) = ucast (now :: u32)"
  unfolding low_mask by (rule bit_word_eqI) (auto simp: bit_simps)

lemma high_half: "((now :: u32) AND 0xFFFF0000) = push_bit 16 (drop_bit 16 now)"
  unfolding high_mask by (rule bit_word_eqI) (auto simp: bit_simps)

lemma unat_u32_bound: "unat (x :: u32) < 4294967296"
proof -
  have "unat x < 2 ^ LENGTH(32)" by (rule unsigned_less)
  then show ?thesis by simp
qed

lemma unat_high_half: "unat ((now :: u32) AND 0xFFFF0000) = 65536 * (unat now div 65536)"
proof -
  have "unat now div 65536 < 65536" using unat_u32_bound [of now] by simp
  then show ?thesis
    by (simp only: high_half unsigned_push_bit_eq unsigned_drop_bit_eq) (simp add: take_bit_eq_mod push_bit_eq_mult drop_bit_eq_div)
qed

lemma or_low: "push_bit 16 (y :: u32) OR ucast (s :: u16) = push_bit 16 y + ucast s"
  by (rule disjunctive_add_eq_or [symmetric], rule bit_word_eqI) (auto simp: bit_simps dest: bit_imp_le_length)

lemma unat_ucast_u16_u32: "unat (ucast (s :: u16) :: u32) = unat s"
proof -
  have "unat s < 2 ^ LENGTH(16)" by (rule unsigned_less)
  then show ?thesis by (simp add: unsigned_ucast_eq take_bit_nat_eq_self)
qed

lemma unat_low: "unat (ucast (x::u32) :: u16) = unat x mod 65536"
  by (simp add: unsigned_ucast_eq take_bit_eq_mod)

lemma window_back: "high = push_bit 16 y ==> high - 0x10000 = push_bit 16 (y - 1 :: u32)"
  by (simp add: push_bit_eq_mult algebra_simps)

lemma reconstruct_same_window:
  "\<not> ucast now < lsb \<Longrightarrow> reconstruct_millis_inner oc now lsb = Ok ((now AND 0xFFFF0000) + ucast lsb)"
  by (simp add: reconstruct_millis_inner_def low_half high_half or_low)

lemma reconstruct_previous_window:
  "ucast now < lsb \<Longrightarrow> \<not> (oc \<and> unat now < 65536) \<Longrightarrow> reconstruct_millis_inner oc now lsb = Ok ((now AND 0xFFFF0000) - 0x10000 + ucast lsb)"
  using unat_high_half [of now]
  by (auto simp add: reconstruct_millis_inner_def low_half sub_u32_def word_less_nat_alt high_half window_back or_low )

lemma reconstruct_overflow:
  "ucast now < lsb \<Longrightarrow> oc \<Longrightarrow> unat now < 65536 \<Longrightarrow> reconstruct_millis_inner oc now lsb = panics ArithOverflow"
  using unat_high_half [of now]
  by (auto simp add: reconstruct_millis_inner_def low_half sub_u32_def word_less_nat_alt)

definition window_nat :: "nat \<Rightarrow> nat \<Rightarrow> nat" where
  "window_nat n s = (if s \<le> n mod 65536 then 65536 * (n div 65536) + s
     else if 65536 \<le> n then 65536 * (n div 65536 - 1) + s else 4294901760 + s)"

lemma unat_u16_bound: "unat (x :: u16) < 65536"
proof -
  have "unat x < 2 ^ LENGTH(16)" by (rule unsigned_less)
  then show ?thesis by simp
qed

lemma ucast_less_lsb: "ucast (now :: u32) < (lsb :: u16) \<longleftrightarrow> unat now mod 65536 < unat lsb"
  by (simp add: word_less_nat_alt unat_low)

lemma window_split:
  fixes h g s t :: nat
  assumes "s < 65536" "t < 65536"
  shows "65536 * h + s = 65536 * g + t \<longleftrightarrow> h = g \<and> s = t"
proof
  assume eq: "65536 * h + s = 65536 * g + t"
  have "(65536 * h + s) div 65536 = (65536 * g + t) div 65536" by (simp only: eq)
  moreover have "(65536 * h + s) mod 65536 = (65536 * g + t) mod 65536" by (simp only: eq)
  ultimately show "h = g \<and> s = t" using assms by simp
qed simp

lemma window_distance:
  fixes h l g s :: nat
  assumes "l < 65536" "s < 65536" "h < 65536" "g < 65536"
  shows "(if 65536 * g + s \<le> 65536 * h + l then 65536 * h + l - (65536 * g + s)
          else 65536 * h + l + 4294967296 - (65536 * g + s)) < 65536
    \<longleftrightarrow> g = (if s \<le> l then h else if 1 \<le> h then h - 1 else 65535)"
proof -
  consider "g = h" | "g + 1 = h" | "g + 2 \<le> h" | "g = 65535" "h = 0" | "h < g" "g < 65535" | "h < g" "0 < h"
    using assms by linarith
  then show ?thesis using assms by cases (auto split: if_splits)
qed

lemma window_nat_iff:
  assumes "n < 4294967296" "r < 4294967296" "s < 65536"
  shows "window_nat n s = r \<longleftrightarrow> r mod 65536 = s \<and> (if r \<le> n then n - r else n + 4294967296 - r) < 65536"
proof -
  define h l g t where d: "h = n div 65536" "l = n mod 65536" "g = r div 65536" "t = r mod 65536"
  have n: "n = 65536 * h + l" "l < 65536" "h < 65536" using assms by (auto simp: d)
  have r: "r = 65536 * g + t" "t < 65536" "g < 65536" using assms by (auto simp: d)
  have w: "window_nat n s = 65536 * (if s \<le> l then h else if 1 \<le> h then h - 1 else 65535) + s"
    using n by (auto simp: window_nat_def d(1,2)[symmetric])
  have e: "r mod 65536 = t" by (simp add: d)
  show ?thesis
  proof (cases "s = t")
    case True
    show ?thesis
      unfolding w e unfolding n(1) r(1) window_split [OF assms(3) r(2)]
      unfolding window_distance [OF n(2) r(2) n(3) r(3)] True by blast
  next
    case False
    then show ?thesis
      unfolding w e unfolding n(1) r(1) window_split [OF assms(3) r(2)] by blast
  qed
qed

lemma window_nat_bound: 
  assumes "n < 4294967296" "s < 65536" shows "window_nat n s < 4294967296"
proof -
  have "n div 65536 < 65536" using assms by simp
  then show ?thesis using assms(2) by (auto simp: window_nat_def)
qed

lemma window_nat_le:
  assumes "s < 65536"
  shows "window_nat n s \<le> n \<longleftrightarrow> \<not> (n < 65536 \<and> n < s)"
proof -
  have n: "n = 65536 * (n div 65536) + n mod 65536" by simp
  consider "s \<le> n mod 65536" | k where "n mod 65536 < s" "n div 65536 = Suc k" | "n mod 65536 < s" "n < 65536"
  proof (cases "s \<le> n mod 65536")
    case False
    then show thesis using that(2,3) by (cases "n div 65536") (simp_all add: not_le)
  qed (rule that(1))
  then show ?thesis
  proof cases
    case 1
    then have "65536 * (n div 65536) + s \<le> n" using n by linarith
    then have "window_nat n s \<le> n" using 1 by (simp add: window_nat_def)
    then show ?thesis using 1 by (auto dest: le_trans)
  next
    case (2 k)
    have "65536 \<le> n" "65536 * k + s \<le> n" using n 2(2) assms by linarith+
    then show ?thesis using 2 by (simp add: window_nat_def)
  next
    case 3
    then show ?thesis by (simp add: window_nat_def)
  qed
qed

lemma reconstruct_nat:
  "reconstruct_millis_inner oc now lsb =
     (if oc \<and> unat now < 65536 \<and> unat now < unat lsb then panics ArithOverflow
      else Ok (word_of_nat (window_nat (unat now) (unat lsb))))"
proof -
  have h: "now AND 0xFFFF0000 = word_of_nat (65536 * (unat now div 65536))"
    by (metis of_nat_unat ucast_id unat_high_half)
  have l: "ucast lsb = (word_of_nat (unat lsb) :: u32)"
    by simp
  show ?thesis
  proof (cases "ucast now < lsb")
    case False
    then show ?thesis using reconstruct_same_window [OF False, of oc] unat_u16_bound [of lsb]
      by (auto simp: h window_nat_def ucast_less_lsb)
  next
    case True
    show ?thesis
    proof (cases "unat now < 65536")
      case True
      have "(word_of_nat (4294901760 + unat lsb) :: u32) = 0 - 65536 + ucast lsb" by simp
      then show ?thesis using \<open>ucast now < lsb\<close> True reconstruct_overflow [of now lsb oc] reconstruct_previous_window [of now lsb oc]
        by (auto simp: h window_nat_def ucast_less_lsb)
    next
      case False
      have "(word_of_nat (65536 * (unat now div 65536 - 1) + unat lsb) :: u32) = word_of_nat (65536 * (unat now div 65536)) - 65536 + ucast lsb" 
      proof -
        obtain k where "unat now div 65536 = Suc k" using False by (cases "unat now div 65536") auto
        then show ?thesis by simp
      qed
      then show ?thesis using \<open>ucast now < lsb\<close> False reconstruct_previous_window [of now lsb oc]
        by (auto simp: h window_nat_def ucast_less_lsb)
    qed
  qed
qed

lemma u32_of_nat_iff: "n < 4294967296 \<Longrightarrow> (word_of_nat n :: u32) = r \<longleftrightarrow> n = unat r"
  by (auto simp: unat_of_nat)

lemma ucast_lsb_iff: "(ucast (r :: u32) :: u16) = lsb \<longleftrightarrow> unat r mod 65536 = unat lsb"
  by (simp add: word_unat_eq_iff unat_low)

lemma stamp_in_window_iff:
  "reconstruct_millis_inner oc now lsb = Ok r \<longleftrightarrow> ucast r = lsb \<and> unat (now - r) < 65536 \<and> (oc \<longrightarrow> r \<le> now)"
proof -
  note b = unat_u32_bound [of now] unat_u32_bound [of r] unat_u16_bound [of lsb]
  have dist: "unat (now - r) = (if unat r \<le> unat now then unat now - unat r else unat now + 4294967296 - unat r)"
    using b by (simp add: unat_sub_if')
  have w: "word_of_nat (window_nat (unat now) (unat lsb)) = r \<longleftrightarrow> ucast r = lsb \<and> unat (now - r) < 65536"
    using u32_of_nat_iff [OF window_nat_bound [OF b(1,3)], of r] window_nat_iff [OF b]
    by (simp add: ucast_lsb_iff dist)
  have le: "\<not> (unat now < 65536 \<and> unat now < unat lsb) \<longleftrightarrow> r \<le> now" 
    if "word_of_nat (window_nat (unat now) (unat lsb)) = r"
    using that u32_of_nat_iff [OF window_nat_bound [OF b(1,3)], of r] window_nat_le [OF b(3), of "unat now"]
    by (simp add: word_le_nat_alt)
  show ?thesis using w le by (auto simp: reconstruct_nat)
qed

text \<open>The clock as two hosts read it: a stamp survives the trip when it is fresh enough.\<close>

lemma unix_millis_nonneg:
  "0 \<le> now \<Longrightarrow> unix_millis now = Ok (word_of_int (now div 1000000))"
proof -
  assume "0 \<le> now"
  moreover have "(word_of_int (m AND 0xFFFFFFFF) :: u32) = word_of_int m" for m
  proof -
    have "(word_of_int (m AND mask 32) :: u32) = word_of_int m"
      by (rule bit_word_eqI) (auto simp: bit_simps)
    moreover have "(0xFFFFFFFF :: int) = mask 32" by (simp add: mask_eq_exp_minus_1)
    ultimately show ?thesis by (simp only:)
  qed
  ultimately show ?thesis by (simp add: unix_millis_def)
qed

lemma stamp_distance:
  fixes a b :: int
  assumes "a \<le> b" "b - a < 65536"
  shows "unat ((word_of_int b :: u32) - word_of_int a) < 65536"
proof -
  have "unat ((word_of_int b :: u32) - word_of_int a) = nat ((b - a) mod 4294967296)"
    by (simp only: wi_hom_sub) (simp add: unsigned_of_int take_bit_eq_mod del: of_int_diff)
  then show ?thesis using assms by simp
qed

lemma stamp_order:
  fixes a b :: int
  assumes "0 \<le> a" "a \<le> b" "a div 4294967296 = b div 4294967296"
  shows "(word_of_int a :: u32) \<le> word_of_int b"
proof -
  have "a mod 4294967296 \<le> b mod 4294967296"
    using assms by (metis add_le_cancel_left mult_div_mod_eq)
  then show ?thesis by (simp add: word_le_def uint_word_of_int_eq take_bit_eq_mod)
qed

lemma reconstruct_millis_panic:
  "is_panic (reconstruct_millis oc now lsb) \<longleftrightarrow>
     now < 0 \<or> (oc \<and> unat (word_of_int (now div 1000000) :: u32) < unat lsb)"
proof (cases "now < 0")
  case True
  then show ?thesis by (simp add: reconstruct_millis_def unix_millis_def)
next
  case False
  then show ?thesis
    using unat_u16_bound [of lsb]
    by (auto simp: reconstruct_millis_def unix_millis_nonneg reconstruct_nat)
qed

section \<open>Properties of the reconstruction\<close>

text \<open>
  C31: The sender's stamp is recovered from its low 16 bits, in debug and release builds alike,
  whenever the receiver's clock is not behind it and less than 65536 ms ahead.
\<close>

theorem reconstruct_recovers:
  assumes "sent \<le> now" "unat now - unat sent < 65536"
  shows "reconstruct_millis_inner oc now (ucast sent) = Ok sent"
  using assms by (simp add: stamp_in_window_iff unat_sub_if' word_le_nat_alt)

theorem reconstruct_recovers_witness:
  "reconstruct_millis_inner True 0x183A4039 (ucast (0x18398183 :: u32)) = Ok 0x18398183"
  by (rule reconstruct_recovers) simp_all

text \<open>
  The only failure is an arithmetic overflow panic, in builds with overflow checks, when the
  receiver's clock is in the first 65.536 s after its 32-bit counter wrapped to zero (which
  happens every 49.7 days) and the received low bits are larger.
\<close>

lemma reconstruct_fails_iff:
  "reconstruct_millis_inner oc now lsb = Inl e \<longleftrightarrow>
     e = Panic ArithOverflow \<and> oc \<and> unat now < unat lsb"
  using unat_u16_bound [of lsb] by (auto simp: reconstruct_nat)

end
