(* ===== verification/Header.thy ===== *)
theory Header
  imports Clock
begin

unbundle bit_operations_syntax

text \<open>
  \<open>src/header.rs\<close>: the 4-byte headers in front of every payload. A TCP header carries the
  message id and the payload length, a UDP header the message id and the low half of the
  sender's clock; all three travel as big endian \<open>u16\<close>s, so the casts \<open>as u16\<close> truncate.
\<close>

abbreviation (input) TCP_HEADER_LEN :: nat where "TCP_HEADER_LEN \<equiv> 4"
abbreviation (input) UDP_HEADER_LEN :: nat where "UDP_HEADER_LEN \<equiv> 4"

section \<open>Big endian \<open>u16\<close>\<close>

definition u16_to_be_bytes :: "u16 \<Rightarrow> byte list" where
  "u16_to_be_bytes w = [ucast (drop_bit 8 w), ucast w]"

definition u16_from_be_bytes :: "byte list \<Rightarrow> u16" where
  "u16_from_be_bytes bs = push_bit 8 (ucast (bs ! 0)) OR ucast (bs ! 1)"

lemma u16_be_roundtrip [simp]: "u16_from_be_bytes (u16_to_be_bytes w) = w"
  unfolding u16_from_be_bytes_def u16_to_be_bytes_def
  by (rule bit_word_eqI) (auto simp: bit_simps)

lemma u16_be_roundtrip' [simp]:
  "u16_from_be_bytes [ucast (drop_bit 8 w), ucast w] = w"
  using u16_be_roundtrip [of w] by (simp add: u16_to_be_bytes_def)

lemma u16_bytes_of_value [simp]:
  "length bs = 2 \<Longrightarrow> u16_to_be_bytes (u16_from_be_bytes bs) = bs"
proof -
  assume "length bs = 2"
  then obtain a b where bs: "bs = [a, b]"
    by (auto simp: length_Suc_conv numeral_2_eq_2)
  have "ucast (drop_bit 8 (push_bit 8 (ucast a) OR ucast b :: u16)) = a"
    by (rule bit_word_eqI) (auto simp: bit_simps dest: bit_imp_le_length)
  moreover have "ucast (push_bit 8 (ucast a) OR ucast b :: u16) = b"
    by (rule bit_word_eqI) (auto simp: bit_simps)
  ultimately show ?thesis
    by (simp add: bs u16_from_be_bytes_def u16_to_be_bytes_def)
qed

lemma unat_u16_of_nat: "unat (word_of_nat n :: u16) = n mod 65536"
  by (simp add: unat_of_nat)

section \<open>The TCP header\<close>

record tcp_header =
  th_mid :: mid
  th_len :: nat

definition tcp_header_new :: "mid \<Rightarrow> nat \<Rightarrow> tcp_header" where
  "tcp_header_new mid len = \<lparr>th_mid = mid, th_len = len\<rparr>"

definition tcp_to_be_bytes :: "tcp_header \<Rightarrow> byte list" where
  "tcp_to_be_bytes h =
     (let mid_b = u16_to_be_bytes (word_of_nat (th_mid h));
          len_b = u16_to_be_bytes (word_of_nat (th_len h))
      in [mid_b ! 0, mid_b ! 1, len_b ! 0, len_b ! 1])"

definition tcp_from_be_bytes :: "byte list \<Rightarrow> tcp_header res" where
  "tcp_from_be_bytes bytes =
     (if length bytes \<noteq> TCP_HEADER_LEN then panics AssertFailed
      else let mid = unat (u16_from_be_bytes (take 2 bytes));
               len = unat (u16_from_be_bytes (drop 2 bytes))
           in Ok \<lparr>th_mid = mid, th_len = len\<rparr>)"

section \<open>The UDP header\<close>

record udp_header =
  uh_mid :: mid
  uh_time :: u32

definition udp_header_new :: "int \<Rightarrow> mid \<Rightarrow> udp_header res" where
  "udp_header_new now mid =
     and_then (unix_millis now) (\<lambda>time. Ok \<lparr>uh_mid = mid, uh_time = time\<rparr>)"

definition udp_to_be_bytes :: "udp_header \<Rightarrow> byte list" where
  "udp_to_be_bytes h =
     (let mid_b = u16_to_be_bytes (word_of_nat (uh_mid h));
          time_b = u16_to_be_bytes (ucast (uh_time h))
      in [mid_b ! 0, mid_b ! 1, time_b ! 0, time_b ! 1])"

definition udp_from_be_bytes :: "bool \<Rightarrow> int \<Rightarrow> byte list \<Rightarrow> udp_header res" where
  "udp_from_be_bytes oc now bytes =
     (if length bytes \<noteq> UDP_HEADER_LEN then panics AssertFailed
      else let mid = unat (u16_from_be_bytes (take 2 bytes));
               time_lsb = u16_from_be_bytes (drop 2 bytes)
           in and_then (reconstruct_millis oc now time_lsb)
                (\<lambda>time. Ok \<lparr>uh_mid = mid, uh_time = time\<rparr>))"

section \<open>What a header keeps of its fields\<close>

lemma tcp_bytes_append:
  "tcp_to_be_bytes h =
     u16_to_be_bytes (word_of_nat (th_mid h)) @ u16_to_be_bytes (word_of_nat (th_len h))"
  by (simp add: tcp_to_be_bytes_def u16_to_be_bytes_def)

lemma udp_bytes_append:
  "udp_to_be_bytes h =
     u16_to_be_bytes (word_of_nat (uh_mid h)) @ u16_to_be_bytes (ucast (uh_time h))"
  by (simp add: udp_to_be_bytes_def u16_to_be_bytes_def)

lemma length_u16_to_be_bytes [simp]: "length (u16_to_be_bytes w) = 2"
  by (simp add: u16_to_be_bytes_def)

lemma length_tcp_to_be_bytes [simp]: "length (tcp_to_be_bytes h) = 4"
  by (simp add: tcp_bytes_append)

lemma length_udp_to_be_bytes [simp]: "length (udp_to_be_bytes h) = 4"
  by (simp add: udp_bytes_append)

text \<open>Encoding then decoding truncates both fields to 16 bits, and nothing else happens.\<close>

lemma tcp_header_decode_encode [simp]:
  "tcp_from_be_bytes (tcp_to_be_bytes h) =
     Ok \<lparr>th_mid = th_mid h mod 65536, th_len = th_len h mod 65536\<rparr>"
  by (simp add: tcp_from_be_bytes_def tcp_bytes_append unat_u16_of_nat)

lemma tcp_header_decode_length:
  "length bs = 4 \<Longrightarrow> \<exists>h. tcp_from_be_bytes bs = Ok h \<and> th_mid h < 65536 \<and> th_len h < 65536"
  by (simp add: tcp_from_be_bytes_def unat_u16_bound)

lemma udp_header_decode_encode:
  "udp_from_be_bytes oc now (udp_to_be_bytes h) =
     and_then (reconstruct_millis oc now (ucast (uh_time h)))
       (\<lambda>t. Ok \<lparr>uh_mid = uh_mid h mod 65536, uh_time = t\<rparr>)"
  by (simp add: udp_from_be_bytes_def udp_bytes_append unat_u16_of_nat)

section \<open>Properties of the headers\<close>

text \<open>
  A TCP header survives the wire exactly when both fields fit 16 bits; otherwise the receiver
  reads a different message id or a different length.
\<close>

lemma tcp_header_roundtrip_iff:
  "tcp_from_be_bytes (tcp_to_be_bytes h) = Ok h \<longleftrightarrow> th_mid h < 65536 \<and> th_len h < 65536"
proof -
  have "\<lparr>th_mid = th_mid h mod 65536, th_len = th_len h mod 65536\<rparr> = h \<longleftrightarrow>
      th_mid h mod 65536 = th_mid h \<and> th_len h mod 65536 = th_len h"
    by (cases h) auto
  moreover have "n mod 65536 = n \<longleftrightarrow> n < 65536" for n :: nat
    by (metis mod_less mod_less_divisor zero_less_numeral)
  ultimately show ?thesis by simp
qed

text \<open>
  Every 4 bytes are the encoding of exactly one header with 16-bit fields, and any other
  number of bytes fails the length assertion.
\<close>

lemma tcp_header_decode_iff:
  "tcp_from_be_bytes bs = Ok h \<longleftrightarrow>
     bs = tcp_to_be_bytes h \<and> th_mid h < 65536 \<and> th_len h < 65536"
proof
  assume dec: "tcp_from_be_bytes bs = Ok h"
  then have len: "length bs = 4" by (auto simp: tcp_from_be_bytes_def split: if_splits)
  then have h: "h = \<lparr>th_mid = unat (u16_from_be_bytes (take 2 bs)),
      th_len = unat (u16_from_be_bytes (drop 2 bs))\<rparr>"
    using dec by (simp add: tcp_from_be_bytes_def)
  have "tcp_to_be_bytes h = take 2 bs @ drop 2 bs"
    unfolding tcp_bytes_append h using len by simp
  then show "bs = tcp_to_be_bytes h \<and> th_mid h < 65536 \<and> th_len h < 65536"
    by (simp add: h unat_u16_bound)
next
  assume "bs = tcp_to_be_bytes h \<and> th_mid h < 65536 \<and> th_len h < 65536"
  then show "tcp_from_be_bytes bs = Ok h" by simp
qed

text \<open>
  A UDP header made at one host and decoded at another within 65536 ms carries the message id
  and the full 32-bit sending time, although only 16 bits of it were sent.
\<close>

lemma udp_header_stamp_travels:
  fixes sent recvd :: int
  assumes "0 \<le> sent" "sent div 1000000 \<le> recvd div 1000000"
    and "recvd div 1000000 - sent div 1000000 < 65536"
    and "oc \<longrightarrow> sent div 1000000 div 4294967296 = recvd div 1000000 div 4294967296"
    and "mid < 65536"
  shows "and_then (udp_header_new sent mid) (\<lambda>h. udp_from_be_bytes oc recvd (udp_to_be_bytes h)) =
    Ok \<lparr>uh_mid = mid, uh_time = word_of_int (sent div 1000000)\<rparr>"
proof -
  have pos: "0 \<le> sent div 1000000" using assms(1) by (simp add: pos_imp_zdiv_nonneg_iff)
  have "0 \<le> recvd div 1000000" using pos assms(2) by linarith
  then have "0 \<le> recvd" by (simp add: pos_imp_zdiv_nonneg_iff)
  have "reconstruct_millis oc recvd (ucast (word_of_int (sent div 1000000) :: u32)) =
      Ok (word_of_int (sent div 1000000))"
    using stamp_distance [OF assms(2,3)] stamp_order [OF pos assms(2)] assms(4) \<open>0 \<le> recvd\<close>
    by (simp add: reconstruct_millis_def unix_millis_nonneg stamp_in_window_iff)
  then show ?thesis
    using assms(1,5) by (simp add: udp_header_new_def unix_millis_nonneg udp_header_decode_encode)
qed

end
