(* ===== verification/Net.thy ===== *)
theory Net
  imports Header
begin

text \<open>
  \<open>src/net.rs\<close>: what both ends share. A message is \<open>Box<dyn Any>\<close>, modelled as a
  value tagged with the \<open>TypeId\<close> of its Rust type; \<open>'v\<close> is the type of all message
  values. A generic parameter \<open>T\<close> of the source is its \<open>TypeId\<close>.
\<close>

definition MAX_SAFE_MESSAGE_SIZE :: nat where
  "MAX_SAFE_MESSAGE_SIZE = 504"

datatype transport = TCP | UDP

datatype 'v any = AnyBox (any_tid: type_id) (any_val: 'v)

definition downcast :: "type_id \<Rightarrow> 'v any \<Rightarrow> 'v option" where
  "downcast T a = (if any_tid a = T then Some (any_val a) else None)"

text \<open>\<open>SerFn\<close> and \<open>DeserFn\<close>: the function pointers a message table holds.\<close>

type_synonym 'v ser_fn = "'v any \<Rightarrow> byte list res"
type_synonym 'v deser_fn = "byte list \<Rightarrow> 'v any res"

section \<open>Connection status\<close>

datatype 'v status =
    Connected
  | Disconnected "'v any"
  | Closed
  | Dropped io_error

definition status_fmt :: "(io_error \<Rightarrow> string) \<Rightarrow> 'v status \<Rightarrow> string" where
  "status_fmt show_error s =
     (case s of
        Connected \<Rightarrow> ''Connected''
      | Disconnected _ \<Rightarrow> ''Disconnected gracefully''
      | Closed \<Rightarrow> ''Closed''
      | Dropped e \<Rightarrow> ''Dropped with error '' @ show_error e)"

definition connected :: "'v status \<Rightarrow> bool" where
  "connected s = (case s of Connected \<Rightarrow> True | _ \<Rightarrow> False)"

definition disconnected :: "type_id \<Rightarrow> 'v status \<Rightarrow> 'v option res" where
  "disconnected D s =
     (case s of
        Disconnected d \<Rightarrow>
          (case downcast D d of Some m \<Rightarrow> Ok (Some m) | None \<Rightarrow> panics DowncastFailed)
      | _ \<Rightarrow> Ok None)"

definition disconnected_dyn :: "'v status \<Rightarrow> 'v any option" where
  "disconnected_dyn s = (case s of Disconnected d \<Rightarrow> Some d | _ \<Rightarrow> None)"

definition dropped :: "'v status \<Rightarrow> io_error option" where
  "dropped s = (case s of Dropped e \<Rightarrow> Some e | _ \<Rightarrow> None)"

definition closed :: "'v status \<Rightarrow> bool" where
  "closed s = (case s of Closed \<Rightarrow> True | _ \<Rightarrow> False)"

lemma connected_iff [simp]: "connected s \<longleftrightarrow> s = Connected"
  by (cases s) (simp_all add: connected_def)

section \<open>Selecting connections\<close>

datatype cid_spec = CIdAll | CIdNone | CIdExcept cid | CIdOnly cid

fun cid_matches :: "cid_spec \<Rightarrow> cid \<Rightarrow> bool" where
  "cid_matches CIdAll cid = True"
| "cid_matches CIdNone cid = False"
| "cid_matches (CIdExcept o1) cid = (cid \<noteq> o1)"
| "cid_matches (CIdOnly o1) cid = (cid = o1)"

fun overlaps :: "cid_spec \<Rightarrow> cid_spec \<Rightarrow> bool" where
  "overlaps CIdNone _ = False"
| "overlaps _ CIdNone = False"
| "overlaps CIdAll _ = True"
| "overlaps _ CIdAll = True"
| "overlaps (CIdExcept _) (CIdExcept _) = True"
| "overlaps (CIdOnly o1) (CIdOnly o2) = (o1 = o2)"
| "overlaps (CIdOnly only) (CIdExcept except) = (only \<noteq> except)"
| "overlaps (CIdExcept except) (CIdOnly only) = (only \<noteq> except)"

lemma cid_avoiding_two: "\<exists>c :: cid. c \<noteq> a \<and> c \<noteq> b"
proof (rule ccontr)
  assume "\<nexists>c. c \<noteq> a \<and> c \<noteq> b"
  then have "0 = a \<or> 0 = b" "1 = a \<or> 1 = b" "2 = a \<or> 2 = b" by blast+
  then show False by auto
qed

section \<open>Configuration\<close>

text \<open>\<open>Duration\<close> and \<open>Instant\<close> are counted in nanoseconds.\<close>

record net_config =
  cfg_timeout :: nat
  cfg_max_con_handle :: nat
  cfg_max_msg_size :: nat

definition config_new :: "nat \<Rightarrow> nat \<Rightarrow> nat \<Rightarrow> net_config" where
  "config_new timeout max_con_handle max_msg_size =
     \<lparr>cfg_timeout = timeout, cfg_max_con_handle = max_con_handle, cfg_max_msg_size = max_msg_size\<rparr>"

definition config_default :: net_config where
  "config_default =
     \<lparr>cfg_timeout = 5000 * 1000000, cfg_max_con_handle = 4, cfg_max_msg_size = 2048\<rparr>"

section \<open>Received messages\<close>

record 'v erased_net_msg =
  em_cid :: cid
  em_time :: "u32 option"
  em_msg :: "'v any"

record 'v net_msg =
  nm_cid :: cid
  nm_time :: "u32 option"
  nm_m :: 'v

definition to_typed :: "type_id \<Rightarrow> 'v erased_net_msg \<Rightarrow> 'v net_msg option" where
  "to_typed T e =
     (case downcast T (em_msg e) of
        None \<Rightarrow> None
      | Some msg \<Rightarrow> Some \<lparr>nm_cid = em_cid e, nm_time = em_time e, nm_m = msg\<rparr>)"

definition net_msg_deref :: "'v net_msg \<Rightarrow> 'v" where
  "net_msg_deref n = nm_m n"

text \<open>
  The message buffers of both ends, one vector per message id: \<open>msg_buff[mid].push(net_msg)\<close>
  and \<open>msg_buff[mid].iter().map(|m| m.to_typed().unwrap())\<close>, collected.
\<close>

type_synonym 'v msg_buff = "'v erased_net_msg list list"

definition push_msg :: "mid \<Rightarrow> 'v erased_net_msg \<Rightarrow> 'v msg_buff \<Rightarrow> 'v msg_buff res" where
  "push_msg mid m buff =
     (if mid < length buff then Ok (buff[mid := buff ! mid @ [m]]) else panics IndexOutOfBounds)"

primrec typed_msgs :: "type_id \<Rightarrow> 'v erased_net_msg list \<Rightarrow> 'v net_msg list res" where
  "typed_msgs T [] = Ok []"
| "typed_msgs T (m # ms) =
     and_then (unwrap_opt (to_typed T m)) (\<lambda>n. and_then (typed_msgs T ms) (\<lambda>ns. Ok (n # ns)))"

text \<open>What a sequence of pushes leaves in the buffers.\<close>

definition push_eff :: "mid \<times> 'v erased_net_msg \<Rightarrow> 'v msg_buff \<Rightarrow> 'v msg_buff" where
  "push_eff m buff = buff[fst m := buff ! fst m @ [snd m]]"

definition msgs_for :: "mid \<Rightarrow> (mid \<times> 'v erased_net_msg) list \<Rightarrow> 'v erased_net_msg list" where
  "msgs_for mid ms = map snd (filter (\<lambda>m. fst m = mid) ms)"

lemma length_push_eff [simp]: "length (push_eff m buff) = length buff"
  by (simp add: push_eff_def)

lemma length_fold_push [simp]: "length (fold push_eff ms buff) = length buff"
  by (induction ms arbitrary: buff) simp_all

lemma fold_push_nth:
  "mid < length buff \<Longrightarrow> fold push_eff ms buff ! mid = buff ! mid @ msgs_for mid ms"
  by (induction ms arbitrary: buff) (auto simp: push_eff_def msgs_for_def)

lemma push_msg_in_range: "mid < length buff \<Longrightarrow> push_msg mid m buff = Ok (push_eff (mid, m) buff)"
  by (simp add: push_msg_def push_eff_def)

lemma push_msg_length: "push_msg mid m b = Inr buff \<Longrightarrow> length buff = length b"
  by (auto simp: push_msg_def split: if_splits)

lemma typed_msgs_Ok:
  "\<forall>m \<in> set ms. any_tid (em_msg m) = T \<Longrightarrow> typed_msgs T ms =
     Ok (map (\<lambda>m. \<lparr>nm_cid = em_cid m, nm_time = em_time m, nm_m = any_val (em_msg m)\<rparr>) ms)"
  by (induction ms) (simp_all add: to_typed_def downcast_def)

lemma to_typed_Some_iff [res_simps]:
  "to_typed T e = Some n \<longleftrightarrow>
     any_tid (em_msg e) = T \<and>
     n = \<lparr>nm_cid = em_cid e, nm_time = em_time e, nm_m = any_val (em_msg e)\<rparr>"
  by (auto simp: to_typed_def downcast_def)

section \<open>Properties\<close>

text \<open>
  \<open>CIdSpec::overlaps\<close> decides whether two specifications have a connection id in common,
  for all pairs of constructors (two \<open>Except\<close>s always do, because there are more than two ids).
\<close>

lemma overlaps_iff_common_cid:
  "overlaps a b \<longleftrightarrow> (\<exists>cid. cid_matches a cid \<and> cid_matches b cid)"
proof (cases "\<exists>x y. a = CIdExcept x \<and> b = CIdExcept y")
  case True
  then show ?thesis using cid_avoiding_two by fastforce
next
  case False
  have "\<exists>c. c \<noteq> x" for x :: cid using cid_avoiding_two by blast
  with False show ?thesis by (cases a; cases b) auto
qed

end
