(* ===== verification/Message_Table.thy ===== *)
theory Message_Table
  imports Net "HOL-Library.List_Lexorder" "HOL-Library.Char_ord" "HOL-Library.Multiset"
begin

text \<open>
  \<open>src/message_table.rs\<close>: the registries that number message types and collect their
  transport and their (de)serialisation functions. \<open>bincode\<close> is a parameter: what
  \<open>bincode::serialize::<T>\<close> and \<open>bincode::deserialize::<T>\<close> return for each type,
  an error text on the left.
\<close>

record 'v bincode =
  bc_serialize :: "type_id \<Rightarrow> 'v \<Rightarrow> string + byte list"
  bc_deserialize :: "type_id \<Rightarrow> byte list \<Rightarrow> string + 'v"

datatype msg_reg_error = TypeAlreadyRegistered | NonUniqueIdentifier

definition msg_reg_error_fmt :: "msg_reg_error \<Rightarrow> string" where
  "msg_reg_error_fmt e =
     (case e of
        TypeAlreadyRegistered \<Rightarrow> ''Type was already registered.''
      | NonUniqueIdentifier \<Rightarrow> ''The identifier was not unique.'')"

type_synonym 'v entry = "type_id \<times> transport \<times> 'v ser_fn \<times> 'v deser_fn"
type_synonym 'v msg_table = "'v entry list"
type_synonym 'v sorted_msg_table = "(string \<times> 'v entry) list"

record 'v parts =
  tid_map :: "type_id \<rightharpoonup> mid"
  transports :: "transport list"
  ser :: "'v ser_fn list"
  deser :: "'v deser_fn list"

definition CONNECTION_TYPE_MID :: mid where "CONNECTION_TYPE_MID = 0"
definition RESPONSE_TYPE_MID :: mid where "RESPONSE_TYPE_MID = 1"
definition DISCONNECT_TYPE_MID :: mid where "DISCONNECT_TYPE_MID = 2"

lemmas mid_defs = CONNECTION_TYPE_MID_def RESPONSE_TYPE_MID_def DISCONNECT_TYPE_MID_def

section \<open>The closures of a registration\<close>

definition deser_closure :: "'v bincode \<Rightarrow> type_id \<Rightarrow> 'v deser_fn" where
  "deser_closure bc T =
     (\<lambda>bytes. case bc_deserialize bc T bytes of
                Inr d \<Rightarrow> Ok (AnyBox T d)
              | Inl o1 \<Rightarrow> Err InvalidData (DeserError o1))"

definition ser_closure :: "'v bincode \<Rightarrow> type_id \<Rightarrow> 'v ser_fn" where
  "ser_closure bc T =
     (\<lambda>m. and_then (unwrap_opt (downcast T m))
            (\<lambda>v. case bc_serialize bc T v of
                   Inr bytes \<Rightarrow> Ok bytes
                 | Inl o1 \<Rightarrow> Err InvalidData (SerError o1)))"

section \<open>\<open>MsgTable\<close>\<close>

definition table_new :: "'v msg_table" where
  "table_new = []"

definition tid_registered :: "'v msg_table \<Rightarrow> type_id \<Rightarrow> bool" where
  "tid_registered table tid = list_ex (\<lambda>(o_tid, _, _, _). tid = o_tid) table"

definition is_registered :: "'v msg_table \<Rightarrow> type_id \<Rightarrow> bool" where
  "is_registered table T = tid_registered table T"

definition get_registration ::
    "'v bincode \<Rightarrow> 'v msg_table \<Rightarrow> type_id \<Rightarrow> transport \<Rightarrow> msg_reg_error + 'v entry" where
  "get_registration bc table T transport =
     (if tid_registered table T then Inl TypeAlreadyRegistered
      else Inr (T, transport, ser_closure bc T, deser_closure bc T))"

definition register ::
    "'v bincode \<Rightarrow> type_id \<Rightarrow> transport \<Rightarrow> 'v msg_table \<Rightarrow> (msg_reg_error + unit) \<times> 'v msg_table" where
  "register bc T transport table =
     (case get_registration bc table T transport of
        Inl e \<Rightarrow> (Inl e, table)
      | Inr r \<Rightarrow> (Inr (), table @ [r]))"

definition join :: "'v msg_table \<Rightarrow> 'v msg_table \<Rightarrow> (msg_reg_error + unit) \<times> 'v msg_table" where
  "join table other =
     (if list_ex (\<lambda>(tid, _, _, _). tid_registered table tid) other
      then (Inl TypeAlreadyRegistered, table)
      else (Inr (), fold (\<lambda>entry t. t @ [entry]) other table))"

text \<open>The loop of \<open>build\<close>: number the entries and push their columns.\<close>

definition empty_parts :: "'v parts" where
  "empty_parts = \<lparr>tid_map = Map.empty, transports = [], ser = [], deser = []\<rparr>"

fun build_loop :: "nat \<Rightarrow> 'v entry list \<Rightarrow> 'v parts \<Rightarrow> 'v parts" where
  "build_loop idx [] p = p"
| "build_loop idx ((tid, transport, s_fn, d_fn) # es) p =
     build_loop (Suc idx) es
       (p\<lparr>tid_map := (tid_map p)(tid \<mapsto> idx),
          transports := transports p @ [transport],
          ser := ser p @ [s_fn],
          deser := deser p @ [d_fn]\<rparr>)"

definition build ::
    "'v bincode \<Rightarrow> type_id \<Rightarrow> type_id \<Rightarrow> type_id \<Rightarrow> 'v msg_table \<Rightarrow> msg_reg_error + 'v parts" where
  "build bc C R D table =
     (case get_registration bc table C TCP of Inl e \<Rightarrow> Inl e | Inr c \<Rightarrow>
      case get_registration bc table R TCP of Inl e \<Rightarrow> Inl e | Inr r \<Rightarrow>
      case get_registration bc table D TCP of Inl e \<Rightarrow> Inl e | Inr d \<Rightarrow>
      Inr (build_loop 0 ([c, r, d] @ table) empty_parts))"

section \<open>\<open>SortedMsgTable\<close>\<close>

definition sorted_table_new :: "'v sorted_msg_table" where
  "sorted_table_new = []"

definition sorted_tid_registered :: "'v sorted_msg_table \<Rightarrow> type_id \<Rightarrow> bool" where
  "sorted_tid_registered table tid = list_ex (\<lambda>(_, o_tid, _, _, _). tid = o_tid) table"

definition sorted_is_registered :: "'v sorted_msg_table \<Rightarrow> type_id \<Rightarrow> bool" where
  "sorted_is_registered table T = sorted_tid_registered table T"

definition identifier_registered :: "'v sorted_msg_table \<Rightarrow> string \<Rightarrow> bool" where
  "identifier_registered table identifier = list_ex (\<lambda>(ident, _, _, _, _). identifier = ident) table"

definition sorted_get_registration ::
    "'v bincode \<Rightarrow> 'v sorted_msg_table \<Rightarrow> type_id \<Rightarrow> string \<Rightarrow> transport \<Rightarrow>
     msg_reg_error + (string \<times> 'v entry)" where
  "sorted_get_registration bc table T identifier transport =
     (if identifier_registered table identifier then Inl NonUniqueIdentifier
      else if sorted_tid_registered table T then Inl TypeAlreadyRegistered
      else Inr (identifier, T, transport, ser_closure bc T, deser_closure bc T))"

definition sorted_register ::
    "'v bincode \<Rightarrow> type_id \<Rightarrow> transport \<Rightarrow> string \<Rightarrow> 'v sorted_msg_table \<Rightarrow>
     (msg_reg_error + unit) \<times> 'v sorted_msg_table" where
  "sorted_register bc T transport identifier table =
     (case sorted_get_registration bc table T identifier transport of
        Inl e \<Rightarrow> (Inl e, table)
      | Inr r \<Rightarrow> (Inr (), table @ [r]))"

definition sorted_join ::
    "'v sorted_msg_table \<Rightarrow> 'v sorted_msg_table \<Rightarrow> (msg_reg_error + unit) \<times> 'v sorted_msg_table" where
  "sorted_join table other =
     (if list_ex (\<lambda>(_, tid, _, _, _). sorted_tid_registered table tid) other
      then (Inl TypeAlreadyRegistered, table)
      else if list_ex (\<lambda>(ident, _, _, _, _). identifier_registered table ident) other
      then (Inl NonUniqueIdentifier, table)
      else (Inr (), fold (\<lambda>entry t. t @ [entry]) other table))"

definition sorted_build ::
    "'v bincode \<Rightarrow> type_id \<Rightarrow> type_id \<Rightarrow> type_id \<Rightarrow> 'v sorted_msg_table \<Rightarrow>
     msg_reg_error + 'v parts" where
  "sorted_build bc C R D table =
     (case sorted_get_registration bc table C ''carrier-pigeon::connection'' TCP of
        Inl e \<Rightarrow> Inl e | Inr c \<Rightarrow>
      case sorted_get_registration bc table R ''carrier-pigeon::response'' TCP of
        Inl e \<Rightarrow> Inl e | Inr r \<Rightarrow>
      case sorted_get_registration bc table D ''carrier-pigeon::disconnect'' TCP of
        Inl e \<Rightarrow> Inl e | Inr d \<Rightarrow>
      Inr (build_loop 0 (map snd ([c, r, d] @ sort_key fst table)) empty_parts))"

section \<open>\<open>MsgTableParts\<close>\<close>

definition mid_count :: "'v parts \<Rightarrow> nat" where
  "mid_count p = length (transports p)"

definition valid_mid :: "'v parts \<Rightarrow> mid \<Rightarrow> bool" where
  "valid_mid p mid \<longleftrightarrow> mid \<le> mid_count p"

definition valid_tid :: "'v parts \<Rightarrow> type_id \<Rightarrow> bool" where
  "valid_tid p tid \<longleftrightarrow> tid \<in> dom (tid_map p)"

section \<open>Membership and the columns of \<open>build_loop\<close>\<close>

lemma tid_registered_iff: "tid_registered t T \<longleftrightarrow> T \<in> set (map fst t)"
  by (auto simp: tid_registered_def list_ex_iff split_beta)

lemma sorted_tid_registered_iff: "sorted_tid_registered t T \<longleftrightarrow> T \<in> set (map (fst \<circ> snd) t)"
  by (auto simp: sorted_tid_registered_def list_ex_iff split_beta)

lemma identifier_registered_iff: "identifier_registered t i \<longleftrightarrow> i \<in> set (map fst t)"
  by (auto simp: identifier_registered_def list_ex_iff split_beta)

lemmas registered_iffs = tid_registered_iff sorted_tid_registered_iff identifier_registered_iff

lemma fold_push: "fold (\<lambda>entry t. t @ [entry]) es t = t @ es"
  by (induction es arbitrary: t) auto

lemma get_registration_cases:
  "get_registration bc t T tr =
     (if T \<in> set (map fst t) then Inl TypeAlreadyRegistered
      else Inr (T, tr, ser_closure bc T, deser_closure bc T))"
  by (simp add: get_registration_def tid_registered_iff)

lemma register_cases:
  "register bc T tr t =
     (if T \<in> set (map fst t) then (Inl TypeAlreadyRegistered, t)
      else (Inr (), t @ [(T, tr, ser_closure bc T, deser_closure bc T)]))"
  by (simp add: register_def get_registration_cases)

lemma join_cases:
  "join t other =
     (if set (map fst t) \<inter> set (map fst other) \<noteq> {} then (Inl TypeAlreadyRegistered, t)
      else (Inr (), t @ other))"
proof -
  have "list_ex (\<lambda>(tid, _, _, _). tid_registered t tid) other \<longleftrightarrow>
      set (map fst t) \<inter> set (map fst other) \<noteq> {}"
    by (force simp: list_ex_iff tid_registered_iff)
  then show ?thesis by (simp only: join_def fold_push)
qed

lemma sorted_register_cases:
  "sorted_register bc T tr i t =
     (if i \<in> set (map fst t) then (Inl NonUniqueIdentifier, t)
      else if T \<in> set (map (fst \<circ> snd) t) then (Inl TypeAlreadyRegistered, t)
      else (Inr (), t @ [(i, T, tr, ser_closure bc T, deser_closure bc T)]))"
  by (simp add: sorted_register_def sorted_get_registration_def registered_iffs)

lemma sorted_join_cases:
  "sorted_join t other =
     (if set (map (fst \<circ> snd) t) \<inter> set (map (fst \<circ> snd) other) \<noteq> {} then (Inl TypeAlreadyRegistered, t)
      else if set (map fst t) \<inter> set (map fst other) \<noteq> {} then (Inl NonUniqueIdentifier, t)
      else (Inr (), t @ other))"
proof -
  have "list_ex (\<lambda>(_, tid, _, _, _). sorted_tid_registered t tid) other \<longleftrightarrow>
      set (map (fst \<circ> snd) t) \<inter> set (map (fst \<circ> snd) other) \<noteq> {}"
    by (force simp: list_ex_iff sorted_tid_registered_iff)
  moreover have "list_ex (\<lambda>(ident, _, _, _, _). identifier_registered t ident) other \<longleftrightarrow>
      set (map fst t) \<inter> set (map fst other) \<noteq> {}"
    by (force simp: list_ex_iff identifier_registered_iff)
  ultimately show ?thesis by (simp only: sorted_join_def fold_push)
qed

lemma build_loop_columns [simp]:
  "transports (build_loop idx es p) = transports p @ map (fst \<circ> snd) es"
  "ser (build_loop idx es p) = ser p @ map (fst \<circ> snd \<circ> snd) es"
  "deser (build_loop idx es p) = deser p @ map (snd \<circ> snd \<circ> snd) es"
  by (induction idx es p rule: build_loop.induct) simp_all

lemma build_loop_other:
  "T \<notin> set (map fst es) \<Longrightarrow> tid_map (build_loop idx es p) T = tid_map p T"
  by (induction idx es p rule: build_loop.induct) auto

lemma build_loop_nth:
  "distinct (map fst es) \<Longrightarrow> i < length es \<Longrightarrow>
   tid_map (build_loop idx es p) (map fst es ! i) = Some (idx + i)"
proof (induction idx es p arbitrary: i rule: build_loop.induct)
  case (1 idx p)
  then show ?case by simp
next
  case (2 idx tid transport s_fn d_fn es p)
  then show ?case by (cases i) (simp_all add: build_loop_other)
qed

lemma build_loop_bounds:
  "tid_map (build_loop idx es p) T = Some m \<Longrightarrow>
   tid_map p T = Some m \<or> idx \<le> m \<and> m < idx + length es \<and> map fst es ! (m - idx) = T"
proof (induction idx es p rule: build_loop.induct)
  case (1 idx p)
  then show ?case by simp
next
  case (2 idx tid transport s_fn d_fn es p)
  then show ?case by (fastforce split: if_splits simp: nth_Cons' Suc_le_eq)
qed

lemma dom_build_loop: "dom (tid_map (build_loop idx es p)) = dom (tid_map p) \<union> set (map fst es)"
  by (induction idx es p rule: build_loop.induct) auto

section \<open>Well-formed parts\<close>

text \<open>
  What the ends rely on: one transport and one pair of functions per message id, and every
  registered type numbered below the count. \<open>wf_numbering\<close> adds that no two types share a
  number and none is missing, so that the number of types is the number of ids.
\<close>

definition wf_parts :: "'v parts \<Rightarrow> bool" where
  "wf_parts p \<longleftrightarrow> length (ser p) = mid_count p \<and> length (deser p) = mid_count p \<and>
     (\<forall>T m. tid_map p T = Some m \<longrightarrow> m < mid_count p) \<and> finite (dom (tid_map p))"

definition wf_numbering :: "'v parts \<Rightarrow> bool" where
  "wf_numbering p \<longleftrightarrow> bij_betw (the \<circ> tid_map p) (dom (tid_map p)) {..<mid_count p}"

definition numbers :: "'v entry list \<Rightarrow> 'v parts \<Rightarrow> bool" where
  "numbers es p \<longleftrightarrow> transports p = map (fst \<circ> snd) es \<and> ser p = map (fst \<circ> snd \<circ> snd) es \<and>
     deser p = map (snd \<circ> snd \<circ> snd) es \<and>
     (\<forall>T m. tid_map p T = Some m \<longleftrightarrow> m < length es \<and> map fst es ! m = T)"

lemma build_loop_numbers:
  assumes "distinct (map fst es)"
  shows "numbers es (build_loop 0 es empty_parts)"
proof -
  have "tid_map (build_loop 0 es empty_parts) T = Some m \<longleftrightarrow> m < length es \<and> map fst es ! m = T"
    for T m
    using build_loop_nth [OF assms, of m 0 empty_parts] build_loop_bounds [of 0 es empty_parts T m]
    by (auto simp: empty_parts_def)
  then show ?thesis by (simp add: numbers_def empty_parts_def)
qed

lemma build_loop_wf: "wf_parts (build_loop 0 es empty_parts)"
  using build_loop_bounds [of 0 es empty_parts]
  by (auto simp: wf_parts_def mid_count_def empty_parts_def dom_build_loop)

lemma numbers_wf_numbering:
  assumes "numbers es p"
  shows "wf_numbering p"
proof -
  have iff: "tid_map p T = Some m \<longleftrightarrow> m < length es \<and> map fst es ! m = T" for T m
    using assms by (simp add: numbers_def)
  have "inj_on (the \<circ> tid_map p) (dom (tid_map p))"
  proof (rule inj_on_inverseI [where g = "\<lambda>m. map fst es ! m"])
    fix T assume "T \<in> dom (tid_map p)"
    then obtain m where m: "tid_map p T = Some m" by blast
    then show "map fst es ! (the \<circ> tid_map p) T = T" using iff [of T m] by simp
  qed
  moreover have "(the \<circ> tid_map p) ` dom (tid_map p) = {..<mid_count p}"
  proof -
    have count: "mid_count p = length es" using assms by (simp add: numbers_def mid_count_def)
    show ?thesis
      unfolding count
    proof (intro equalityI subsetI)
      fix m assume "m \<in> (the \<circ> tid_map p) ` dom (tid_map p)"
      then obtain T where "tid_map p T = Some m" by fastforce
      then show "m \<in> {..<length es}" by (simp add: iff)
    next
      fix m assume "m \<in> {..<length es}"
      then have m: "tid_map p (map fst es ! m) = Some m" by (simp add: iff)
      then have "m = (the \<circ> tid_map p) (map fst es ! m)" by simp
      with m show "m \<in> (the \<circ> tid_map p) ` dom (tid_map p)" by blast
    qed
  qed
  ultimately show ?thesis by (simp add: wf_numbering_def bij_betw_def)
qed

lemma wf_numbering_card: "wf_numbering p \<Longrightarrow> card (dom (tid_map p)) = mid_count p"
  unfolding wf_numbering_def by (drule bij_betw_same_card) simp

section \<open>The contract of a registry\<close>

text \<open>
  Both tables promise the same: an operation either changes nothing and returns an error, or
  appends; a type is never registered twice. \<open>reg k T\<close> registers the type \<open>T\<close> with
  the further arguments \<open>k\<close>; \<open>tids\<close> lists the registered types in order.
\<close>

locale type_registry =
  fixes tids :: "'t \<Rightarrow> type_id list"
    and has :: "'t \<Rightarrow> type_id \<Rightarrow> bool"
    and reg :: "'k \<Rightarrow> type_id \<Rightarrow> 't \<Rightarrow> (msg_reg_error + unit) \<times> 't"
    and merge :: "'t \<Rightarrow> 't \<Rightarrow> (msg_reg_error + unit) \<times> 't"
    and wf :: "'t \<Rightarrow> bool"
  assumes has_iff: "has t T \<longleftrightarrow> T \<in> set (tids t)"
    and wf_distinct: "wf t \<Longrightarrow> distinct (tids t)"
    and reg_keeps: "reg k T t = (Inl e, t') \<Longrightarrow> t' = t"
    and reg_adds: "reg k T t = (Inr (), t') \<Longrightarrow> T \<notin> set (tids t) \<and> tids t' = tids t @ [T]"
    and reg_wf: "wf t \<Longrightarrow> wf (snd (reg k T t))"
    and merge_keeps: "merge t o1 = (Inl e, t') \<Longrightarrow> t' = t"
    and merge_adds: "merge t o1 = (Inr (), t') \<Longrightarrow>
       set (tids t) \<inter> set (tids o1) = {} \<and> tids t' = tids t @ tids o1"
    and merge_wf: "wf t \<Longrightarrow> wf o1 \<Longrightarrow> wf (snd (merge t o1))"
begin

lemma reg_refused_if_has:
  assumes "has t T"
  shows "\<exists>e. reg k T t = (Inl e, t)"
proof (cases "reg k T t")
  case (Pair r t')
  show ?thesis
  proof (cases r)
    case (Inl e)
    then show ?thesis using Pair reg_keeps by blast
  next
    case (Inr u)
    then show ?thesis using Pair reg_adds [of k T t t'] assms by (simp add: has_iff)
  qed
qed

lemma reg_once:
  assumes "reg k T t = (Inr (), t1)"
  shows "has t1 T \<and> (\<exists>e. reg k' T t1 = (Inl e, t1))"
proof -
  have "has t1 T" using reg_adds [OF assms] by (simp add: has_iff)
  then show ?thesis using reg_refused_if_has by blast
qed

lemma merged_types_refused:
  assumes "merge t o1 = (Inr (), t1)" "has t T \<or> has o1 T"
  shows "\<exists>e. reg k T t1 = (Inl e, t1)"
  by (rule reg_refused_if_has) (use merge_adds [OF assms(1)] assms(2) in \<open>auto simp: has_iff\<close>)

lemma merge_nothing_lost:
  assumes "wf t" "wf o1" "merge t o1 = (Inr (), t1)"
  shows "wf t1 \<and> length (tids t1) = length (tids t) + length (tids o1)"
  using merge_wf [OF assms(1,2)] merge_adds [OF assms(3)] assms(3) by simp

end

text \<open>
  The invariants of the two tables: no type twice, no identifier twice, and every entry holds
  the closures of its own type.
\<close>

definition entry_of :: "'v bincode \<Rightarrow> 'v entry \<Rightarrow> bool" where
  "entry_of bc en = (case en of (T, _, s, d) \<Rightarrow> s = ser_closure bc T \<and> d = deser_closure bc T)"

definition wf_table :: "'v bincode \<Rightarrow> 'v msg_table \<Rightarrow> bool" where
  "wf_table bc t \<longleftrightarrow> distinct (map fst t) \<and> (\<forall>en \<in> set t. entry_of bc en)"

definition wf_sorted_table :: "'v bincode \<Rightarrow> 'v sorted_msg_table \<Rightarrow> bool" where
  "wf_sorted_table bc t \<longleftrightarrow> distinct (map fst t) \<and> distinct (map (fst \<circ> snd) t) \<and>
     (\<forall>en \<in> set t. entry_of bc (snd en))"

lemma wf_table_new: "wf_table bc table_new" "wf_sorted_table bc sorted_table_new"
  by (simp_all add: wf_table_def wf_sorted_table_def table_new_def sorted_table_new_def)

interpretation msg_reg: type_registry "map fst" tid_registered "\<lambda>tr T t. register bc T tr t" join
  "wf_table bc" for bc :: "'v bincode"
proof unfold_locales
  show "wf_table bc t \<Longrightarrow> wf_table bc (snd (register bc T tr t))" for t T tr
    by (auto simp: register_cases wf_table_def entry_of_def)
  show "wf_table bc t \<Longrightarrow> wf_table bc o1 \<Longrightarrow> wf_table bc (snd (join t o1))" for t o1
    by (auto simp: join_cases wf_table_def)
qed (auto simp: tid_registered_iff register_cases join_cases wf_table_def split: if_splits)

interpretation sorted_reg: type_registry "map (fst \<circ> snd)" sorted_tid_registered
  "\<lambda>k T t. sorted_register bc T (fst k) (snd k) t" sorted_join
  "wf_sorted_table bc" for bc :: "'v bincode"
proof unfold_locales
  show "wf_sorted_table bc t \<Longrightarrow> wf_sorted_table bc (snd (sorted_register bc T (fst k) (snd k) t))"
    for t T and k :: "transport \<times> string"
    by (auto simp: sorted_register_cases wf_sorted_table_def entry_of_def)
  show "wf_sorted_table bc t \<Longrightarrow> wf_sorted_table bc o1 \<Longrightarrow> wf_sorted_table bc (snd (sorted_join t o1))"
    for t o1
    by (auto simp: sorted_join_cases wf_sorted_table_def)
qed (auto simp: sorted_tid_registered_iff sorted_register_cases sorted_join_cases wf_sorted_table_def
      split: if_splits)

section \<open>What \<open>build\<close> returns\<close>

lemma build_cases:
  "build bc C R D t =
     (if {C, R, D} \<inter> set (map fst t) \<noteq> {} then Inl TypeAlreadyRegistered
      else Inr (build_loop 0
        ([(C, TCP, ser_closure bc C, deser_closure bc C), (R, TCP, ser_closure bc R, deser_closure bc R),
          (D, TCP, ser_closure bc D, deser_closure bc D)] @ t) empty_parts))"
  unfolding build_def get_registration_cases by simp

text \<open>The parts of a table of distinct types: numbered in order, each with its own codec.\<close>

definition codec_of :: "'v bincode \<Rightarrow> 'v parts \<Rightarrow> bool" where
  "codec_of bc p \<longleftrightarrow> (\<forall>T m. tid_map p T = Some m \<longrightarrow>
     ser p ! m = ser_closure bc T \<and> deser p ! m = deser_closure bc T)"

lemma numbers_codec:
  assumes "numbers es p" "\<forall>en \<in> set es. entry_of bc en"
  shows "codec_of bc p"
  unfolding codec_of_def
proof (intro allI impI)
  fix T m assume "tid_map p T = Some m"
  then have m: "m < length es" "fst (es ! m) = T" using assms(1) by (auto simp: numbers_def)
  have "entry_of bc (es ! m)" using assms(2) m(1) by simp
  then show "ser p ! m = ser_closure bc T \<and> deser p ! m = deser_closure bc T"
    using assms(1) m by (auto simp: numbers_def entry_of_def split_beta)
qed

lemma build_numbers:
  assumes "distinct ([C, R, D] @ map fst t)" "wf_table bc t"
  obtains p where "build bc C R D t = Inr p" "wf_parts p" "wf_numbering p" "codec_of bc p"
    "numbers ([(C, TCP, ser_closure bc C, deser_closure bc C),
               (R, TCP, ser_closure bc R, deser_closure bc R),
               (D, TCP, ser_closure bc D, deser_closure bc D)] @ t) p"
proof -
  define es where "es = [(C, TCP, ser_closure bc C, deser_closure bc C),
    (R, TCP, ser_closure bc R, deser_closure bc R), (D, TCP, ser_closure bc D, deser_closure bc D)] @ t"
  define p where "p = build_loop 0 es empty_parts"
  have "numbers es p" unfolding p_def by (rule build_loop_numbers) (use assms(1) in \<open>simp add: es_def\<close>)
  moreover have "\<forall>en \<in> set es. entry_of bc en"
    using assms(2) by (auto simp: es_def wf_table_def entry_of_def)
  moreover have "build bc C R D t = Inr p"
    using assms(1) by (auto simp: build_cases es_def p_def)
  ultimately show thesis
    using that [of p] numbers_codec [of es p bc] numbers_wf_numbering [of es p]
      build_loop_wf [of es] by (simp add: p_def es_def)
qed

lemma sort_key_distinct_keys:
  assumes "mset xs = mset ys" "distinct (map f xs)"
  shows "sort_key f xs = sort_key f ys"
proof (rule properties_for_sort_key)
  show "mset (sort_key f ys) = mset xs" using assms(1) by simp
  show "sorted (map f (sort_key f ys))" by simp
next
  fix k assume "k \<in> set (sort_key f ys)"
  have inj: "inj_on f (set xs)" "distinct xs" using assms(2) by (simp_all add: distinct_map)
  have k: "k \<in> set xs" using \<open>k \<in> set (sort_key f ys)\<close> assms(1)
    by (metis mset_eq_setD set_sort)
  have one: "filter (\<lambda>x. f k = f x) zs = [k]" if "mset zs = mset xs" for zs
  proof -
    have "filter (\<lambda>x. f k = f x) zs = filter (HOL.eq k) zs"
      using inj(1) k mset_eq_setD [OF that] by (auto intro!: filter_cong dest: inj_onD)
    also have "\<dots> = replicate (count (mset zs) k) k"
      by (rule replicate_count_mset_eq_filter_eq [symmetric])
    also have "count (mset zs) k = 1"
      using inj(2) k that by (simp add: distinct_count_atmost_1 del: count_mset)
    finally show ?thesis by simp
  qed
  show "filter (\<lambda>x. f k = f x) (sort_key f ys) = filter (\<lambda>x. f k = f x) xs"
    using one [of xs] one [of "sort_key f ys"] assms(1) by simp
qed

section \<open>Properties of the message tables\<close>

text \<open>
  C22: \<open>MsgTable::build\<close> on distinct types numbers the connection, response and disconnect type
  0, 1 and 2 and the registered types from 3 on in registration order, gives each id its transport,
  and pairs each type with the encoder and decoder of that type.
\<close>

theorem build_assigns_ids:
  assumes "distinct ([C, R, D] @ map fst t)" "wf_table bc t"
  shows "\<exists>p. build bc C R D t = Inr p \<and>
    tid_map p C = Some CONNECTION_TYPE_MID \<and> tid_map p R = Some RESPONSE_TYPE_MID \<and>
    tid_map p D = Some DISCONNECT_TYPE_MID \<and>
    (\<forall>T m. tid_map p T = Some m \<longleftrightarrow> m < length t + 3 \<and> ([C, R, D] @ map fst t) ! m = T) \<and>
    transports p = [TCP, TCP, TCP] @ map (fst \<circ> snd) t \<and> wf_parts p \<and> wf_numbering p \<and> codec_of bc p"
proof -
  obtain p where p: "build bc C R D t = Inr p" "wf_parts p" "wf_numbering p" "codec_of bc p"
    "numbers ([(C, TCP, ser_closure bc C, deser_closure bc C),
               (R, TCP, ser_closure bc R, deser_closure bc R),
               (D, TCP, ser_closure bc D, deser_closure bc D)] @ t) p"
    using build_numbers [OF assms] .
  then have ids: "tid_map p T = Some m \<longleftrightarrow> m < length t + 3 \<and> ([C, R, D] @ map fst t) ! m = T" for T m
    by (simp add: numbers_def numeral_3_eq_3)
  show ?thesis
    using p by (intro exI [of _ p]) (simp add: ids mid_defs, simp add: numbers_def)
qed

definition demo_bincode :: "nat bincode" where
  "demo_bincode = \<lparr>bc_serialize = (\<lambda>T v. if v < 256 then Inr [word_of_nat v] else Inl ''too big''),
     bc_deserialize = (\<lambda>T bs. case bs of [b] \<Rightarrow> Inr (unat b) | _ \<Rightarrow> Inl ''bad length'')\<rparr>"

definition demo_table :: "nat msg_table" where
  "demo_table = snd (register demo_bincode 14 UDP (snd (register demo_bincode 13 TCP table_new)))"

lemma demo_table_eq:
  "demo_table = [(13, TCP, ser_closure demo_bincode 13, deser_closure demo_bincode 13),
     (14, UDP, ser_closure demo_bincode 14, deser_closure demo_bincode 14)]"
  by (simp add: demo_table_def register_cases table_new_def)

lemma demo_table_wf: "wf_table demo_bincode demo_table"
  by (simp add: demo_table_eq wf_table_def entry_of_def)

theorem build_assigns_ids_witness:
  "\<exists>p. build demo_bincode 10 11 12 demo_table = Inr p \<and> tid_map p 14 = Some 4 \<and>
     transports p = [TCP, TCP, TCP, TCP, UDP]"
proof -
  have "distinct ([10, 11, 12] @ map fst demo_table)" by (simp add: demo_table_eq)
  from build_assigns_ids [OF this demo_table_wf] show ?thesis
    by (auto simp: demo_table_eq numeral_eq_Suc)
qed

text \<open>
  \<open>build\<close> fails exactly when one of its three types was registered before, always with
  \<open>TypeAlreadyRegistered\<close>.
\<close>

lemma build_fails_iff:
  "build bc C R D t = Inl e \<longleftrightarrow>
     e = TypeAlreadyRegistered \<and> (tid_registered t C \<or> tid_registered t R \<or> tid_registered t D)"
  by (auto simp: build_cases tid_registered_iff)

text \<open>
  \<open>build\<close> does not compare its three types with each other. Given the same type as connection
  and response it succeeds, but the connection type then has the response id, and there are fewer
  types than message ids.
\<close>

lemma build_accepts_equal_types:
  assumes "\<not> tid_registered t C" "\<not> tid_registered t D" "C \<noteq> D"
  shows "\<exists>p. build bc C C D t = Inr p \<and> tid_map p C = Some RESPONSE_TYPE_MID \<and>
    card (dom (tid_map p)) < mid_count p"
proof -
  define es where "es = [(C, TCP, ser_closure bc C, deser_closure bc C),
    (C, TCP, ser_closure bc C, deser_closure bc C), (D, TCP, ser_closure bc D, deser_closure bc D)] @ t"
  define p where "p = build_loop 0 es empty_parts"
  have "build bc C C D t = Inr p"
    using assms by (auto simp: build_cases tid_registered_iff es_def p_def)
  moreover have "tid_map p C = Some RESPONSE_TYPE_MID"
    using assms by (simp add: p_def es_def build_loop_other tid_registered_iff mid_defs)
  moreover have "dom (tid_map p) = {C, D} \<union> set (map fst t)"
    by (auto simp: p_def es_def dom_build_loop empty_parts_def)
  then have "card (dom (tid_map p)) \<le> 2 + length t"
    using card_Un_le [of "{C, D}" "set (map fst t)"] card_length [of "map fst t"] assms(3) by simp
  then have "card (dom (tid_map p)) < mid_count p"
    by (simp add: p_def es_def mid_count_def empty_parts_def)
  ultimately show ?thesis by blast
qed

text \<open>
  C38: Two sorted tables with the same entries build the same parts, in whatever order the entries
  were registered on each side, so client and server agree on every message id.
\<close>

theorem sorted_build_order_irrelevant:
  assumes "mset t1 = mset t2" "wf_sorted_table bc t1"
  shows "sorted_build bc C R D t1 = sorted_build bc C R D t2"
proof -
  have "sort_key fst t1 = sort_key fst t2"
    using assms by (intro sort_key_distinct_keys) (simp_all add: wf_sorted_table_def)
  moreover have "sorted_get_registration bc t1 T i tr = sorted_get_registration bc t2 T i tr" for T i tr
    using mset_eq_setD [OF assms(1)] by (simp add: sorted_get_registration_def registered_iffs)
  ultimately show ?thesis unfolding sorted_build_def by (simp cong: sum.case_cong)
qed

definition demo_sorted_table :: "nat sorted_msg_table" where
  "demo_sorted_table = snd (sorted_register demo_bincode 14 UDP ''tests::UdpMsg''
     (snd (sorted_register demo_bincode 13 TCP ''tests::TcpMsg'' sorted_table_new)))"

lemma demo_sorted_table_eq:
  "demo_sorted_table =
    [(''tests::TcpMsg'', 13, TCP, ser_closure demo_bincode 13, deser_closure demo_bincode 13),
     (''tests::UdpMsg'', 14, UDP, ser_closure demo_bincode 14, deser_closure demo_bincode 14)]"
  by (simp add: demo_sorted_table_def sorted_register_cases sorted_table_new_def)

theorem sorted_build_order_irrelevant_witness:
  "sorted_build demo_bincode 10 11 12 demo_sorted_table =
   sorted_build demo_bincode 10 11 12 (rev demo_sorted_table)"
  by (rule sorted_build_order_irrelevant)
    (simp_all add: demo_sorted_table_eq wf_sorted_table_def entry_of_def)

text \<open>
  Registering a type twice fails the second time and changes nothing, in \<open>MsgTable\<close> and in
  \<open>SortedMsgTable\<close> whatever identifier the second call uses.
\<close>

lemma registered_only_once:
  assumes "register bc T tr t = (Inr (), t1)" "sorted_register bc T tr i s = (Inr (), s1)"
  shows "register bc T tr' t1 = (Inl TypeAlreadyRegistered, t1) \<and>
    (\<exists>e. sorted_register bc T tr' i' s1 = (Inl e, s1))"
proof
  show "register bc T tr' t1 = (Inl TypeAlreadyRegistered, t1)"
    using msg_reg.reg_once [OF assms(1), of tr'] by (auto simp: register_cases split: if_splits)
  show "\<exists>e. sorted_register bc T tr' i' s1 = (Inl e, s1)"
    using sorted_reg.reg_once [of bc T "(tr, i)" s s1 "(tr', i')"] assms(2) by simp
qed

lemma valid_mid_gap:
  assumes "wf_parts p"
  shows "valid_mid p mid \<and> is_panic (index (deser p) mid) \<longleftrightarrow> mid = mid_count p"
  using assms by (auto simp: wf_parts_def valid_mid_def index_def)

end
