(* ===== verification/Decode.thy ===== *)
theory Decode
  imports Message_Table
begin

text \<open>
  What both ends do with the bytes of a received message: \<open>src/client.rs\<close> and
  \<open>src/server.rs\<close> hold the same lines in their four receiving functions. Also the table of
  five types on which the properties of both ends are tried.
\<close>

text \<open>\<open>parts.deser[mid]\<close> applied to the bytes, after the check of the id.\<close>

definition decode_any :: "'v parts \<Rightarrow> mid \<Rightarrow> byte list \<Rightarrow> 'v any res" where
  "decode_any parts mid bytes =
     (if \<not> valid_mid parts mid then Err InvalidData (BadMid mid (mid_count parts))
      else and_then (index (deser parts) mid) (\<lambda>deser_fn. deser_fn bytes))"

definition decode_msg ::
    "'v parts \<Rightarrow> cid \<Rightarrow> u32 option \<Rightarrow> mid \<Rightarrow> byte list \<Rightarrow> (mid \<times> 'v erased_net_msg) res" where
  "decode_msg parts cid time mid bytes =
     and_then (decode_any parts mid bytes) (\<lambda>msg.
     Ok (mid, \<lparr>em_cid = cid, em_time = time, em_msg = msg\<rparr>))"

text \<open>A frame, and a datagram with its source and time stamp, and the message it decodes to.\<close>

definition decoded :: "'v parts \<Rightarrow> cid \<Rightarrow> mid \<times> byte list \<Rightarrow> mid \<times> 'v erased_net_msg \<Rightarrow> bool" where
  "decoded parts cid fr m \<longleftrightarrow> decode_msg parts cid None (fst fr) (snd fr) = Ok m"

definition decoded_udp ::
    "'v parts \<Rightarrow> cid \<Rightarrow> sock_addr \<times> mid \<times> u32 \<times> byte list \<Rightarrow> mid \<times> 'v erased_net_msg \<Rightarrow> bool" where
  "decoded_udp parts cid d m = (case d of (_, mid, time, bytes) \<Rightarrow>
     decode_msg parts cid (Some time) mid bytes = Ok m)"

definition is_disconnect :: "mid \<times> 'v erased_net_msg \<Rightarrow> bool" where
  "is_disconnect m \<longleftrightarrow> fst m = DISCONNECT_TYPE_MID"

text \<open>What decodes has an id below the number of ids, and the type registered for that id.\<close>

lemma decode_msg_Ok:
  assumes "wf_parts parts" "decode_msg parts cid time mid bytes = Ok m"
  shows "fst m = mid" "mid < mid_count parts" "em_cid (snd m) = cid" "em_time (snd m) = time"
    "(deser parts ! mid) bytes = Ok (em_msg (snd m))"
  using assms by (auto simp: decode_msg_def decode_any_def res_simps wf_parts_def split: if_splits)

lemma deser_closure_tid: "deser_closure bc T bytes = Ok x \<Longrightarrow> any_tid x = T"
  by (auto simp: deser_closure_def split: sum.splits)

lemma decode_msg_tid:
  assumes "wf_parts parts" "codec_of bc parts" "tid_map parts T = Some (fst m)"
    "decode_msg parts cid time mid bytes = Ok m"
  shows "any_tid (em_msg (snd m)) = T"
  using decode_msg_Ok [OF assms(1,4)] assms(2,3) deser_closure_tid by (metis codec_of_def)

section \<open>A table to try the properties on\<close>

definition demo_parts :: "nat parts" where
  "demo_parts = build_loop 0
     ([(10, TCP, ser_closure demo_bincode 10, deser_closure demo_bincode 10),
       (11, TCP, ser_closure demo_bincode 11, deser_closure demo_bincode 11),
       (12, TCP, ser_closure demo_bincode 12, deser_closure demo_bincode 12)] @ demo_table) empty_parts"

lemma demo_parts_built: "build demo_bincode 10 11 12 demo_table = Inr demo_parts"
  by (simp add: build_cases demo_table_eq demo_parts_def)

lemma demo_parts_wf: "wf_parts demo_parts" "wf_numbering demo_parts" "codec_of demo_bincode demo_parts"
proof -
  have "distinct ([10, 11, 12] @ map fst demo_table)" by (simp add: demo_table_eq)
  from build_numbers [OF this demo_table_wf]
  show "wf_parts demo_parts" "wf_numbering demo_parts" "codec_of demo_bincode demo_parts"
    using demo_parts_built by (metis sum.inject(2))+
qed

lemma demo_parts_simps [simp]:
  "mid_count demo_parts = 5" "transports demo_parts = [TCP, TCP, TCP, TCP, UDP]"
  "tid_map demo_parts = [10 \<mapsto> 0, 11 \<mapsto> 1, 12 \<mapsto> 2, 13 \<mapsto> 3, 14 \<mapsto> 4]"
  "deser demo_parts = map (deser_closure demo_bincode) [10, 11, 12, 13, 14]"
  "ser demo_parts = map (ser_closure demo_bincode) [10, 11, 12, 13, 14]"
proof -
  show "tid_map demo_parts = [10 \<mapsto> 0, 11 \<mapsto> 1, 12 \<mapsto> 2, 13 \<mapsto> 3, 14 \<mapsto> 4]"
    by (simp add: demo_parts_def demo_table_eq empty_parts_def numeral_2_eq_2 numeral_3_eq_3 eval_nat_numeral)
qed (simp_all add: demo_parts_def demo_table_eq empty_parts_def mid_count_def)

lemma demo_deser: "v < 256 \<Longrightarrow> deser_closure demo_bincode T [word_of_nat v] = Ok (AnyBox T v)"
  by (simp add: deser_closure_def demo_bincode_def unat_of_nat)

lemma demo_ser: "ser_closure demo_bincode T (AnyBox T v) =
    (if v < 256 then Ok [word_of_nat v] else Err InvalidData (SerError ''too big''))"
  by (simp add: ser_closure_def demo_bincode_def downcast_def)

abbreviation demo_msg :: "type_id \<Rightarrow> nat \<Rightarrow> nat erased_net_msg" where
  "demo_msg T v \<equiv> \<lparr>em_cid = 0, em_time = None, em_msg = AnyBox T v\<rparr>"

end
