(* ===== verification/Sockets.thy ===== *)
theory Sockets
  imports Net
begin

text \<open>
  What the program uses of \<open>std::net\<close>: one end of a TCP connection, a UDP socket and a
  listener, each as the state the operating system keeps for it, with the operations the program
  calls. What the outside world does to them (bytes arriving, the peer closing, errors, a full
  send buffer) is data of the state: it is arbitrary, and the theorems that need a particular
  situation say so. The results of creating sockets are a record of functions.
\<close>

section \<open>TCP streams\<close>

text \<open>
  \<open>rx\<close> holds the bytes that arrived and were not read; what a read meets after them is
  \<open>rx_state\<close>: nothing yet, the end of the stream, or an error. \<open>tx\<close> holds the bytes written
  and not yet taken by the network, \<open>tx_room\<close> the free space of the send buffer, which limits
  a nonblocking write.
\<close>

datatype rx_state = RxOpen | RxEof | RxFault io_error

record tcp_stream =
  rx :: "byte list"
  rx_state :: rx_state
  tx :: "byte list"
  tx_room :: nat
  tx_fault :: "io_error option"
  is_nonblocking :: bool
  is_shut :: bool
  peer_name :: "sock_addr option"
  local_name :: "sock_addr option"

definition rx_end :: "rx_state \<Rightarrow> error_kind \<Rightarrow> 'a res" where
  "rx_end st at_eof =
     (case st of
        RxOpen \<Rightarrow> Err WouldBlock OsMessage
      | RxEof \<Rightarrow> Err at_eof OsMessage
      | RxFault e \<Rightarrow> Inl (IoErr e))"

text \<open>
  \<open>peek\<close> leaves the bytes where they are and returns none at the end of the stream. With
  nothing to read it fails with \<open>WouldBlock\<close>, in nonblocking mode at once and in blocking mode
  after the read timeout.
\<close>

definition stream_peek :: "nat \<Rightarrow> tcp_stream \<Rightarrow> byte list res" where
  "stream_peek n s =
     (if rx s \<noteq> [] then Ok (take n (rx s))
      else case rx_state s of RxEof \<Rightarrow> Ok [] | st \<Rightarrow> rx_end st UnexpectedEof)"

text \<open>
  \<open>read_exact\<close> reads in a loop until the buffer is full: when it fails, the bytes it has
  taken so far are gone from the stream. The first component is what it stored in the buffer.
\<close>

definition stream_read_exact :: "nat \<Rightarrow> tcp_stream \<Rightarrow> byte list \<times> unit res \<times> tcp_stream" where
  "stream_read_exact n s =
     (if n \<le> length (rx s) then (take n (rx s), Ok (), s\<lparr>rx := drop n (rx s)\<rparr>)
      else (rx s, rx_end (rx_state s) UnexpectedEof, s\<lparr>rx := []\<rparr>))"

text \<open>\<open>write_all\<close> on a nonblocking stream with a full send buffer stops half way.\<close>

definition stream_write_all :: "byte list \<Rightarrow> tcp_stream \<Rightarrow> unit res \<times> tcp_stream" where
  "stream_write_all bs s =
     (if is_shut s then (Err BrokenPipe OsMessage, s)
      else case tx_fault s of
        Some e \<Rightarrow> (Inl (IoErr e), s)
      | None \<Rightarrow>
          if is_nonblocking s \<and> tx_room s < length bs
          then (Err WouldBlock OsMessage, s\<lparr>tx := tx s @ take (tx_room s) bs, tx_room := 0\<rparr>)
          else (Ok (), s\<lparr>tx := tx s @ bs, tx_room := tx_room s - length bs\<rparr>))"

definition stream_flush :: "tcp_stream \<Rightarrow> unit res" where
  "stream_flush s = Ok ()"

text \<open>\<open>shutdown(Both)\<close>: buffered bytes can still be read, then the stream has ended.\<close>

definition stream_shutdown :: "tcp_stream \<Rightarrow> unit res \<times> tcp_stream" where
  "stream_shutdown s =
     (case peer_name s of
        None \<Rightarrow> (Err NotConnected OsMessage, s)
      | Some _ \<Rightarrow> (Ok (), s\<lparr>is_shut := True,
          rx_state := (case rx_state s of RxFault e \<Rightarrow> RxFault e | _ \<Rightarrow> RxEof)\<rparr>))"

definition stream_set_nonblocking :: "bool \<Rightarrow> tcp_stream \<Rightarrow> unit res \<times> tcp_stream" where
  "stream_set_nonblocking b s = (Ok (), s\<lparr>is_nonblocking := b\<rparr>)"

text \<open>A zero read timeout is refused.\<close>

definition stream_set_read_timeout :: "nat \<Rightarrow> tcp_stream \<Rightarrow> unit res" where
  "stream_set_read_timeout d s = (if d = 0 then Err InvalidInput OsMessage else Ok ())"

definition name_res :: "sock_addr option \<Rightarrow> sock_addr res" where
  "name_res a = (case a of Some x \<Rightarrow> Ok x | None \<Rightarrow> Err NotConnected OsMessage)"

lemma name_res_Inr_iff [res_simps]: "name_res a = Inr x \<longleftrightarrow> a = Some x"
  by (auto simp: name_res_def split: option.splits)

section \<open>UDP sockets\<close>

text \<open>
  \<open>urx\<close> is what the next calls of \<open>recv\<close> meet, in order: a datagram (with the system
  time the program's clock shows when it handles it) or an error, which the call consumes.
  \<open>utx\<close> lists the datagrams sent.
\<close>

datatype udp_event = Datagram sock_addr "byte list" int | UdpFault io_error

record udp_socket =
  urx :: "udp_event list"
  utx :: "(sock_addr \<times> byte list) list"
  utx_fault :: "io_error option"
  u_nonblocking :: bool
  u_peer :: "sock_addr option"
  u_local :: "sock_addr option"

text \<open>A datagram longer than the buffer is cut to the buffer's length.\<close>

definition socket_recv_from ::
    "byte list \<Rightarrow> udp_socket \<Rightarrow> (nat \<times> sock_addr \<times> int) res \<times> byte list \<times> udp_socket" where
  "socket_recv_from buff s =
     (case urx s of
        [] \<Rightarrow> (Err WouldBlock OsMessage, buff, s)
      | UdpFault e # es \<Rightarrow> (Inl (IoErr e), buff, s\<lparr>urx := es\<rparr>)
      | Datagram src bs at # es \<Rightarrow>
          let got = take (length buff) bs
          in (Ok (length got, src, at), fill_front got buff, s\<lparr>urx := es\<rparr>))"

definition socket_send_to :: "byte list \<Rightarrow> sock_addr \<Rightarrow> udp_socket \<Rightarrow> nat res \<times> udp_socket" where
  "socket_send_to bs addr s =
     (case utx_fault s of
        Some e \<Rightarrow> (Inl (IoErr e), s)
      | None \<Rightarrow> (Ok (length bs), s\<lparr>utx := utx s @ [(addr, bs)]\<rparr>))"

definition socket_send :: "byte list \<Rightarrow> udp_socket \<Rightarrow> nat res \<times> udp_socket" where
  "socket_send bs s =
     (case u_peer s of
        None \<Rightarrow> (Err NotConnected OsMessage, s)
      | Some addr \<Rightarrow> socket_send_to bs addr s)"

definition socket_set_nonblocking :: "bool \<Rightarrow> udp_socket \<Rightarrow> unit res \<times> udp_socket" where
  "socket_set_nonblocking b s = (Ok (), s\<lparr>u_nonblocking := b\<rparr>)"

section \<open>Listeners and the creation of sockets\<close>

text \<open>
  \<open>accept\<close>: a new stream with the reading of the monotonic clock after it, or an error. The
  program only accepts on nonblocking listeners.
\<close>

datatype accept_event = Incoming tcp_stream nat | AcceptFault io_error

record tcp_listener =
  backlog :: "accept_event list"
  l_nonblocking :: bool
  l_local :: "sock_addr option"

definition listener_accept :: "tcp_listener \<Rightarrow> (tcp_stream \<times> nat) res \<times> tcp_listener" where
  "listener_accept l =
     (case backlog l of
        [] \<Rightarrow> (Err WouldBlock OsMessage, l)
      | Incoming s at # es \<Rightarrow> (Ok (s, at), l\<lparr>backlog := es\<rparr>)
      | AcceptFault e # es \<Rightarrow> (Inl (IoErr e), l\<lparr>backlog := es\<rparr>))"

definition listener_set_nonblocking :: "bool \<Rightarrow> tcp_listener \<Rightarrow> unit res \<times> tcp_listener" where
  "listener_set_nonblocking b l = (Ok (), l\<lparr>l_nonblocking := b\<rparr>)"

text \<open>
  \<open>os_await\<close> is what has arrived on a stream by the time a blocking read that found it
  empty returns.
\<close>

record os =
  os_connect :: "sock_addr \<Rightarrow> tcp_stream res"
  os_listen :: "sock_addr \<Rightarrow> tcp_listener res"
  os_udp_bind :: "sock_addr \<Rightarrow> udp_socket res"
  os_udp_connect :: "sock_addr \<Rightarrow> udp_socket \<Rightarrow> udp_socket res"
  os_await :: "tcp_stream \<Rightarrow> tcp_stream"

end
