(* ===== verification/Sources.thy ===== *)
theory Sources
  imports Prelude
begin

text \<open>
  The interface between a connection and the code that empties it. A prefix of a conversation is
  received message by message, whatever comes behind it; after the pending messages of a source
  there is only \<open>WouldBlock\<close>. A drain loop receives and handles until then, or until a message
  that ends the conversation. Both connection types and all four receive loops of the program are
  instances.
\<close>

section \<open>Sources of messages\<close>

text \<open>Receive \<open>n\<close> times, stopping at the first failure.\<close>

primrec recv_many :: "('s \<Rightarrow> 'm res \<times> 's) \<Rightarrow> nat \<Rightarrow> 's \<Rightarrow> 'm list \<times> 's" where
  "recv_many rcv 0 s = ([], s)"
| "recv_many rcv (Suc n) s =
     (case rcv s of
        (Inr m, s') \<Rightarrow> (let (ms, s'') = recv_many rcv n s' in (m # ms, s''))
      | (Inl _, s') \<Rightarrow> ([], s'))"

locale message_prefix =
  fixes rcv :: "'s \<Rightarrow> 'm res \<times> 's"
    and pending :: "'s \<Rightarrow> 'm list \<Rightarrow> bool"
  assumes rcv_next: "pending s (m # ms) \<Longrightarrow> \<exists>s'. rcv s = (Ok m, s') \<and> pending s' ms"
begin

lemma rcv_many_all:
  "pending s ms \<Longrightarrow> \<exists>s'. recv_many rcv (length ms) s = (ms, s') \<and> pending s' []"
proof (induction ms arbitrary: s)
  case Nil
  then show ?case by simp
next
  case (Cons m ms)
  obtain s1 where s1: "rcv s = (Ok m, s1)" "pending s1 ms" using rcv_next [OF Cons.prems] by blast
  from Cons.IH [OF s1(2)] show ?case by (auto simp: s1(1))
qed

end

locale message_source = message_prefix rcv pending
  for rcv :: "'s \<Rightarrow> 'm res \<times> 's" and pending :: "'s \<Rightarrow> 'm list \<Rightarrow> bool" +
  assumes rcv_none: "pending s [] \<Longrightarrow> \<exists>k s'. rcv s = (Err WouldBlock k, s') \<and> pending s' []"
begin

lemma pending_functional:
  "pending s ms \<Longrightarrow> pending s ns \<Longrightarrow> ms = ns"
proof (induction ms arbitrary: s ns)
  case Nil
  obtain k s' where "rcv s = (Err WouldBlock k, s')" using rcv_none [OF Nil(1)] by blast
  then show ?case using rcv_next [of s] Nil(2) by (cases ns) auto
next
  case (Cons m ms)
  obtain s1 where s1: "rcv s = (Ok m, s1)" "pending s1 ms" using rcv_next [OF Cons.prems(1)] by blast
  show ?case
  proof (cases ns)
    case Nil
    then show ?thesis using rcv_none [of s] Cons.prems(2) s1(1) by auto
  next
    case (Cons n ns')
    then obtain s2 where "rcv s = (Ok n, s2)" "pending s2 ns'"
      using rcv_next Cons.prems(2) by blast
    then show ?thesis using s1 Cons.IH [OF s1(2)] \<open>ns = n # ns'\<close> by auto
  qed
qed

end

section \<open>Loops that drain a source\<close>

text \<open>What a loop consumes that stops after the first message satisfying \<open>stops\<close>.\<close>

fun upto_stop :: "('m \<Rightarrow> bool) \<Rightarrow> 'm list \<Rightarrow> 'm list" where
  "upto_stop stops [] = []"
| "upto_stop stops (m # ms) = (if stops m then [m] else m # upto_stop stops ms)"

lemma upto_stop_none: "\<forall>m \<in> set ms. \<not> stops m \<Longrightarrow> upto_stop stops ms = ms"
  by (induction ms) auto

lemma upto_stop_append:
  "\<forall>m \<in> set ms. \<not> stops m \<Longrightarrow> stops d \<Longrightarrow> upto_stop stops (ms @ d # rest) = ms @ [d]"
  by (induction ms) auto

lemma upto_stop_prefix: "\<exists>rest. ms = upto_stop stops ms @ rest"
  by (induction ms) auto

text \<open>
  \<open>view\<close> is the part of the state the handler works on (the message buffers, the count, the
  status), which receiving leaves alone; \<open>eff\<close> is the handler's effect on it.
\<close>

locale drain_prefix = message_prefix rcv pending
  for rcv :: "'s \<Rightarrow> 'm res \<times> 's" and pending :: "'s \<Rightarrow> 'm list \<Rightarrow> bool" +
  fixes loop :: "'s \<Rightarrow> unit res \<times> 's"
    and stops :: "'m \<Rightarrow> bool"
    and handle :: "'m \<Rightarrow> 's \<Rightarrow> 's"
    and view :: "'s \<Rightarrow> 'b"
    and eff :: "'m \<Rightarrow> 'b \<Rightarrow> 'b"
    and ready :: "'b \<Rightarrow> bool"
    and accepts :: "'m \<Rightarrow> bool"
  assumes rcv_view: "pending s ms \<Longrightarrow> view (snd (rcv s)) = view s"
    and handle_pending: "pending s ms \<Longrightarrow> pending (handle m s) ms"
    and handle_view: "view (handle m s) = eff m (view s)"
    and ready_eff: "ready b \<Longrightarrow> accepts m \<Longrightarrow> \<not> stops m \<Longrightarrow> ready (eff m b)"
    and loop_next: "rcv s = (Ok m, s') \<Longrightarrow> ready (view s) \<Longrightarrow> view s' = view s \<Longrightarrow> accepts m \<Longrightarrow>
       \<not> stops m \<Longrightarrow> loop s = loop (handle m s')"
    and loop_last: "rcv s = (Ok m, s') \<Longrightarrow> ready (view s) \<Longrightarrow> view s' = view s \<Longrightarrow> accepts m \<Longrightarrow>
       stops m \<Longrightarrow> loop s = (Ok (), handle m s')"
begin

lemma loop_through:
  "pending s (ms @ rest) \<Longrightarrow> ready (view s) \<Longrightarrow> \<forall>m \<in> set ms. accepts m \<and> \<not> stops m \<Longrightarrow>
   \<exists>s'. loop s = loop s' \<and> view s' = fold eff ms (view s) \<and> ready (view s') \<and> pending s' rest"
proof (induction ms arbitrary: s)
  case Nil
  then show ?case by auto
next
  case (Cons m ms)
  obtain s1 where s1: "rcv s = (Ok m, s1)" "pending s1 (ms @ rest)"
    using rcv_next Cons.prems(1) by fastforce
  have v1: "view s1 = view s" using rcv_view [OF Cons.prems(1)] s1(1) by simp
  have m: "accepts m" "\<not> stops m" "\<forall>m \<in> set ms. accepts m \<and> \<not> stops m" using Cons.prems(3) by simp_all
  have "ready (view (handle m s1))" using ready_eff [OF Cons.prems(2) m(1,2)] by (simp add: handle_view v1)
  from Cons.IH [OF handle_pending [OF s1(2)] this m(3)] show ?case
    using loop_next [OF s1(1) Cons.prems(2) v1 m(1,2)] by (simp add: handle_view v1)
qed

lemma loop_until_stop:
  assumes "pending s (ms @ d # rest)" "ready (view s)" "\<forall>m \<in> set ms. accepts m \<and> \<not> stops m" "accepts d" "stops d"
  shows "\<exists>s'. loop s = (Ok (), s') \<and> view s' = fold eff (ms @ [d]) (view s) \<and> pending s' rest"
proof -
  obtain s1 where s1: "loop s = loop s1" "view s1 = fold eff ms (view s)" "ready (view s1)" "pending s1 (d # rest)"
    using loop_through [OF assms(1-3)] by blast
  obtain s2 where s2: "rcv s1 = (Ok d, s2)" "pending s2 rest" using rcv_next [OF s1(4)] by blast
  have "view s2 = view s1" using rcv_view [OF s1(4)] s2(1) by simp
  then show ?thesis
    using loop_last [OF s2(1) s1(3) _ assms(4,5)] handle_pending [OF s2(2)] s1(1,2) by (simp add: handle_view)
qed

end

locale drain_loop = message_source rcv pending + drain_prefix rcv pending loop stops handle view eff ready accepts
  for rcv :: "'s \<Rightarrow> 'm res \<times> 's" and pending :: "'s \<Rightarrow> 'm list \<Rightarrow> bool"
    and loop :: "'s \<Rightarrow> unit res \<times> 's" and stops :: "'m \<Rightarrow> bool" and handle :: "'m \<Rightarrow> 's \<Rightarrow> 's"
    and view :: "'s \<Rightarrow> 'b" and eff :: "'m \<Rightarrow> 'b \<Rightarrow> 'b" and ready :: "'b \<Rightarrow> bool" and accepts :: "'m \<Rightarrow> bool" +
  assumes loop_stop: "rcv s = (Err WouldBlock k, s') \<Longrightarrow> ready (view s) \<Longrightarrow> view s' = view s \<Longrightarrow>
       loop s = (Ok (), s')"
begin

lemma loop_drains_all:
  assumes "pending s ms" "ready (view s)" "\<forall>m \<in> set ms. accepts m \<and> \<not> stops m"
  shows "\<exists>s'. loop s = (Ok (), s') \<and> view s' = fold eff ms (view s) \<and> pending s' []"
proof -
  obtain s1 where s1: "loop s = loop s1" "view s1 = fold eff ms (view s)" "ready (view s1)" "pending s1 []"
    using loop_through [of s ms "[]"] assms by auto
  obtain k s2 where s2: "rcv s1 = (Err WouldBlock k, s2)" "pending s2 []" using rcv_none [OF s1(4)] by blast
  have "view s2 = view s1" using rcv_view [OF s1(4)] s2(1) by simp
  then show ?thesis using loop_stop [OF s2(1) s1(3)] s1(1,2) s2(2) by simp
qed

lemma loop_drains:
  assumes "pending s ms" "ready (view s)" "\<forall>m \<in> set ms. accepts m"
  shows "\<exists>s' rest. loop s = (Ok (), s') \<and> view s' = fold eff (upto_stop stops ms) (view s) \<and>
     ms = upto_stop stops ms @ rest \<and> pending s' rest"
proof (cases "\<exists>m \<in> set ms. stops m")
  case False
  then show ?thesis using loop_drains_all [OF assms(1,2)] assms(3) by (auto simp: upto_stop_none)
next
  case True
  then obtain pre d rest where d: "ms = pre @ d # rest" "stops d" "\<forall>m \<in> set pre. \<not> stops m"
    using split_list_first_prop [of ms stops] by blast
  then show ?thesis
    using loop_until_stop [of s pre d rest] assms by (auto simp: upto_stop_append)
qed

end

end
