(* ===== verification/Tcp.thy ===== *)
theory Tcp
  imports Sockets Sources
begin

text \<open>
  \<open>src/tcp.rs\<close>: messages over a TCP stream. The lock around the stream is not modelled: each
  method holds it for its whole body. The buffer is private and keeps the size \<open>from_stream\<close>
  gives it, which is the invariant \<open>wf_con\<close>.
\<close>

record tcp_con =
  tc_buff :: "byte list"
  tc_tcp :: tcp_stream

definition tcp_from_stream :: "tcp_stream \<Rightarrow> nat \<Rightarrow> tcp_con" where
  "tcp_from_stream tcp max_msg_size =
     \<lparr>tc_buff = replicate (max_msg_size + TCP_HEADER_LEN) 0, tc_tcp = tcp\<rparr>"

definition tcp_buff_size :: "tcp_con \<Rightarrow> nat" where
  "tcp_buff_size c = length (tc_buff c)"

definition tcp_max_msg_size :: "tcp_con \<Rightarrow> nat" where
  "tcp_max_msg_size c = length (tc_buff c) - TCP_HEADER_LEN"

definition tcp_con_send :: "mid \<Rightarrow> byte list \<Rightarrow> tcp_con \<Rightarrow> unit res \<times> tcp_con" where
  "tcp_con_send mid payload c =
     (let total_len = length payload + TCP_HEADER_LEN;
          buff = replicate total_len 0
      in if total_len > tcp_buff_size c
         then (Err InvalidData (MsgTooLarge (tcp_max_msg_size c) mid total_len), c)
         else
           let header = tcp_header_new mid (length payload);
               h_bytes = tcp_to_be_bytes header
           in case and_then (store_at 0 h_bytes buff) (store_at TCP_HEADER_LEN payload) of
                Inl e \<Rightarrow> (Inl e, c)
              | Inr buff \<Rightarrow>
                  (case stream_write_all (take total_len buff) (tc_tcp c) of
                     (r, s) \<Rightarrow> (r, c\<lparr>tc_tcp := s\<rparr>)))"

text \<open>\<open>recv\<close>: peek the header, check the length it announces, read header and payload.\<close>

definition tcp_con_read :: "tcp_con \<Rightarrow> (mid \<times> byte list) res \<times> tcp_con" where
  "tcp_con_read c =
     (case tcp_from_be_bytes (take TCP_HEADER_LEN (tc_buff c)) of
        Inl e \<Rightarrow> (Inl e, c)
      | Inr header \<Rightarrow>
          if th_len header > tcp_max_msg_size c
          then (case stream_shutdown (tc_tcp c) of
                  (Inl e, s) \<Rightarrow> (Inl e, c\<lparr>tc_tcp := s\<rparr>)
                | (Inr _, s) \<Rightarrow>
                    (Err InvalidData (HeaderTooLarge (th_len header) (tcp_max_msg_size c)),
                     c\<lparr>tc_tcp := s\<rparr>))
          else (case stream_read_exact (th_len header + TCP_HEADER_LEN) (tc_tcp c) of
                  (bytes, r, s) \<Rightarrow>
                    let c = c\<lparr>tc_buff := fill_front bytes (tc_buff c), tc_tcp := s\<rparr>
                    in (and_then r (\<lambda>_.
                          and_then (slice TCP_HEADER_LEN (th_len header + TCP_HEADER_LEN) (tc_buff c))
                            (\<lambda>payload. Ok (th_mid header, payload))), c)))"

definition tcp_con_recv :: "tcp_con \<Rightarrow> (mid \<times> byte list) res \<times> tcp_con" where
  "tcp_con_recv c =
     (case stream_peek TCP_HEADER_LEN (tc_tcp c) of
        Inl e \<Rightarrow> (Inl e, c)
      | Inr peeked \<Rightarrow>
          let c = c\<lparr>tc_buff := fill_front peeked (tc_buff c)\<rparr>
          in if length peeked = TCP_HEADER_LEN then tcp_con_read c
             else if length peeked = 0 then (Err ConnectionAborted ConnectionClosed, c)
             else (Err WouldBlock HeaderIncomplete, c))"

definition tcp_con_set_nonblocking :: "bool \<Rightarrow> tcp_con \<Rightarrow> unit res \<times> tcp_con" where
  "tcp_con_set_nonblocking b c =
     (case stream_set_nonblocking b (tc_tcp c) of (r, s) \<Rightarrow> (r, c\<lparr>tc_tcp := s\<rparr>))"

definition tcp_con_close :: "tcp_con \<Rightarrow> unit res \<times> tcp_con" where
  "tcp_con_close c =
     (case stream_flush (tc_tcp c) of
        Inl e \<Rightarrow> (Inl e, c)
      | Inr _ \<Rightarrow> (case stream_shutdown (tc_tcp c) of (r, s) \<Rightarrow> (r, c\<lparr>tc_tcp := s\<rparr>)))"

definition tcp_con_peer_addr :: "tcp_con \<Rightarrow> sock_addr res" where
  "tcp_con_peer_addr c = name_res (peer_name (tc_tcp c))"

definition tcp_con_local_addr :: "tcp_con \<Rightarrow> sock_addr res" where
  "tcp_con_local_addr c = name_res (local_name (tc_tcp c))"

section \<open>Frames\<close>

text \<open>A frame is what one message occupies on the stream.\<close>

definition frame :: "mid \<Rightarrow> byte list \<Rightarrow> byte list" where
  "frame mid payload = tcp_to_be_bytes (tcp_header_new mid (length payload)) @ payload"

definition fits :: "nat \<Rightarrow> mid \<times> byte list \<Rightarrow> bool" where
  "fits max_size m \<longleftrightarrow> fst m < 65536 \<and> length (snd m) < 65536 \<and> length (snd m) \<le> max_size"

definition wf_con :: "tcp_con \<Rightarrow> bool" where
  "wf_con c \<longleftrightarrow> TCP_HEADER_LEN \<le> length (tc_buff c)"

lemma length_frame [simp]: "length (frame mid payload) = length payload + 4"
  by (simp add: frame_def)

lemma wf_from_stream [simp, wf_intros]: "wf_con (tcp_from_stream s n)"
  by (simp add: wf_con_def tcp_from_stream_def)

lemma from_stream_sizes [simp]:
  "tcp_max_msg_size (tcp_from_stream s n) = n" "tcp_buff_size (tcp_from_stream s n) = n + 4"
  "tc_tcp (tcp_from_stream s n) = s"
  by (simp_all add: tcp_max_msg_size_def tcp_buff_size_def tcp_from_stream_def)

text \<open>The two store loops of \<open>send\<close> assemble the frame.\<close>

lemma store_frame:
  assumes "length h = 4"
  shows "and_then (store_at 0 h (replicate (length payload + 4) 0)) (store_at 4 payload) = Ok (h @ payload)"
  using assms by (simp add: store_at_in_range)

lemma tcp_con_send_eq:
  "tcp_con_send mid payload c =
     (if length payload + TCP_HEADER_LEN > tcp_buff_size c
      then (Err InvalidData (MsgTooLarge (tcp_max_msg_size c) mid (length payload + TCP_HEADER_LEN)), c)
      else case stream_write_all (frame mid payload) (tc_tcp c) of (r, s) \<Rightarrow> (r, c\<lparr>tc_tcp := s\<rparr>))"
proof -
  have "length (frame mid payload) = length payload + TCP_HEADER_LEN" by simp
  then show ?thesis
    unfolding tcp_con_send_def Let_def
    by (subst store_frame) (simp_all add: frame_def)
qed

text \<open>Sending only acts on the stream.\<close>

lemma tcp_con_send_frame:
  "tcp_con_send mid payload c = (r, c') \<Longrightarrow> \<exists>s. c' = c\<lparr>tc_tcp := s\<rparr>"
proof -
  have "\<exists>s. c = c\<lparr>tc_tcp := s\<rparr>" by (rule exI [of _ "tc_tcp c"]) simp
  then show "tcp_con_send mid payload c = (r, c') \<Longrightarrow> \<exists>s. c' = c\<lparr>tc_tcp := s\<rparr>"
    by (auto simp: tcp_con_send_eq split: if_splits prod.splits)
qed

section \<open>Receiving, case by case\<close>

lemma fill_front_sizes [simp]:
  "length bs \<le> length (tc_buff c) \<Longrightarrow> tcp_max_msg_size (c\<lparr>tc_buff := fill_front bs (tc_buff c)\<rparr>) = tcp_max_msg_size c"
  by (simp add: tcp_max_msg_size_def)

lemma recv_nothing:
  assumes "rx (tc_tcp c) = []"
  shows "tcp_con_recv c =
    (case rx_state (tc_tcp c) of
       RxOpen \<Rightarrow> (Err WouldBlock OsMessage, c)
     | RxEof \<Rightarrow> (Err ConnectionAborted ConnectionClosed, c)
     | RxFault e \<Rightarrow> (Inl (IoErr e), c))"
  using assms
  by (simp add: tcp_con_recv_def stream_peek_def rx_end_def fill_front_def split: rx_state.split)

lemma recv_part_of_header:
  assumes "rx (tc_tcp c) \<noteq> []" "length (rx (tc_tcp c)) < 4"
  shows "\<exists>buff. tcp_con_recv c = (Err WouldBlock HeaderIncomplete, c\<lparr>tc_buff := buff\<rparr>)"
  using assms by (auto simp: tcp_con_recv_def stream_peek_def Let_def)

text \<open>With a whole header present, everything depends on the header \<open>h\<close> it encodes.\<close>

lemma recv_with_header:
  assumes "wf_con c" "4 \<le> length (rx (tc_tcp c))" "tcp_from_be_bytes (take 4 (rx (tc_tcp c))) = Ok h"
  shows "tcp_con_recv c =
    (let c1 = c\<lparr>tc_buff := fill_front (take 4 (rx (tc_tcp c))) (tc_buff c)\<rparr>; s = tc_tcp c
     in if th_len h > tcp_max_msg_size c
        then (case stream_shutdown s of
                (Inl e, s') \<Rightarrow> (Inl e, c1\<lparr>tc_tcp := s'\<rparr>)
              | (Inr _, s') \<Rightarrow>
                  (Err InvalidData (HeaderTooLarge (th_len h) (tcp_max_msg_size c)), c1\<lparr>tc_tcp := s'\<rparr>))
        else if th_len h + 4 \<le> length (rx s)
        then (Ok (th_mid h, take (th_len h) (drop 4 (rx s))),
              c1\<lparr>tc_buff := fill_front (take (th_len h + 4) (rx s)) (tc_buff c1),
                 tc_tcp := s\<lparr>rx := drop (th_len h + 4) (rx s)\<rparr>\<rparr>)
        else (rx_end (rx_state s) UnexpectedEof,
              c1\<lparr>tc_buff := fill_front (rx s) (tc_buff c1), tc_tcp := s\<lparr>rx := []\<rparr>\<rparr>))"
proof -
  let ?bs = "take 4 (rx (tc_tcp c))"
  let ?c1 = "c\<lparr>tc_buff := fill_front ?bs (tc_buff c)\<rparr>"
  have len: "length ?bs = 4" using assms(2) by simp
  then have "rx (tc_tcp c) \<noteq> []" by auto
  then have "tcp_con_recv c = tcp_con_read ?c1"
    using len by (simp add: tcp_con_recv_def stream_peek_def)
  moreover have "take 4 (tc_buff ?c1) = ?bs"
    using len by (simp add: fill_front_def)
  moreover have max: "tcp_max_msg_size ?c1 = tcp_max_msg_size c"
    using assms(1) len by (simp add: wf_con_def)
  moreover have "slice 4 (th_len h + 4) (fill_front (take (th_len h + 4) (rx (tc_tcp c))) buff) =
      Ok (take (th_len h) (drop 4 (rx (tc_tcp c))))"
    if "th_len h + 4 \<le> length (rx (tc_tcp c))" for buff
    using that by (simp add: slice_def fill_front_def drop_take)
  moreover have "and_then (rx_end st k) f = rx_end st k" for st k and f :: "unit \<Rightarrow> (mid \<times> byte list) res"
    by (simp add: rx_end_def split: rx_state.split)
  ultimately show ?thesis
    unfolding Let_def
    by (simp add: tcp_con_read_def stream_read_exact_def assms(3) split: prod.split sum.split)
qed


lemma tcp_con_recv_cases:
  assumes "wf_con c"
  obtains (nothing) "rx (tc_tcp c) = []"
  | (part) "rx (tc_tcp c) \<noteq> []" "length (rx (tc_tcp c)) < 4"
  | (header) h where "4 \<le> length (rx (tc_tcp c))" "tcp_from_be_bytes (take 4 (rx (tc_tcp c))) = Ok h"
proof -
  have "\<exists>h. tcp_from_be_bytes (take 4 (rx (tc_tcp c))) = Ok h" if "4 \<le> length (rx (tc_tcp c))"
    using tcp_header_decode_length [of "take 4 (rx (tc_tcp c))"] that by auto
  then show thesis using that by (meson not_le)
qed

text \<open>What every call of \<open>recv\<close> leaves alone, and that success consumes at least a header.\<close>

lemma rx_end_not_Ok [simp]: "rx_end st k \<noteq> Inr x" "\<not> is_panic (rx_end st k)"
  by (simp_all add: rx_end_def split: rx_state.split)

lemma stream_shutdown_frame:
  "rx (snd (stream_shutdown s)) = rx s" "tx (snd (stream_shutdown s)) = tx s"
  "peer_name (snd (stream_shutdown s)) = peer_name s" "tx_room (snd (stream_shutdown s)) = tx_room s"
  "tx_fault (snd (stream_shutdown s)) = tx_fault s"
  by (simp_all add: stream_shutdown_def split: option.split)

lemma stream_shutdown_not_panic: "\<not> is_panic (fst (stream_shutdown s))"
  by (simp add: stream_shutdown_def split: option.split)

lemma tcp_con_recv_frame:
  assumes "wf_con c" "tcp_con_recv c = (r, c')"
  shows "wf_con c'" "length (tc_buff c') = length (tc_buff c)"
    "tx (tc_tcp c') = tx (tc_tcp c)" "peer_name (tc_tcp c') = peer_name (tc_tcp c)"
    "length (rx (tc_tcp c')) \<le> length (rx (tc_tcp c))" "\<not> is_panic r"
    "r = Inr m \<Longrightarrow> length (rx (tc_tcp c')) + 4 \<le> length (rx (tc_tcp c))"
proof -
  have "length (tc_buff c') = length (tc_buff c) \<and> tx (tc_tcp c') = tx (tc_tcp c) \<and>
    peer_name (tc_tcp c') = peer_name (tc_tcp c) \<and>
    length (rx (tc_tcp c')) \<le> length (rx (tc_tcp c)) \<and> \<not> is_panic r \<and>
    (r = Inr m \<longrightarrow> length (rx (tc_tcp c')) + 4 \<le> length (rx (tc_tcp c)))"
    using assms(1)
  proof (cases rule: tcp_con_recv_cases)
    case nothing
    then show ?thesis using assms(2) by (auto simp: recv_nothing split: rx_state.splits)
  next
    case part
    then show ?thesis using assms by (auto simp: tcp_con_recv_def stream_peek_def wf_con_def)
  next
    case (header h)
    define c1 where "c1 = c\<lparr>tc_buff := fill_front (take 4 (rx (tc_tcp c))) (tc_buff c)\<rparr>"
    have c1: "length (tc_buff c1) = length (tc_buff c)" "tc_tcp c1 = tc_tcp c"
      using assms(1) header by (simp_all add: c1_def wf_con_def)
    note eq = recv_with_header [OF assms(1) header, folded c1_def, unfolded assms(2) Let_def]
    show ?thesis
    proof (cases "th_len h > tcp_max_msg_size c")
      case True
      then show ?thesis
        using eq c1 stream_shutdown_frame [of "tc_tcp c"] stream_shutdown_not_panic [of "tc_tcp c"]
        by (auto split: prod.splits sum.splits)
    next
      case False
      then have "th_len h + 4 \<le> length (tc_buff c)" using assms(1)
        by (simp add: tcp_max_msg_size_def wf_con_def)
      then show ?thesis using eq c1 False by (auto split: if_splits)
    qed
  qed
  then show "length (tc_buff c') = length (tc_buff c)"
    "tx (tc_tcp c') = tx (tc_tcp c)" "peer_name (tc_tcp c') = peer_name (tc_tcp c)"
    "length (rx (tc_tcp c')) \<le> length (rx (tc_tcp c))" "\<not> is_panic r"
    "r = Inr m \<Longrightarrow> length (rx (tc_tcp c')) + 4 \<le> length (rx (tc_tcp c))" by auto
  then show "wf_con c'" using assms(1) by (simp add: wf_con_def)
qed

text \<open>A success shortens the stream, whatever the buffer's size: loops over \<open>recv\<close> end.\<close>

lemma tcp_con_recv_shrinks:
  assumes "tcp_con_recv c = (Inr m, c')"
  shows "length (rx (tc_tcp c')) < length (rx (tc_tcp c))"
proof -
  have read: "length (rx (tc_tcp d')) < length (rx (tc_tcp d))"
    if "tcp_con_read d = (Inr m, d')" "rx (tc_tcp d) \<noteq> []" for d d'
    using that
    by (auto simp: tcp_con_read_def stream_read_exact_def Let_def split: sum.splits if_splits prod.splits)
  show ?thesis
    using assms read [of "c\<lparr>tc_buff := fill_front (take 4 (rx (tc_tcp c))) (tc_buff c)\<rparr>" c']
    by (auto simp: tcp_con_recv_def stream_peek_def Let_def rx_end_def
        split: sum.splits if_splits rx_state.splits)
qed

section \<open>A connection that holds whole frames is a source of messages\<close>

lemma frame_header: "take 4 (frame mid payload @ rest) = tcp_to_be_bytes (tcp_header_new mid (length payload))"
  by (simp add: frame_def)

lemma frame_header_decode:
  "tcp_from_be_bytes (take 4 (frame mid payload @ rest)) =
     Ok \<lparr>th_mid = mid mod 65536, th_len = length payload mod 65536\<rparr>"
  by (simp only: frame_header tcp_header_decode_encode) (simp add: tcp_header_new_def)

lemma recv_frame:
  assumes "wf_con c" "rx (tc_tcp c) = frame mid payload @ rest" "fits (tcp_max_msg_size c) (mid, payload)"
  shows "\<exists>buff. length buff = length (tc_buff c) \<and>
    tcp_con_recv c = (Ok (mid, payload), c\<lparr>tc_buff := buff, tc_tcp := (tc_tcp c)\<lparr>rx := rest\<rparr>\<rparr>)"
proof -
  have h: "4 \<le> length (rx (tc_tcp c))" using assms(2) by simp
  have h': "tcp_from_be_bytes (take 4 (rx (tc_tcp c))) = Ok \<lparr>th_mid = mid, th_len = length payload\<rparr>"
    unfolding assms(2) frame_header_decode using assms(3) by (simp add: fits_def)
  have len: "length (rx (tc_tcp c)) = length payload + 4 + length rest" by (simp add: assms(2))
  have take: "take (length payload) (drop 4 (rx (tc_tcp c))) = payload"
    "drop (length payload + 4) (rx (tc_tcp c)) = rest"
    by (simp_all add: assms(2) frame_def)
  have small: "length payload + 4 \<le> length (tc_buff c)"
    using assms(1,3) by (auto simp: fits_def wf_con_def tcp_max_msg_size_def)
  define buff where "buff = fill_front (take (length payload + 4) (rx (tc_tcp c)))
    (fill_front (take 4 (rx (tc_tcp c))) (tc_buff c))"
  have "length buff = length (tc_buff c)" using small len by (simp add: buff_def)
  moreover have "tcp_con_recv c = (Ok (mid, payload), c\<lparr>tc_buff := buff, tc_tcp := (tc_tcp c)\<lparr>rx := rest\<rparr>\<rparr>)"
    using assms(3) by (simp add: recv_with_header [OF assms(1) h h'] Let_def len take fits_def buff_def)
  ultimately show ?thesis by blast
qed

text \<open>
  The connection offers the messages \<open>ms\<close>, and behind them there is the tail \<open>st\<close>: at most three
  bytes, which are no whole header, and the state of the stream behind these.
\<close>

datatype tail = Tail (tail_bytes: "byte list") (tail_state: rx_state)

definition offers_frames :: "tail \<Rightarrow> tcp_con \<Rightarrow> (mid \<times> byte list) list \<Rightarrow> bool" where
  "offers_frames st c ms \<longleftrightarrow> wf_con c \<and> rx_state (tc_tcp c) = tail_state st \<and> length (tail_bytes st) < 4 \<and>
     (\<forall>m \<in> set ms. fits (tcp_max_msg_size c) m) \<and>
     rx (tc_tcp c) = concat (map (\<lambda>(mid, payload). frame mid payload) ms) @ tail_bytes st"

abbreviation holds_frames :: "tcp_con \<Rightarrow> (mid \<times> byte list) list \<Rightarrow> bool" where
  "holds_frames \<equiv> offers_frames (Tail [] RxOpen)"

lemma offers_frames_recv:
  assumes "offers_frames st c (m # ms)"
  shows "\<exists>buff. length buff = length (tc_buff c) \<and> tcp_con_recv c =
      (Ok m, c\<lparr>tc_buff := buff,
         tc_tcp := (tc_tcp c)\<lparr>rx := concat (map (\<lambda>(mid, payload). frame mid payload) ms) @ tail_bytes st\<rparr>\<rparr>)"
  using assms recv_frame [of c "fst m" "snd m"] by (auto simp: offers_frames_def split_beta)

lemma offers_frames_step:
  assumes "offers_frames st c (m # ms)"
  shows "\<exists>c'. tcp_con_recv c = (Ok m, c') \<and> offers_frames st c' ms"
  using offers_frames_recv [OF assms] assms
  by (auto simp: offers_frames_def wf_con_def tcp_max_msg_size_def)

lemma holds_frames_Nil: "holds_frames c [] \<Longrightarrow> tcp_con_recv c = (Err WouldBlock OsMessage, c)"
  by (simp add: offers_frames_def recv_nothing)

text \<open>
  The error that ends the conversation behind the messages, if one does. With bytes of a header
  behind them none does, whatever the state of the stream.
\<close>

definition ending :: "tail \<Rightarrow> io_error option" where
  "ending st = (if tail_bytes st \<noteq> [] then None else (case tail_state st of
       RxOpen \<Rightarrow> None
     | RxEof \<Rightarrow> Some (IoError ConnectionAborted ConnectionClosed)
     | RxFault e \<Rightarrow> if err_kind e = WouldBlock then None else Some e))"

lemma ending_simps [simp]:
  "ending (Tail bs RxOpen) = None" "ending (Tail (b # bs) s) = None"
  "ending (Tail [] RxEof) = Some (IoError ConnectionAborted ConnectionClosed)"
  by (simp_all add: ending_def)

lemma offers_frames_Nil:
  assumes "offers_frames st c []"
  shows "\<exists>e c'. tcp_con_recv c = (Inl (IoErr e), c') \<and> offers_frames st c' [] \<and>
    ending st = (if err_kind e = WouldBlock then None else Some e)"
proof (cases "tail_bytes st")
  case Nil
  then show ?thesis using assms by (cases "tail_state st") (auto simp: offers_frames_def recv_nothing ending_def)
next
  case (Cons b bs)
  then have "rx (tc_tcp c) \<noteq> []" "length (rx (tc_tcp c)) < 4" using assms by (auto simp: offers_frames_def)
  then obtain buff where r: "tcp_con_recv c = (Err WouldBlock HeaderIncomplete, c\<lparr>tc_buff := buff\<rparr>)"
    using recv_part_of_header by blast
  have "length buff = length (tc_buff c)" "wf_con (c\<lparr>tc_buff := buff\<rparr>)"
    using tcp_con_recv_frame(1,2) [OF _ r] assms by (simp_all add: offers_frames_def)
  then have "offers_frames st (c\<lparr>tc_buff := buff\<rparr>) []"
    using assms by (simp add: offers_frames_def tcp_max_msg_size_def)
  then show ?thesis using r Cons by (simp add: ending_def)
qed

interpretation tcp_pre: message_prefix tcp_con_recv "offers_frames st" for st
  by unfold_locales (use offers_frames_step in blast)

interpretation tcp_src: message_source tcp_con_recv holds_frames
  by unfold_locales (use holds_frames_Nil in blast)


section \<open>Reading what is not a whole frame\<close>

text \<open>
  Only the header is peeked. If the payload has not arrived completely, \<open>read_exact\<close> takes
  what is there out of the stream before it fails.
\<close>

lemma recv_part_of_payload:
  assumes "wf_con c" "rx_state (tc_tcp c) = RxOpen" "fits (tcp_max_msg_size c) (mid, payload)"
    and "rx (tc_tcp c) = take k (frame mid payload)" "4 \<le> k" "k < length payload + 4"
  shows "\<exists>buff. length buff = length (tc_buff c) \<and>
    tcp_con_recv c = (Err WouldBlock OsMessage, c\<lparr>tc_buff := buff, tc_tcp := (tc_tcp c)\<lparr>rx := []\<rparr>\<rparr>)"
proof -
  have len: "length (rx (tc_tcp c)) = k" using assms(4,6) by simp
  have h: "4 \<le> length (rx (tc_tcp c))" using assms(5) len by simp
  have front: "take 4 (rx (tc_tcp c)) = take 4 (frame mid payload @ [])"
    using assms(4,5) by (simp add: min_def)
  have h': "tcp_from_be_bytes (take 4 (rx (tc_tcp c))) = Ok \<lparr>th_mid = mid, th_len = length payload\<rparr>"
    unfolding front frame_header_decode using assms(3) by (simp add: fits_def)
  define buff where "buff = fill_front (rx (tc_tcp c)) (fill_front (take 4 (rx (tc_tcp c))) (tc_buff c))"
  have "k \<le> length (tc_buff c)"
    using assms(1,3,6) by (auto simp: fits_def wf_con_def tcp_max_msg_size_def)
  then have "length buff = length (tc_buff c)" using len by (simp add: buff_def)
  moreover have "tcp_con_recv c = (Err WouldBlock OsMessage, c\<lparr>tc_buff := buff, tc_tcp := (tc_tcp c)\<lparr>rx := []\<rparr>\<rparr>)"
    using assms(2,3,6)
    by (simp add: recv_with_header [OF assms(1) h h'] Let_def len fits_def buff_def rx_end_def)
  ultimately show ?thesis by blast
qed

text \<open>Sending a list of messages, stopping at the first failure, and the bytes it writes.\<close>

primrec tcp_send_all :: "(mid \<times> byte list) list \<Rightarrow> tcp_con \<Rightarrow> unit res \<times> tcp_con" where
  "tcp_send_all [] c = (Ok (), c)"
| "tcp_send_all (m # ms) c =
     (case tcp_con_send (fst m) (snd m) c of
        (Inl e, c') \<Rightarrow> (Inl e, c')
      | (Inr _, c') \<Rightarrow> tcp_send_all ms c')"

lemma stream_write_all_Ok:
  "stream_write_all bs s = (Ok (), s') \<longleftrightarrow>
     \<not> is_shut s \<and> tx_fault s = None \<and> (is_nonblocking s \<longrightarrow> length bs \<le> tx_room s) \<and>
     s' = s\<lparr>tx := tx s @ bs, tx_room := tx_room s - length bs\<rparr>"
  by (auto simp: stream_write_all_def split: option.splits)

lemma tcp_con_send_Ok:
  "tcp_con_send mid payload c = (Ok (), c') \<longleftrightarrow>
     length payload + 4 \<le> tcp_buff_size c \<and> \<not> is_shut (tc_tcp c) \<and> tx_fault (tc_tcp c) = None \<and>
     (is_nonblocking (tc_tcp c) \<longrightarrow> length payload + 4 \<le> tx_room (tc_tcp c)) \<and>
     c' = c\<lparr>tc_tcp := (tc_tcp c)\<lparr>tx := tx (tc_tcp c) @ frame mid payload,
       tx_room := tx_room (tc_tcp c) - (length payload + 4)\<rparr>\<rparr>"
proof (cases "stream_write_all (frame mid payload) (tc_tcp c)")
  case (Pair r s)
  then show ?thesis
    using stream_write_all_Ok [of "frame mid payload" "tc_tcp c" s]
    by (cases r) (auto simp: tcp_con_send_eq stream_write_all_def split: option.splits if_splits)
qed

lemma tcp_send_all_tx:
  "tcp_send_all ms c = (Ok (), c') \<Longrightarrow>
   tx (tc_tcp c') = tx (tc_tcp c) @ concat (map (\<lambda>(mid, payload). frame mid payload) ms) \<and>
   length (tc_buff c') = length (tc_buff c) \<and> (\<forall>m \<in> set ms. length (snd m) + 4 \<le> tcp_buff_size c)"
proof (induction ms arbitrary: c)
  case Nil
  then show ?case by simp
next
  case (Cons m ms)
  from Cons.prems obtain c1 where c1: "tcp_con_send (fst m) (snd m) c = (Ok (), c1)"
      "tcp_send_all ms c1 = (Ok (), c')"
    by (auto split: prod.splits sum.splits)
  have "tx (tc_tcp c1) = tx (tc_tcp c) @ frame (fst m) (snd m)" "length (tc_buff c1) = length (tc_buff c)"
    "length (snd m) + 4 \<le> tcp_buff_size c"
    using c1(1) by (auto simp: tcp_con_send_Ok)
  then show ?case using Cons.IH [OF c1(2)] by (simp add: split_beta tcp_buff_size_def)
qed


section \<open>Properties of a TCP connection\<close>

definition demo_stream :: tcp_stream where
  "demo_stream = \<lparr>rx = [], rx_state = RxOpen, tx = [], tx_room = 100, tx_fault = None,
     is_nonblocking = True, is_shut = False, peer_name = Some (SockAddr 1 7777),
     local_name = Some (SockAddr 2 40000)\<rparr>"

definition demo_con :: tcp_con where
  "demo_con = tcp_from_stream demo_stream 16"

text \<open>
  C21: Messages sent over one connection are received at the other in the order of sending, each
  with its id and its payload, once all their bytes have arrived.
\<close>

theorem tcp_delivers_in_order:
  assumes "tcp_send_all ms a = (Ok (), a')" "tx (tc_tcp a) = []"
    and "\<forall>m \<in> set ms. fits (tcp_max_msg_size b) m"
    and "wf_con b" "rx_state (tc_tcp b) = RxOpen" "rx (tc_tcp b) = tx (tc_tcp a')"
  shows "\<exists>b'. recv_many tcp_con_recv (length ms) b = (ms, b') \<and> rx (tc_tcp b') = [] \<and>
    tcp_con_recv b' = (Err WouldBlock OsMessage, b')"
proof -
  have "holds_frames b ms"
    using assms tcp_send_all_tx [OF assms(1)] by (simp add: offers_frames_def)
  from tcp_pre.rcv_many_all [OF this] obtain b'
    where b': "recv_many tcp_con_recv (length ms) b = (ms, b')" "holds_frames b' []" by blast
  then show ?thesis using holds_frames_Nil [OF b'(2)] by (auto simp: offers_frames_def)
qed

theorem tcp_delivers_in_order_witness:
  "\<exists>b'. recv_many tcp_con_recv 2
      (demo_con\<lparr>tc_tcp := demo_stream\<lparr>rx := frame 3 [7, 8] @ frame 4 []\<rparr>\<rparr>) =
    ([(3, [7, 8]), (4, [])], b')"
proof -
  let ?ms = "[(3, [7, 8]), (4, [])] :: (mid \<times> byte list) list"
  let ?b = "demo_con\<lparr>tc_tcp := demo_stream\<lparr>rx := frame 3 [7, 8] @ frame 4 []\<rparr>\<rparr>"
  obtain a' where a': "tcp_send_all ?ms demo_con = (Ok (), a')"
    by (simp add: tcp_con_send_eq stream_write_all_def demo_con_def demo_stream_def
      tcp_from_stream_def tcp_buff_size_def)
  have tx: "tx (tc_tcp demo_con) = []" by (simp add: demo_con_def demo_stream_def)
  have "tcp_max_msg_size ?b = 16" by (simp add: tcp_max_msg_size_def demo_con_def tcp_from_stream_def)
  moreover have "wf_con ?b" by (simp add: wf_con_def demo_con_def tcp_from_stream_def)
  moreover have "rx_state (tc_tcp ?b) = RxOpen" "rx (tc_tcp ?b) = tx (tc_tcp a')"
    using tcp_send_all_tx [OF a'] by (simp_all add: demo_stream_def tx)
  ultimately have "\<exists>b'. recv_many tcp_con_recv (length ?ms) ?b = (?ms, b')"
    using tcp_delivers_in_order [OF a' tx, of ?b] by (simp only: fits_def) force
  moreover have "length ?ms = 2" by simp
  ultimately show ?thesis by (simp only:)
qed

text \<open>
  While fewer than 4 bytes of a message have arrived, \<open>recv\<close> says \<open>WouldBlock\<close> and takes
  nothing from the stream; when the rest arrives the message is received whole.
\<close>

lemma tcp_recv_waits_for_header:
  assumes "wf_con c" "fits (tcp_max_msg_size c) (mid, payload)"
    and "rx (tc_tcp c) = take k (frame mid payload)" "0 < k" "k < 4"
    and "tcp_con_recv c = (r, c')"
    and "c2 = c'\<lparr>tc_tcp := (tc_tcp c')\<lparr>rx := rx (tc_tcp c') @ drop k (frame mid payload) @ rest\<rparr>\<rparr>"
  shows "r = Err WouldBlock HeaderIncomplete \<and> fst (tcp_con_recv c2) = Ok (mid, payload) \<and>
    rx (tc_tcp (snd (tcp_con_recv c2))) = rest"
proof -
  have "frame mid payload \<noteq> []" by (simp flip: length_greater_0_conv)
  then have "rx (tc_tcp c) \<noteq> []" "length (rx (tc_tcp c)) < 4" using assms(3-5) by simp_all
  then obtain buff where r: "r = Err WouldBlock HeaderIncomplete" "c' = c\<lparr>tc_buff := buff\<rparr>"
    using recv_part_of_header [of c] assms(6) by auto
  have "wf_con c'" "length (tc_buff c') = length (tc_buff c)"
    using tcp_con_recv_frame [OF assms(1,6)] by simp_all
  then have "wf_con c2" "fits (tcp_max_msg_size c2) (mid, payload)" "rx (tc_tcp c2) = frame mid payload @ rest"
    using assms(2,3,7) r(2) by (simp_all add: wf_con_def tcp_max_msg_size_def flip: append_assoc)
  from recv_frame [OF this(1,3,2)] show ?thesis using r(1) by auto
qed

text \<open>
  C33: A message whose header has arrived but whose payload has not arrived completely is lost:
  \<open>recv\<close> says \<open>WouldBlock\<close> but the bytes are gone. When the rest of the payload arrives it
  is read as if it began a new message, so a payload that contains an encoded message makes the
  receiver deliver that message, which was never sent.
\<close>

theorem tcp_recv_loses_partial_payload:
  assumes "wf_con c" "rx_state (tc_tcp c) = RxOpen"
    and "fits (tcp_max_msg_size c) (mid, p1 @ frame mid2 p2)" "fits (tcp_max_msg_size c) (mid2, p2)"
    and "rx (tc_tcp c) = tcp_to_be_bytes (tcp_header_new mid (length (p1 @ frame mid2 p2))) @ p1"
    and "tcp_con_recv c = (r, c')"
    and "c2 = c'\<lparr>tc_tcp := (tc_tcp c')\<lparr>rx := rx (tc_tcp c') @ frame mid2 p2\<rparr>\<rparr>"
  shows "r = Err WouldBlock OsMessage \<and> rx (tc_tcp c') = [] \<and>
    fst (tcp_con_recv c2) = Ok (mid2, p2) \<and> rx (tc_tcp (snd (tcp_con_recv c2))) = []"
proof -
  have part: "rx (tc_tcp c) = take (4 + length p1) (frame mid (p1 @ frame mid2 p2))"
    using assms(5) by (simp add: frame_def)
  obtain buff where r: "r = Err WouldBlock OsMessage" "length buff = length (tc_buff c)"
      "c' = c\<lparr>tc_buff := buff, tc_tcp := (tc_tcp c)\<lparr>rx := []\<rparr>\<rparr>"
    using recv_part_of_payload [OF assms(1-3) part] assms(6) by auto
  have "wf_con c2" "fits (tcp_max_msg_size c2) (mid2, p2)" "rx (tc_tcp c2) = frame mid2 p2 @ []"
    using assms(1,4,7) r(2,3) by (simp_all add: wf_con_def tcp_max_msg_size_def)
  from recv_frame [OF this(1,3,2)] show ?thesis using r(1,3) by auto
qed

theorem tcp_recv_loses_partial_payload_witness:
  "fst (tcp_con_recv (demo_con\<lparr>tc_tcp := demo_stream\<lparr>
       rx := tcp_to_be_bytes (tcp_header_new 3 6) @ [9]\<rparr>\<rparr>)) = Err WouldBlock OsMessage"
proof -
  let ?c = "demo_con\<lparr>tc_tcp := demo_stream\<lparr>rx := tcp_to_be_bytes (tcp_header_new 3 6) @ [9]\<rparr>\<rparr>"
  have "wf_con ?c" "rx_state (tc_tcp ?c) = RxOpen" "tcp_max_msg_size ?c = 16"
    by (simp_all add: wf_con_def demo_con_def tcp_from_stream_def tcp_max_msg_size_def demo_stream_def)
  then show ?thesis
    using tcp_recv_loses_partial_payload
      [of ?c 3 "[9]" 5 "[1]" "fst (tcp_con_recv ?c)" "snd (tcp_con_recv ?c)"]
    by (simp add: fits_def)
qed

text \<open>A message that \<open>recv\<close> yields is a whole frame in front of the stream, and fits its buffer.\<close>

lemma tcp_con_recv_takes_frame:
  assumes "wf_con c" "tcp_con_recv c = (Ok (mid, payload), c')"
  shows "length payload \<le> tcp_max_msg_size c \<and> rx (tc_tcp c) = frame mid payload @ rx (tc_tcp c')"
  using assms(1)
proof (cases rule: tcp_con_recv_cases)
  case nothing
  then show ?thesis using assms(2) by (auto simp: recv_nothing split: rx_state.splits)
next
  case part
  then show ?thesis using recv_part_of_header [of c] assms(2) by auto
next
  case (header h)
  let ?bs = "rx (tc_tcp c)"
  have "\<not> th_len h > tcp_max_msg_size c" and whole: "th_len h + 4 \<le> length ?bs"
      and m: "mid = th_mid h" "payload = take (th_len h) (drop 4 ?bs)" "rx (tc_tcp c') = drop (th_len h + 4) ?bs"
    using assms(2) recv_with_header [OF assms(1) header]
    by (auto simp: Let_def split: if_splits prod.splits sum.splits)
  then have "length payload = th_len h" "th_len h \<le> tcp_max_msg_size c" by simp_all
  moreover have "take 4 ?bs = tcp_to_be_bytes (tcp_header_new mid (length payload))"
    using header(2) calculation(1) m(1) by (cases h) (simp add: tcp_header_decode_iff tcp_header_new_def)
  moreover have "?bs = take 4 ?bs @ take (th_len h) (drop 4 ?bs) @ drop (th_len h + 4) ?bs"
    by (metis add.commute append_take_drop_id drop_drop)
  ultimately show ?thesis using m by (simp add: frame_def)
qed

text \<open>A header that announces more than fits closes the stream and takes nothing from it.\<close>

lemma tcp_con_recv_too_large:
  assumes "wf_con c" "4 \<le> length (rx (tc_tcp c))" "tcp_from_be_bytes (take 4 (rx (tc_tcp c))) = Ok h"
    and "tcp_max_msg_size c < th_len h" "peer_name (tc_tcp c) \<noteq> None" "tcp_con_recv c = (r, c')"
  shows "r = Err InvalidData (HeaderTooLarge (th_len h) (tcp_max_msg_size c)) \<and> is_shut (tc_tcp c') \<and>
    rx (tc_tcp c') = rx (tc_tcp c)"
  using recv_with_header [OF assms(1-3)] assms(4-6) by (auto simp: Let_def stream_shutdown_def)

text \<open>
  C32: Whatever bytes are on the stream, \<open>recv\<close> does not panic and keeps its buffer's size. A message
  it yields was one whole frame in front of the stream, of a payload within the maximum message size,
  and exactly that frame is taken. When the header announces more than the maximum, \<open>recv\<close> fails, has
  shut the stream down and takes nothing from it.
\<close>

theorem tcp_recv_safe:
  assumes "wf_con c" "tcp_con_recv c = (r, c')"
  shows "\<not> is_panic r \<and> wf_con c' \<and> length (tc_buff c') = length (tc_buff c) \<and>
    (\<forall>mid payload. r = Ok (mid, payload) \<longrightarrow>
       length payload \<le> tcp_max_msg_size c \<and> rx (tc_tcp c) = frame mid payload @ rx (tc_tcp c')) \<and>
    (\<forall>h. 4 \<le> length (rx (tc_tcp c)) \<and> tcp_from_be_bytes (take 4 (rx (tc_tcp c))) = Ok h \<and>
       tcp_max_msg_size c < th_len h \<and> peer_name (tc_tcp c) \<noteq> None \<longrightarrow>
       r = Err InvalidData (HeaderTooLarge (th_len h) (tcp_max_msg_size c)) \<and> is_shut (tc_tcp c') \<and>
       rx (tc_tcp c') = rx (tc_tcp c))"
proof (intro conjI allI impI)
  show "\<not> is_panic r" "wf_con c'" "length (tc_buff c') = length (tc_buff c)"
    using tcp_con_recv_frame [OF assms] by simp_all
next
  fix mid payload assume "r = Ok (mid, payload)"
  with assms(2) have "tcp_con_recv c = (Ok (mid, payload), c')" by simp
  from tcp_con_recv_takes_frame [OF assms(1) this]
  show "length payload \<le> tcp_max_msg_size c" "rx (tc_tcp c) = frame mid payload @ rx (tc_tcp c')" by simp_all
next
  fix h assume "4 \<le> length (rx (tc_tcp c)) \<and> tcp_from_be_bytes (take 4 (rx (tc_tcp c))) = Ok h \<and>
    tcp_max_msg_size c < th_len h \<and> peer_name (tc_tcp c) \<noteq> None"
  then have "4 \<le> length (rx (tc_tcp c))" "tcp_from_be_bytes (take 4 (rx (tc_tcp c))) = Ok h"
    "tcp_max_msg_size c < th_len h" "peer_name (tc_tcp c) \<noteq> None" by simp_all
  from tcp_con_recv_too_large [OF assms(1) this assms(2)]
  show "r = Err InvalidData (HeaderTooLarge (th_len h) (tcp_max_msg_size c))" "is_shut (tc_tcp c')"
    "rx (tc_tcp c') = rx (tc_tcp c)" by simp_all
qed

theorem tcp_recv_safe_witness:
  "fst (tcp_con_recv (demo_con\<lparr>tc_tcp := demo_stream\<lparr>rx := tcp_to_be_bytes (tcp_header_new 3 65535)\<rparr>\<rparr>)) =
     Err InvalidData (HeaderTooLarge 65535 16)"
proof -
  let ?c = "demo_con\<lparr>tc_tcp := demo_stream\<lparr>rx := tcp_to_be_bytes (tcp_header_new 3 65535)\<rparr>\<rparr>"
  have "wf_con ?c" "tcp_max_msg_size ?c = 16" "peer_name (tc_tcp ?c) \<noteq> None"
    by (simp_all add: wf_con_def tcp_max_msg_size_def demo_con_def tcp_from_stream_def demo_stream_def)
  moreover have "tcp_from_be_bytes (take 4 (rx (tc_tcp ?c))) = Ok \<lparr>th_mid = 3, th_len = 65535\<rparr>"
    by (simp add: tcp_header_new_def)
  ultimately show ?thesis
    using tcp_recv_safe [of ?c "fst (tcp_con_recv ?c)" "snd (tcp_con_recv ?c)"] by simp
qed

text \<open>
  A send that finds room for a part of its frame only writes that part and fails with \<open>WouldBlock\<close>.
  Once there is room again, the next message that is sent completes the frame: the receiver takes its
  first bytes for the rest of the payload, and yields a message that was never sent.
\<close>

lemma partial_send_forges:
  assumes "tx_room (tc_tcp a) = n" "4 \<le> n" "n < length p1 + 4" "is_nonblocking (tc_tcp a)" "\<not> is_shut (tc_tcp a)"
    and "tx_fault (tc_tcp a) = None" "length p1 + 4 \<le> tcp_buff_size a" "tx (tc_tcp a) = []"
    and "tcp_con_send mid1 p1 a = (r, a1)"
    and "tcp_con_send mid2 p2 (a1\<lparr>tc_tcp := (tc_tcp a1)\<lparr>tx_room := room\<rparr>\<rparr>) = (Ok (), a2)"
    and "wf_con b" "fits (tcp_max_msg_size b) (mid1, p1)" "length p1 \<le> n + length p2" "rx (tc_tcp b) = tx (tc_tcp a2)"
  shows "r = Err WouldBlock OsMessage \<and>
    fst (tcp_con_recv b) = Ok (mid1, take (n - 4) p1 @ take (length p1 + 4 - n) (frame mid2 p2))"
proof -
  let ?h = "tcp_to_be_bytes (tcp_header_new mid1 (length p1))"
  let ?q = "take (n - 4) p1 @ take (length p1 + 4 - n) (frame mid2 p2)"
  have part: "take n (frame mid1 p1) = ?h @ take (n - 4) p1" using assms(2) by (simp add: frame_def)
  have a1: "r = Err WouldBlock OsMessage" "tx (tc_tcp a1) = ?h @ take (n - 4) p1"
    using assms(1,3-9) part by (auto simp: tcp_con_send_eq stream_write_all_def)
  then have "tx (tc_tcp a2) = ?h @ take (n - 4) p1 @ frame mid2 p2" using assms(10) by (simp add: tcp_con_send_Ok)
  also have "\<dots> = ?h @ ?q @ drop (length p1 + 4 - n) (frame mid2 p2)" by simp
  finally have q: "tx (tc_tcp a2) = ?h @ ?q @ drop (length p1 + 4 - n) (frame mid2 p2)" .
  have len: "length ?q = length p1" using assms(2,3,13) by simp
  then have "rx (tc_tcp b) = frame mid1 ?q @ drop (length p1 + 4 - n) (frame mid2 p2)"
    using assms(14) q by (simp add: frame_def)
  moreover have "fits (tcp_max_msg_size b) (mid1, ?q)" using assms(12) len by (simp add: fits_def)
  ultimately show ?thesis using recv_frame [OF assms(11)] a1(1) by fastforce
qed

text \<open>
  C40: With a maximum message size above 65535 (which the configuration allows) a payload of
  65536 bytes or more is sent whole behind a header that announces its length modulo 65536: the
  receiver takes the cut payload for the message and its remainder for the next header.
\<close>

theorem tcp_send_truncates_length:
  assumes "tcp_con_send mid payload a = (Ok (), a')" "tx (tc_tcp a) = []"
    and "65536 \<le> length payload" "mid < 65536"
    and "wf_con b" "rx (tc_tcp b) = tx (tc_tcp a')" "length payload mod 65536 \<le> tcp_max_msg_size b"
  shows "fst (tcp_con_recv b) = Ok (mid, take (length payload mod 65536) payload) \<and>
    rx (tc_tcp (snd (tcp_con_recv b))) = drop (length payload mod 65536) payload"
proof -
  let ?n = "length payload mod 65536"
  have "tcp_to_be_bytes (tcp_header_new mid (length payload)) = tcp_to_be_bytes (tcp_header_new mid ?n)"
  proof -
    have "(word_of_nat (length payload) :: u16) = word_of_nat ?n"
      by (simp add: word_unat_eq_iff unat_of_nat)
    then show ?thesis by (simp only: tcp_to_be_bytes_def tcp_header_new_def tcp_header.simps)
  qed
  moreover have "length (take ?n payload) = ?n" by (simp add: min_def)
  ultimately have "frame mid payload = frame mid (take ?n payload) @ drop ?n payload"
    by (simp add: frame_def)
  moreover have "rx (tc_tcp b) = frame mid payload"
    using assms(1,2,6) by (simp add: tcp_con_send_Ok)
  ultimately have "rx (tc_tcp b) = frame mid (take ?n payload) @ drop ?n payload" by simp
  from recv_frame [OF assms(5) this] show ?thesis
    using assms(4,7) \<open>length (take ?n payload) = ?n\<close> by (auto simp: fits_def)
qed

definition big_con :: tcp_con where
  "big_con = tcp_from_stream (demo_stream\<lparr>tx_room := 200000\<rparr>) 100000"

theorem tcp_send_truncates_length_witness:
  "\<exists>b. fst (tcp_con_recv b) = Ok (3, [0, 0])"
proof -
  let ?p = "replicate 65538 0 :: byte list"
  let ?a' = "snd (tcp_con_send 3 ?p big_con)"
  let ?b = "big_con\<lparr>tc_tcp := demo_stream\<lparr>rx := tx (tc_tcp ?a')\<rparr>\<rparr>"
  have "tcp_con_send 3 ?p big_con = (Ok (), ?a')"
    by (simp add: tcp_con_send_eq stream_write_all_def big_con_def demo_stream_def
      tcp_buff_size_def tcp_from_stream_def)
  moreover have "tx (tc_tcp big_con) = []" "wf_con ?b" "tcp_max_msg_size ?b = 100000"
    by (simp_all add: big_con_def demo_stream_def wf_con_def tcp_max_msg_size_def tcp_from_stream_def)
  ultimately have "fst (tcp_con_recv ?b) = Ok (3, take 2 ?p)"
    using tcp_send_truncates_length [of 3 ?p big_con ?a' ?b] by simp
  moreover have "take 2 ?p = [0, 0]" by (simp add: numeral_2_eq_2)
  ultimately show ?thesis by metis
qed

end
