(* ===== verification/Udp.thy ===== *)
theory Udp
  imports Sockets Sources
begin

text \<open>
  \<open>src/udp.rs\<close>: messages as UDP datagrams, one per datagram. The buffer is used for receiving
  only and is never cleared, so a datagram shorter than a header leaves bytes of an earlier one in
  front of it. The invariant \<open>wf_ucon\<close> is the buffer's size.
\<close>

record udp_con =
  uc_buff :: "byte list"
  uc_udp :: udp_socket

definition udp_con_new :: "os \<Rightarrow> sock_addr \<Rightarrow> sock_addr option \<Rightarrow> nat \<Rightarrow> udp_con res" where
  "udp_con_new sys local peer max_msg_size =
     and_then (os_udp_bind sys local) (\<lambda>udp.
     and_then (case peer of Some peer \<Rightarrow> os_udp_connect sys peer udp | None \<Rightarrow> Ok udp) (\<lambda>udp.
     and_then (case socket_set_nonblocking True udp of (r, udp) \<Rightarrow> and_then r (\<lambda>_. Ok udp)) (\<lambda>udp.
     Ok \<lparr>uc_buff = replicate (max_msg_size + UDP_HEADER_LEN) 0, uc_udp = udp\<rparr>)))"

definition udp_buff_size :: "udp_con \<Rightarrow> nat" where
  "udp_buff_size c = length (uc_buff c)"

definition udp_max_msg_size :: "udp_con \<Rightarrow> nat" where
  "udp_max_msg_size c = length (uc_buff c) - TCP_HEADER_LEN"

text \<open>
  \<open>send_shared\<close>, called at system time \<open>now\<close>. Above \<open>MAX_SAFE_MESSAGE_SIZE\<close> the code logs
  and sends anyway.
\<close>

definition udp_send_shared :: "int \<Rightarrow> mid \<Rightarrow> byte list \<Rightarrow> udp_con \<Rightarrow> byte list res" where
  "udp_send_shared now mid payload c =
     (let total_len = length payload + UDP_HEADER_LEN;
          buff = replicate total_len 0
      in if total_len > udp_buff_size c
         then Err InvalidData (MsgTooLarge (udp_max_msg_size c) mid total_len)
         else
           and_then (udp_header_new now mid) (\<lambda>header.
             let h_bytes = udp_to_be_bytes header
             in and_then (store_at 0 h_bytes buff) (store_at UDP_HEADER_LEN payload)))"

text \<open>A short write of a datagram is only logged: both methods return \<open>Ok\<close> whatever \<open>n\<close> is.\<close>

definition udp_con_send_to ::
    "int \<Rightarrow> sock_addr \<Rightarrow> mid \<Rightarrow> byte list \<Rightarrow> udp_con \<Rightarrow> unit res \<times> udp_con" where
  "udp_con_send_to now addr mid payload c =
     (case udp_send_shared now mid payload c of
        Inl e \<Rightarrow> (Inl e, c)
      | Inr buff \<Rightarrow>
          (case socket_send_to buff addr (uc_udp c) of
             (r, s) \<Rightarrow> (and_then r (\<lambda>n. Ok ()), c\<lparr>uc_udp := s\<rparr>)))"

definition udp_con_send :: "int \<Rightarrow> mid \<Rightarrow> byte list \<Rightarrow> udp_con \<Rightarrow> unit res \<times> udp_con" where
  "udp_con_send now mid payload c =
     (case udp_send_shared now mid payload c of
        Inl e \<Rightarrow> (Inl e, c)
      | Inr buff \<Rightarrow>
          (case socket_send buff (uc_udp c) of
             (r, s) \<Rightarrow> (and_then r (\<lambda>n. Ok ()), c\<lparr>uc_udp := s\<rparr>)))"

definition udp_recv_shared :: "bool \<Rightarrow> int \<Rightarrow> nat \<Rightarrow> udp_con \<Rightarrow> (mid \<times> u32 \<times> byte list) res" where
  "udp_recv_shared oc now n c =
     (if n = 0 then Err NotConnected UdpDropped
      else
        and_then (slice 0 UDP_HEADER_LEN (uc_buff c)) (\<lambda>h_bytes.
        and_then (udp_from_be_bytes oc now h_bytes) (\<lambda>header.
        and_then (slice UDP_HEADER_LEN n (uc_buff c)) (\<lambda>payload.
        Ok (uh_mid header, uh_time header, payload)))))"

definition udp_con_recv_from ::
    "bool \<Rightarrow> udp_con \<Rightarrow> (sock_addr \<times> mid \<times> u32 \<times> byte list) res \<times> udp_con" where
  "udp_con_recv_from oc c =
     (case socket_recv_from (uc_buff c) (uc_udp c) of
        (r, buff, s) \<Rightarrow>
          let c = c\<lparr>uc_buff := buff, uc_udp := s\<rparr>
          in (and_then r (\<lambda>(n, src, now).
                and_then (udp_recv_shared oc now n c) (\<lambda>(mid, time, bytes).
                Ok (src, mid, time, bytes))), c))"

definition udp_con_recv :: "bool \<Rightarrow> udp_con \<Rightarrow> (mid \<times> u32 \<times> byte list) res \<times> udp_con" where
  "udp_con_recv oc c =
     (case socket_recv_from (uc_buff c) (uc_udp c) of
        (r, buff, s) \<Rightarrow>
          let c = c\<lparr>uc_buff := buff, uc_udp := s\<rparr>
          in (and_then r (\<lambda>(n, src, now). udp_recv_shared oc now n c), c))"

definition udp_con_set_nonblocking :: "bool \<Rightarrow> udp_con \<Rightarrow> unit res \<times> udp_con" where
  "udp_con_set_nonblocking b c =
     (case socket_set_nonblocking b (uc_udp c) of (r, s) \<Rightarrow> (r, c\<lparr>uc_udp := s\<rparr>))"

definition udp_con_peer_addr :: "udp_con \<Rightarrow> sock_addr res" where
  "udp_con_peer_addr c = name_res (u_peer (uc_udp c))"

definition udp_con_local_addr :: "udp_con \<Rightarrow> sock_addr res" where
  "udp_con_local_addr c = name_res (u_local (uc_udp c))"

section \<open>Datagrams\<close>

definition wf_ucon :: "udp_con \<Rightarrow> bool" where
  "wf_ucon c \<longleftrightarrow> UDP_HEADER_LEN \<le> length (uc_buff c)"

definition stamp :: "int \<Rightarrow> u32" where
  "stamp now = word_of_int (now div 1000000)"

definition datagram :: "mid \<Rightarrow> u32 \<Rightarrow> byte list \<Rightarrow> byte list" where
  "datagram mid time payload = udp_to_be_bytes \<lparr>uh_mid = mid, uh_time = time\<rparr> @ payload"

lemma length_datagram [simp]: "length (datagram mid time payload) = length payload + 4"
  by (simp add: datagram_def)

lemma udp_send_shared_eq:
  "udp_send_shared now mid payload c =
     (if length payload + 4 > udp_buff_size c
      then Err InvalidData (MsgTooLarge (udp_max_msg_size c) mid (length payload + 4))
      else if now < 0 then panics ClockBeforeEpoch
      else Ok (datagram mid (stamp now) payload))"
proof -
  have store: "and_then (store_at 0 h (replicate (length payload + 4) 0)) (store_at 4 payload) = Ok (h @ payload)"
    if "length h = 4" for h :: "byte list"
    using that by (simp add: store_at_in_range)
  show ?thesis
  proof (cases "now < 0")
    case True
    then show ?thesis by (simp add: udp_send_shared_def Let_def udp_header_new_def unix_millis_def)
  next
    case False
    then have "udp_header_new now mid = Ok \<lparr>uh_mid = mid, uh_time = stamp now\<rparr>"
      by (simp add: udp_header_new_def unix_millis_nonneg stamp_def)
    then show ?thesis using False
      unfolding udp_send_shared_def Let_def datagram_def
      by (simp only: and_then.simps store [OF length_udp_to_be_bytes] if_False)
  qed
qed

text \<open>Sending only acts on the socket.\<close>

lemma udp_con_send_frame:
  "udp_con_send now mid payload c = (r, c') \<Longrightarrow> \<exists>s. c' = c\<lparr>uc_udp := s\<rparr>"
proof -
  have "\<exists>s. c = c\<lparr>uc_udp := s\<rparr>" by (rule exI [of _ "uc_udp c"]) simp
  then show "udp_con_send now mid payload c = (r, c') \<Longrightarrow> \<exists>s. c' = c\<lparr>uc_udp := s\<rparr>"
    by (auto simp: udp_con_send_def split: sum.splits prod.splits)
qed

text \<open>Receiving, by the next event of the socket and the length of the datagram.\<close>

lemma recv_shared_long:
  assumes "4 \<le> n" "n \<le> length (uc_buff c)"
  shows "udp_recv_shared oc now n c =
    and_then (udp_from_be_bytes oc now (take 4 (uc_buff c)))
      (\<lambda>h. Ok (uh_mid h, uh_time h, take (n - 4) (drop 4 (uc_buff c))))"
  using assms by (simp add: udp_recv_shared_def slice_def)

lemma udp_from_be_bytes_fails:
  assumes "length bs = 4"
  shows "udp_from_be_bytes oc now bs = Inl e \<Longrightarrow> \<exists>p. e = Panic p"
  using assms
  by (auto simp: udp_from_be_bytes_def res_simps reconstruct_millis_def unix_millis_def
    reconstruct_nat Let_def split: if_splits)

lemma recv_shared_short:
  assumes "0 < n" "n < 4" "4 \<le> length (uc_buff c)"
  shows "is_panic (udp_recv_shared oc now n c)"
proof (cases "udp_from_be_bytes oc now (take 4 (uc_buff c))")
  case (Inl e)
  then show ?thesis using assms udp_from_be_bytes_fails [of "take 4 (uc_buff c)" oc now e]
    by (auto simp: udp_recv_shared_def slice_def)
next
  case (Inr h)
  then show ?thesis using assms by (simp add: udp_recv_shared_def slice_def)
qed

lemma socket_recv_from_buff:
  "socket_recv_from buff s = (r, buff', s') \<Longrightarrow> length buff' = length buff \<and>
     (case urx s of [] \<Rightarrow> s' = s | _ # es \<Rightarrow> s' = s\<lparr>urx := es\<rparr>)"
  by (auto simp: socket_recv_from_def Let_def split: list.splits udp_event.splits)

text \<open>Every call consumes one event; only an empty queue gives \<open>WouldBlock\<close> from the socket.\<close>

lemma udp_con_recv_frame:
  assumes "udp_con_recv oc c = (r, c')"
  shows "length (uc_buff c') = length (uc_buff c)"
    "uc_udp c' = (uc_udp c)\<lparr>urx := tl (urx (uc_udp c))\<rparr>"
  using assms socket_recv_from_buff [of "uc_buff c" "uc_udp c"]
  by (auto simp: udp_con_recv_def Let_def split: prod.splits list.splits)

lemma udp_con_recv_from_frame:
  assumes "udp_con_recv_from oc c = (r, c')"
  shows "length (uc_buff c') = length (uc_buff c)"
    "uc_udp c' = (uc_udp c)\<lparr>urx := tl (urx (uc_udp c))\<rparr>"
  using assms socket_recv_from_buff [of "uc_buff c" "uc_udp c"]
  by (auto simp: udp_con_recv_from_def Let_def split: prod.splits list.splits)

lemma udp_con_recv_urx [simp]:
  "urx (uc_udp (snd (udp_con_recv oc c))) = tl (urx (uc_udp c))"
  "urx (uc_udp (snd (udp_con_recv_from oc c))) = tl (urx (uc_udp c))"
proof -
  show "urx (uc_udp (snd (udp_con_recv oc c))) = tl (urx (uc_udp c))"
    by (cases "udp_con_recv oc c") (simp add: udp_con_recv_frame(2))
  show "urx (uc_udp (snd (udp_con_recv_from oc c))) = tl (urx (uc_udp c))"
    by (cases "udp_con_recv_from oc c") (simp add: udp_con_recv_from_frame(2))
qed

lemma recv_from_empty:
  "urx (uc_udp c) = [] \<Longrightarrow> udp_con_recv_from oc c = (Err WouldBlock OsMessage, c)"
  by (simp add: udp_con_recv_from_def socket_recv_from_def)

lemma recv_empty:
  "urx (uc_udp c) = [] \<Longrightarrow> udp_con_recv oc c = (Err WouldBlock OsMessage, c)"
  by (simp add: udp_con_recv_def socket_recv_from_def)

text \<open>A message in time: sent as a datagram whose stamp the receiver can complete.\<close>

definition fresh :: "bool \<Rightarrow> int \<Rightarrow> u32 \<Rightarrow> bool" where
  "fresh oc now time \<longleftrightarrow> 0 \<le> now \<and> unat (stamp now - time) < 65536 \<and> (oc \<longrightarrow> time \<le> stamp now)"

lemma fresh_reconstruct:
  "fresh oc now time \<Longrightarrow> reconstruct_millis oc now (ucast time) = Ok time"
  by (simp add: fresh_def reconstruct_millis_def unix_millis_nonneg stamp_def stamp_in_window_iff)

lemma datagram_decode:
  assumes "fresh oc now time" "mid < 65536"
  shows "udp_from_be_bytes oc now (take 4 (datagram mid time payload @ rest)) =
    Ok \<lparr>uh_mid = mid, uh_time = time\<rparr>"
proof -
  have "take 4 (datagram mid time payload @ rest) = udp_to_be_bytes \<lparr>uh_mid = mid, uh_time = time\<rparr>"
    by (simp add: datagram_def)
  then show ?thesis
    using assms by (simp only: udp_header_decode_encode udp_header.simps fresh_reconstruct and_then.simps) simp
qed

lemma recv_shared_datagram:
  assumes "wf_ucon c" "fresh oc now time" "mid < 65536" "length payload + 4 \<le> length (uc_buff c)"
  shows "udp_recv_shared oc now (length payload + 4)
      (c\<lparr>uc_buff := fill_front (datagram mid time payload) (uc_buff c), uc_udp := s\<rparr>) =
    Ok (mid, time, payload)"
proof -
  let ?c = "c\<lparr>uc_buff := fill_front (datagram mid time payload) (uc_buff c), uc_udp := s\<rparr>"
  have "udp_from_be_bytes oc now (take 4 (uc_buff ?c)) = Ok \<lparr>uh_mid = mid, uh_time = time\<rparr>"
    using datagram_decode [OF assms(2,3), of payload] by (simp add: fill_front_def)
  moreover have "take (length payload) (drop 4 (uc_buff ?c)) = payload"
    by (simp add: fill_front_def datagram_def)
  ultimately show ?thesis
    using assms(4) by (subst recv_shared_long) simp_all
qed

lemma recv_from_datagram:
  assumes "wf_ucon c" "urx (uc_udp c) = Datagram src (datagram mid time payload) now # es"
    and "fresh oc now time" "mid < 65536" "length payload + 4 \<le> length (uc_buff c)"
  shows "\<exists>buff. length buff = length (uc_buff c) \<and> udp_con_recv_from oc c =
    (Ok (src, mid, time, payload), c\<lparr>uc_buff := buff, uc_udp := (uc_udp c)\<lparr>urx := es\<rparr>\<rparr>)"
  using recv_shared_datagram [OF assms(1,3-5)] assms(2,5)
  by (intro exI [of _ "fill_front (datagram mid time payload) (uc_buff c)"])
    (simp add: udp_con_recv_from_def socket_recv_from_def Let_def)

lemma recv_datagram:
  assumes "wf_ucon c" "urx (uc_udp c) = Datagram src (datagram mid time payload) now # es"
    and "fresh oc now time" "mid < 65536" "length payload + 4 \<le> length (uc_buff c)"
  shows "\<exists>buff. length buff = length (uc_buff c) \<and> udp_con_recv oc c =
    (Ok (mid, time, payload), c\<lparr>uc_buff := buff, uc_udp := (uc_udp c)\<lparr>urx := es\<rparr>\<rparr>)"
  using recv_shared_datagram [OF assms(1,3-5)] assms(2,5)
  by (intro exI [of _ "fill_front (datagram mid time payload) (uc_buff c)"])
    (simp add: udp_con_recv_def socket_recv_from_def Let_def)

section \<open>A socket with intact datagrams is a source of messages\<close>

definition event_of :: "bool \<Rightarrow> nat \<Rightarrow> udp_event \<Rightarrow> sock_addr \<times> mid \<times> u32 \<times> byte list \<Rightarrow> bool" where
  "event_of oc max_size ev m = (case m of (src, mid, time, payload) \<Rightarrow>
     mid < 65536 \<and> length payload + 4 \<le> max_size \<and>
     (\<exists>now. ev = Datagram src (datagram mid time payload) now \<and> fresh oc now time))"

definition holds_datagrams :: "bool \<Rightarrow> udp_con \<Rightarrow> (sock_addr \<times> mid \<times> u32 \<times> byte list) list \<Rightarrow> bool" where
  "holds_datagrams oc c ms \<longleftrightarrow> wf_ucon c \<and> list_all2 (event_of oc (length (uc_buff c))) (urx (uc_udp c)) ms"

lemma holds_datagrams_recv_from:
  assumes "holds_datagrams oc c (m # ms)"
  shows "\<exists>c'. udp_con_recv_from oc c = (Ok m, c') \<and> holds_datagrams oc c' ms"
proof -
  obtain src mid time payload where m: "m = (src, mid, time, payload)" by (metis prod_cases4)
  obtain ev es where ev: "urx (uc_udp c) = ev # es" "event_of oc (length (uc_buff c)) ev m"
      "list_all2 (event_of oc (length (uc_buff c))) es ms" "wf_ucon c"
    using assms by (auto simp: holds_datagrams_def list_all2_Cons2)
  then obtain now where "urx (uc_udp c) = Datagram src (datagram mid time payload) now # es"
      "fresh oc now time" "mid < 65536" "length payload + 4 \<le> length (uc_buff c)"
    by (auto simp: event_of_def m)
  from recv_from_datagram [OF ev(4) this] show ?thesis
    using ev by (auto simp: holds_datagrams_def wf_ucon_def m)
qed

lemma holds_datagrams_recv:
  assumes "holds_datagrams oc c ((src, mid, time, payload) # ms)"
  shows "\<exists>c'. udp_con_recv oc c = (Ok (mid, time, payload), c') \<and> holds_datagrams oc c' ms"
proof -
  obtain ev es where ev: "urx (uc_udp c) = ev # es"
      "event_of oc (length (uc_buff c)) ev (src, mid, time, payload)"
      "list_all2 (event_of oc (length (uc_buff c))) es ms" "wf_ucon c"
    using assms by (auto simp: holds_datagrams_def list_all2_Cons2)
  then obtain now where "urx (uc_udp c) = Datagram src (datagram mid time payload) now # es"
      "fresh oc now time" "mid < 65536" "length payload + 4 \<le> length (uc_buff c)"
    by (auto simp: event_of_def)
  from recv_datagram [OF ev(4) this] show ?thesis
    using ev by (auto simp: holds_datagrams_def wf_ucon_def)
qed

lemma holds_datagrams_Nil:
  "holds_datagrams oc c [] \<Longrightarrow> urx (uc_udp c) = []"
  by (simp add: holds_datagrams_def)

interpretation udp_src: message_source "udp_con_recv_from oc" "holds_datagrams oc" for oc
  by unfold_locales (use holds_datagrams_recv_from holds_datagrams_Nil recv_from_empty in blast)+

section \<open>Properties of a UDP connection\<close>

text \<open>
  A message sent over UDP and received within 65536 ms arrives with its sender's address, its
  id, the full time stamp of its sending, and its payload.
\<close>

lemma udp_delivers:
  assumes "udp_con_send_to sent addr mid payload a = (Ok (), a')"
    and "utx (uc_udp a') = utx (uc_udp a) @ [(addr, bs)]"
    and "wf_ucon b" "urx (uc_udp b) = Datagram src bs recvd # es" "length bs \<le> length (uc_buff b)"
    and "mid < 65536" "fresh oc recvd (stamp sent)"
  shows "\<exists>b'. udp_con_recv_from oc b = (Ok (src, mid, stamp sent, payload), b') \<and> urx (uc_udp b') = es"
proof -
  have "bs = datagram mid (stamp sent) payload"
    using assms(1,2)
    by (auto simp: udp_con_send_to_def udp_send_shared_eq socket_send_to_def res_simps
        split: if_splits option.splits)
  then show ?thesis
    using recv_from_datagram [OF assms(3), of src mid "stamp sent" payload recvd es oc] assms(4-7) by auto
qed

definition demo_socket :: udp_socket where
  "demo_socket = \<lparr>urx = [], utx = [], utx_fault = None, u_nonblocking = True,
     u_peer = None, u_local = Some (SockAddr 1 7777)\<rparr>"

definition demo_ucon :: udp_con where
  "demo_ucon = \<lparr>uc_buff = replicate 20 0, uc_udp = demo_socket\<rparr>"

text \<open>
  C39: Exactly when receiving a datagram panics. A datagram of 1, 2 or 3 bytes always does (its
  payload slice starts behind its end), whoever sent it; a longer one does only if the clock is
  before the epoch or, with overflow checks, if its time stamp reaches back over the wrap of the
  millisecond counter. An empty one is an error.
\<close>

theorem udp_recv_panics_iff:
  assumes "wf_ucon c" "urx (uc_udp c) = Datagram src bs now # es"
  shows "is_panic (fst (udp_con_recv_from oc c)) \<longleftrightarrow>
    0 < length bs \<and> (length bs < 4 \<or> now < 0 \<or>
      (oc \<and> unat (stamp now) < unat (u16_from_be_bytes (take 2 (drop 2 bs)))))"
proof -
  define got where "got = take (length (uc_buff c)) bs"
  let ?c = "c\<lparr>uc_buff := fill_front got (uc_buff c), uc_udp := (uc_udp c)\<lparr>urx := es\<rparr>\<rparr>"
  have panic: "is_panic (fst (udp_con_recv_from oc c)) \<longleftrightarrow> is_panic (udp_recv_shared oc now (length got) ?c)"
    using assms(2) by (cases "udp_recv_shared oc now (length got) ?c")
      (auto simp: udp_con_recv_from_def socket_recv_from_def Let_def got_def)
  have buff: "length (uc_buff ?c) = length (uc_buff c)" by (simp add: got_def)
  consider "bs = []" | "0 < length bs" "length bs < 4" | "4 \<le> length bs" by force
  then show ?thesis
  proof cases
    case 1
    then show ?thesis unfolding panic by (simp add: got_def udp_recv_shared_def)
  next
    case 2
    then have "length got = length bs" using assms(1) by (simp add: got_def wf_ucon_def)
    then show ?thesis
      unfolding panic using 2 recv_shared_short [of "length got" ?c oc now] assms(1) buff
      by (simp add: wf_ucon_def)
  next
    case 3
    then have len: "4 \<le> length got" using assms(1) by (simp add: got_def wf_ucon_def)
    have front: "take 4 (uc_buff ?c) = take 4 bs"
      using assms(1) len by (simp add: fill_front_def got_def wf_ucon_def min_def)
    have "udp_recv_shared oc now (length got) ?c = and_then (udp_from_be_bytes oc now (take 4 bs))
        (\<lambda>h. Ok (uh_mid h, uh_time h, take (length got - 4) (drop 4 (uc_buff ?c))))"
      using len buff front by (subst recv_shared_long) (simp_all add: got_def)
    moreover have "is_panic (udp_from_be_bytes oc now (take 4 bs)) \<longleftrightarrow>
        is_panic (reconstruct_millis oc now (u16_from_be_bytes (take 2 (drop 2 bs))))"
      using 3 by (simp add: udp_from_be_bytes_def Let_def is_panic_and_then drop_take)
    ultimately show ?thesis
      unfolding panic using 3 by (auto simp: is_panic_and_then reconstruct_millis_panic stamp_def)
  qed
qed

theorem udp_recv_panics_iff_witness:
  "is_panic (fst (udp_con_recv_from False (demo_ucon\<lparr>uc_udp := demo_socket\<lparr>
     urx := [Datagram (SockAddr 6 6) [0] 1700000030000000000]\<rparr>\<rparr>)))"
  by (subst udp_recv_panics_iff [of _ "SockAddr 6 6" "[0]" 1700000030000000000 "[]"])
    (simp_all add: wf_ucon_def demo_ucon_def)

end
