(* ===== verification/Client.thy ===== *)
theory Client
  imports Decode Tcp Udp
begin

text \<open>
  \<open>src/client.rs\<close>: a client with one TCP and one UDP connection to its server. Sending goes
  through the socket's own state, so methods that take \<open>&self\<close> and send return the new state
  too. The \<open>u32\<close> count of \<open>recv_msgs\<close> wraps in either build, where one with overflow checks
  would panic after \<open>2 ^ 32\<close> messages in one call. \<open>oc\<close> says whether the crate is built with overflow checks,
  \<open>now\<close> is the system time at a call.
\<close>

record 'v client =
  cl_config :: net_config
  cl_status :: "'v status"
  cl_msg_buff :: "'v msg_buff"
  cl_tcp :: tcp_con
  cl_udp :: udp_con
  cl_parts :: "'v parts"

section \<open>Sending and receiving one message\<close>

definition client_send_tcp :: "mid \<Rightarrow> byte list \<Rightarrow> 'v client \<Rightarrow> unit res \<times> 'v client" where
  "client_send_tcp mid payload cl =
     (case tcp_con_send mid payload (cl_tcp cl) of (r, t) \<Rightarrow> (r, cl\<lparr>cl_tcp := t\<rparr>))"

definition client_send_udp :: "int \<Rightarrow> mid \<Rightarrow> byte list \<Rightarrow> 'v client \<Rightarrow> unit res \<times> 'v client" where
  "client_send_udp now mid payload cl =
     (case udp_con_send now mid payload (cl_udp cl) of (r, u) \<Rightarrow> (r, cl\<lparr>cl_udp := u\<rparr>))"

definition client_recv_tcp :: "'v client \<Rightarrow> (mid \<times> 'v erased_net_msg) res \<times> 'v client" where
  "client_recv_tcp cl =
     (case tcp_con_recv (cl_tcp cl) of
        (Inl e, t) \<Rightarrow> (Inl e, cl\<lparr>cl_tcp := t\<rparr>)
      | (Inr (mid, bytes), t) \<Rightarrow> (decode_msg (cl_parts cl) 0 None mid bytes, cl\<lparr>cl_tcp := t\<rparr>))"

definition client_recv_udp :: "bool \<Rightarrow> 'v client \<Rightarrow> (mid \<times> 'v erased_net_msg) res \<times> 'v client" where
  "client_recv_udp oc cl =
     (case udp_con_recv oc (cl_udp cl) of
        (Inl e, u) \<Rightarrow> (Inl e, cl\<lparr>cl_udp := u\<rparr>)
      | (Inr (mid, time, bytes), u) \<Rightarrow>
          (decode_msg (cl_parts cl) 0 (Some time) mid bytes, cl\<lparr>cl_udp := u\<rparr>))"

definition client_get_config :: "'v client \<Rightarrow> net_config" where
  "client_get_config cl = cl_config cl"

definition client_get_status :: "'v client \<Rightarrow> 'v status" where
  "client_get_status cl = cl_status cl"

definition client_open :: "'v client \<Rightarrow> bool" where
  "client_open cl = connected (client_get_status cl)"

text \<open>
  \<open>send\<close>: look the type up, encode, send over the transport of the type. The error of the
  encoder is replaced by its own.
\<close>

fun map_ser_error :: "byte list res \<Rightarrow> byte list res" where
  "map_ser_error (Inl (IoErr _)) = Err InvalidData SerializationError"
| "map_ser_error (Inl (Panic p)) = panics p"
| "map_ser_error (Inr b) = Ok b"

definition client_send :: "int \<Rightarrow> 'v any \<Rightarrow> 'v client \<Rightarrow> unit res \<times> 'v client" where
  "client_send now msg cl =
     (let tid = any_tid msg; parts = cl_parts cl in
      if \<not> valid_tid parts tid then (Err InvalidData TypeNotRegistered, cl)
      else
        case and_then (hash_index (tid_map parts) tid) (\<lambda>mid.
             and_then (index (transports parts) mid) (\<lambda>transport.
             and_then (index (ser parts) mid) (\<lambda>ser_fn.
             and_then (map_ser_error (ser_fn msg)) (\<lambda>b. Ok (mid, transport, b))))) of
          Inl e \<Rightarrow> (Inl e, cl)
        | Inr (mid, transport, b) \<Rightarrow>
            (case transport of
               TCP \<Rightarrow> client_send_tcp mid b cl
             | UDP \<Rightarrow> client_send_udp now mid b cl))"

text \<open>\<open>disconnect\<close>: the index \<open>tid_map[&tid]\<close> panics for a type that is not registered.\<close>

definition client_disconnect :: "int \<Rightarrow> 'v any \<Rightarrow> 'v client \<Rightarrow> unit res \<times> 'v client" where
  "client_disconnect now discon_msg cl =
     (case hash_index (tid_map (cl_parts cl)) (any_tid discon_msg) of
        Inl e \<Rightarrow> (Inl e, cl)
      | Inr mid \<Rightarrow>
          if mid \<noteq> DISCONNECT_TYPE_MID then (Err InvalidData NotDisconnectType, cl)
          else
            and_then_st (client_send now discon_msg cl) (\<lambda>_ cl.
            and_then_st (case tcp_con_close (cl_tcp cl) of (r, t) \<Rightarrow> (r, cl\<lparr>cl_tcp := t\<rparr>)) (\<lambda>_ cl.
            (Ok (), cl\<lparr>cl_status := Closed\<rparr>))))"

section \<open>Connecting\<close>

text \<open>
  \<open>new_blocking\<close>. The response is awaited on the still blocking stream: \<open>os_await\<close> adds
  what arrives by then.
\<close>

definition client_await :: "os \<Rightarrow> 'v client \<Rightarrow> 'v client" where
  "client_await sys cl = cl\<lparr>cl_tcp := (cl_tcp cl)\<lparr>tc_tcp := os_await sys (tc_tcp (cl_tcp cl))\<rparr>\<rparr>"

definition client_new_blocking ::
    "os \<Rightarrow> int \<Rightarrow> sock_addr \<Rightarrow> 'v parts \<Rightarrow> net_config \<Rightarrow> 'v any \<Rightarrow> ('v client \<times> 'v any) res" where
  "client_new_blocking sys now peer parts config con_msg =
     and_then (os_connect sys peer) (\<lambda>stream.
     and_then (stream_set_read_timeout (cfg_timeout config) stream) (\<lambda>_.
     let tcp = tcp_from_stream stream (cfg_max_msg_size config) in
     and_then (unwrap_res (tcp_con_local_addr tcp)) (\<lambda>local_addr.
     and_then (unwrap_res (tcp_con_peer_addr tcp)) (\<lambda>peer.
     and_then (udp_con_new sys local_addr (Some peer) (cfg_max_msg_size config)) (\<lambda>udp.
     let client = \<lparr>cl_config = config, cl_status = Connected,
           cl_msg_buff = replicate (mid_count parts) [],
           cl_tcp = tcp, cl_udp = udp, cl_parts = parts\<rparr> in
     case client_send now con_msg client of
       (Inl e, _) \<Rightarrow> Inl e
     | (Inr _, client) \<Rightarrow>
     case client_recv_tcp (client_await sys client) of
       (Inl e, _) \<Rightarrow> Inl e
     | (Inr (mid, net_msg), client) \<Rightarrow>
         if mid \<noteq> RESPONSE_TYPE_MID then Err InvalidData (NotResponse mid)
         else
           case tcp_con_set_nonblocking True (cl_tcp client) of
             (Inl e, _) \<Rightarrow> Inl e
           | (Inr _, t) \<Rightarrow>
           case udp_con_set_nonblocking True (cl_udp client) of
             (Inl e, _) \<Rightarrow> Inl e
           | (Inr _, u) \<Rightarrow>
               Ok (client\<lparr>cl_tcp := t, cl_udp := u\<rparr>, em_msg net_msg))))))"

section \<open>Reading the message buffers\<close>

definition client_recv :: "type_id \<Rightarrow> 'v client \<Rightarrow> 'v net_msg list res" where
  "client_recv T cl =
     (if \<not> valid_tid (cl_parts cl) T then panics NotRegistered
      else and_then (hash_index (tid_map (cl_parts cl)) T) (\<lambda>mid.
           and_then (index (cl_msg_buff cl) mid) (typed_msgs T)))"

definition client_try_recv :: "type_id \<Rightarrow> 'v client \<Rightarrow> 'v net_msg list option res" where
  "client_try_recv T cl =
     (case tid_map (cl_parts cl) T of
        None \<Rightarrow> Ok None
      | Some mid \<Rightarrow> and_then (index (cl_msg_buff cl) mid) (\<lambda>ms. and_then (typed_msgs T ms) (\<lambda>ns. Ok (Some ns))))"

definition client_clear_msgs :: "'v client \<Rightarrow> 'v client" where
  "client_clear_msgs cl = cl\<lparr>cl_msg_buff := map (\<lambda>buff. []) (cl_msg_buff cl)\<rparr>"

definition client_local_addr :: "'v client \<Rightarrow> sock_addr res" where
  "client_local_addr cl = tcp_con_local_addr (cl_tcp cl)"

definition client_peer_addr :: "'v client \<Rightarrow> sock_addr res" where
  "client_peer_addr cl = tcp_con_peer_addr (cl_tcp cl)"

text \<open>\<open>Debug\<close> of a client, as \<open>{:?}\<close> prints it; the formats of its three fields are parameters.\<close>

definition client_fmt :: "('v status \<Rightarrow> string) \<Rightarrow> (sock_addr res \<Rightarrow> string) \<Rightarrow> 'v client \<Rightarrow> string" where
  "client_fmt show_status show_addr cl =
     ''Client { status: '' @ show_status (client_get_status cl) @
     '', local: '' @ show_addr (client_local_addr cl) @
     '', peer: '' @ show_addr (client_peer_addr cl) @ '' }''"

section \<open>The receive loops\<close>

lemma client_recv_tcp_frame:
  assumes "client_recv_tcp cl = (r, cl')"
  shows "cl' = cl\<lparr>cl_tcp := snd (tcp_con_recv (cl_tcp cl))\<rparr>"
    "r = Inr m \<Longrightarrow> length (rx (tc_tcp (cl_tcp cl'))) < length (rx (tc_tcp (cl_tcp cl)))"
  using assms tcp_con_recv_shrinks [of "cl_tcp cl"]
  by (auto simp: client_recv_tcp_def split: prod.splits sum.splits)

lemma client_recv_udp_frame:
  assumes "client_recv_udp oc cl = (r, cl')"
  shows "cl' = cl\<lparr>cl_udp := snd (udp_con_recv oc (cl_udp cl))\<rparr>"
    "urx (uc_udp (cl_udp cl)) = [] \<Longrightarrow> r = Err WouldBlock OsMessage"
    "urx (uc_udp (cl_udp cl')) = tl (urx (uc_udp (cl_udp cl)))"
proof -
  show frame: "cl' = cl\<lparr>cl_udp := snd (udp_con_recv oc (cl_udp cl))\<rparr>"
    using assms by (auto simp: client_recv_udp_def split: prod.splits sum.splits)
  show "urx (uc_udp (cl_udp cl)) = [] \<Longrightarrow> r = Err WouldBlock OsMessage"
    using assms recv_empty [of "cl_udp cl" oc] by (simp add: client_recv_udp_def)
  show "urx (uc_udp (cl_udp cl')) = tl (urx (uc_udp (cl_udp cl)))"
    unfolding frame by (simp add: udp_con_recv_urx)
qed

text \<open>The two loops of \<open>recv_msgs\<close>, over the count \<open>i\<close> and the client.\<close>

function client_tcp_loop :: "u32 \<times> 'v client \<Rightarrow> unit res \<times> u32 \<times> 'v client" where
  "client_tcp_loop (i, cl) =
     (if \<not> connected (cl_status cl) then (Ok (), i, cl)
      else case client_recv_tcp cl of
        (Inl (Panic p), cl') \<Rightarrow> (panics p, i, cl')
      | (Inl (IoErr e), cl') \<Rightarrow>
          if err_kind e = WouldBlock then (Ok (), i, cl')
          else client_tcp_loop (i, cl'\<lparr>cl_status := Dropped e\<rparr>)
      | (Inr (mid, net_msg), cl') \<Rightarrow>
          if mid = DISCONNECT_TYPE_MID
          then client_tcp_loop (i + 1, cl'\<lparr>cl_status := Disconnected (em_msg net_msg)\<rparr>)
          else (case push_msg mid net_msg (cl_msg_buff cl') of
                  Inl e \<Rightarrow> (Inl e, i + 1, cl')
                | Inr buff \<Rightarrow> client_tcp_loop (i + 1, cl'\<lparr>cl_msg_buff := buff\<rparr>)))"
  by pat_completeness auto
termination
proof (relation "measures [\<lambda>(i, cl). if connected (cl_status cl) then 1 else 0,
    \<lambda>(i, cl). length (rx (tc_tcp (cl_tcp cl)))]", goal_cases)
  case 1
  then show ?case by simp
next
  case (2 i cl x y e e')
  then show ?case by simp
next
  case (3 i cl x y m mid net_msg)
  then show ?case by simp
next
  case (4 i cl x y m mid net_msg buff)
  then have "client_recv_tcp cl = (Inr m, y)" by simp
  from client_recv_tcp_frame(1) [OF this] client_recv_tcp_frame(2) [OF this refl] show ?case
    using 4 by simp
qed

declare client_tcp_loop.simps [simp del]

function client_udp_loop :: "bool \<Rightarrow> u32 \<times> 'v client \<Rightarrow> unit res \<times> u32 \<times> 'v client" where
  "client_udp_loop oc (i, cl) =
     (if \<not> connected (cl_status cl) then (Ok (), i, cl)
      else case client_recv_udp oc cl of
        (Inl (Panic p), cl') \<Rightarrow> (panics p, i, cl')
      | (Inl (IoErr e), cl') \<Rightarrow>
          if err_kind e = WouldBlock then (Ok (), i, cl')
          else client_udp_loop oc (i, cl')
      | (Inr (mid, net_msg), cl') \<Rightarrow>
          (case push_msg mid net_msg (cl_msg_buff cl') of
             Inl e \<Rightarrow> (Inl e, i + 1, cl')
           | Inr buff \<Rightarrow> client_udp_loop oc (i + 1, cl'\<lparr>cl_msg_buff := buff\<rparr>)))"
  by pat_completeness auto
termination
proof (relation "measure (\<lambda>(oc, i, cl). length (urx (uc_udp (cl_udp cl))))", goal_cases)
  case 1
  then show ?case by simp
next
  case (2 oc i cl x y e e')
  then show ?case using client_recv_udp_frame [of oc cl x y]
    by (cases "urx (uc_udp (cl_udp cl))") auto
next
  case (3 oc i cl x y m mid net_msg buff)
  then show ?case using client_recv_udp_frame [of oc cl x y]
    by (cases "urx (uc_udp (cl_udp cl))") auto
qed

declare client_udp_loop.simps [simp del]

definition client_recv_msgs :: "bool \<Rightarrow> 'v client \<Rightarrow> u32 res \<times> 'v client" where
  "client_recv_msgs oc cl =
     (case client_tcp_loop (0, cl) of
        (Inl e, _, cl) \<Rightarrow> (Inl e, cl)
      | (Inr _, i, cl) \<Rightarrow>
          (case client_udp_loop oc (i, cl) of
             (Inl e, _, cl) \<Rightarrow> (Inl e, cl)
           | (Inr _, i, cl) \<Rightarrow> (Ok i, cl)))"

section \<open>The receive loops as drain loops\<close>

text \<open>
  A client holds the messages \<open>ms\<close> on its TCP connection when whole frames have arrived that
  decode to them, and on its UDP connection when intact datagrams have. It is offered them when
  the stream behind them need not be open.
\<close>

fun client_offers :: "tail \<Rightarrow> u32 \<times> 'v client \<Rightarrow> (mid \<times> 'v erased_net_msg) list \<Rightarrow> bool" where
  "client_offers st (i, cl) ms \<longleftrightarrow>
     (\<exists>frames. offers_frames st (cl_tcp cl) frames \<and> list_all2 (decoded (cl_parts cl) 0) frames ms)"

abbreviation client_holds :: "u32 \<times> 'v client \<Rightarrow> (mid \<times> 'v erased_net_msg) list \<Rightarrow> bool" where
  "client_holds \<equiv> client_offers (Tail [] RxOpen)"

fun client_holds_udp :: "bool \<Rightarrow> u32 \<times> 'v client \<Rightarrow> (mid \<times> 'v erased_net_msg) list \<Rightarrow> bool" where
  "client_holds_udp oc (i, cl) ms \<longleftrightarrow>
     (\<exists>ds. holds_datagrams oc (cl_udp cl) ds \<and> list_all2 (decoded_udp (cl_parts cl) 0) ds ms)"

fun client_rcv :: "u32 \<times> 'v client \<Rightarrow> (mid \<times> 'v erased_net_msg) res \<times> u32 \<times> 'v client" where
  "client_rcv (i, cl) = (case client_recv_tcp cl of (r, cl') \<Rightarrow> (r, i, cl'))"

fun client_rcv_udp :: "bool \<Rightarrow> u32 \<times> 'v client \<Rightarrow> (mid \<times> 'v erased_net_msg) res \<times> u32 \<times> 'v client" where
  "client_rcv_udp oc (i, cl) = (case client_recv_udp oc cl of (r, cl') \<Rightarrow> (r, i, cl'))"

text \<open>The handlers of the two loops, and what they do to count, status and buffers.\<close>

fun client_handle :: "mid \<times> 'v erased_net_msg \<Rightarrow> u32 \<times> 'v client \<Rightarrow> u32 \<times> 'v client" where
  "client_handle m (i, cl) =
     (i + 1, if is_disconnect m then cl\<lparr>cl_status := Disconnected (em_msg (snd m))\<rparr>
             else cl\<lparr>cl_msg_buff := push_eff m (cl_msg_buff cl)\<rparr>)"

fun client_handle_udp :: "mid \<times> 'v erased_net_msg \<Rightarrow> u32 \<times> 'v client \<Rightarrow> u32 \<times> 'v client" where
  "client_handle_udp m (i, cl) = (i + 1, cl\<lparr>cl_msg_buff := push_eff m (cl_msg_buff cl)\<rparr>)"

type_synonym 'v client_view = "u32 \<times> 'v status \<times> 'v msg_buff"

fun client_view :: "u32 \<times> 'v client \<Rightarrow> 'v client_view" where
  "client_view (i, cl) = (i, cl_status cl, cl_msg_buff cl)"

fun client_eff :: "mid \<times> 'v erased_net_msg \<Rightarrow> 'v client_view \<Rightarrow> 'v client_view" where
  "client_eff m (i, st, buff) =
     (i + 1, if is_disconnect m then Disconnected (em_msg (snd m)) else st,
      if is_disconnect m then buff else push_eff m buff)"

fun client_eff_udp :: "mid \<times> 'v erased_net_msg \<Rightarrow> 'v client_view \<Rightarrow> 'v client_view" where
  "client_eff_udp m (i, st, buff) = (i + 1, st, push_eff m buff)"

fun client_ready :: "nat \<Rightarrow> 'v client_view \<Rightarrow> bool" where
  "client_ready n (i, st, buff) \<longleftrightarrow> st = Connected \<and> length buff = n"

lemma client_offers_next:
  assumes "client_offers st s (m # ms)"
  shows "\<exists>s'. client_rcv s = (Ok m, s') \<and> client_offers st s' ms"
proof (cases s)
  case (Pair i cl)
  then obtain fr frames where f: "offers_frames st (cl_tcp cl) (fr # frames)" "decoded (cl_parts cl) 0 fr m"
      "list_all2 (decoded (cl_parts cl) 0) frames ms"
    using assms by (auto simp: list_all2_Cons2)
  then obtain t where t: "tcp_con_recv (cl_tcp cl) = (Ok fr, t)" "offers_frames st t frames"
    using offers_frames_step by blast
  have "client_recv_tcp cl = (Ok m, cl\<lparr>cl_tcp := t\<rparr>)"
    using t(1) f(2) by (simp add: client_recv_tcp_def decoded_def split_beta)
  then show ?thesis using f(3) t(2) Pair by (intro exI [of _ "(i, cl\<lparr>cl_tcp := t\<rparr>)"]) auto
qed

lemma client_holds_none:
  assumes "client_holds s []"
  shows "client_rcv s = (Err WouldBlock OsMessage, s)"
  using assms holds_frames_Nil [of "cl_tcp (snd s)"]
  by (cases s) (auto simp: client_recv_tcp_def)

lemma client_rcv_view: "client_view (snd (client_rcv s)) = client_view s"
  by (cases s; cases "client_recv_tcp (snd s)") (auto dest!: client_recv_tcp_frame(1))

lemma client_tcp_step:
  assumes "client_rcv s = (Ok m, s')" "client_ready n (client_view s)" "client_view s' = client_view s"
    "fst m < n"
  shows "client_tcp_loop s = (if is_disconnect m then (Ok (), client_handle m s') else client_tcp_loop (client_handle m s'))"
proof -
  obtain i cl cl' where s: "s = (i, cl)" "s' = (i, cl')" "client_recv_tcp cl = (Ok m, cl')"
    using assms(1) by (cases s) (auto split: prod.splits)
  obtain mid em where m: "m = (mid, em)" by (cases m)
  have v: "cl_status cl = Connected" "cl_status cl' = Connected" "mid < length (cl_msg_buff cl')"
    using assms(2-4) by (simp_all add: s m)
  show ?thesis
    using v s m
    by (simp add: client_tcp_loop.simps [of i cl] push_msg_in_range is_disconnect_def)
      (simp add: client_tcp_loop.simps)
qed

lemma client_tcp_blocked:
  assumes "client_rcv s = (Err WouldBlock k, s')" "client_ready n (client_view s)"
  shows "client_tcp_loop s = (Ok (), s')"
  using assms by (cases s) (auto simp: client_tcp_loop.simps split: prod.splits)

interpretation client_pre: drain_prefix client_rcv "client_offers st" client_tcp_loop is_disconnect
  client_handle client_view client_eff "client_ready n" "\<lambda>m. fst m < n" for st n
proof unfold_locales
  show "client_offers st (client_handle m s) ms" if "client_offers st s ms"
    for s ms and m :: "mid \<times> 'a erased_net_msg"
    using that by (cases s) auto
  show "client_view (client_handle m s) = client_eff m (client_view s)"
    for s and m :: "mid \<times> 'a erased_net_msg" by (cases s) simp
  show "client_ready n (client_eff m b)" if "client_ready n b" "\<not> is_disconnect m"
    for b and m :: "mid \<times> 'a erased_net_msg" using that by (cases b) simp
qed (use client_offers_next client_rcv_view client_tcp_step in fastforce)+

interpretation client_tcp: drain_loop client_rcv client_holds client_tcp_loop is_disconnect
  client_handle client_view client_eff "client_ready n" "\<lambda>m. fst m < n" for n
  by unfold_locales (use client_holds_none client_tcp_blocked in fastforce)+

lemma client_holds_udp_next:
  assumes "client_holds_udp oc s (m # ms)"
  shows "\<exists>s'. client_rcv_udp oc s = (Ok m, s') \<and> client_holds_udp oc s' ms"
proof (cases s)
  case (Pair i cl)
  then obtain src mid time bytes ds where d: "holds_datagrams oc (cl_udp cl) ((src, mid, time, bytes) # ds)"
      "decode_msg (cl_parts cl) 0 (Some time) mid bytes = Ok m"
      "list_all2 (decoded_udp (cl_parts cl) 0) ds ms"
    using assms by (auto simp: list_all2_Cons2 decoded_udp_def)
  then obtain u where u: "udp_con_recv oc (cl_udp cl) = (Ok (mid, time, bytes), u)" "holds_datagrams oc u ds"
    using holds_datagrams_recv by blast
  have "client_recv_udp oc cl = (Ok m, cl\<lparr>cl_udp := u\<rparr>)"
    using u(1) d(2) by (simp add: client_recv_udp_def)
  then show ?thesis using d(3) u(2) Pair by (intro exI [of _ "(i, cl\<lparr>cl_udp := u\<rparr>)"]) auto
qed

lemma client_holds_udp_none:
  assumes "client_holds_udp oc s []"
  shows "client_rcv_udp oc s = (Err WouldBlock OsMessage, s)"
  using assms holds_datagrams_Nil [of oc "cl_udp (snd s)"] recv_empty [of "cl_udp (snd s)" oc]
  by (cases s) (auto simp: client_recv_udp_def)

lemma client_rcv_udp_view: "client_view (snd (client_rcv_udp oc s)) = client_view s"
  by (cases s; cases "client_recv_udp oc (snd s)") (auto dest!: client_recv_udp_frame(1))

lemma client_udp_step:
  assumes "client_rcv_udp oc s = (Ok m, s')" "client_ready n (client_view s)"
    "client_view s' = client_view s" "fst m < n"
  shows "client_udp_loop oc s = client_udp_loop oc (client_handle_udp m s')"
proof -
  obtain i cl cl' where s: "s = (i, cl)" "s' = (i, cl')" "client_recv_udp oc cl = (Ok m, cl')"
    using assms(1) by (cases s) (auto split: prod.splits)
  obtain mid em where m: "m = (mid, em)" by (cases m)
  have "cl_status cl = Connected" "mid < length (cl_msg_buff cl')"
    using assms(2-4) by (simp_all add: s m)
  then show ?thesis
    using s m by (simp add: client_udp_loop.simps [of oc i cl] push_msg_in_range)
qed

lemma client_udp_blocked:
  assumes "client_rcv_udp oc s = (Err WouldBlock k, s')" "client_ready n (client_view s)"
  shows "client_udp_loop oc s = (Ok (), s')"
  using assms by (cases s) (auto simp: client_udp_loop.simps split: prod.splits)

interpretation client_udp: drain_loop "client_rcv_udp oc" "client_holds_udp oc" "client_udp_loop oc"
  "\<lambda>m. False" client_handle_udp client_view client_eff_udp "client_ready n" "\<lambda>m. fst m < n"
  for oc n
proof unfold_locales
  show "client_holds_udp oc (client_handle_udp m s) ms" if "client_holds_udp oc s ms"
    for s ms and m :: "mid \<times> 'a erased_net_msg"
    using that by (cases s) auto
  show "client_view (client_handle_udp m s) = client_eff_udp m (client_view s)"
    for s and m :: "mid \<times> 'a erased_net_msg" by (cases s) simp
  show "client_ready n (client_eff_udp m b)" if "client_ready n b"
    for b and m :: "mid \<times> 'a erased_net_msg" using that by (cases b) simp
qed (use client_holds_udp_next client_holds_udp_none client_rcv_udp_view client_udp_step
      client_udp_blocked in fastforce)+

text \<open>The folds of the two effects.\<close>

lemma fold_client_eff:
  "\<forall>m \<in> set ms. \<not> is_disconnect m \<Longrightarrow>
   fold client_eff ms (i, st, buff) = (i + word_of_nat (length ms), st, fold push_eff ms buff)"
  by (induction ms arbitrary: i buff) (simp_all add: algebra_simps)

lemma fold_client_eff_udp:
  "fold client_eff_udp ms (i, st, buff) = (i + word_of_nat (length ms), st, fold push_eff ms buff)"
  by (induction ms arbitrary: i buff) (simp_all add: algebra_simps)

text \<open>
  An invariant rule for each loop: what receiving, changing the status and filing a message keep,
  the loop keeps. The loops themselves never return an error: they end normally or panic.
\<close>

lemma client_tcp_loop_inv:
  assumes recv: "\<And>cl r cl'. P cl \<Longrightarrow> client_recv_tcp cl = (r, cl') \<Longrightarrow> P cl'"
    and status: "\<And>cl st. P cl \<Longrightarrow> st \<noteq> Connected \<Longrightarrow> P (cl\<lparr>cl_status := st\<rparr>)"
    and push: "\<And>cl cl' mid m buff. P cl \<Longrightarrow> client_recv_tcp cl = (Inr (mid, m), cl') \<Longrightarrow>
      push_msg mid m (cl_msg_buff cl') = Inr buff \<Longrightarrow> P (cl'\<lparr>cl_msg_buff := buff\<rparr>)"
  shows "P (snd s) \<Longrightarrow> client_tcp_loop s = (r, i', cl') \<Longrightarrow> P cl' \<and> (r = Ok () \<or> is_panic r)"
proof (induction s arbitrary: r i' cl' rule: client_tcp_loop.induct)
  case (1 i cl)
  obtain q cl1 where q: "client_recv_tcp cl = (q, cl1)" by fastforce
  have P1: "P cl1" using recv [OF _ q] "1.prems"(1) by simp
  note loop = client_tcp_loop.simps [of i cl]
  show ?case
  proof (cases "cl_status cl = Connected")
    case False
    then show ?thesis using "1.prems" by (simp add: loop)
  next
    case conn: True
    show ?thesis
    proof (cases q)
      case (Inl e)
      show ?thesis
      proof (cases e)
        case (IoErr err)
        show ?thesis
        proof (cases "err_kind err = WouldBlock")
          case True
          then show ?thesis using "1.prems" conn q Inl IoErr P1 by (simp add: loop)
        next
          case False
          have "P (cl1\<lparr>cl_status := Dropped err\<rparr>)" using status [OF P1] by simp
          then show ?thesis using "1.prems"(2) "1.IH"(1) [OF _ q [symmetric] Inl IoErr False] conn q Inl IoErr False
            by (simp add: loop)
        qed
      next
        case (Panic p)
        then show ?thesis using "1.prems" conn q Inl P1 by (auto simp: loop)
      qed
    next
      case (Inr m)
      obtain mid em where m: "m = (mid, em)" by (cases m)
      note IH = "1.IH"(2,3) [OF _ q [symmetric] Inr m [symmetric]]
      show ?thesis
      proof (cases "mid = DISCONNECT_TYPE_MID")
        case True
        have "P (cl1\<lparr>cl_status := Disconnected (em_msg em)\<rparr>)" using status [OF P1] by simp
        then show ?thesis using "1.prems"(2) IH(1) conn q Inr m True by (simp add: loop)
      next
        case False
        show ?thesis
        proof (cases "push_msg mid em (cl_msg_buff cl1)")
          case (Inl e)
          then show ?thesis using "1.prems" conn q Inr m P1 False
            by (auto simp: loop push_msg_def split: if_splits)
        next
          case push_Ok: (Inr buff)
          have "P (cl1\<lparr>cl_msg_buff := buff\<rparr>)"
            using push [of cl mid em cl1 buff] "1.prems"(1) q Inr m push_Ok by simp
          then show ?thesis using "1.prems"(2) IH(2) push_Ok conn q Inr m False by (simp add: loop)
        qed
      qed
    qed
  qed
qed

lemma client_udp_loop_inv:
  assumes recv: "\<And>cl r cl'. P cl \<Longrightarrow> client_recv_udp oc cl = (r, cl') \<Longrightarrow> P cl'"
    and push: "\<And>cl cl' mid m buff. P cl \<Longrightarrow> client_recv_udp oc cl = (Inr (mid, m), cl') \<Longrightarrow>
      push_msg mid m (cl_msg_buff cl') = Inr buff \<Longrightarrow> P (cl'\<lparr>cl_msg_buff := buff\<rparr>)"
  shows "P (snd s) \<Longrightarrow> client_udp_loop oc s = (r, i', cl') \<Longrightarrow> P cl' \<and> (r = Ok () \<or> is_panic r)"
proof -
  have "\<forall>cl r cl'. P cl \<longrightarrow> client_recv_udp oc cl = (r, cl') \<longrightarrow> P cl'" using recv by blast
  moreover have "\<forall>cl cl' mid m buff. P cl \<longrightarrow> client_recv_udp oc cl = (Inr (mid, m), cl') \<longrightarrow>
      push_msg mid m (cl_msg_buff cl') = Inr buff \<longrightarrow> P (cl'\<lparr>cl_msg_buff := buff\<rparr>)" using push by blast
  ultimately show "P (snd s) \<Longrightarrow> client_udp_loop oc s = (r, i', cl') \<Longrightarrow> P cl' \<and> (r = Ok () \<or> is_panic r)"
  proof (induction oc s arbitrary: r i' cl' rule: client_udp_loop.induct)
  case (1 oc i cl)
  obtain q cl1 where q: "client_recv_udp oc cl = (q, cl1)" by fastforce
  have P1: "P cl1" using "1.prems"(3) [rule_format, OF _ q] "1.prems"(1) by simp
  note loop = client_udp_loop.simps [of oc i cl]
  show ?case
  proof (cases "cl_status cl = Connected")
    case False
    then show ?thesis using "1.prems" by (simp add: loop)
  next
    case conn: True
    show ?thesis
    proof (cases q)
      case (Inl e)
      show ?thesis
      proof (cases e)
        case (IoErr err)
        show ?thesis
        proof (cases "err_kind err = WouldBlock")
          case True
          then show ?thesis using "1.prems" conn q Inl IoErr P1 by (simp add: loop)
        next
          case False
          have "client_udp_loop oc (i, cl1) = (r, i', cl')"
            using "1.prems"(2) conn q Inl IoErr False by (simp add: loop)
          from "1.IH"(1) [OF _ q [symmetric] Inl IoErr False _ this "1.prems"(3,4)] show ?thesis
            using conn P1 by simp
        qed
      next
        case (Panic p)
        then show ?thesis using "1.prems" conn q Inl P1 by (auto simp: loop)
      qed
    next
      case (Inr m)
      obtain mid em where m: "m = (mid, em)" by (cases m)
      show ?thesis
      proof (cases "push_msg mid em (cl_msg_buff cl1)")
        case (Inl e)
        then show ?thesis using "1.prems" conn q Inr m P1
          by (auto simp: loop push_msg_def split: if_splits)
      next
        case push_Ok: (Inr buff)
        have "P (cl1\<lparr>cl_msg_buff := buff\<rparr>)"
          using "1.prems"(1) "1.prems"(4) [rule_format, of cl mid em cl1 buff] q Inr m push_Ok by simp
        moreover have "client_udp_loop oc (i + 1, cl1\<lparr>cl_msg_buff := buff\<rparr>) = (r, i', cl')"
          using "1.prems"(2) conn q Inr m push_Ok by (simp add: loop)
        ultimately show ?thesis
          using "1.IH"(2) [OF _ q [symmetric] Inr m [symmetric] push_Ok _ _ "1.prems"(3,4)] conn by simp
      qed
    qed
  qed
qed
qed

text \<open>The TCP loop leaves the UDP side alone, and neither loop touches the table.\<close>

lemma client_tcp_loop_keeps:
  assumes "client_tcp_loop s = (r, i', cl')"
  shows "cl_udp cl' = cl_udp (snd s) \<and> cl_parts cl' = cl_parts (snd s)"
proof -
  let ?P = "\<lambda>cl. cl_udp cl = cl_udp (snd s) \<and> cl_parts cl = cl_parts (snd s)"
  have "?P cl'"
    by (rule client_tcp_loop_inv [of ?P s r i' cl', THEN conjunct1])
      (use assms client_recv_tcp_frame(1) in \<open>fastforce+\<close>)
  then show ?thesis .
qed

lemma client_udp_loop_keeps:
  assumes "client_udp_loop oc s = (r, i', cl')"
  shows "cl_tcp cl' = cl_tcp (snd s) \<and> cl_parts cl' = cl_parts (snd s) \<and> cl_status cl' = cl_status (snd s)"
proof -
  let ?P = "\<lambda>cl. cl_tcp cl = cl_tcp (snd s) \<and> cl_parts cl = cl_parts (snd s) \<and> cl_status cl = cl_status (snd s)"
  have "?P cl'"
    by (rule client_udp_loop_inv [of ?P oc s r i' cl', THEN conjunct1])
      (use assms client_recv_udp_frame(1) in \<open>fastforce+\<close>)
  then show ?thesis .
qed

lemma client_offers_in_range:
  assumes "client_offers st (i, cl) ms" "wf_parts (cl_parts cl)" "m \<in> set ms"
  shows "fst m < mid_count (cl_parts cl)"
proof -
  obtain fr where "decode_msg (cl_parts cl) 0 None (fst fr) (snd fr) = Ok m"
    using assms(1,3) by (auto simp: decoded_def in_set_conv_nth list_all2_conv_all_nth)
  then show ?thesis using decode_msg_Ok(1,2) [OF assms(2)] by metis
qed

lemma client_holds_udp_in_range:
  assumes "client_holds_udp oc (i, cl) ms" "wf_parts (cl_parts cl)" "m \<in> set ms"
  shows "fst m < mid_count (cl_parts cl)"
proof -
  obtain time mid bytes where "decode_msg (cl_parts cl) 0 time mid bytes = Ok m"
    using assms(1,3) by (force simp: decoded_udp_def in_set_conv_nth list_all2_conv_all_nth)
  then show ?thesis using decode_msg_Ok(1,2) [OF assms(2)] by metis
qed

section \<open>A round of \<open>recv_msgs\<close>\<close>

definition wf_client :: "'v client \<Rightarrow> bool" where
  "wf_client cl \<longleftrightarrow> wf_parts (cl_parts cl) \<and> length (cl_msg_buff cl) = mid_count (cl_parts cl) \<and>
     wf_con (cl_tcp cl) \<and> wf_ucon (cl_udp cl)"

text \<open>
  What the messages \<open>ms\<close> on TCP, with the tail \<open>st\<close> behind them, do to the status of a
  connected client: the disconnect message if there is one, else the error that ends the stream if
  one does. The datagrams \<open>us\<close> are heard if the client is connected after that.
\<close>

definition outcome :: "tail \<Rightarrow> (mid \<times> 'v erased_net_msg) list \<Rightarrow> 'v status" where
  "outcome st ms =
     (case find is_disconnect ms of
        Some d \<Rightarrow> Disconnected (em_msg (snd d))
      | None \<Rightarrow> (case ending st of None \<Rightarrow> Connected | Some e \<Rightarrow> Dropped e))"

definition heard :: "tail \<Rightarrow> (mid \<times> 'v erased_net_msg) list \<Rightarrow> 'a list \<Rightarrow> 'a list" where
  "heard st ms us = (if connected (outcome st ms) then us else [])"

lemma find_none: "\<forall>m \<in> set ms. \<not> P m \<Longrightarrow> find P ms = None"
  by (simp add: find_None_iff)

lemma outcome_open: "\<forall>m \<in> set ms. \<not> is_disconnect m \<Longrightarrow> outcome (Tail bs RxOpen) ms = Connected"
  by (simp add: outcome_def find_none)

lemma heard_nothing [simp]: "heard st ms [] = []"
  by (simp add: heard_def)

lemma set_heard: "m \<in> set (heard st ms us) \<Longrightarrow> m \<in> set us"
  by (auto simp: heard_def split: if_splits)

lemma client_tcp_loop_offers:
  assumes "client_offers st (i, cl) ms" "cl_status cl = Connected" "length (cl_msg_buff cl) = n" "\<forall>m \<in> set ms. fst m < n"
  shows "\<exists>cl'. client_tcp_loop (i, cl) = (Ok (), i + word_of_nat (length (upto_stop is_disconnect ms)), cl') \<and>
    cl_status cl' = outcome st ms \<and>
    cl_msg_buff cl' = fold push_eff (takeWhile (\<lambda>m. \<not> is_disconnect m) ms) (cl_msg_buff cl) \<and>
    (find is_disconnect ms = None \<longrightarrow> offers_frames st (cl_tcp cl') [])"
proof -
  have ready: "client_ready n (client_view (i, cl))" using assms(2,3) by simp
  show ?thesis
  proof (cases "\<exists>m \<in> set ms. is_disconnect m")
    case True
    then obtain pre d rest where ms: "ms = pre @ d # rest" "is_disconnect d" "\<forall>m \<in> set pre. \<not> is_disconnect m"
      using split_list_first_prop [of ms is_disconnect] by blast
    then have m: "\<forall>m \<in> set pre. fst m < n \<and> \<not> is_disconnect m" "fst d < n" using assms(4) by auto
    obtain s1 where s1: "client_tcp_loop (i, cl) = (Ok (), s1)"
        "client_view s1 = fold client_eff (pre @ [d]) (client_view (i, cl))"
      using client_pre.loop_until_stop [OF _ ready m ms(2)] assms(1) ms(1) by blast
    have "find is_disconnect ms = Some d" using ms by (induction pre arbitrary: ms) auto
    moreover have "takeWhile (\<lambda>m. \<not> is_disconnect m) ms = pre" using ms by (simp add: takeWhile_tail)
    moreover have "upto_stop is_disconnect ms = pre @ [d]" unfolding ms(1) using ms(3,2) by (rule upto_stop_append)
    ultimately show ?thesis
      using s1 ms(2,3) by (cases s1) (simp add: fold_client_eff outcome_def add.assoc add.commute)
  next
    case False
    then have none: "find is_disconnect ms = None" "takeWhile (\<lambda>m. \<not> is_disconnect m) ms = ms"
        "upto_stop is_disconnect ms = ms"
      by (auto simp: find_None_iff takeWhile_eq_all_conv upto_stop_none)
    have "\<forall>m \<in> set ms. fst m < n \<and> \<not> is_disconnect m" using assms(4) False by auto
    then obtain i1 cl1 where s1: "client_tcp_loop (i, cl) = client_tcp_loop (i1, cl1)"
        "client_view (i1, cl1) = fold client_eff ms (client_view (i, cl))" "client_offers st (i1, cl1) []"
      using client_pre.loop_through [of st "(i, cl)" ms "[]" n] assms(1) ready
      by (auto simp del: client_offers.simps client_view.simps client_ready.simps)
    have v1: "i1 = i + word_of_nat (length ms)" "cl_status cl1 = Connected" "cl_msg_buff cl1 = fold push_eff ms (cl_msg_buff cl)"
      using s1(2) assms(2) False by (simp_all add: fold_client_eff)
    have "offers_frames st (cl_tcp cl1) []" using s1(3) by auto
    from offers_frames_Nil [OF this] obtain e t where e: "tcp_con_recv (cl_tcp cl1) = (Inl (IoErr e), t)"
        "ending st = (if err_kind e = WouldBlock then None else Some e)" "offers_frames st t []" by blast
    let ?cl = "cl1\<lparr>cl_tcp := t\<rparr>"
    have "client_recv_tcp cl1 = (Inl (IoErr e), ?cl)" using e(1) by (simp add: client_recv_tcp_def)
    then have "client_tcp_loop (i1, cl1) = (Ok (), i1, ?cl\<lparr>cl_status := outcome st ms\<rparr>)"
      using e(2) v1(2) by (auto simp: client_tcp_loop.simps [of i1 cl1] client_tcp_loop.simps [of _ "cl1\<lparr>cl_tcp := _, cl_status := _\<rparr>"] outcome_def none(1))
    then show ?thesis unfolding none(2,3) using s1(1) v1 e(3) by simp
  qed
qed

lemma client_recv_round:
  assumes "wf_client cl" "cl_status cl = Connected"
    and "client_offers st (0, cl) ms" "client_holds_udp oc (0, cl) us"
  shows "\<exists>cl'. client_recv_msgs oc cl =
      (Ok (word_of_nat (length (upto_stop is_disconnect ms) + length (heard st ms us))), cl') \<and>
    cl_status cl' = outcome st ms \<and> cl_parts cl' = cl_parts cl \<and>
    cl_msg_buff cl' = fold push_eff (heard st ms us)
      (fold push_eff (takeWhile (\<lambda>m. \<not> is_disconnect m) ms) (cl_msg_buff cl)) \<and>
    (find is_disconnect ms = None \<longrightarrow> offers_frames st (cl_tcp cl') []) \<and>
    (outcome st ms = Connected \<longrightarrow> urx (uc_udp (cl_udp cl')) = [])"
proof -
  let ?n = "mid_count (cl_parts cl)"
  have wf: "wf_parts (cl_parts cl)" "length (cl_msg_buff cl) = ?n"
    using assms(1) by (simp_all add: wf_client_def)
  have "\<forall>m \<in> set ms. fst m < ?n" using client_offers_in_range [OF assms(3) wf(1)] by blast
  from client_tcp_loop_offers [OF assms(3,2) wf(2) this] obtain i1 cl1 where
    s1: "client_tcp_loop (0, cl) = (Ok (), i1, cl1)" and v1: "i1 = word_of_nat (length (upto_stop is_disconnect ms))"
      "cl_status cl1 = outcome st ms"
      "cl_msg_buff cl1 = fold push_eff (takeWhile (\<lambda>m. \<not> is_disconnect m) ms) (cl_msg_buff cl)"
      "find is_disconnect ms = None \<longrightarrow> offers_frames st (cl_tcp cl1) []" by auto
  have k1: "cl_udp cl1 = cl_udp cl" "cl_parts cl1 = cl_parts cl" using client_tcp_loop_keeps [OF s1] by simp_all
  show ?thesis
  proof (cases "connected (outcome st ms)")
    case False
    then show ?thesis using s1 v1 k1
      by (auto simp add: client_recv_msgs_def client_udp_loop.simps [of oc _ cl1] heard_def)
  next
    case True
    have holds: "client_holds_udp oc (i1, cl1) us" using assms(4) by (simp add: k1)
    have "outcome st ms = Connected" using True by (cases "outcome st ms") simp_all
    then have "client_ready ?n (client_view (i1, cl1))" using v1 wf(2) by simp
    moreover have "\<forall>m \<in> set us. fst m < ?n \<and> \<not> False"
      using client_holds_udp_in_range [OF assms(4) wf(1)] by blast
    ultimately obtain i2 cl2 where s2: "client_udp_loop oc (i1, cl1) = (Ok (), i2, cl2)"
        "client_view (i2, cl2) = fold client_eff_udp us (client_view (i1, cl1))" "client_holds_udp oc (i2, cl2) []"
      using client_udp.loop_drains_all [OF holds] by (metis surj_pair)
    have "cl_parts cl2 = cl_parts cl" "cl_tcp cl2 = cl_tcp cl1" using client_udp_loop_keeps [OF s2(1)] k1 by simp_all
    moreover have "urx (uc_udp (cl_udp cl2)) = []" using s2(3) by (auto dest: holds_datagrams_Nil)
    ultimately show ?thesis using s1 s2(1,2) v1 True
      by (simp add: client_recv_msgs_def fold_client_eff_udp heard_def)
  qed
qed

section \<open>The life of a client\<close>

text \<open>
  What a client can go through: its own operations that change state, called in any order, and
  the operating system changing its sockets (bytes arriving, the peer closing, the send buffer
  draining) in any way that keeps the buffers, which are not shared with it.
\<close>

inductive client_step :: "'v client \<Rightarrow> 'v client \<Rightarrow> bool" where
  step_send: "client_send now msg cl = (r, cl') \<Longrightarrow> client_step cl cl'"
| step_disconnect: "client_disconnect now msg cl = (r, cl') \<Longrightarrow> client_step cl cl'"
| step_recv_msgs: "client_recv_msgs oc cl = (r, cl') \<Longrightarrow> client_step cl cl'"
| step_clear_msgs: "client_step cl (client_clear_msgs cl)"
| step_network: "client_step cl (cl\<lparr>cl_tcp := (cl_tcp cl)\<lparr>tc_tcp := s\<rparr>, cl_udp := (cl_udp cl)\<lparr>uc_udp := u\<rparr>\<rparr>)"

definition client_net :: "'v client \<Rightarrow> tcp_stream \<Rightarrow> udp_socket \<Rightarrow> 'v client" where
  "client_net cl s u = cl\<lparr>cl_tcp := (cl_tcp cl)\<lparr>tc_tcp := s\<rparr>, cl_udp := (cl_udp cl)\<lparr>uc_udp := u\<rparr>\<rparr>"

lemma client_net_same: "client_net cl (tc_tcp (cl_tcp cl)) (uc_udp (cl_udp cl)) = cl"
  by (simp add: client_net_def)

lemma client_net_simps [simp]:
  "cl_status (client_net cl s u) = cl_status cl" "cl_parts (client_net cl s u) = cl_parts cl"
  "cl_msg_buff (client_net cl s u) = cl_msg_buff cl" "cl_config (client_net cl s u) = cl_config cl"
  "cl_tcp (client_net cl s u) = (cl_tcp cl)\<lparr>tc_tcp := s\<rparr>"
  "cl_udp (client_net cl s u) = (cl_udp cl)\<lparr>uc_udp := u\<rparr>"
  "client_net (client_net cl s u) s' u' = client_net cl s' u'"
  by (simp_all add: client_net_def)

text \<open>Sending only acts on the sockets.\<close>

lemma client_send_frame:
  assumes "client_send now msg cl = (r, cl')"
  shows "\<exists>s u. cl' = client_net cl s u"
proof -
  have same: "\<exists>s u. cl = client_net cl s u" using client_net_same by metis
  have tcp: "\<exists>s u. client_net cl s u = cl\<lparr>cl_tcp := t\<rparr>" if "tcp_con_send mid b (cl_tcp cl) = (q, t)" for mid b q t
    using tcp_con_send_frame [OF that]
    by (auto simp: client_net_def intro!: exI [of _ "uc_udp (cl_udp cl)"])
  have udp: "\<exists>s u. client_net cl s u = cl\<lparr>cl_udp := t\<rparr>" if "udp_con_send now mid b (cl_udp cl) = (q, t)" for mid b q t
    using udp_con_send_frame [OF that]
    by (auto simp: client_net_def intro!: exI [of _ "tc_tcp (cl_tcp cl)"])
  show ?thesis
    using assms same tcp udp
    by (auto simp: client_send_def client_send_tcp_def client_send_udp_def Let_def eq_commute
        split: if_splits sum.splits prod.splits transport.splits)
qed

lemma client_disconnect_frame:
  assumes "client_disconnect now msg cl = (r, cl')"
  shows "\<exists>s u st. cl' = (client_net cl s u)\<lparr>cl_status := st\<rparr> \<and> (st = cl_status cl \<or> st = Closed)"
proof (cases "cl' = cl")
  case True
  then show ?thesis using client_net_same [of cl] by (metis client_net_simps(1) client.surjective client.update_convs(2))
next
  case False
  obtain q c1 where send: "client_send now msg cl = (q, c1)" by fastforce
  obtain s u where c1: "c1 = client_net cl s u" using client_send_frame [OF send] by blast
  obtain q2 t where close: "tcp_con_close (cl_tcp c1) = (q2, t)" by fastforce
  then have "\<exists>s. t = (cl_tcp c1)\<lparr>tc_tcp := s\<rparr>"
    by (auto simp: tcp_con_close_def stream_flush_def split: prod.splits)
  then obtain s2 where t: "t = (cl_tcp cl)\<lparr>tc_tcp := s2\<rparr>" by (auto simp: c1)
  have c2: "c1\<lparr>cl_tcp := t\<rparr> = client_net cl s2 u" by (simp add: t c1 client_net_def)
  have "cl' \<in> {c1, client_net cl s2 u, (client_net cl s2 u)\<lparr>cl_status := Closed\<rparr>}"
    using assms False send close
    by (cases q; cases q2) (auto simp: client_disconnect_def c2 split: sum.splits if_splits)
  moreover have "client_net cl s u = (client_net cl s u)\<lparr>cl_status := cl_status cl\<rparr>" for s u
    by (simp add: client_net_def)
  ultimately show ?thesis unfolding c1 by fastforce
qed

text \<open>The loops together, for whatever receiving, a status change and filing a message keep.\<close>

lemma client_recv_msgs_inv:
  assumes "\<And>cl r cl'. P cl \<Longrightarrow> client_recv_tcp cl = (r, cl') \<Longrightarrow> P cl'"
    and "\<And>cl r cl'. P cl \<Longrightarrow> client_recv_udp oc cl = (r, cl') \<Longrightarrow> P cl'"
    and "\<And>cl st. P cl \<Longrightarrow> st \<noteq> Connected \<Longrightarrow> P (cl\<lparr>cl_status := st\<rparr>)"
    and "\<And>cl cl' mid m buff. P cl \<Longrightarrow> client_recv_tcp cl = (Inr (mid, m), cl') \<Longrightarrow>
      push_msg mid m (cl_msg_buff cl') = Inr buff \<Longrightarrow> P (cl'\<lparr>cl_msg_buff := buff\<rparr>)"
    and "\<And>cl cl' mid m buff. P cl \<Longrightarrow> client_recv_udp oc cl = (Inr (mid, m), cl') \<Longrightarrow>
      push_msg mid m (cl_msg_buff cl') = Inr buff \<Longrightarrow> P (cl'\<lparr>cl_msg_buff := buff\<rparr>)"
    and "P cl" "client_recv_msgs oc cl = (r, cl')"
  shows "P cl' \<and> ((\<exists>n. r = Ok n) \<or> is_panic r)"
proof -
  obtain q i1 cl1 where t: "client_tcp_loop (0, cl) = (q, i1, cl1)" by (metis prod_cases3)
  have P1: "P cl1 \<and> (q = Ok () \<or> is_panic q)"
    using client_tcp_loop_inv [of P "(0, cl)", OF assms(1,3,4) _ t] assms(6) by simp
  obtain q2 i2 cl2 where u: "client_udp_loop oc (i1, cl1) = (q2, i2, cl2)" by (metis prod_cases3)
  have P2: "P cl2 \<and> (q2 = Ok () \<or> is_panic q2)"
    using client_udp_loop_inv [of P oc "(i1, cl1)", OF assms(2,5) _ u] P1 by simp
  show ?thesis
    using assms(7) P1 P2 by (cases q; cases q2) (auto simp: client_recv_msgs_def t u)
qed

lemma wf_client_recv_tcp:
  assumes "wf_client cl" "client_recv_tcp cl = (r, cl')"
  shows "wf_client cl'"
proof -
  obtain q t where t: "tcp_con_recv (cl_tcp cl) = (q, t)" by fastforce
  then have "wf_con t" using assms(1) tcp_con_recv_frame(1) by (auto simp: wf_client_def)
  then show ?thesis using assms(1) client_recv_tcp_frame(1) [OF assms(2)] t by (simp add: wf_client_def)
qed

lemma wf_client_recv_udp:
  assumes "wf_client cl" "client_recv_udp oc cl = (r, cl')"
  shows "wf_client cl'"
proof -
  obtain q t where t: "udp_con_recv oc (cl_udp cl) = (q, t)" by fastforce
  then have "wf_ucon t" using assms(1) udp_con_recv_frame(1) [OF t] by (simp add: wf_client_def wf_ucon_def)
  then show ?thesis using assms(1) client_recv_udp_frame(1) [OF assms(2)] t by (simp add: wf_client_def)
qed

lemma wf_client_status: "wf_client cl \<Longrightarrow> wf_client (cl\<lparr>cl_status := st\<rparr>)"
  by (simp add: wf_client_def)

lemma wf_client_push:
  "wf_client cl \<Longrightarrow> push_msg mid m (cl_msg_buff cl) = Inr buff \<Longrightarrow> wf_client (cl\<lparr>cl_msg_buff := buff\<rparr>)"
  using push_msg_length [of mid m "cl_msg_buff cl" buff] by (simp add: wf_client_def)

lemma client_recv_msgs_wf:
  assumes "wf_client cl" "client_recv_msgs oc cl = (r, cl')"
  shows "wf_client cl' \<and> ((\<exists>n. r = Ok n) \<or> is_panic r)"
  by (rule client_recv_msgs_inv
    [OF wf_client_recv_tcp wf_client_recv_udp wf_client_status wf_client_push [OF wf_client_recv_tcp]
      wf_client_push [OF wf_client_recv_udp] assms])

lemma client_step_wf:
  assumes "client_step cl cl'" "wf_client cl"
  shows "wf_client cl'"
  using assms(1)
proof (cases rule: client_step.cases)
  case (step_send now msg r)
  then show ?thesis using client_send_frame assms(2) by (fastforce simp: wf_client_def wf_con_def wf_ucon_def)
next
  case (step_disconnect now msg r)
  then show ?thesis using client_disconnect_frame assms(2) by (fastforce simp: wf_client_def wf_con_def wf_ucon_def)
next
  case (step_recv_msgs oc r)
  then show ?thesis using client_recv_msgs_wf assms(2) by blast
next
  case step_clear_msgs
  then show ?thesis using assms(2) by (simp add: client_clear_msgs_def wf_client_def)
next
  case (step_network s u)
  then show ?thesis using assms(2) by (simp add: wf_client_def wf_con_def wf_ucon_def)
qed

lemma client_step_down:
  assumes "client_step cl cl'" "cl_status cl \<noteq> Connected"
  shows "cl_status cl' \<noteq> Connected"
  using assms(1)
proof (cases rule: client_step.cases)
  case (step_send now msg r)
  then show ?thesis using client_send_frame assms(2) by fastforce
next
  case (step_disconnect now msg r)
  then show ?thesis using client_disconnect_frame assms(2) by fastforce
next
  case (step_recv_msgs oc r)
  show ?thesis
    by (rule client_recv_msgs_inv [of "\<lambda>cl. cl_status cl \<noteq> Connected" oc cl, THEN conjunct1])
      (use assms(2) step_recv_msgs client_recv_tcp_frame(1) client_recv_udp_frame(1) in fastforce)+
next
  case step_clear_msgs
  then show ?thesis using assms(2) by (simp add: client_clear_msgs_def)
next
  case (step_network s u)
  then show ?thesis using assms(2) by simp
qed

lemma client_recv_msgs_down:
  "cl_status cl \<noteq> Connected \<Longrightarrow> client_recv_msgs oc cl = (Ok 0, cl)"
  by (simp add: client_recv_msgs_def client_tcp_loop.simps [of 0 cl] client_udp_loop.simps [of oc 0 cl])

section \<open>A whole round\<close>

lemma client_round_state:
  assumes "wf_client cl" "cl_status cl = Connected"
    and "client_offers st (0, cl) ms" "client_holds_udp oc (0, cl) us"
    and "codec_of bc (cl_parts cl)" "tid_map (cl_parts cl) T = Some mid"
  shows "\<exists>cl'. client_recv_msgs oc (client_clear_msgs cl) =
      (Ok (word_of_nat (length (upto_stop is_disconnect ms) + length (heard st ms us))), cl') \<and>
    cl_status cl' = outcome st ms \<and> wf_client cl' \<and> cl_parts cl' = cl_parts cl \<and>
    (find is_disconnect ms = None \<longrightarrow> offers_frames st (cl_tcp cl') []) \<and>
    client_recv T cl' = Ok (map (\<lambda>m. \<lparr>nm_cid = em_cid m, nm_time = em_time m, nm_m = any_val (em_msg m)\<rparr>)
      (msgs_for mid (takeWhile (\<lambda>m. \<not> is_disconnect m) ms @ heard st ms us)))"
proof -
  let ?cl = "client_clear_msgs cl" and ?n = "mid_count (cl_parts cl)"
  let ?ms = "takeWhile (\<lambda>m. \<not> is_disconnect m) ms @ heard st ms us"
  have wf: "wf_parts (cl_parts cl)" "length (cl_msg_buff cl) = ?n" using assms(1) by (simp_all add: wf_client_def)
  have cleared: "cl_msg_buff ?cl = replicate ?n []"
    using wf(2) by (simp add: client_clear_msgs_def map_replicate_const)
  have "wf_client ?cl" "cl_status ?cl = Connected" "client_offers st (0, ?cl) ms" "client_holds_udp oc (0, ?cl) us"
    using assms(1-4) by (simp_all add: client_clear_msgs_def wf_client_def)
  from client_recv_round [OF this] obtain cl' where
    cl': "client_recv_msgs oc ?cl = (Ok (word_of_nat (length (upto_stop is_disconnect ms) + length (heard st ms us))), cl')"
      "cl_status cl' = outcome st ms" "cl_parts cl' = cl_parts ?cl"
      "cl_msg_buff cl' = fold push_eff (heard st ms us)
        (fold push_eff (takeWhile (\<lambda>m. \<not> is_disconnect m) ms) (cl_msg_buff ?cl))"
      "find is_disconnect ms = None \<longrightarrow> offers_frames st (cl_tcp cl') []"
    by (elim exE conjE)
  have parts: "cl_parts cl' = cl_parts cl" using cl'(3) by (simp add: client_clear_msgs_def)
  have filed: "cl_msg_buff cl' = fold push_eff ?ms (replicate ?n [])" using cl'(4) by (simp add: cleared)
  have "wf_client cl'" using client_recv_msgs_wf [OF \<open>wf_client ?cl\<close> cl'(1)] by blast
  have mid: "mid < ?n" using wf(1) assms(6) by (simp add: wf_parts_def)
  have buff: "cl_msg_buff cl' ! mid = msgs_for mid ?ms"
    using mid by (simp only: filed fold_push_nth length_replicate nth_replicate append_Nil msgs_for_def)
  have "any_tid (em_msg (snd m)) = T" if "m \<in> set ?ms" "fst m = mid" for m
  proof -
    have "m \<in> set ms \<or> m \<in> set us" using that(1) by (auto dest: set_takeWhileD set_heard)
    then have "\<exists>time m' bytes. decode_msg (cl_parts cl) 0 time m' bytes = Ok m"
      using assms(3,4)
      by (force simp: decoded_def decoded_udp_def in_set_conv_nth list_all2_conv_all_nth)
    then show ?thesis using decode_msg_tid [OF wf(1) assms(5)] assms(6) that(2) by metis
  qed
  then have typed: "\<forall>m \<in> set (msgs_for mid ?ms). any_tid (em_msg m) = T" by (auto simp: msgs_for_def)
  have "mid < length (cl_msg_buff cl')" using mid by (simp add: filed)
  then have "client_recv T cl' = typed_msgs T (msgs_for mid ?ms)"
    using assms(6) by (simp add: client_recv_def valid_tid_def domI parts hash_index_def index_def buff)
  then show ?thesis using cl'(1,2,5) parts \<open>wf_client cl'\<close> typed_msgs_Ok [OF typed]
    by (intro exI [of _ cl'] conjI) simp_all
qed

lemma client_round_recv:
  assumes "wf_client cl" "cl_status cl = Connected"
    and "client_offers st (0, cl) ms" "client_holds_udp oc (0, cl) us"
    and "codec_of bc (cl_parts cl)" "tid_map (cl_parts cl) T = Some mid"
  shows "\<exists>cl'. client_recv_msgs oc (client_clear_msgs cl) =
      (Ok (word_of_nat (length (upto_stop is_disconnect ms) + length (heard st ms us))), cl') \<and>
    cl_status cl' = outcome st ms \<and>
    client_recv T cl' = Ok (map (\<lambda>m. \<lparr>nm_cid = em_cid m, nm_time = em_time m, nm_m = any_val (em_msg m)\<rparr>)
      (msgs_for mid (takeWhile (\<lambda>m. \<not> is_disconnect m) ms @ heard st ms us)))"
  using client_round_state [OF assms] by blast

section \<open>A client to try the properties on\<close>

definition demo_client :: "byte list \<Rightarrow> nat client" where
  "demo_client bs = \<lparr>cl_config = config_default, cl_status = Connected,
     cl_msg_buff = replicate 5 [], cl_tcp = demo_con\<lparr>tc_tcp := demo_stream\<lparr>rx := bs\<rparr>\<rparr>,
     cl_udp = demo_ucon, cl_parts = demo_parts\<rparr>"

lemma demo_client_simps [simp]:
  "cl_status (demo_client bs) = Connected" "cl_parts (demo_client bs) = demo_parts"
  "cl_msg_buff (demo_client bs) = replicate 5 []" "wf_client (demo_client bs)"
  "tcp_max_msg_size (cl_tcp (demo_client bs)) = 16" "rx (tc_tcp (cl_tcp (demo_client bs))) = bs"
  "rx_state (tc_tcp (cl_tcp (demo_client bs))) = RxOpen" "wf_con (cl_tcp (demo_client bs))"
  "client_holds_udp oc (i, demo_client bs) []"
  using demo_parts_wf(1)
  by (simp_all add: demo_client_def wf_client_def demo_con_def wf_con_def tcp_from_stream_def
    wf_ucon_def demo_ucon_def tcp_max_msg_size_def demo_stream_def holds_datagrams_def demo_socket_def)

lemma demo_client_holds:
  "client_holds (i, demo_client (frame 3 [7] @ frame 3 [8])) [(3, demo_msg 13 7), (3, demo_msg 13 8)]"
proof -
  have "holds_frames (cl_tcp (demo_client (frame 3 [7] @ frame 3 [8]))) [(3, [7]), (3, [8])]"
    by (simp add: offers_frames_def fits_def)
  moreover have "decoded demo_parts 0 (3, [7]) (3, demo_msg 13 7)" "decoded demo_parts 0 (3, [8]) (3, demo_msg 13 8)"
    using demo_deser [of 7 13] demo_deser [of 8 13]
    by (simp_all add: decoded_def decode_msg_def decode_any_def valid_mid_def index_def)
  ultimately show ?thesis by fastforce
qed

lemma demo_client_holds_disconnect:
  "client_holds (i, demo_client (frame 3 [7] @ frame 2 [9] @ frame 3 [8]))
     ([(3, demo_msg 13 7)] @ (2, demo_msg 12 9) # [(3, demo_msg 13 8)])"
proof -
  have "holds_frames (cl_tcp (demo_client (frame 3 [7] @ frame 2 [9] @ frame 3 [8]))) [(3, [7]), (2, [9]), (3, [8])]"
    by (simp add: offers_frames_def fits_def)
  moreover have "decoded demo_parts 0 (3, [7]) (3, demo_msg 13 7)" "decoded demo_parts 0 (3, [8]) (3, demo_msg 13 8)"
    "decoded demo_parts 0 (2, [9]) (2, demo_msg 12 9)"
    using demo_deser [of 7 13] demo_deser [of 8 13] demo_deser [of 9 12]
    by (simp_all add: decoded_def decode_msg_def decode_any_def valid_mid_def index_def)
  ultimately show ?thesis by fastforce
qed

section \<open>Properties of the client\<close>

text \<open>
  C8: One round of the game loop on a connected client. After \<open>clear_msgs\<close> and \<open>recv_msgs\<close>,
  with the messages \<open>ms\<close> whole on TCP, the tail \<open>st\<close> behind them, and \<open>us\<close> on UDP, the
  status is the disconnect message if there is one among \<open>ms\<close>, else the error if the stream has
  ended or failed. The count is the number of TCP messages up to the disconnect message and of the
  UDP messages, which are heard only if the client is still connected; \<open>recv::<T>\<close> yields exactly
  those of the type \<open>T\<close>, the TCP ones first, each in order of arrival.
\<close>

theorem client_round_delivers:
  assumes "wf_client cl" "cl_status cl = Connected"
    and "client_offers st (0, cl) ms" "client_holds_udp oc (0, cl) us"
    and "codec_of bc (cl_parts cl)" "tid_map (cl_parts cl) T = Some mid"
  shows "\<exists>cl'. client_recv_msgs oc (client_clear_msgs cl) =
      (Ok (word_of_nat (length (upto_stop is_disconnect ms) + length (heard st ms us))), cl') \<and>
    cl_status cl' = outcome st ms \<and>
    client_recv T cl' = Ok (map (\<lambda>m. \<lparr>nm_cid = em_cid m, nm_time = em_time m, nm_m = any_val (em_msg m)\<rparr>)
      (msgs_for mid (takeWhile (\<lambda>m. \<not> is_disconnect m) ms @ heard st ms us)))"
  using client_round_recv [OF assms] .

theorem client_round_delivers_witness:
  "\<exists>cl'. client_recv_msgs True (client_clear_msgs (demo_client (frame 3 [7] @ frame 3 [8]))) = (Ok 2, cl') \<and>
     client_recv 13 cl' = Ok [\<lparr>nm_cid = 0, nm_time = None, nm_m = 7\<rparr>, \<lparr>nm_cid = 0, nm_time = None, nm_m = 8\<rparr>]"
proof -
  from client_round_delivers [OF demo_client_simps(4,1) demo_client_holds demo_client_simps(9), of demo_bincode 13 3 True]
  show ?thesis using demo_parts_wf(3) by (fastforce simp: msgs_for_def is_disconnect_def mid_defs)
qed

text \<open>
  A disconnect message ends the conversation. \<open>recv_msgs\<close> counts it, files only the
  messages before it, records its value in the status, and leaves everything behind it (on TCP and
  on UDP) unread, for good: a later call returns 0 and changes nothing.
\<close>

lemma client_disconnect_received:
  assumes "wf_client cl" "cl_status cl = Connected"
    and "client_offers st (0, cl) (ms @ d # rest)" "\<forall>m \<in> set ms. \<not> is_disconnect m" "is_disconnect d"
  shows "\<exists>cl'. client_recv_msgs oc cl = (Ok (word_of_nat (length ms + 1)), cl') \<and>
    cl_status cl' = Disconnected (em_msg (snd d)) \<and>
    cl_msg_buff cl' = fold push_eff ms (cl_msg_buff cl) \<and>
    client_offers st (0, cl') rest \<and> cl_udp cl' = cl_udp cl \<and> client_recv_msgs oc cl' = (Ok 0, cl')"
proof -
  let ?n = "mid_count (cl_parts cl)"
  have wf: "wf_parts (cl_parts cl)" "length (cl_msg_buff cl) = ?n"
    using assms(1) by (simp_all add: wf_client_def)
  have "client_ready ?n (client_view (0, cl))" using assms(2) wf(2) by simp
  moreover have "\<forall>m \<in> set ms. fst m < ?n \<and> \<not> is_disconnect m" "fst d < ?n"
    using client_offers_in_range [OF assms(3) wf(1)] assms(4) by auto
  ultimately obtain s1 where s1: "client_tcp_loop (0, cl) = (Ok (), s1)"
      "client_view s1 = fold client_eff (ms @ [d]) (client_view (0, cl))" "client_offers st s1 rest"
    using client_pre.loop_until_stop [OF assms(3) _ _ _ assms(5), of ?n] by blast
  obtain i1 cl1 where c1: "s1 = (i1, cl1)" by (cases s1)
  have v1: "i1 = word_of_nat (length ms) + 1" "cl_status cl1 = Disconnected (em_msg (snd d))"
      "cl_msg_buff cl1 = fold push_eff ms (cl_msg_buff cl)"
    using s1(2) assms(2,4,5) by (simp_all add: c1 fold_client_eff)
  have "client_recv_msgs oc cl = (Ok i1, cl1)"
    using s1(1) v1(2) by (simp add: client_recv_msgs_def c1 client_udp_loop.simps [of oc i1 cl1])
  moreover have "cl_udp cl1 = cl_udp cl"
    using client_tcp_loop_keeps [OF s1(1) [unfolded c1]] by simp
  ultimately show ?thesis
    using v1 s1(3) client_recv_msgs_down [of cl1 oc] by (auto simp: c1 add.commute)
qed

text \<open>
  C30: Through any sequence of the client's operations and of events on its sockets, the invariant
  \<open>wf_client\<close> holds, and a client that is no longer connected never is again.
\<close>

theorem client_stays_down:
  assumes "client_step\<^sup>*\<^sup>* cl cl'" "wf_client cl"
  shows "wf_client cl' \<and> (cl_status cl \<noteq> Connected \<longrightarrow> \<not> client_open cl')"
  using assms(1)
proof (induction rule: rtranclp_induct)
  case base
  then show ?case using assms(2) by (simp add: client_open_def client_get_status_def)
next
  case (step cl1 cl2)
  then show ?case using client_step_wf client_step_down by (fastforce simp: client_open_def client_get_status_def)
qed

theorem client_stays_down_witness:
  "wf_client (client_clear_msgs ((demo_client [])\<lparr>cl_status := Closed\<rparr>)) \<and>
   \<not> client_open (client_clear_msgs ((demo_client [])\<lparr>cl_status := Closed\<rparr>))"
proof -
  have "client_step\<^sup>*\<^sup>* ((demo_client [])\<lparr>cl_status := Closed\<rparr>)
      (client_clear_msgs ((demo_client [])\<lparr>cl_status := Closed\<rparr>))"
    by (rule r_into_rtranclp) (rule step_clear_msgs)
  from client_stays_down [OF this wf_client_status [OF demo_client_simps(4)]] show ?thesis by simp
qed

text \<open>
  C36: A server can crash a client: a message whose id is the number of registered ids passes the
  check of the id and makes \<open>recv_msgs\<close> panic at the index into the decoders. A larger id
  is detected and only drops the connection.
\<close>

theorem client_crashes_on_mid_count:
  assumes "wf_client cl" "cl_status cl = Connected"
    and "rx (tc_tcp (cl_tcp cl)) = frame mid payload @ rest"
    and "fits (tcp_max_msg_size (cl_tcp cl)) (mid, payload)" "mid_count (cl_parts cl) \<le> mid"
  shows "(mid = mid_count (cl_parts cl) \<longrightarrow> fst (client_recv_msgs oc cl) = panics IndexOutOfBounds) \<and>
    (mid \<noteq> mid_count (cl_parts cl) \<longrightarrow> (\<exists>cl'. client_recv_msgs oc cl = (Ok 0, cl') \<and>
       cl_status cl' = Dropped (IoError InvalidData (BadMid mid (mid_count (cl_parts cl))))))"
proof -
  have wf: "wf_con (cl_tcp cl)" "length (deser (cl_parts cl)) = mid_count (cl_parts cl)"
    using assms(1) by (simp_all add: wf_client_def wf_parts_def)
  obtain t where t: "tcp_con_recv (cl_tcp cl) = (Ok (mid, payload), t)"
    using recv_frame [OF wf(1) assms(3,4)] by blast
  have step: "client_recv_tcp cl = (decode_msg (cl_parts cl) 0 None mid payload, cl\<lparr>cl_tcp := t\<rparr>)"
    by (simp add: client_recv_tcp_def t)
  show ?thesis
  proof (cases "mid = mid_count (cl_parts cl)")
    case True
    then have "decode_msg (cl_parts cl) 0 None mid payload = panics IndexOutOfBounds"
      using wf(2) by (simp add: decode_msg_def decode_any_def valid_mid_def index_def)
    then show ?thesis using True assms(2)
      by (simp add: client_recv_msgs_def client_tcp_loop.simps [of 0 cl] step)
  next
    case False
    then have "decode_msg (cl_parts cl) 0 None mid payload =
        Err InvalidData (BadMid mid (mid_count (cl_parts cl)))"
      using assms(5) by (simp add: decode_msg_def decode_any_def valid_mid_def)
    then show ?thesis using False assms(2)
      by (simp add: client_recv_msgs_def client_tcp_loop.simps [of 0 cl] step)
        (simp add: client_tcp_loop.simps client_udp_loop.simps)
  qed
qed

theorem client_crashes_on_mid_count_witness:
  "fst (client_recv_msgs True (demo_client (frame 5 []))) = panics IndexOutOfBounds"
  using client_crashes_on_mid_count [OF demo_client_simps(4,1), of "frame 5 []" 5 "[]" "[]" True]
  by (simp add: fits_def)

text \<open>
  When \<open>disconnect\<close> succeeds, the stream was not shut down, the message was of the disconnect type of the table, its frame
  was appended to the stream before the stream was shut down, and the client is closed; its
  message buffers are as before.
\<close>

lemma client_disconnect_closes:
  assumes "client_disconnect now msg cl = (Ok (), cl')" "transports (cl_parts cl) ! DISCONNECT_TYPE_MID = TCP"
  shows "\<not> is_shut (tc_tcp (cl_tcp cl)) \<and> tid_map (cl_parts cl) (any_tid msg) = Some DISCONNECT_TYPE_MID \<and>
    (\<exists>b. (ser (cl_parts cl) ! DISCONNECT_TYPE_MID) msg = Ok b \<and>
       tx (tc_tcp (cl_tcp cl')) = tx (tc_tcp (cl_tcp cl)) @ frame DISCONNECT_TYPE_MID b) \<and>
    is_shut (tc_tcp (cl_tcp cl')) \<and> cl_status cl' = Closed \<and> cl_msg_buff cl' = cl_msg_buff cl"
proof -
  have tid: "tid_map (cl_parts cl) (any_tid msg) = Some DISCONNECT_TYPE_MID"
    using assms(1) by (auto simp: client_disconnect_def hash_index_def split: option.splits if_splits)
  obtain c1 t where c1: "client_send now msg cl = (Ok (), c1)"
      "tcp_con_close (cl_tcp c1) = (Ok (), t)" "cl' = c1\<lparr>cl_tcp := t, cl_status := Closed\<rparr>"
  proof (cases "client_send now msg cl")
    case (Pair q c1)
    then show ?thesis using that assms(1) tid
      by (cases q; cases "tcp_con_close (cl_tcp c1)"; cases "fst (tcp_con_close (cl_tcp c1))")
        (auto simp: client_disconnect_def hash_index_def)
  qed
  have map: "map_ser_error r = Inr b \<longleftrightarrow> r = Inr b" for r b
    by (cases r rule: map_ser_error.cases) auto
  obtain b where b: "(ser (cl_parts cl) ! DISCONNECT_TYPE_MID) msg = Ok b"
      "client_send_tcp DISCONNECT_TYPE_MID b cl = (Ok (), c1)"
    using c1(1) tid assms(2)
    by (auto simp: client_send_def res_simps map valid_tid_def Let_def split: sum.splits if_splits)
  then have c1': "c1 = cl\<lparr>cl_tcp := cl_tcp c1\<rparr>"
      "tx (tc_tcp (cl_tcp c1)) = tx (tc_tcp (cl_tcp cl)) @ frame DISCONNECT_TYPE_MID b"
      "\<not> is_shut (tc_tcp (cl_tcp cl))"
    by (auto simp: client_send_tcp_def tcp_con_send_Ok split: prod.splits)
  have "tx (tc_tcp t) = tx (tc_tcp (cl_tcp c1)) \<and> is_shut (tc_tcp t)"
    using c1(2) by (auto simp: tcp_con_close_def stream_flush_def stream_shutdown_def split: option.splits)
  moreover have "cl_msg_buff c1 = cl_msg_buff cl" by (subst c1'(1)) simp
  ultimately show ?thesis using tid b(1) c1(3) c1'(2,3) by simp
qed

text \<open>What holds of a client that \<open>new_blocking\<close> returns.\<close>

lemma new_blocking_result:
  assumes "client_new_blocking sys now peer parts config con_msg = Ok (cl, resp)"
    and "wf_parts parts" "codec_of bc parts" "tid_map parts R = Some RESPONSE_TYPE_MID"
  shows "cl_status cl = Connected \<and> wf_client cl \<and> cl_parts cl = parts \<and> cl_config cl = config \<and>
    cl_msg_buff cl = replicate (mid_count parts) [] \<and>
    any_tid con_msg \<in> dom (tid_map parts) \<and> any_tid resp = R \<and>
    (\<exists>stream. os_connect sys peer = Ok stream) \<and>
    is_nonblocking (tc_tcp (cl_tcp cl)) \<and> u_nonblocking (uc_udp (cl_udp cl))"
proof -
  let ?init = "\<lambda>stream udp. \<lparr>cl_config = config, cl_status = Connected,
    cl_msg_buff = replicate (mid_count parts) [],
    cl_tcp = tcp_from_stream stream (cfg_max_msg_size config), cl_udp = udp, cl_parts = parts\<rparr>"
  obtain stream udp local_addr peer_addr cl0 where
    stream: "os_connect sys peer = Ok stream" and
    udp: "udp_con_new sys local_addr (Some peer_addr) (cfg_max_msg_size config) = Ok udp" and
    cl0: "cl0 = ?init stream udp" and
    rest: "(case client_send now con_msg cl0 of (Inl e, _) \<Rightarrow> Inl e | (Inr _, client) \<Rightarrow>
      case client_recv_tcp (client_await sys client) of (Inl e, _) \<Rightarrow> Inl e
      | (Inr (mid, net_msg), client) \<Rightarrow>
          if mid \<noteq> RESPONSE_TYPE_MID then Err InvalidData (NotResponse mid)
          else case tcp_con_set_nonblocking True (cl_tcp client) of (Inl e, _) \<Rightarrow> Inl e
          | (Inr _, t) \<Rightarrow> case udp_con_set_nonblocking True (cl_udp client) of (Inl e, _) \<Rightarrow> Inl e
          | (Inr _, u) \<Rightarrow> Ok (client\<lparr>cl_tcp := t, cl_udp := u\<rparr>, em_msg net_msg)) = Ok (cl, resp)"
    using assms(1) unfolding client_new_blocking_def and_then_Inr_iff Let_def by blast
  obtain cl1 where sent: "client_send now con_msg cl0 = (Ok (), cl1)"
    using rest by (cases "client_send now con_msg cl0"; cases "fst (client_send now con_msg cl0)") auto
  obtain mid msg cl2 where recv: "client_recv_tcp (client_await sys cl1) = (Ok (mid, msg), cl2)"
    using rest sent
    by (cases "client_recv_tcp (client_await sys cl1)"; cases "fst (client_recv_tcp (client_await sys cl1))") auto
  have mid: "mid = RESPONSE_TYPE_MID" and
    fin: "cl = cl2\<lparr>cl_tcp := (cl_tcp cl2)\<lparr>tc_tcp := (tc_tcp (cl_tcp cl2))\<lparr>is_nonblocking := True\<rparr>\<rparr>,
        cl_udp := (cl_udp cl2)\<lparr>uc_udp := (uc_udp (cl_udp cl2))\<lparr>u_nonblocking := True\<rparr>\<rparr>\<rparr>" "resp = em_msg msg"
    using rest sent recv
    by (auto simp: tcp_con_set_nonblocking_def udp_con_set_nonblocking_def stream_set_nonblocking_def
      socket_set_nonblocking_def split: if_splits)
  have "wf_ucon udp" using udp by (auto simp: udp_con_new_def res_simps wf_ucon_def)
  then have "wf_client cl0" using assms(2) by (simp add: cl0 wf_client_def)
  moreover obtain s u where cl1: "cl1 = client_net cl0 s u" using client_send_frame [OF sent] by blast
  ultimately have "wf_client (client_await sys cl1)"
    by (simp add: client_await_def wf_client_def wf_con_def wf_ucon_def)
  then have wf: "wf_client cl2" using wf_client_recv_tcp recv by blast
  have cl2: "cl2 = (client_await sys cl1)\<lparr>cl_tcp := cl_tcp cl2\<rparr>"
    using client_recv_tcp_frame(1) [OF recv] by simp
  have fields: "cl_status cl2 = Connected" "cl_parts cl2 = parts" "cl_config cl2 = config"
    "cl_msg_buff cl2 = replicate (mid_count parts) []"
    by (subst cl2, simp add: client_await_def cl1 cl0)+
  have "any_tid con_msg \<in> dom (tid_map parts)"
    using sent by (auto simp: client_send_def valid_tid_def cl0 Let_def split: if_splits)
  moreover have "any_tid resp = R"
  proof -
    have parts: "cl_parts (client_await sys cl1) = parts" by (simp add: client_await_def cl1 cl0)
    obtain m' bytes where "decode_msg parts 0 None m' bytes = Ok (mid, msg)"
      using recv parts by (auto simp: client_recv_tcp_def split: prod.splits sum.splits)
    from decode_msg_tid [OF assms(2,3) _ this] show ?thesis using assms(4) mid fin(2) by simp
  qed
  moreover have "wf_client cl" using wf by (simp add: fin(1) wf_client_def wf_con_def wf_ucon_def)
  ultimately show ?thesis using fields stream by (simp add: fin(1))
qed

text \<open>
  C25: When connecting succeeds, a stream to the peer was opened, the type of the connection message
  is registered (nothing checks that it is the connection type), and the value handed back has, with
  the table's own decoders, the type registered as response. The client is connected and well
  formed, its buffers are empty, and both sockets are nonblocking from then on.
\<close>

theorem client_connects:
  assumes "client_new_blocking sys now peer parts config con_msg = Ok (cl, resp)"
    and "wf_parts parts" "codec_of bc parts" "tid_map parts R = Some RESPONSE_TYPE_MID"
  shows "cl_status cl = Connected \<and> wf_client cl \<and> cl_parts cl = parts \<and> cl_config cl = config \<and>
    cl_msg_buff cl = replicate (mid_count parts) [] \<and>
    any_tid con_msg \<in> dom (tid_map parts) \<and> any_tid resp = R \<and>
    (\<exists>stream. os_connect sys peer = Ok stream) \<and>
    is_nonblocking (tc_tcp (cl_tcp cl)) \<and> u_nonblocking (uc_udp (cl_udp cl))"
  using assms by (rule new_blocking_result)

definition demo_os :: os where
  "demo_os = \<lparr>os_connect = (\<lambda>a. Ok (demo_stream\<lparr>is_nonblocking := False\<rparr>)),
     os_listen = (\<lambda>a. Ok \<lparr>backlog = [], l_nonblocking = False, l_local = Some a\<rparr>),
     os_udp_bind = (\<lambda>a. Ok (demo_socket\<lparr>u_nonblocking := False, u_local := Some a\<rparr>)),
     os_udp_connect = (\<lambda>a s. Ok (s\<lparr>u_peer := Some a\<rparr>)),
     os_await = (\<lambda>s. s\<lparr>rx := frame 1 [6]\<rparr>)\<rparr>"

lemma client_new_blocking_Ok:
  assumes "os_connect sys peer = Ok stream" "cfg_timeout config \<noteq> 0"
    and "local_name stream = Some l" "peer_name stream = Some p"
    and "udp_con_new sys l (Some p) (cfg_max_msg_size config) = Ok udp"
    and "client_send now con_msg \<lparr>cl_config = config, cl_status = Connected,
      cl_msg_buff = replicate (mid_count parts) [],
      cl_tcp = tcp_from_stream stream (cfg_max_msg_size config), cl_udp = udp, cl_parts = parts\<rparr> = (Ok (), cl1)"
    and "client_recv_tcp (client_await sys cl1) = (Ok (RESPONSE_TYPE_MID, msg), cl2)"
  shows "\<exists>cl. client_new_blocking sys now peer parts config con_msg = Ok (cl, em_msg msg) \<and>
    cl = cl2\<lparr>cl_tcp := (cl_tcp cl2)\<lparr>tc_tcp := (tc_tcp (cl_tcp cl2))\<lparr>is_nonblocking := True\<rparr>\<rparr>,
      cl_udp := (cl_udp cl2)\<lparr>uc_udp := (uc_udp (cl_udp cl2))\<lparr>u_nonblocking := True\<rparr>\<rparr>\<rparr>"
  using assms
  by (simp add: client_new_blocking_def stream_set_read_timeout_def tcp_con_local_addr_def
    tcp_con_peer_addr_def name_res_def tcp_con_set_nonblocking_def udp_con_set_nonblocking_def
    stream_set_nonblocking_def socket_set_nonblocking_def)

lemma demo_client_connects:
  "\<exists>cl. client_new_blocking demo_os 0 (SockAddr 1 7777) demo_parts config_default (AnyBox 10 5) =
     Ok (cl, AnyBox 11 6)"
proof -
  let ?s = "demo_stream\<lparr>is_nonblocking := False\<rparr>"
  let ?udp = "\<lparr>uc_buff = replicate 2052 0, uc_udp = demo_socket\<lparr>u_local := Some (SockAddr 2 40000),
    u_peer := Some (SockAddr 1 7777), u_nonblocking := True\<rparr>\<rparr>"
  let ?cl0 = "\<lparr>cl_config = config_default, cl_status = Connected, cl_msg_buff = replicate (mid_count demo_parts) [],
      cl_tcp = tcp_from_stream ?s (cfg_max_msg_size config_default), cl_udp = ?udp, cl_parts = demo_parts\<rparr>"
  define cl1 where "cl1 = snd (client_send 0 (AnyBox 10 5) ?cl0)"
  have os: "os_connect demo_os p = Ok ?s" "cfg_timeout config_default \<noteq> 0"
    "local_name ?s = Some (SockAddr 2 40000)" "peer_name ?s = Some (SockAddr 1 7777)"
    "udp_con_new demo_os (SockAddr 2 40000) (Some (SockAddr 1 7777)) (cfg_max_msg_size config_default) = Ok ?udp" for p
    by (simp_all add: demo_os_def demo_stream_def udp_con_new_def socket_set_nonblocking_def config_default_def)
  have send: "client_send 0 (AnyBox 10 5) ?cl0 = (Ok (), cl1)" "cl_parts cl1 = demo_parts"
    "tcp_max_msg_size (cl_tcp cl1) = 2048" "wf_con (cl_tcp cl1)"
    by (simp_all add: cl1_def client_send_def valid_tid_def hash_index_def index_def demo_ser Let_def
      client_send_tcp_def tcp_con_send_eq stream_write_all_def demo_stream_def tcp_buff_size_def
      tcp_from_stream_def config_default_def tcp_max_msg_size_def wf_con_def)
  let ?t = "(cl_tcp cl1)\<lparr>tc_tcp := (tc_tcp (cl_tcp cl1))\<lparr>rx := frame 1 [6]\<rparr>\<rparr>"
  have "wf_con ?t" "rx (tc_tcp ?t) = frame 1 [6] @ []" "fits (tcp_max_msg_size ?t) (1, [6])"
    using send(3,4) by (simp_all add: wf_con_def fits_def tcp_max_msg_size_def)
  then obtain t where "tcp_con_recv ?t = (Ok (1, [6]), t)" using recv_frame by blast
  then have "client_recv_tcp (client_await demo_os cl1) =
      (Ok (RESPONSE_TYPE_MID, demo_msg 11 6), (client_await demo_os cl1)\<lparr>cl_tcp := t\<rparr>)"
    using send(2) demo_deser [of 6 11]
    by (simp add: client_recv_tcp_def client_await_def demo_os_def decode_msg_def decode_any_def valid_mid_def index_def mid_defs)
  from client_new_blocking_Ok [OF os send(1) this] show ?thesis by auto
qed

theorem client_connects_witness:
  "\<exists>cl. client_new_blocking demo_os 0 (SockAddr 1 7777) demo_parts config_default (AnyBox 10 5) =
       Ok (cl, AnyBox 11 6) \<and> cl_status cl = Connected \<and> wf_client cl"
proof -
  obtain cl where c: "client_new_blocking demo_os 0 (SockAddr 1 7777) demo_parts config_default (AnyBox 10 5) =
      Ok (cl, AnyBox 11 6)" using demo_client_connects by blast
  show ?thesis
    using client_connects [OF c demo_parts_wf(1,3), of 11] c by (simp add: mid_defs)
qed

end
