(* ===== verification/Server.thy ===== *)
theory Server
  imports Decode Tcp Udp
begin

text \<open>
  \<open>src/server.rs\<close>: a server with a listener, pending and accepted TCP connections and one UDP
  socket for all clients. \<open>HashMap\<close>s are maps; their iteration order is the parameter \<open>ko\<close>,
  which lists the keys of a map. A hook (\<open>impl FnMut\<close>) is a function that threads the state
  \<open>'h\<close> its closure captures. \<open>clk\<close> gives the readings of the monotonic clock and \<open>now\<close>
  those of the system time, by position in the loop that takes them. What \<open>drop\<close> does to a
  connection that leaves the server is not modelled. The \<open>u32\<close> counts of \<open>recv_msgs\<close> and
  \<open>handle_disconnects\<close> wrap in either build, where one with overflow checks would panic after
  \<open>2 ^ 32\<close> messages or clients in one call; the counter of ids is checked.
\<close>

type_synonym pending_con = "tcp_con \<times> cid \<times> nat"

record 'v server =
  sv_current_cid :: cid
  sv_config :: net_config
  sv_msg_buff :: "'v msg_buff"
  sv_new_cons :: "pending_con list"
  sv_disconnected :: "(cid \<times> 'v status) list"
  sv_listener :: tcp_listener
  sv_tcp :: "cid \<rightharpoonup> tcp_con"
  sv_udp :: udp_con
  sv_cid_addr :: "cid \<rightharpoonup> sock_addr"
  sv_addr_cid :: "sock_addr \<rightharpoonup> cid"
  sv_parts :: "'v parts"

section \<open>Creating a server\<close>

definition server_new :: "os \<Rightarrow> sock_addr \<Rightarrow> 'v parts \<Rightarrow> net_config \<Rightarrow> 'v server res" where
  "server_new sys listen_addr parts config =
     and_then (os_listen sys listen_addr) (\<lambda>listener.
     and_then (unwrap_res (name_res (l_local listener))) (\<lambda>listen_addr.
     case listener_set_nonblocking True listener of
       (Inl e, _) \<Rightarrow> Inl e
     | (Inr _, listener) \<Rightarrow>
     and_then (udp_con_new sys listen_addr None (cfg_max_msg_size config)) (\<lambda>udp.
     Ok \<lparr>sv_current_cid = 0, sv_config = config,
         sv_msg_buff = replicate (card (dom (tid_map parts))) [],
         sv_new_cons = [], sv_disconnected = [], sv_listener = listener,
         sv_tcp = Map.empty, sv_udp = udp, sv_cid_addr = Map.empty, sv_addr_cid = Map.empty,
         sv_parts = parts\<rparr>)))"

definition server_get_config :: "'v server \<Rightarrow> net_config" where
  "server_get_config sv = sv_config sv"

section \<open>Connection bookkeeping\<close>

definition server_cids :: "((cid \<rightharpoonup> sock_addr) \<Rightarrow> cid list) \<Rightarrow> 'v server \<Rightarrow> cid list" where
  "server_cids ko sv = ko (sv_cid_addr sv)"

definition server_alive :: "'v server \<Rightarrow> cid \<Rightarrow> bool" where
  "server_alive sv cid \<longleftrightarrow> cid \<in> dom (sv_cid_addr sv)"

definition server_valid_tid :: "'v server \<Rightarrow> type_id \<Rightarrow> bool" where
  "server_valid_tid sv tid = valid_tid (sv_parts sv) tid"

definition server_connection_count :: "'v server \<Rightarrow> nat" where
  "server_connection_count sv = card (dom (sv_cid_addr sv))"

definition server_addr_of :: "'v server \<Rightarrow> cid \<Rightarrow> sock_addr option" where
  "server_addr_of sv cid = sv_cid_addr sv cid"

definition server_cid_of :: "'v server \<Rightarrow> sock_addr \<Rightarrow> cid option" where
  "server_cid_of sv addr = sv_addr_cid sv addr"

definition server_listen_addr :: "'v server \<Rightarrow> sock_addr res" where
  "server_listen_addr sv = unwrap_res (name_res (l_local (sv_listener sv)))"

definition server_new_cid :: "bool \<Rightarrow> 'v server \<Rightarrow> cid res \<times> 'v server" where
  "server_new_cid oc sv =
     (case add_u32 oc (sv_current_cid sv) 1 of
        Inl e \<Rightarrow> (Inl e, sv)
      | Inr c \<Rightarrow> (Ok c, sv\<lparr>sv_current_cid := c\<rparr>))"

definition server_add_tcp_con_cid :: "cid \<Rightarrow> tcp_con \<Rightarrow> 'v server \<Rightarrow> unit res \<times> 'v server" where
  "server_add_tcp_con_cid cid con sv =
     (case unwrap_res (tcp_con_peer_addr con) of
        Inl e \<Rightarrow> (Inl e, sv)
      | Inr peer_addr \<Rightarrow>
          (Ok (), sv\<lparr>sv_tcp := (sv_tcp sv)(cid \<mapsto> con),
                    sv_addr_cid := (sv_addr_cid sv)(peer_addr \<mapsto> cid),
                    sv_cid_addr := (sv_cid_addr sv)(cid \<mapsto> peer_addr)\<rparr>))"

definition server_rm_tcp_con :: "cid \<Rightarrow> 'v server \<Rightarrow> unit res \<times> 'v server" where
  "server_rm_tcp_con cid sv =
     (if sv_tcp sv cid = None then (Err InvalidData InvalidCId, sv)
      else
        let sv = sv\<lparr>sv_tcp := (sv_tcp sv)(cid := None)\<rparr> in
        case sv_cid_addr sv cid of
          None \<Rightarrow> (panics UnwrapNone, sv)
        | Some addr \<Rightarrow>
            (Ok (), sv\<lparr>sv_cid_addr := (sv_cid_addr sv)(cid := None),
                      sv_addr_cid := (sv_addr_cid sv)(addr := None)\<rparr>))"

section \<open>Sending\<close>

text \<open>The sockets are shared (\<open>&self\<close>); a send changes only their state.\<close>

definition server_send_tcp :: "cid \<Rightarrow> mid \<Rightarrow> byte list \<Rightarrow> 'v server \<Rightarrow> unit res \<times> 'v server" where
  "server_send_tcp cid mid payload sv =
     (case sv_tcp sv cid of
        None \<Rightarrow> (Err InvalidData InvalidCId, sv)
      | Some tcp \<Rightarrow>
          (case tcp_con_send mid payload tcp of
             (r, tcp) \<Rightarrow> (r, sv\<lparr>sv_tcp := (sv_tcp sv)(cid \<mapsto> tcp)\<rparr>)))"

definition server_send_udp :: "int \<Rightarrow> cid \<Rightarrow> mid \<Rightarrow> byte list \<Rightarrow> 'v server \<Rightarrow> unit res \<times> 'v server" where
  "server_send_udp now cid mid payload sv =
     (case sv_cid_addr sv cid of
        None \<Rightarrow> (Err InvalidData InvalidCId, sv)
      | Some addr \<Rightarrow>
          (case udp_con_send_to now addr mid payload (sv_udp sv) of
             (r, udp) \<Rightarrow> (r, sv\<lparr>sv_udp := udp\<rparr>)))"

definition server_send_to :: "int \<Rightarrow> cid \<Rightarrow> 'v any \<Rightarrow> 'v server \<Rightarrow> unit res \<times> 'v server" where
  "server_send_to now cid msg sv =
     (let tid = any_tid msg; parts = sv_parts sv in
      if \<not> server_valid_tid sv tid then (Err InvalidData TypeNotRegistered, sv)
      else
        case and_then (hash_index (tid_map parts) tid) (\<lambda>mid.
             and_then (index (transports parts) mid) (\<lambda>transport.
             and_then (index (ser parts) mid) (\<lambda>ser_fn.
             and_then (ser_fn msg) (\<lambda>b. Ok (mid, transport, b))))) of
          Inl e \<Rightarrow> (Inl e, sv)
        | Inr (mid, transport, b) \<Rightarrow>
            (case transport of
               TCP \<Rightarrow> server_send_tcp cid mid b sv
             | UDP \<Rightarrow> server_send_udp now cid mid b sv))"

text \<open>\<open>for cid in ... { self.send_to(cid, msg)?; }\<close>: the first failure ends the loop.\<close>

fun server_send_each :: "(cid \<Rightarrow> int) \<Rightarrow> cid list \<Rightarrow> 'v any \<Rightarrow> 'v server \<Rightarrow> unit res \<times> 'v server" where
  "server_send_each now [] msg sv = (Ok (), sv)"
| "server_send_each now (cid # cids) msg sv =
     and_then_st (server_send_to (now cid) cid msg sv) (\<lambda>_ sv. server_send_each now cids msg sv)"

definition server_broadcast ::
    "((cid \<rightharpoonup> sock_addr) \<Rightarrow> cid list) \<Rightarrow> (cid \<Rightarrow> int) \<Rightarrow> 'v any \<Rightarrow> 'v server \<Rightarrow> unit res \<times> 'v server" where
  "server_broadcast ko now msg sv = server_send_each now (server_cids ko sv) msg sv"

definition server_send_spec ::
    "((cid \<rightharpoonup> sock_addr) \<Rightarrow> cid list) \<Rightarrow> (cid \<Rightarrow> int) \<Rightarrow> cid_spec \<Rightarrow> 'v any \<Rightarrow> 'v server \<Rightarrow> unit res \<times> 'v server" where
  "server_send_spec ko now spec msg sv =
     server_send_each now (filter (cid_matches spec) (server_cids ko sv)) msg sv"

definition server_disconnect :: "int \<Rightarrow> 'v any \<Rightarrow> cid \<Rightarrow> 'v server \<Rightarrow> unit res \<times> 'v server" where
  "server_disconnect now discon_msg cid sv =
     (if \<not> server_alive sv cid then (Err InvalidData InvalidCId, sv)
      else
        and_then_st (server_send_to now cid discon_msg sv) (\<lambda>_ sv.
        case sv_tcp sv cid of
          None \<Rightarrow> (panics UnwrapNone, sv)
        | Some con \<Rightarrow>
            and_then_st (case tcp_con_close con of (r, con) \<Rightarrow> (r, sv\<lparr>sv_tcp := (sv_tcp sv)(cid \<mapsto> con)\<rparr>)) (\<lambda>_ sv.
            (Ok (), sv\<lparr>sv_disconnected := sv_disconnected sv @ [(cid, Closed)]\<rparr>))))"

section \<open>New connections\<close>

function server_start_incoming :: "bool \<Rightarrow> 'v server \<Rightarrow> unit res \<times> 'v server" where
  "server_start_incoming oc sv =
     (if length (sv_new_cons sv) < cfg_max_con_handle (sv_config sv) then
        case listener_accept (sv_listener sv) of
          (Inl _, l) \<Rightarrow> (Ok (), sv\<lparr>sv_listener := l\<rparr>)
        | (Inr (stream, at), l) \<Rightarrow>
            (case stream_set_nonblocking True stream of
               (Inl (IoErr e), _) \<Rightarrow> (panics (UnwrapErr e), sv\<lparr>sv_listener := l\<rparr>)
             | (Inl (Panic p), _) \<Rightarrow> (panics p, sv\<lparr>sv_listener := l\<rparr>)
             | (Inr _, stream) \<Rightarrow>
                 (let tcp_con = tcp_from_stream stream (cfg_max_msg_size (sv_config sv)) in
                  case server_new_cid oc (sv\<lparr>sv_listener := l\<rparr>) of
                    (Inl e, sv) \<Rightarrow> (Inl e, sv)
                  | (Inr cid, sv) \<Rightarrow>
                      server_start_incoming oc (sv\<lparr>sv_new_cons := sv_new_cons sv @ [(tcp_con, cid, at)]\<rparr>)))
      else (Ok (), sv))"
  by pat_completeness auto
termination
proof (relation "measure (\<lambda>(oc, sv). length (backlog (sv_listener sv)))", goal_cases)
  case 1
  then show ?case by simp
next
  case (2 oc sv)
  then show ?case
    by (auto simp: listener_accept_def server_new_cid_def
        split: list.splits accept_event.splits sum.splits)
qed

declare server_start_incoming.simps [simp del]

text \<open>\<open>handle_con_helper\<close>: \<open>elapsed\<close> is the age of the pending connection.\<close>

definition handle_con_helper ::
    "'v deser_fn \<Rightarrow> type_id \<Rightarrow> nat \<Rightarrow> nat \<Rightarrow> tcp_con \<Rightarrow> 'v res \<times> tcp_con" where
  "handle_con_helper deser_fn C timeout elapsed con =
     (if elapsed > timeout then (Err TimedOut NoConnectionInTime, con)
      else
        case tcp_con_recv con of
          (Inl e, con) \<Rightarrow> (Inl e, con)
        | (Inr (mid, msg), con) \<Rightarrow>
            (if mid \<noteq> CONNECTION_TYPE_MID then Err InvalidData (NotConnection mid)
             else case deser_fn msg of
               Inl (IoErr _) \<Rightarrow> Err InvalidData ConnectionDeser
             | Inl (Panic p) \<Rightarrow> panics p
             | Inr con_msg \<Rightarrow>
                 (case downcast C con_msg of None \<Rightarrow> panics DowncastFailed | Some c \<Rightarrow> Ok c), con))"

text \<open>
  The loop over \<open>new_cons\<close>, with the index: what \<open>handle_con_helper\<close> leaves of each connection,
  and the lists \<open>accepted\<close>, \<open>rejected\<close> and \<open>dead\<close>. With \<open>one\<close> it stops after the
  first hook call, as in \<open>handle_new_con\<close>.
\<close>

type_synonym 'v sorted_cons = "(nat \<times> 'v) list \<times> (nat \<times> 'v) list \<times> nat list"
type_synonym ('v, 'h) con_hook = "cid \<Rightarrow> 'v \<Rightarrow> 'h \<Rightarrow> (bool \<times> 'v) \<times> 'h"

fun con_loop ::
    "bool \<Rightarrow> 'v deser_fn \<Rightarrow> type_id \<Rightarrow> nat \<Rightarrow> (nat \<Rightarrow> nat) \<Rightarrow> ('v, 'h) con_hook \<Rightarrow>
     nat \<Rightarrow> pending_con list \<Rightarrow> 'v sorted_cons \<Rightarrow> 'h \<Rightarrow> 'v sorted_cons res \<times> pending_con list \<times> 'h" where
  "con_loop one deser_fn C timeout clk hook idx [] ls h = (Ok ls, [], h)"
| "con_loop one deser_fn C timeout clk hook idx ((con, cid, time) # cons) (accepted, rejected, dead) h =
     (case handle_con_helper deser_fn C timeout (clk idx - time) con of
        (Inr c, con) \<Rightarrow>
          (case hook cid c h of ((acc, resp), h) \<Rightarrow>
             (let ls = if acc then (accepted @ [(idx, resp)], rejected, dead)
                       else (accepted, rejected @ [(idx, resp)], dead)
              in if one then (Ok ls, (con, cid, time) # cons, h)
                 else case con_loop one deser_fn C timeout clk hook (Suc idx) cons ls h of
                        (r, cons, h) \<Rightarrow> (r, (con, cid, time) # cons, h)))
      | (Inl (Panic p), con) \<Rightarrow> (panics p, (con, cid, time) # cons, h)
      | (Inl (IoErr e), con) \<Rightarrow>
          let ls = if err_kind e = WouldBlock then (accepted, rejected, dead)
                      else (accepted, rejected, dead @ [idx])
          in case con_loop one deser_fn C timeout clk hook (Suc idx) cons ls h of
               (r, cons, h) \<Rightarrow> (r, (con, cid, time) # cons, h))"

text \<open>
  Sending the response: an error is logged, a panic is not caught. \<open>reject_incoming\<close> owns the
  connection, which is dropped at its end; it is returned here as it is then.
\<close>

definition server_accept_incoming :: "int \<Rightarrow> cid \<Rightarrow> tcp_con \<Rightarrow> 'v any \<Rightarrow> 'v server \<Rightarrow> unit res \<times> 'v server" where
  "server_accept_incoming now cid con resp sv =
     (case unwrap_res (tcp_con_peer_addr con) of
        Inl e \<Rightarrow> (Inl e, sv)
      | Inr addr \<Rightarrow>
          and_then_st (server_add_tcp_con_cid cid con sv) (\<lambda>_ sv.
          case server_send_to now cid resp sv of
            (Inl (Panic p), sv) \<Rightarrow> (panics p, sv)
          | (Inl (IoErr e), sv) \<Rightarrow> (Ok (), sv)
          | (Inr _, sv) \<Rightarrow> (Ok (), sv)))"

definition server_reject_incoming :: "tcp_con \<Rightarrow> 'v any \<Rightarrow> 'v server \<Rightarrow> unit res \<times> tcp_con" where
  "server_reject_incoming con resp sv =
     (case index (ser (sv_parts sv)) RESPONSE_TYPE_MID of
        Inl e \<Rightarrow> (Inl e, con)
      | Inr ser_fn \<Rightarrow>
          (case ser_fn resp of
             Inl (Panic p) \<Rightarrow> (panics p, con)
           | Inl (IoErr e) \<Rightarrow> (Ok (), con)
           | Inr payload \<Rightarrow>
               (case unwrap_res (tcp_con_peer_addr con) of
                  Inl e \<Rightarrow> (Inl e, con)
                | Inr addr \<Rightarrow>
                    (case tcp_con_send RESPONSE_TYPE_MID payload con of
                       (Inl (Panic p), con) \<Rightarrow> (panics p, con)
                     | (_, con) \<Rightarrow> (Ok (), con)))))"

text \<open>The three loops after it: each removes by the index found before any removal.\<close>

fun server_accept_all ::
    "int \<Rightarrow> type_id \<Rightarrow> (nat \<times> 'v) list \<Rightarrow> 'v server \<Rightarrow> unit res \<times> 'v server" where
  "server_accept_all now R [] sv = (Ok (), sv)"
| "server_accept_all now R ((idx, resp) # accepted) sv =
     (case vec_remove idx (sv_new_cons sv) of
        Inl e \<Rightarrow> (Inl e, sv)
      | Inr ((con, cid, _), cons) \<Rightarrow>
          and_then_st (server_accept_incoming now cid con (AnyBox R resp) (sv\<lparr>sv_new_cons := cons\<rparr>)) (\<lambda>_ sv.
          server_accept_all now R accepted sv))"

fun server_reject_all :: "type_id \<Rightarrow> (nat \<times> 'v) list \<Rightarrow> 'v server \<Rightarrow> unit res \<times> 'v server" where
  "server_reject_all R [] sv = (Ok (), sv)"
| "server_reject_all R ((idx, resp) # rejected) sv =
     (case vec_remove idx (sv_new_cons sv) of
        Inl e \<Rightarrow> (Inl e, sv)
      | Inr ((con, cid, _), cons) \<Rightarrow>
          let sv = sv\<lparr>sv_new_cons := cons\<rparr> in
          and_then_st (fst (server_reject_incoming con (AnyBox R resp) sv), sv) (\<lambda>_ sv.
          server_reject_all R rejected sv))"

fun server_remove_dead :: "nat list \<Rightarrow> 'v server \<Rightarrow> unit res \<times> 'v server" where
  "server_remove_dead [] sv = (Ok (), sv)"
| "server_remove_dead (idx # dead) sv =
     (case vec_remove idx (sv_new_cons sv) of
        Inl e \<Rightarrow> (Inl e, sv)
      | Inr (_, cons) \<Rightarrow> server_remove_dead dead (sv\<lparr>sv_new_cons := cons\<rparr>))"

text \<open>
  \<open>handle_new_con\<close> and \<open>handle_new_cons\<close> differ in the \<open>break\<close> and in what they return.
\<close>

definition server_settle :: "int \<Rightarrow> type_id \<Rightarrow> 'v sorted_cons \<Rightarrow> 'v server \<Rightarrow> unit res \<times> 'v server" where
  "server_settle now R ls sv =
     (case ls of (accepted, rejected, dead) \<Rightarrow>
        and_then_st (server_accept_all now R accepted sv) (\<lambda>_ sv.
        and_then_st (server_reject_all R rejected sv) (\<lambda>_ sv.
        server_remove_dead dead sv)))"

definition server_handle_new_con ::
    "bool \<Rightarrow> int \<Rightarrow> (nat \<Rightarrow> nat) \<Rightarrow> type_id \<Rightarrow> type_id \<Rightarrow> ('v, 'h) con_hook \<Rightarrow> 'h \<Rightarrow> 'v server \<Rightarrow>
     bool res \<times> 'h \<times> 'v server" where
  "server_handle_new_con oc now clk C R hook h sv =
     (case server_start_incoming oc sv of
        (Inl e, sv) \<Rightarrow> (Inl e, h, sv)
      | (Inr _, sv) \<Rightarrow>
          if sv_new_cons sv = [] then (Ok False, h, sv)
          else
            (case index (deser (sv_parts sv)) CONNECTION_TYPE_MID of
               Inl e \<Rightarrow> (Inl e, h, sv)
             | Inr deser_fn \<Rightarrow>
                 (case con_loop True deser_fn C (cfg_timeout (sv_config sv)) clk hook 0
                         (sv_new_cons sv) ([], [], []) h of
                    (Inl e, cons, h) \<Rightarrow> (Inl e, h, sv\<lparr>sv_new_cons := cons\<rparr>)
                  | (Inr (accepted, rejected, dead), cons, h) \<Rightarrow>
                      (let handled = \<not> (accepted = [] \<and> rejected = []) in
                       case server_settle now R (accepted, rejected, dead) (sv\<lparr>sv_new_cons := cons\<rparr>) of
                         (Inl e, sv) \<Rightarrow> (Inl e, h, sv)
                       | (Inr _, sv) \<Rightarrow> (Ok handled, h, sv)))))"

definition server_handle_new_cons ::
    "bool \<Rightarrow> int \<Rightarrow> (nat \<Rightarrow> nat) \<Rightarrow> type_id \<Rightarrow> type_id \<Rightarrow> ('v, 'h) con_hook \<Rightarrow> 'h \<Rightarrow> 'v server \<Rightarrow>
     u32 res \<times> 'h \<times> 'v server" where
  "server_handle_new_cons oc now clk C R hook h sv =
     (case server_start_incoming oc sv of
        (Inl e, sv) \<Rightarrow> (Inl e, h, sv)
      | (Inr _, sv) \<Rightarrow>
          if sv_new_cons sv = [] then (Ok 0, h, sv)
          else
            (case index (deser (sv_parts sv)) CONNECTION_TYPE_MID of
               Inl e \<Rightarrow> (Inl e, h, sv)
             | Inr deser_fn \<Rightarrow>
                 (case con_loop False deser_fn C (cfg_timeout (sv_config sv)) clk hook 0
                         (sv_new_cons sv) ([], [], []) h of
                    (Inl e, cons, h) \<Rightarrow> (Inl e, h, sv\<lparr>sv_new_cons := cons\<rparr>)
                  | (Inr (accepted, rejected, dead), cons, h) \<Rightarrow>
                      (let handled = length accepted + length rejected in
                       case server_settle now R (accepted, rejected, dead) (sv\<lparr>sv_new_cons := cons\<rparr>) of
                         (Inl e, sv) \<Rightarrow> (Inl e, h, sv)
                       | (Inr _, sv) \<Rightarrow> (Ok (word_of_nat handled), h, sv)))))"

section \<open>Disconnects\<close>

type_synonym ('v, 'h) discon_hook = "cid \<Rightarrow> 'v status \<Rightarrow> 'h \<Rightarrow> 'h"

function server_handle_disconnect ::
    "('v, 'h) discon_hook \<Rightarrow> 'h \<Rightarrow> 'v server \<Rightarrow> bool res \<times> 'h \<times> 'v server" where
  "server_handle_disconnect hook h sv =
     (case sv_disconnected sv of
        [] \<Rightarrow> (Ok False, h, sv)
      | (cid, status) # queue \<Rightarrow>
          let sv = sv\<lparr>sv_disconnected := queue\<rparr> in
          if \<not> server_alive sv cid then server_handle_disconnect hook h sv
          else
            let h = hook cid status h in
            case server_rm_tcp_con cid sv of
              (r, sv) \<Rightarrow> (and_then (unwrap_res r) (\<lambda>_. Ok True), h, sv))"
  by pat_completeness auto
termination
  by (relation "measure (\<lambda>(hook, h, sv). length (sv_disconnected sv))") auto

declare server_handle_disconnect.simps [simp del]

function server_disconnect_loop ::
    "('v, 'h) discon_hook \<Rightarrow> 'h \<Rightarrow> u32 \<times> 'v server \<Rightarrow> unit res \<times> 'h \<times> u32 \<times> 'v server" where
  "server_disconnect_loop hook h (i, sv) =
     (case sv_disconnected sv of
        [] \<Rightarrow> (Ok (), h, i, sv)
      | (cid, status) # queue \<Rightarrow>
          (let sv = sv\<lparr>sv_disconnected := queue\<rparr> in
           if \<not> server_alive sv cid then server_disconnect_loop hook h (i, sv)
           else
             let h = hook cid status h in
             case server_rm_tcp_con cid sv of
               (Inl (IoErr e), sv) \<Rightarrow> (panics (UnwrapErr e), h, i, sv)
             | (Inl (Panic p), sv) \<Rightarrow> (panics p, h, i, sv)
             | (Inr _, sv) \<Rightarrow> server_disconnect_loop hook h (i + 1, sv)))"
  by pat_completeness auto
termination
proof (relation "measure (\<lambda>(hook, h, i, sv). length (sv_disconnected sv))", goal_cases)
  case (3 hook h i sv)
  then show ?case
    by (auto simp: server_rm_tcp_con_def Let_def split: if_splits option.splits)
qed auto

declare server_disconnect_loop.simps [simp del]

definition server_handle_disconnects ::
    "('v, 'h) discon_hook \<Rightarrow> 'h \<Rightarrow> 'v server \<Rightarrow> u32 res \<times> 'h \<times> 'v server" where
  "server_handle_disconnects hook h sv =
     (case server_disconnect_loop hook h (0, sv) of
        (Inl e, h, _, sv) \<Rightarrow> (Inl e, h, sv)
      | (Inr _, h, i, sv) \<Rightarrow> (Ok i, h, sv))"

section \<open>Receiving\<close>

definition server_recv_tcp :: "cid \<Rightarrow> 'v server \<Rightarrow> (mid \<times> 'v erased_net_msg) res \<times> 'v server" where
  "server_recv_tcp cid sv =
     (case sv_tcp sv cid of
        None \<Rightarrow> (Err InvalidData InvalidCId, sv)
      | Some tcp \<Rightarrow>
          (case tcp_con_recv tcp of
             (Inl e, tcp) \<Rightarrow> (Inl e, sv\<lparr>sv_tcp := (sv_tcp sv)(cid \<mapsto> tcp)\<rparr>)
           | (Inr (mid, bytes), tcp) \<Rightarrow>
               (decode_msg (sv_parts sv) cid None mid bytes, sv\<lparr>sv_tcp := (sv_tcp sv)(cid \<mapsto> tcp)\<rparr>)))"

text \<open>The message is decoded before its sender is looked up.\<close>

definition server_recv_udp :: "bool \<Rightarrow> 'v server \<Rightarrow> (mid \<times> 'v erased_net_msg) res \<times> 'v server" where
  "server_recv_udp oc sv =
     (case udp_con_recv_from oc (sv_udp sv) of
        (Inl e, udp) \<Rightarrow> (Inl e, sv\<lparr>sv_udp := udp\<rparr>)
      | (Inr (src, mid, time, bytes), udp) \<Rightarrow>
          (and_then (decode_any (sv_parts sv) mid bytes) (\<lambda>msg.
             case sv_addr_cid sv src of
               None \<Rightarrow> Err Other UnknownAddress
             | Some cid \<Rightarrow>
                 if server_alive sv cid then Ok (mid, \<lparr>em_cid = cid, em_time = Some time, em_msg = msg\<rparr>)
                 else Err Other UnknownAddress),
           sv\<lparr>sv_udp := udp\<rparr>))"

text \<open>Both handlers return whether the connection is done yielding messages.\<close>

fun server_handle_tcp_msg ::
    "cid \<Rightarrow> (mid \<times> 'v erased_net_msg) res \<Rightarrow> u32 \<times> 'v server \<Rightarrow> bool res \<times> u32 \<times> 'v server" where
  "server_handle_tcp_msg cid (Inl (Panic p)) (i, sv) = (panics p, i, sv)"
| "server_handle_tcp_msg cid (Inl (IoErr e)) (i, sv) =
     (if err_kind e = WouldBlock then (Ok True, i, sv)
      else (Ok True, i, sv\<lparr>sv_disconnected := sv_disconnected sv @ [(cid, Dropped e)]\<rparr>))"
| "server_handle_tcp_msg cid (Inr (mid, net_msg)) (i, sv) =
     (if mid = DISCONNECT_TYPE_MID
      then (Ok True, i + 1,
            sv\<lparr>sv_disconnected := sv_disconnected sv @ [(cid, Disconnected (em_msg net_msg))]\<rparr>)
      else case push_msg mid net_msg (sv_msg_buff sv) of
             Inl e \<Rightarrow> (Inl e, i + 1, sv)
           | Inr buff \<Rightarrow> (Ok False, i + 1, sv\<lparr>sv_msg_buff := buff\<rparr>))"

fun server_handle_udp_msg ::
    "(mid \<times> 'v erased_net_msg) res \<Rightarrow> u32 \<times> 'v server \<Rightarrow> bool res \<times> u32 \<times> 'v server" where
  "server_handle_udp_msg (Inl (Panic p)) (i, sv) = (panics p, i, sv)"
| "server_handle_udp_msg (Inl (IoErr e)) (i, sv) = (Ok True, i, sv)"
| "server_handle_udp_msg (Inr (mid, net_msg)) (i, sv) =
     (case push_msg mid net_msg (sv_msg_buff sv) of
        Inl e \<Rightarrow> (Inl e, i + 1, sv)
      | Inr buff \<Rightarrow> (Ok False, i + 1, sv\<lparr>sv_msg_buff := buff\<rparr>))"

text \<open>A connection, once looked up, only loses bytes; an unsuccessful receive ends the loop.\<close>

definition server_rx :: "cid \<Rightarrow> 'v server \<Rightarrow> byte list" where
  "server_rx cid sv = (case sv_tcp sv cid of None \<Rightarrow> [] | Some con \<Rightarrow> rx (tc_tcp con))"

lemma server_recv_tcp_frame:
  assumes "server_recv_tcp cid sv = (r, sv')"
  shows "sv' = sv\<lparr>sv_tcp := (sv_tcp sv)(cid := map_option (\<lambda>con. snd (tcp_con_recv con)) (sv_tcp sv cid))\<rparr>"
    "r = Inr m \<Longrightarrow> length (server_rx cid sv') < length (server_rx cid sv)"
proof -
  show "sv' = sv\<lparr>sv_tcp := (sv_tcp sv)(cid := map_option (\<lambda>con. snd (tcp_con_recv con)) (sv_tcp sv cid))\<rparr>"
    using assms by (auto simp: server_recv_tcp_def fun_upd_idem split: option.splits prod.splits sum.splits)
  show "r = Inr m \<Longrightarrow> length (server_rx cid sv') < length (server_rx cid sv)"
    using assms tcp_con_recv_shrinks [of "the (sv_tcp sv cid)"]
    by (auto simp: server_recv_tcp_def server_rx_def split: option.splits prod.splits sum.splits)
qed

lemma server_recv_udp_frame:
  assumes "server_recv_udp oc sv = (r, sv')"
  shows "sv' = sv\<lparr>sv_udp := snd (udp_con_recv_from oc (sv_udp sv))\<rparr>"
    "urx (uc_udp (sv_udp sv)) = [] \<Longrightarrow> r = Err WouldBlock OsMessage"
    "urx (uc_udp (sv_udp sv')) = tl (urx (uc_udp (sv_udp sv)))"
proof -
  show frame: "sv' = sv\<lparr>sv_udp := snd (udp_con_recv_from oc (sv_udp sv))\<rparr>"
    using assms by (auto simp: server_recv_udp_def split: prod.splits sum.splits)
  show "urx (uc_udp (sv_udp sv)) = [] \<Longrightarrow> r = Err WouldBlock OsMessage"
    using assms recv_from_empty [of "sv_udp sv" oc] by (simp add: server_recv_udp_def)
  show "urx (uc_udp (sv_udp sv')) = tl (urx (uc_udp (sv_udp sv)))"
    unfolding frame by simp
qed

lemma server_handle_tcp_continues:
  assumes "server_handle_tcp_msg cid msg (i, sv) = (Inr False, s)"
  shows "\<exists>m buff. msg = Inr m \<and> push_msg (fst m) (snd m) (sv_msg_buff sv) = Inr buff \<and>
    s = (i + 1, sv\<lparr>sv_msg_buff := buff\<rparr>)"
  using assms
  by (cases "(cid, msg, (i, sv))" rule: server_handle_tcp_msg.cases)
    (auto split: if_splits sum.splits)

lemma server_handle_udp_continues:
  assumes "server_handle_udp_msg msg (i, sv) = (Inr False, s)"
  shows "\<exists>m buff. msg = Inr m \<and> push_msg (fst m) (snd m) (sv_msg_buff sv) = Inr buff \<and>
    s = (i + 1, sv\<lparr>sv_msg_buff := buff\<rparr>)"
  using assms
  by (cases "(msg, (i, sv))" rule: server_handle_udp_msg.cases) (auto split: if_splits sum.splits)

text \<open>The two \<open>loop\<close>s of \<open>recv_msgs\<close>, over the count and the server.\<close>

function server_tcp_loop :: "cid \<Rightarrow> u32 \<times> 'v server \<Rightarrow> unit res \<times> u32 \<times> 'v server" where
  "server_tcp_loop cid (i, sv) =
     (case server_recv_tcp cid sv of (msg, sv) \<Rightarrow>
       (case server_handle_tcp_msg cid msg (i, sv) of
          (Inl e, s) \<Rightarrow> (Inl e, s)
        | (Inr finished, s) \<Rightarrow> if finished then (Ok (), s) else server_tcp_loop cid s))"
  by pat_completeness auto
termination
proof (relation "measure (\<lambda>(cid, i, sv). length (server_rx cid sv))", goal_cases)
  case 1
  then show ?case by simp
next
  case (2 cid i sv msg sv1 r s finished)
  then have *: "server_recv_tcp cid sv = (msg, sv1)" "server_handle_tcp_msg cid msg (i, sv1) = (Inr False, s)"
    by auto
  obtain m buff where "msg = Inr m" "s = (i + 1, sv1\<lparr>sv_msg_buff := buff\<rparr>)"
    using server_handle_tcp_continues [OF *(2)] by blast
  then show ?case using server_recv_tcp_frame(2) [OF *(1)] by (simp add: server_rx_def)
qed

function server_udp_loop :: "bool \<Rightarrow> u32 \<times> 'v server \<Rightarrow> unit res \<times> u32 \<times> 'v server" where
  "server_udp_loop oc (i, sv) =
     (case server_recv_udp oc sv of (msg, sv) \<Rightarrow>
       (case server_handle_udp_msg msg (i, sv) of
          (Inl e, s) \<Rightarrow> (Inl e, s)
        | (Inr finished, s) \<Rightarrow> if finished then (Ok (), s) else server_udp_loop oc s))"
  by pat_completeness auto
termination
proof (relation "measure (\<lambda>(oc, i, sv). length (urx (uc_udp (sv_udp sv))))", goal_cases)
  case 1
  then show ?case by simp
next
  case (2 oc i sv msg sv1 r s finished)
  then have *: "server_recv_udp oc sv = (msg, sv1)" "server_handle_udp_msg msg (i, sv1) = (Inr False, s)"
    by auto
  obtain m buff where "msg = Inr m" "s = (i + 1, sv1\<lparr>sv_msg_buff := buff\<rparr>)"
    using server_handle_udp_continues [OF *(2)] by blast
  then show ?case using server_recv_udp_frame(2,3) [OF *(1)]
    by (cases "urx (uc_udp (sv_udp sv))") simp_all
qed

declare server_tcp_loop.simps [simp del] server_udp_loop.simps [simp del]

fun server_tcp_loops :: "cid list \<Rightarrow> u32 \<times> 'v server \<Rightarrow> unit res \<times> u32 \<times> 'v server" where
  "server_tcp_loops [] s = (Ok (), s)"
| "server_tcp_loops (cid # cids) s =
     and_then_st (server_tcp_loop cid s) (\<lambda>_ s. server_tcp_loops cids s)"

definition server_recv_msgs ::
    "((cid \<rightharpoonup> sock_addr) \<Rightarrow> cid list) \<Rightarrow> bool \<Rightarrow> 'v server \<Rightarrow> u32 res \<times> 'v server" where
  "server_recv_msgs ko oc sv =
     (case server_tcp_loops (server_cids ko sv) (0, sv) of
        (Inl e, _, sv) \<Rightarrow> (Inl e, sv)
      | (Inr _, i, sv) \<Rightarrow>
          (case server_udp_loop oc (i, sv) of
             (Inl e, _, sv) \<Rightarrow> (Inl e, sv)
           | (Inr _, i, sv) \<Rightarrow> (Ok i, sv)))"

section \<open>Reading the message buffers\<close>

definition server_recv :: "type_id \<Rightarrow> 'v server \<Rightarrow> 'v net_msg list res" where
  "server_recv T sv =
     (if \<not> valid_tid (sv_parts sv) T then panics NotRegistered
      else and_then (hash_index (tid_map (sv_parts sv)) T) (\<lambda>mid.
           and_then (index (sv_msg_buff sv) mid) (typed_msgs T)))"

definition server_try_recv :: "type_id \<Rightarrow> 'v server \<Rightarrow> 'v net_msg list option res" where
  "server_try_recv T sv =
     (case tid_map (sv_parts sv) T of
        None \<Rightarrow> Ok None
      | Some mid \<Rightarrow>
          and_then (index (sv_msg_buff sv) mid) (\<lambda>ms. and_then (typed_msgs T ms) (\<lambda>ns. Ok (Some ns))))"

definition server_recv_spec :: "cid_spec \<Rightarrow> type_id \<Rightarrow> 'v server \<Rightarrow> 'v net_msg list res" where
  "server_recv_spec spec T sv =
     (if \<not> valid_tid (sv_parts sv) T then panics NotRegistered
      else and_then (hash_index (tid_map (sv_parts sv)) T) (\<lambda>mid.
           and_then (index (sv_msg_buff sv) mid) (\<lambda>ms.
           typed_msgs T (filter (\<lambda>m. cid_matches spec (em_cid m)) ms))))"

definition server_try_recv_spec :: "cid_spec \<Rightarrow> type_id \<Rightarrow> 'v server \<Rightarrow> 'v net_msg list option res" where
  "server_try_recv_spec spec T sv =
     (case tid_map (sv_parts sv) T of
        None \<Rightarrow> Ok None
      | Some mid \<Rightarrow>
          and_then (index (sv_msg_buff sv) mid) (\<lambda>ms.
          and_then (typed_msgs T (filter (\<lambda>m. cid_matches spec (em_cid m)) ms)) (\<lambda>ns. Ok (Some ns))))"

definition server_clear_msgs :: "'v server \<Rightarrow> 'v server" where
  "server_clear_msgs sv = sv\<lparr>sv_msg_buff := map (\<lambda>buff. []) (sv_msg_buff sv)\<rparr>"

end
