(* ===== verification/Server_Invariant.thy ===== *)
theory Server_Invariant
  imports Server
begin

text \<open>
  The invariant of a server (\<open>src/server.rs\<close>), that every operation keeps it, the step relation
  of a server's life, and the queue of disconnected clients against its specification.
\<close>

section \<open>The invariant of a server\<close>

text \<open>
  The three maps of accepted connections, the ids given out so far, and the sizes of buffers. The
  source asks that \<open>addr_cid\<close> mirror \<open>cid_addr\<close>; what holds always is one direction of it.
\<close>

definition maps_ok :: "'v server \<Rightarrow> bool" where
  "maps_ok sv \<longleftrightarrow> dom (sv_tcp sv) = dom (sv_cid_addr sv) \<and> finite (dom (sv_cid_addr sv)) \<and>
     (\<forall>addr cid. sv_addr_cid sv addr = Some cid \<longrightarrow> sv_cid_addr sv cid = Some addr)"

definition pending_cid :: "pending_con \<Rightarrow> cid" where
  "pending_cid p = fst (snd p)"

definition ids_ok :: "'v server \<Rightarrow> bool" where
  "ids_ok sv \<longleftrightarrow> distinct (map pending_cid (sv_new_cons sv)) \<and>
     dom (sv_cid_addr sv) \<inter> set (map pending_cid (sv_new_cons sv)) = {} \<and>
     (\<forall>cid \<in> dom (sv_cid_addr sv) \<union> set (map pending_cid (sv_new_cons sv)).
        0 < cid \<and> cid \<le> sv_current_cid sv)"

definition buffers_ok :: "'v server \<Rightarrow> bool" where
  "buffers_ok sv \<longleftrightarrow> wf_parts (sv_parts sv) \<and> length (sv_msg_buff sv) = mid_count (sv_parts sv) \<and>
     (\<forall>con \<in> ran (sv_tcp sv). wf_con con) \<and> (\<forall>p \<in> set (sv_new_cons sv). wf_con (fst p)) \<and>
     wf_ucon (sv_udp sv)"

definition wf_server :: "'v server \<Rightarrow> bool" where
  "wf_server sv \<longleftrightarrow> maps_ok sv \<and> ids_ok sv \<and> buffers_ok sv"

lemmas wf_server_defs = wf_server_def maps_ok_def ids_ok_def buffers_ok_def

text \<open>Sending and receiving act on sockets and receive buffers, whose sizes they keep.\<close>

definition socks_only :: "'v server \<Rightarrow> 'v server \<Rightarrow> bool" where
  "socks_only sv sv' \<longleftrightarrow> (\<exists>t u. sv' = sv\<lparr>sv_tcp := t, sv_udp := u\<rparr> \<and>
     length (uc_buff u) = length (uc_buff (sv_udp sv)) \<and>
     (\<forall>c. rel_option (\<lambda>a b. length (tc_buff b) = length (tc_buff a)) (sv_tcp sv c) (t c)))"

lemma socks_only_refl [simp]: "socks_only sv sv"
  unfolding socks_only_def
  by (intro exI [of _ "sv_tcp sv"] exI [of _ "sv_udp sv"]) (simp add: option.rel_refl)

lemma socks_only_trans:
  assumes "socks_only a b" "socks_only b c"
  shows "socks_only a c"
proof -
  let ?R = "\<lambda>a b. length (tc_buff b) = length (tc_buff a)"
  obtain t u t' u' where b: "b = a\<lparr>sv_tcp := t, sv_udp := u\<rparr>" "length (uc_buff u) = length (uc_buff (sv_udp a))"
      "\<And>c. rel_option ?R (sv_tcp a c) (t c)"
    and c: "c = b\<lparr>sv_tcp := t', sv_udp := u'\<rparr>" "length (uc_buff u') = length (uc_buff (sv_udp b))"
      "\<And>c. rel_option ?R (sv_tcp b c) (t' c)"
    using assms by (auto simp: socks_only_def)
  have "rel_option ?R (sv_tcp a x) (t' x)" for x
    using b(3) [of x] c(3) [of x] by (auto simp: b(1) rel_option_iff split: option.splits)
  then show ?thesis
    unfolding socks_only_def using b(1,2) c(1,2) by (intro exI [of _ t'] exI [of _ u']) simp
qed

lemma socks_only_tcp:
  assumes "sv_tcp sv cid = Some con" "length (tc_buff con') = length (tc_buff con)"
  shows "socks_only sv (sv\<lparr>sv_tcp := (sv_tcp sv)(cid \<mapsto> con')\<rparr>)"
  unfolding socks_only_def
  by (intro exI [of _ "(sv_tcp sv)(cid \<mapsto> con')"] exI [of _ "sv_udp sv"])
    (simp add: assms option.rel_refl)

lemma socks_only_udp:
  assumes "length (uc_buff u) = length (uc_buff (sv_udp sv))"
  shows "socks_only sv (sv\<lparr>sv_udp := u\<rparr>)"
  unfolding socks_only_def
  by (intro exI [of _ "sv_tcp sv"] exI [of _ u]) (simp add: assms option.rel_refl)

lemma socks_only_fields:
  assumes "socks_only sv sv'"
  shows "sv_current_cid sv' = sv_current_cid sv" "sv_config sv' = sv_config sv"
    "sv_msg_buff sv' = sv_msg_buff sv" "sv_new_cons sv' = sv_new_cons sv"
    "sv_disconnected sv' = sv_disconnected sv" "sv_listener sv' = sv_listener sv"
    "sv_cid_addr sv' = sv_cid_addr sv" "sv_addr_cid sv' = sv_addr_cid sv" "sv_parts sv' = sv_parts sv"
    "dom (sv_tcp sv') = dom (sv_tcp sv)"
proof -
  obtain t u where t: "sv' = sv\<lparr>sv_tcp := t, sv_udp := u\<rparr>"
      "\<And>c. rel_option (\<lambda>a b. length (tc_buff b) = length (tc_buff a)) (sv_tcp sv c) (t c)"
    using assms by (auto simp: socks_only_def)
  have "t c = None \<longleftrightarrow> sv_tcp sv c = None" for c
    using t(2) [of c] by (cases "t c"; cases "sv_tcp sv c") simp_all
  then show "dom (sv_tcp sv') = dom (sv_tcp sv)" by (simp add: t(1) dom_def)
qed (use assms in \<open>auto simp: socks_only_def\<close>)

lemma wf_socks [wf_intros]:
  assumes "socks_only sv sv'" "wf_server sv"
  shows "wf_server sv'"
proof -
  note f = socks_only_fields [OF assms(1)]
  obtain t u where t: "sv' = sv\<lparr>sv_tcp := t, sv_udp := u\<rparr>" "length (uc_buff u) = length (uc_buff (sv_udp sv))"
      "\<And>c. rel_option (\<lambda>a b. length (tc_buff b) = length (tc_buff a)) (sv_tcp sv c) (t c)"
    using assms(1) by (auto simp: socks_only_def)
  have "wf_con con" if tc: "t c = Some con" for c con
  proof -
    obtain con0 where "sv_tcp sv c = Some con0" "length (tc_buff con) = length (tc_buff con0)"
      using t(3) [of c] tc by (cases "sv_tcp sv c") auto
    then show ?thesis using assms(2) by (auto simp: wf_server_defs ran_def wf_con_def)
  qed
  then have "\<forall>con \<in> ran (sv_tcp sv'). wf_con con" by (auto simp: t(1) ran_def)
  moreover have "wf_ucon (sv_udp sv')" using assms(2) t(1,2) by (simp add: wf_server_defs wf_ucon_def)
  ultimately show ?thesis using assms(2) by (simp add: wf_server_defs f)
qed

lemma server_send_socks:
  assumes "server_send_to now cid msg sv = (r, sv')"
  shows "socks_only sv sv'"
proof -
  have tcp: "socks_only sv sv'" if "server_send_tcp cid mid b sv = (r, sv')" for mid b
  proof (cases "sv_tcp sv cid")
    case None
    then show ?thesis using that by (auto simp: server_send_tcp_def)
  next
    case (Some con)
    obtain q con' where c: "tcp_con_send mid b con = (q, con')" by fastforce
    then have "sv' = sv\<lparr>sv_tcp := (sv_tcp sv)(cid \<mapsto> con')\<rparr>" using that Some by (auto simp: server_send_tcp_def)
    moreover have "length (tc_buff con') = length (tc_buff con)" using tcp_con_send_frame [OF c] by auto
    ultimately show ?thesis using socks_only_tcp [OF Some] by simp
  qed
  have udp: "socks_only sv sv'" if "server_send_udp now cid mid b sv = (r, sv')" for mid b
  proof (cases "sv_cid_addr sv cid")
    case None
    then show ?thesis using that by (auto simp: server_send_udp_def)
  next
    case (Some addr)
    obtain q u where u: "udp_con_send_to now addr mid b (sv_udp sv) = (q, u)" by fastforce
    then have "sv' = sv\<lparr>sv_udp := u\<rparr>" using that Some by (auto simp: server_send_udp_def)
    moreover have "length (uc_buff u) = length (uc_buff (sv_udp sv))"
      using u by (auto simp: udp_con_send_to_def split: sum.splits prod.splits)
    ultimately show ?thesis using socks_only_udp by simp
  qed
  show ?thesis
    using assms tcp udp
    by (auto simp: server_send_to_def Let_def split: if_splits sum.splits prod.splits transport.splits)
qed

lemma server_send_each_socks:
  "server_send_each now cids msg sv = (r, sv') \<Longrightarrow> socks_only sv sv'"
proof (induction cids arbitrary: sv)
  case Nil
  then show ?case by simp
next
  case (Cons cid cids)
  obtain q sv1 where s: "server_send_to (now cid) cid msg sv = (q, sv1)" by fastforce
  show ?case
    using Cons.prems Cons.IH [of sv1] server_send_socks [OF s] socks_only_trans s
    by (cases q) auto
qed

lemma server_recv_tcp_socks:
  assumes "wf_server sv" "server_recv_tcp cid sv = (r, sv')"
  shows "socks_only sv sv'"
proof (cases "sv_tcp sv cid")
  case None
  then show ?thesis using assms(2) by (auto simp: server_recv_tcp_def)
next
  case (Some con)
  then have "wf_con con" using assms(1) by (auto simp: wf_server_defs ran_def)
  moreover obtain q con' where c: "tcp_con_recv con = (q, con')" by fastforce
  ultimately have "length (tc_buff con') = length (tc_buff con)" using tcp_con_recv_frame(2) by blast
  then show ?thesis
    using socks_only_tcp [OF Some] server_recv_tcp_frame(1) [OF assms(2)] Some c by simp
qed

lemma server_recv_udp_socks:
  assumes "server_recv_udp oc sv = (r, sv')"
  shows "socks_only sv sv'"
  using socks_only_udp [of "snd (udp_con_recv_from oc (sv_udp sv))" sv] server_recv_udp_frame(1) [OF assms]
    udp_con_recv_from_frame(1) [of oc "sv_udp sv"]
  by (cases "udp_con_recv_from oc (sv_udp sv)") auto

section \<open>Every operation keeps the invariant\<close>

lemma wf_server_disconnected [simp]: "wf_server (sv\<lparr>sv_disconnected := q\<rparr>) = wf_server sv"
  by (simp add: wf_server_defs)

lemma wf_server_listener [simp]: "wf_server (sv\<lparr>sv_listener := l\<rparr>) = wf_server sv"
  by (simp add: wf_server_defs)

lemma wf_server_push:
  "wf_server sv \<Longrightarrow> push_msg mid m (sv_msg_buff sv) = Inr buff \<Longrightarrow> wf_server (sv\<lparr>sv_msg_buff := buff\<rparr>)"
  using push_msg_length [of mid m "sv_msg_buff sv" buff] by (simp add: wf_server_defs)

lemma wf_rm_tcp_con:
  assumes "wf_server sv" "server_rm_tcp_con cid sv = (r, sv')"
  shows "wf_server sv' \<and> (cid \<in> dom (sv_cid_addr sv) \<longrightarrow> r = Ok () \<and>
     dom (sv_cid_addr sv') = dom (sv_cid_addr sv) - {cid}) \<and>
     sv_disconnected sv' = sv_disconnected sv"
proof (cases "sv_cid_addr sv cid")
  case None
  then have "sv_tcp sv cid = None" using assms(1) by (auto simp: wf_server_defs)
  then show ?thesis using assms None by (auto simp: server_rm_tcp_con_def)
next
  case (Some addr)
  moreover have "dom (sv_tcp sv) = dom (sv_cid_addr sv)" using assms(1) by (simp add: wf_server_defs)
  ultimately obtain con where con: "sv_tcp sv cid = Some con" by blast
  have m: "dom (sv_tcp sv) = dom (sv_cid_addr sv)" "finite (dom (sv_cid_addr sv))"
    "\<And>a c. sv_addr_cid sv a = Some c \<Longrightarrow> sv_cid_addr sv c = Some a"
    using assms(1) by (auto simp: wf_server_defs)
  define sv2 where "sv2 = sv\<lparr>sv_tcp := (sv_tcp sv)(cid := None),
    sv_cid_addr := (sv_cid_addr sv)(cid := None), sv_addr_cid := (sv_addr_cid sv)(addr := None)\<rparr>"
  have eq: "r = Ok ()" "sv' = sv2"
    using assms(2) Some con by (simp_all add: server_rm_tcp_con_def Let_def sv2_def)
  have mirror: "((sv_cid_addr sv)(cid := None)) c = Some a"
    if "((sv_addr_cid sv)(addr := None)) a = Some c" for a c
    using that m(3) [of a c] Some by (auto split: if_splits)
  have "maps_ok sv2" using m(1,2) mirror by (simp add: maps_ok_def sv2_def)
  moreover have "ids_ok sv2" using assms(1) by (auto simp: wf_server_def ids_ok_def sv2_def)
  moreover have "ran ((sv_tcp sv)(cid := None)) \<subseteq> ran (sv_tcp sv)" by (auto simp: ran_def)
  then have "buffers_ok sv2" using assms(1) unfolding wf_server_def buffers_ok_def sv2_def by auto
  ultimately have "wf_server sv2" by (simp add: wf_server_def)
  then show ?thesis using Some eq by (auto simp: sv2_def)
qed

text \<open>Adding keeps it when the id is not in use and was given out by \<open>new_cid\<close>.\<close>

definition fresh_cid :: "'v server \<Rightarrow> cid \<Rightarrow> bool" where
  "fresh_cid sv cid \<longleftrightarrow> cid \<notin> dom (sv_cid_addr sv) \<and> cid \<notin> set (map pending_cid (sv_new_cons sv)) \<and>
     0 < cid \<and> cid \<le> sv_current_cid sv"

lemma wf_add_tcp_con:
  assumes "wf_server sv" "fresh_cid sv cid" "wf_con con" "server_add_tcp_con_cid cid con sv = (r, sv')"
  shows "wf_server sv'"
proof (cases "peer_name (tc_tcp con)")
  case None
  then show ?thesis using assms
    by (auto simp: server_add_tcp_con_cid_def tcp_con_peer_addr_def name_res_def)
next
  case (Some addr)
  have m: "dom (sv_tcp sv) = dom (sv_cid_addr sv)" "finite (dom (sv_cid_addr sv))"
    "\<And>a c. sv_addr_cid sv a = Some c \<Longrightarrow> sv_cid_addr sv c = Some a"
    using assms(1) by (auto simp: wf_server_defs)
  define sv2 where "sv2 = sv\<lparr>sv_tcp := (sv_tcp sv)(cid \<mapsto> con),
    sv_addr_cid := (sv_addr_cid sv)(addr \<mapsto> cid), sv_cid_addr := (sv_cid_addr sv)(cid \<mapsto> addr)\<rparr>"
  have eq: "sv' = sv2"
    using assms(4) Some
    by (simp add: server_add_tcp_con_cid_def tcp_con_peer_addr_def name_res_def sv2_def)
  have new: "cid \<notin> dom (sv_cid_addr sv)" "cid \<notin> set (map pending_cid (sv_new_cons sv))" "0 < cid"
    "cid \<le> sv_current_cid sv" using assms(2) by (simp_all add: fresh_cid_def)
  have mirror: "((sv_cid_addr sv)(cid \<mapsto> addr)) c = Some a"
    if "((sv_addr_cid sv)(addr \<mapsto> cid)) a = Some c" for a c
    using that m(3) [of a c] new(1) by (auto split: if_splits)
  have maps: "maps_ok sv2" using m(1,2) mirror by (simp add: maps_ok_def sv2_def)
  have "ids_ok sv2" using assms(1) new by (auto simp: wf_server_def ids_ok_def sv2_def)
  moreover have "ran ((sv_tcp sv)(cid \<mapsto> con)) \<subseteq> insert con (ran (sv_tcp sv))" by (auto simp: ran_def)
  then have "buffers_ok sv2" using assms(1,3) unfolding wf_server_def buffers_ok_def sv2_def by auto
  ultimately show ?thesis using maps eq by (simp add: wf_server_def)
qed

lemma wf_accept_incoming:
  assumes "wf_server sv" "fresh_cid sv cid" "wf_con con"
    and "server_accept_incoming now cid con resp sv = (r, sv')"
  shows "wf_server sv'"
proof -
  obtain q sv1 where a: "server_add_tcp_con_cid cid con sv = (q, sv1)" by fastforce
  have wf1: "wf_server sv1" using wf_add_tcp_con [OF assms(1-3) a] .
  obtain q2 sv2 where s: "server_send_to now cid resp sv1 = (q2, sv2)" by fastforce
  have wf2: "wf_server sv2" using wf_socks [OF server_send_socks [OF s] wf1] .
  have "sv' \<in> {sv, sv1, sv2}"
    using assms(4) a s
    by (cases q) (auto simp: server_accept_incoming_def split: sum.splits fail.splits)
  then show ?thesis using assms(1) wf1 wf2 by blast
qed

lemma wf_remove_pending:
  assumes "wf_server sv" "vec_remove idx (sv_new_cons sv) = Inr ((con, cid, t), cons)"
  shows "wf_server (sv\<lparr>sv_new_cons := cons\<rparr>)" "fresh_cid (sv\<lparr>sv_new_cons := cons\<rparr>) cid" "wf_con con"
proof -
  have idx: "idx < length (sv_new_cons sv)" "sv_new_cons sv ! idx = (con, cid, t)"
      "cons = take idx (sv_new_cons sv) @ drop (Suc idx) (sv_new_cons sv)"
    using assms(2) by (auto simp: vec_remove_def split: if_splits)
  then have split: "sv_new_cons sv = take idx (sv_new_cons sv) @ (con, cid, t) # drop (Suc idx) (sv_new_cons sv)"
    by (metis id_take_nth_drop)
  define ps qs where "ps = take idx (sv_new_cons sv)" and "qs = drop (Suc idx) (sv_new_cons sv)"
  have eq: "sv_new_cons sv = ps @ (con, cid, t) # qs" "cons = ps @ qs"
    using split idx(3) by (simp_all add: ps_def qs_def)
  show "wf_server (sv\<lparr>sv_new_cons := cons\<rparr>)" "fresh_cid (sv\<lparr>sv_new_cons := cons\<rparr>) cid" "wf_con con"
    using assms(1) by (auto simp: wf_server_defs fresh_cid_def pending_cid_def eq)
qed

lemma wf_accept_all:
  "wf_server sv \<Longrightarrow> server_accept_all now R ls sv = (r, sv') \<Longrightarrow> wf_server sv'"
proof (induction ls arbitrary: sv)
  case Nil
  then show ?case by simp
next
  case (Cons p ls)
  obtain idx resp where p: "p = (idx, resp)" by (cases p)
  show ?case
  proof (cases "vec_remove idx (sv_new_cons sv)")
    case (Inl e)
    then show ?thesis using Cons.prems by (simp add: p)
  next
    case (Inr x)
    then obtain con cid t cons where x: "vec_remove idx (sv_new_cons sv) = Inr ((con, cid, t), cons)"
      by (metis surj_pair)
    let ?sv1 = "sv\<lparr>sv_new_cons := cons\<rparr>"
    obtain q sv2 where a: "server_accept_incoming now cid con (AnyBox R resp) ?sv1 = (q, sv2)" by fastforce
    have "wf_server sv2" using wf_accept_incoming [OF wf_remove_pending [OF Cons.prems(1) x] a] .
    then show ?thesis using Cons.prems(2) Cons.IH [of sv2] x a by (cases q) (auto simp: p)
  qed
qed

lemma wf_reject_all:
  "wf_server sv \<Longrightarrow> server_reject_all R ls sv = (r, sv') \<Longrightarrow> wf_server sv'"
proof (induction ls arbitrary: sv)
  case Nil
  then show ?case by simp
next
  case (Cons p ls)
  obtain idx resp where p: "p = (idx, resp)" by (cases p)
  show ?case
  proof (cases "vec_remove idx (sv_new_cons sv)")
    case (Inl e)
    then show ?thesis using Cons.prems by (simp add: p)
  next
    case (Inr x)
    then obtain con cid t cons where x: "vec_remove idx (sv_new_cons sv) = Inr ((con, cid, t), cons)"
      by (metis surj_pair)
    obtain q con' where "server_reject_incoming con (AnyBox R resp) (sv\<lparr>sv_new_cons := cons\<rparr>) = (q, con')"
      by fastforce
    then show ?thesis
      using Cons.prems(2) Cons.IH [OF wf_remove_pending(1) [OF Cons.prems(1) x]]
        wf_remove_pending(1) [OF Cons.prems(1) x] x
      by (cases q) (auto simp: p Let_def)
  qed
qed

lemma wf_remove_dead:
  "wf_server sv \<Longrightarrow> server_remove_dead ls sv = (r, sv') \<Longrightarrow> wf_server sv'"
proof (induction ls arbitrary: sv)
  case Nil
  then show ?case by simp
next
  case (Cons idx ls)
  show ?case
  proof (cases "vec_remove idx (sv_new_cons sv)")
    case (Inl e)
    then show ?thesis using Cons.prems by simp
  next
    case (Inr x)
    then obtain con cid t cons where x: "vec_remove idx (sv_new_cons sv) = Inr ((con, cid, t), cons)"
      by (metis surj_pair)
    then show ?thesis
      using Cons.prems(2) Cons.IH [OF wf_remove_pending(1) [OF Cons.prems(1) x]] by simp
  qed
qed

lemma wf_settle:
  assumes "wf_server sv" "server_settle now R ls sv = (r, sv')"
  shows "wf_server sv'"
proof -
  obtain acc rej dead where ls: "ls = (acc, rej, dead)" by (metis prod_cases3)
  obtain q1 sv1 where 1: "server_accept_all now R acc sv = (q1, sv1)" by fastforce
  obtain q2 sv2 where 2: "server_reject_all R rej sv1 = (q2, sv2)" by fastforce
  obtain q3 sv3 where 3: "server_remove_dead dead sv2 = (q3, sv3)" by fastforce
  have wf: "wf_server sv1" "wf_server sv2" "wf_server sv3"
    using wf_accept_all [OF assms(1) 1] wf_reject_all [OF _ 2] wf_remove_dead [OF _ 3] by blast+
  have "sv' \<in> {sv1, sv2, sv3}"
    using assms(2) 1 2 3 by (cases q1; cases q2) (auto simp: server_settle_def ls)
  then show ?thesis using wf by blast
qed

text \<open>New pending connections get ids above all ids in use, if the counter does not wrap.\<close>

lemma wf_add_pending:
  assumes "wf_server sv" "wf_con con" "unat (sv_current_cid sv) + 1 < 2 ^ 32"
  shows "wf_server (sv\<lparr>sv_current_cid := sv_current_cid sv + 1,
    sv_new_cons := sv_new_cons sv @ [(con, sv_current_cid sv + 1, t)]\<rparr>)"
proof -
  let ?c = "sv_current_cid sv + 1"
  have "unat ?c = unat (sv_current_cid sv) + 1"
    using assms(3) by (simp add: unat_word_ariths)
  then have up: "cid < ?c" if "cid \<le> sv_current_cid sv" for cid
    using that by (simp add: word_less_nat_alt word_le_nat_alt)
  have ids: "\<forall>cid \<in> dom (sv_cid_addr sv) \<union> set (map pending_cid (sv_new_cons sv)).
      0 < cid \<and> cid \<le> sv_current_cid sv"
    using assms(1) by (simp add: wf_server_def ids_ok_def)
  have above: "\<forall>cid \<in> dom (sv_cid_addr sv) \<union> set (map pending_cid (sv_new_cons sv)). 0 < cid \<and> cid < ?c"
    using ids up by blast
  then have "?c \<notin> dom (sv_cid_addr sv)" "?c \<notin> set (map pending_cid (sv_new_cons sv))" by blast+
  moreover have "0 < ?c" using up [of 0] by simp
  ultimately have "ids_ok (sv\<lparr>sv_current_cid := ?c, sv_new_cons := sv_new_cons sv @ [(con, ?c, t)]\<rparr>)"
    using assms(1) above by (auto simp: wf_server_def ids_ok_def pending_cid_def less_imp_le)
  then show ?thesis using assms(1,2) by (simp add: wf_server_def maps_ok_def buffers_ok_def)
qed

lemma wf_start_incoming:
  "wf_server sv \<Longrightarrow> server_start_incoming True sv = (r, sv') \<Longrightarrow> wf_server sv'"
proof (induction True sv arbitrary: r sv' rule: server_start_incoming.induct)
  case (1 sv)
  note eq = server_start_incoming.simps [of True sv]
  show ?case
  proof (cases "length (sv_new_cons sv) < cfg_max_con_handle (sv_config sv)")
    case False
    then show ?thesis using 1 by (simp add: eq)
  next
    case room: True
    obtain q l where l: "listener_accept (sv_listener sv) = (q, l)" by fastforce
    show ?thesis
    proof (cases q)
      case (Inl e)
      then show ?thesis using "1.prems" room l by (auto simp: eq)
    next
      case (Inr x)
      obtain stream at where x: "x = (stream, at)" by (cases x)
      let ?s = "stream\<lparr>is_nonblocking := True\<rparr>" and ?sv = "sv\<lparr>sv_listener := l\<rparr>"
      have block: "stream_set_nonblocking True stream = (Inr (), ?s)"
        by (simp add: stream_set_nonblocking_def)
      show ?thesis
      proof (cases "unat (sv_current_cid sv) + 1 < 2 ^ 32")
        case False
        then show ?thesis using "1.prems" room l
          by (auto simp: eq Inr x block server_new_cid_def add_u32_def)
      next
        case True
        let ?sv1 = "?sv\<lparr>sv_current_cid := sv_current_cid sv + 1\<rparr>"
        let ?con = "tcp_from_stream ?s (cfg_max_msg_size (sv_config sv))"
        let ?sv2 = "?sv1\<lparr>sv_new_cons := sv_new_cons ?sv1 @ [(?con, sv_current_cid sv + 1, at)]\<rparr>"
        have cid: "server_new_cid True ?sv = (Inr (sv_current_cid sv + 1), ?sv1)"
          using True by (simp add: server_new_cid_def add_u32_def)
        have "wf_server ?sv2"
          using wf_add_pending [of ?sv ?con at] "1.prems"(1) True by simp
        moreover have "server_start_incoming True ?sv2 = (r, sv')"
          using "1.prems"(2) room l by (simp add: eq Inr x block cid)
        ultimately show ?thesis
          using "1.hyps" [OF room l [symmetric] Inr x [symmetric] block [symmetric] refl refl cid [symmetric] refl]
          by simp
      qed
    qed
  qed
qed

lemma handle_con_helper_keeps:
  assumes "handle_con_helper d C timeout el con = (r, con')" "wf_con con"
  shows "wf_con con' \<and> peer_name (tc_tcp con') = peer_name (tc_tcp con)"
proof -
  obtain q c where "tcp_con_recv con = (q, c)" by fastforce
  then show ?thesis
    using assms tcp_con_recv_frame(1,4) [OF assms(2)]
    by (auto simp: handle_con_helper_def split: if_splits sum.splits prod.splits)
qed

text \<open>The loop over the pending connections keeps their order, ids, times and addresses.\<close>

definition same_pending :: "pending_con \<Rightarrow> pending_con \<Rightarrow> bool" where
  "same_pending p q \<longleftrightarrow> snd q = snd p \<and> (wf_con (fst p) \<longrightarrow> wf_con (fst q) \<and>
     peer_name (tc_tcp (fst q)) = peer_name (tc_tcp (fst p)))"

lemma same_pending_refl: "list_all2 same_pending ps ps"
  by (simp add: list_all2_refl same_pending_def)

lemma con_loop_keeps:
  "con_loop one d C timeout clk hook idx cons ls h = (r, cons', h') \<Longrightarrow> list_all2 same_pending cons cons'"
proof (induction one d C timeout clk hook idx cons ls h arbitrary: r cons' h' rule: con_loop.induct)
  case (1 one d C timeout clk hook idx ls h)
  then show ?case by simp
next
  case (2 one d C timeout clk hook idx con cid time cons acc rej dead h)
  obtain q con1 where q: "handle_con_helper d C timeout (clk idx - time) con = (q, con1)" by fastforce
  have hd: "same_pending (con, cid, time) (con1, cid, time)"
    using handle_con_helper_keeps [OF q] by (simp add: same_pending_def)
  show ?case
  proof (cases q)
    case (Inr c)
    obtain a resp h1 where h: "hook cid c h = ((a, resp), h1)" by (metis surj_pair)
    show ?thesis
    proof (cases one)
      case True
      then show ?thesis using "2.prems" q h hd Inr same_pending_refl by auto
    next
      case False
      then show ?thesis
        using "2.prems" "2.IH"(2) [OF q [symmetric] Inr h [symmetric] refl refl False] q h hd Inr
        by (auto split: prod.splits)
    qed
  next
    case (Inl e)
    show ?thesis
    proof (cases e)
      case (Panic p)
      then show ?thesis using "2.prems" q hd Inl same_pending_refl by auto
    next
      case (IoErr x)
      then show ?thesis
        using "2.prems" "2.IH"(1) [OF q [symmetric] Inl IoErr refl] q hd Inl
        by (auto split: prod.splits)
    qed
  qed
qed

lemma same_pending_in:
  "list_all2 same_pending ps qs \<Longrightarrow> q \<in> set qs \<Longrightarrow> \<exists>p \<in> set ps. same_pending p q"
  by (induction rule: list_all2_induct) auto

lemma same_pending_cids:
  "list_all2 same_pending ps qs \<Longrightarrow> map pending_cid qs = map pending_cid ps"
  by (induction rule: list_all2_induct) (simp_all add: same_pending_def pending_cid_def)

lemma wf_same_pending:
  assumes "wf_server sv" "list_all2 same_pending (sv_new_cons sv) cons"
  shows "wf_server (sv\<lparr>sv_new_cons := cons\<rparr>)"
proof -
  have "ids_ok (sv\<lparr>sv_new_cons := cons\<rparr>)"
    using assms(1) same_pending_cids [OF assms(2)] by (simp add: wf_server_def ids_ok_def del: set_map)
  moreover have "\<forall>q \<in> set cons. wf_con (fst q)"
    using assms(1) same_pending_in [OF assms(2)]
    by (fastforce simp: wf_server_def buffers_ok_def same_pending_def)
  ultimately show ?thesis using assms(1) by (simp add: wf_server_def maps_ok_def buffers_ok_def)
qed

lemma wf_handle_new:
  assumes "wf_server sv" "server_start_incoming True sv = (q, sv1)"
  shows "wf_server sv1"
    and "con_loop one d C timeout clk hook 0 (sv_new_cons sv1) ls h = (q2, cons, h2) \<Longrightarrow>
      wf_server (sv1\<lparr>sv_new_cons := cons\<rparr>)"
    and "con_loop one d C timeout clk hook 0 (sv_new_cons sv1) ls h = (q2, cons, h2) \<Longrightarrow>
      server_settle now R ls2 (sv1\<lparr>sv_new_cons := cons\<rparr>) = (q3, sv2) \<Longrightarrow> wf_server sv2"
proof -
  show wf1: "wf_server sv1" using wf_start_incoming [OF assms] .
  show wf2: "con_loop one d C timeout clk hook 0 (sv_new_cons sv1) ls h = (q2, cons, h2) \<Longrightarrow>
      wf_server (sv1\<lparr>sv_new_cons := cons\<rparr>)" for cons q2 h2
    using wf_same_pending [OF wf1 con_loop_keeps] .
  show "con_loop one d C timeout clk hook 0 (sv_new_cons sv1) ls h = (q2, cons, h2) \<Longrightarrow>
      server_settle now R ls2 (sv1\<lparr>sv_new_cons := cons\<rparr>) = (q3, sv2) \<Longrightarrow> wf_server sv2"
    using wf_settle wf2 by blast
qed

lemma wf_handle_new_con:
  assumes "wf_server sv" "server_handle_new_con True now clk C R hook h sv = (r, h', sv')"
  shows "wf_server sv'"
proof -
  obtain q sv1 where s: "server_start_incoming True sv = (q, sv1)" by fastforce
  note wf = wf_handle_new [OF assms(1) s]
  show ?thesis
    using assms(2) wf
    by (auto simp: server_handle_new_con_def s Let_def split: sum.splits if_splits prod.splits)
qed

lemma wf_handle_new_cons:
  assumes "wf_server sv" "server_handle_new_cons True now clk C R hook h sv = (r, h', sv')"
  shows "wf_server sv'"
proof -
  obtain q sv1 where s: "server_start_incoming True sv = (q, sv1)" by fastforce
  note wf = wf_handle_new [OF assms(1) s]
  show ?thesis
    using assms(2) wf
    by (auto simp: server_handle_new_cons_def s Let_def split: sum.splits if_splits prod.splits)
qed

lemma wf_handle_disconnect:
  "wf_server sv \<Longrightarrow> server_handle_disconnect hook h sv = (r, h', sv') \<Longrightarrow> wf_server sv'"
proof (induction hook h sv arbitrary: r h' sv' rule: server_handle_disconnect.induct)
  case (1 hook h sv)
  note eq = server_handle_disconnect.simps [of hook h sv]
  show ?case
  proof (cases "sv_disconnected sv")
    case Nil
    then show ?thesis using "1.prems" by (simp add: eq)
  next
    case (Cons p queue)
    obtain cid st where p: "p = (cid, st)" by (cases p)
    let ?sv1 = "sv\<lparr>sv_disconnected := queue\<rparr>"
    obtain q sv2 where rm: "server_rm_tcp_con cid ?sv1 = (q, sv2)" by fastforce
    have "wf_server sv2" using wf_rm_tcp_con [OF _ rm] "1.prems"(1) by simp
    then show ?thesis
      using "1.prems" "1.IH" [OF Cons p [symmetric] refl] rm
      by (cases "server_alive ?sv1 cid") (simp_all add: eq Cons p Let_def)
  qed
qed

text \<open>
  An invariant rule for the two receive loops and for \<open>recv_msgs\<close>; none of them queues a client as
  \<open>Closed\<close>.
\<close>

definition recv_keeps :: "cid set \<Rightarrow> bool set \<Rightarrow> ('v server \<Rightarrow> bool) \<Rightarrow> bool" where
  "recv_keeps cids ocs P \<longleftrightarrow>
     (\<forall>cid \<in> cids. \<forall>sv r sv'. P sv \<longrightarrow> server_recv_tcp cid sv = (r, sv') \<longrightarrow> P sv' \<and>
        (\<forall>m buff. r = Inr m \<longrightarrow> push_msg (fst m) (snd m) (sv_msg_buff sv') = Inr buff \<longrightarrow> P (sv'\<lparr>sv_msg_buff := buff\<rparr>))) \<and>
     (\<forall>oc \<in> ocs. \<forall>sv r sv'. P sv \<longrightarrow> server_recv_udp oc sv = (r, sv') \<longrightarrow> P sv' \<and>
        (\<forall>m buff. r = Inr m \<longrightarrow> push_msg (fst m) (snd m) (sv_msg_buff sv') = Inr buff \<longrightarrow> P (sv'\<lparr>sv_msg_buff := buff\<rparr>))) \<and>
     (\<forall>cid \<in> cids. \<forall>sv st. P sv \<longrightarrow> st \<noteq> Closed \<longrightarrow> P (sv\<lparr>sv_disconnected := sv_disconnected sv @ [(cid, st)]\<rparr>))"

lemma recv_keepsD:
  assumes "recv_keeps C U P" "P sv"
  shows "cid \<in> C \<Longrightarrow> server_recv_tcp cid sv = (r, sv') \<Longrightarrow> P sv'"
    "oc \<in> U \<Longrightarrow> server_recv_udp oc sv = (r, sv') \<Longrightarrow> P sv'"
    "cid \<in> C \<Longrightarrow> st \<noteq> Closed \<Longrightarrow> P (sv\<lparr>sv_disconnected := sv_disconnected sv @ [(cid, st)]\<rparr>)"
    "cid \<in> C \<Longrightarrow> server_recv_tcp cid sv = (Inr m, sv') \<Longrightarrow>
      push_msg (fst m) (snd m) (sv_msg_buff sv') = Inr buff \<Longrightarrow> P (sv'\<lparr>sv_msg_buff := buff\<rparr>)"
    "oc \<in> U \<Longrightarrow> server_recv_udp oc sv = (Inr m, sv') \<Longrightarrow>
      push_msg (fst m) (snd m) (sv_msg_buff sv') = Inr buff \<Longrightarrow> P (sv'\<lparr>sv_msg_buff := buff\<rparr>)"
  using assms unfolding recv_keeps_def by blast+

lemma recv_keepsI:
  assumes "\<And>cid sv r sv'. cid \<in> C \<Longrightarrow> P sv \<Longrightarrow> server_recv_tcp cid sv = (r, sv') \<Longrightarrow> P sv'"
    "\<And>cid sv m sv' buff. cid \<in> C \<Longrightarrow> P sv \<Longrightarrow> server_recv_tcp cid sv = (Inr m, sv') \<Longrightarrow>
      push_msg (fst m) (snd m) (sv_msg_buff sv') = Inr buff \<Longrightarrow> P (sv'\<lparr>sv_msg_buff := buff\<rparr>)"
    "\<And>oc sv r sv'. oc \<in> U \<Longrightarrow> P sv \<Longrightarrow> server_recv_udp oc sv = (r, sv') \<Longrightarrow> P sv'"
    "\<And>oc sv m sv' buff. oc \<in> U \<Longrightarrow> P sv \<Longrightarrow> server_recv_udp oc sv = (Inr m, sv') \<Longrightarrow>
      push_msg (fst m) (snd m) (sv_msg_buff sv') = Inr buff \<Longrightarrow> P (sv'\<lparr>sv_msg_buff := buff\<rparr>)"
    "\<And>cid sv st. cid \<in> C \<Longrightarrow> P sv \<Longrightarrow> st \<noteq> Closed \<Longrightarrow> P (sv\<lparr>sv_disconnected := sv_disconnected sv @ [(cid, st)]\<rparr>)"
  shows "recv_keeps C U P"
  unfolding recv_keeps_def
proof (intro conjI)
  show "\<forall>cid \<in> C. \<forall>sv r sv'. P sv \<longrightarrow> server_recv_tcp cid sv = (r, sv') \<longrightarrow> P sv' \<and>
      (\<forall>m buff. r = Inr m \<longrightarrow> push_msg (fst m) (snd m) (sv_msg_buff sv') = Inr buff \<longrightarrow> P (sv'\<lparr>sv_msg_buff := buff\<rparr>))"
    using assms(1,2) by blast
  show "\<forall>oc \<in> U. \<forall>sv r sv'. P sv \<longrightarrow> server_recv_udp oc sv = (r, sv') \<longrightarrow> P sv' \<and>
      (\<forall>m buff. r = Inr m \<longrightarrow> push_msg (fst m) (snd m) (sv_msg_buff sv') = Inr buff \<longrightarrow> P (sv'\<lparr>sv_msg_buff := buff\<rparr>))"
    using assms(3,4) by blast
qed (use assms(5) in blast)

text \<open>Often it does not matter which message is filed.\<close>

lemma recv_keeps_any:
  assumes "\<And>cid sv r sv'. cid \<in> C \<Longrightarrow> P sv \<Longrightarrow> server_recv_tcp cid sv = (r, sv') \<Longrightarrow> P sv'"
    "\<And>oc sv r sv'. oc \<in> U \<Longrightarrow> P sv \<Longrightarrow> server_recv_udp oc sv = (r, sv') \<Longrightarrow> P sv'"
    "\<And>cid sv st. cid \<in> C \<Longrightarrow> P sv \<Longrightarrow> st \<noteq> Closed \<Longrightarrow> P (sv\<lparr>sv_disconnected := sv_disconnected sv @ [(cid, st)]\<rparr>)"
    "\<And>sv mid m buff. P sv \<Longrightarrow> push_msg mid m (sv_msg_buff sv) = Inr buff \<Longrightarrow> P (sv\<lparr>sv_msg_buff := buff\<rparr>)"
  shows "recv_keeps C U P"
  unfolding recv_keeps_def using assms by blast

lemma push_msg_cases:
  obtains (ok) buff where "push_msg mid m b = Inr buff" | (bad) "push_msg mid m b = panics IndexOutOfBounds"
  by (cases "mid < length b") (simp_all add: push_msg_def)

lemma server_handle_tcp_inv:
  assumes "recv_keeps C U P" "P sv0" "cid \<in> C" "server_recv_tcp cid sv0 = (msg, sv)"
    "server_handle_tcp_msg cid msg (i, sv) = (r, i', sv')"
  shows "P sv' \<and> ((\<exists>b. r = Ok b) \<or> is_panic r)"
proof (cases msg)
  case (Inl e)
  then show ?thesis
    using assms(5) recv_keepsD(1) [OF assms(1-4)] recv_keepsD(3) [OF assms(1) _ assms(3)]
    by (cases e) (auto split: if_splits)
next
  case (Inr x)
  obtain mid m where x: "x = (mid, m)" by (cases x)
  note P = recv_keepsD(1) [OF assms(1-4)]
  note keep = P recv_keepsD(3) [OF assms(1) P assms(3)] recv_keepsD(4) [OF assms(1-3), of x sv]
  show ?thesis
    using assms(4,5) keep
    by (cases rule: push_msg_cases [of mid m "sv_msg_buff sv"]) (auto simp: Inr x split: if_splits)
qed

lemma server_handle_udp_inv:
  assumes "recv_keeps C U P" "P sv0" "oc \<in> U" "server_recv_udp oc sv0 = (msg, sv)"
    "server_handle_udp_msg msg (i, sv) = (r, i', sv')"
  shows "P sv' \<and> ((\<exists>b. r = Ok b) \<or> is_panic r)"
proof (cases msg)
  case (Inl e)
  then show ?thesis using assms(5) recv_keepsD(2) [OF assms(1-4)] by (cases e) auto
next
  case (Inr x)
  obtain mid m where x: "x = (mid, m)" by (cases x)
  show ?thesis
    using assms(4,5) recv_keepsD(2) [OF assms(1-4)] recv_keepsD(5) [OF assms(1-3), of x sv]
    by (cases rule: push_msg_cases [of mid m "sv_msg_buff sv"]) (auto simp: Inr x)
qed

lemma server_tcp_loop_inv:
  assumes "recv_keeps C U P"
  shows "cid \<in> C \<Longrightarrow> P (snd s) \<Longrightarrow> server_tcp_loop cid s = (r, i', sv') \<Longrightarrow> P sv' \<and> (r = Ok () \<or> is_panic r)"
proof (induction cid s arbitrary: r i' sv' rule: server_tcp_loop.induct)
  case (1 cid i sv)
  obtain msg sv1 where m: "server_recv_tcp cid sv = (msg, sv1)" by fastforce
  obtain q i2 sv2 where h: "server_handle_tcp_msg cid msg (i, sv1) = (q, i2, sv2)" by (metis surj_pair)
  have "P sv" using "1.prems"(2) by simp
  from server_handle_tcp_inv [OF assms this "1.prems"(1) m h] have P2: "P sv2" "(\<exists>b. q = Ok b) \<or> is_panic q" by simp_all
  show ?case
    using "1.prems"(1,3) "1.IH" [OF m [symmetric] h [symmetric]] P2
    by (cases q) (auto simp: server_tcp_loop.simps [of cid i sv] m h split: if_splits)
qed

lemma server_udp_loop_inv:
  assumes "recv_keeps C U P"
  shows "oc \<in> U \<Longrightarrow> P (snd s) \<Longrightarrow> server_udp_loop oc s = (r, i', sv') \<Longrightarrow> P sv' \<and> (r = Ok () \<or> is_panic r)"
  using assms
proof (induction oc s arbitrary: r i' sv' rule: server_udp_loop.induct)
  case (1 oc i sv)
  obtain msg sv1 where m: "server_recv_udp oc sv = (msg, sv1)" by fastforce
  obtain q i2 sv2 where h: "server_handle_udp_msg msg (i, sv1) = (q, i2, sv2)" by (metis surj_pair)
  have "P sv" using "1.prems"(2) by simp
  from server_handle_udp_inv [OF "1.prems"(4) this "1.prems"(1) m h] have P2: "P sv2" "(\<exists>b. q = Ok b) \<or> is_panic q" by simp_all
  show ?case
    using "1.prems"(1,3) "1.IH" [OF m [symmetric] h [symmetric]] P2 "1.prems"(4)
    by (cases q) (auto simp: server_udp_loop.simps [of oc i sv] m h split: if_splits)
qed

lemma server_tcp_loops_inv:
  assumes "recv_keeps C U P"
  shows "set cids \<subseteq> C \<Longrightarrow> P (snd s) \<Longrightarrow> server_tcp_loops cids s = (r, i', sv') \<Longrightarrow> P sv' \<and> (r = Ok () \<or> is_panic r)"
proof (induction cids arbitrary: s)
  case Nil
  then show ?case by auto
next
  case (Cons cid cids)
  obtain q i1 sv1 where q: "server_tcp_loop cid s = (q, i1, sv1)" by (metis surj_pair)
  from server_tcp_loop_inv [OF assms _ Cons.prems(2) q] show ?case
    using Cons.prems(1,3) Cons.IH [of "(i1, sv1)"] q by (cases q) auto
qed

lemma server_recv_msgs_inv:
  assumes "recv_keeps (set (server_cids ko sv)) {oc} P" "P sv" "server_recv_msgs ko oc sv = (r, sv')"
  shows "P sv' \<and> ((\<exists>n. r = Ok n) \<or> is_panic r)"
proof -
  obtain q1 i1 sv1 where 1: "server_tcp_loops (server_cids ko sv) (0, sv) = (q1, i1, sv1)" by (metis surj_pair)
  obtain q2 i2 sv2 where 2: "server_udp_loop oc (i1, sv1) = (q2, i2, sv2)" by (metis surj_pair)
  have P1: "P sv1 \<and> (q1 = Ok () \<or> is_panic q1)" using server_tcp_loops_inv [OF assms(1) _ _ 1] assms(2) by simp
  then have P2: "P sv2 \<and> (q2 = Ok () \<or> is_panic q2)" using server_udp_loop_inv [OF assms(1) _ _ 2] by simp
  show ?thesis using assms(3) P1 P2 by (cases q1; cases q2) (auto simp: server_recv_msgs_def 1 2)
qed

lemma wf_recv_keeps: "recv_keeps C U wf_server"
proof (rule recv_keeps_any)
  fix cid r and sv sv' :: "'a server"
  assume "wf_server sv" "server_recv_tcp cid sv = (r, sv')"
  then show "wf_server sv'" using wf_socks server_recv_tcp_socks by blast
next
  fix oc r and sv sv' :: "'a server"
  assume "wf_server sv" "server_recv_udp oc sv = (r, sv')"
  then show "wf_server sv'" using wf_socks server_recv_udp_socks by blast
qed (simp, rule wf_server_push)

lemma wf_server_close:
  assumes "server_disconnect now msg cid sv = (r, sv')" "wf_server sv"
  shows "wf_server sv'"
proof -
  obtain q sv1 where s: "server_send_to now cid msg sv = (q, sv1)" by fastforce
  have wf1: "wf_server sv1" using wf_socks [OF server_send_socks [OF s] assms(2)] .
  have wf2: "wf_server (sv1\<lparr>sv_tcp := (sv_tcp sv1)(cid \<mapsto> con')\<rparr>)"
    if con: "sv_tcp sv1 cid = Some con" and c: "tcp_con_close con = (q2, con')" for con q2 con'
  proof -
    have "length (tc_buff con') = length (tc_buff con)"
      using c by (auto simp: tcp_con_close_def stream_flush_def split: prod.splits)
    then show ?thesis using wf_socks [OF socks_only_tcp [OF con] wf1] by simp
  qed
  show ?thesis
  proof (cases "server_alive sv cid \<and> q = Ok ()")
    case False
    then show ?thesis using assms s wf1 by (cases q) (auto simp: server_disconnect_def split: if_splits)
  next
    case sent: True
    show ?thesis
    proof (cases "sv_tcp sv1 cid")
      case None
      then show ?thesis using assms(1) s sent wf1 by (auto simp: server_disconnect_def)
    next
      case (Some con)
      obtain q2 con' where c: "tcp_con_close con = (q2, con')" by fastforce
      show ?thesis using assms(1) s sent wf2 [OF Some c] Some c
        by (cases q2) (auto simp: server_disconnect_def)
    qed
  qed
qed

lemma wf_server_new:
  assumes "server_new sys addr parts config = Ok sv" "wf_parts parts" "wf_numbering parts"
  shows "wf_server sv"
proof -
  obtain udp l where sv: "sv = \<lparr>sv_current_cid = 0, sv_config = config,
         sv_msg_buff = replicate (card (dom (tid_map parts))) [],
         sv_new_cons = [], sv_disconnected = [], sv_listener = l,
         sv_tcp = Map.empty, sv_udp = udp, sv_cid_addr = Map.empty, sv_addr_cid = Map.empty,
         sv_parts = parts\<rparr>"
    and udp: "\<exists>a. udp_con_new sys a None (cfg_max_msg_size config) = Ok udp"
    using assms(1) by (auto simp: server_new_def res_simps listener_set_nonblocking_def)
  have "wf_ucon udp" using udp by (auto simp: udp_con_new_def res_simps wf_ucon_def)
  moreover have "card (dom (tid_map parts)) = mid_count parts"
    using assms(3) bij_betw_same_card by (fastforce simp: wf_numbering_def)
  ultimately show ?thesis using assms(2) by (simp add: sv wf_server_defs)
qed

text \<open>The parameter \<open>ko\<close>: \<open>HashMap::keys\<close> yields every key once, in an order of its own.\<close>

definition key_order :: "((cid \<rightharpoonup> sock_addr) \<Rightarrow> cid list) \<Rightarrow> bool" where
  "key_order ko \<longleftrightarrow> (\<forall>m. finite (dom m) \<longrightarrow> distinct (ko m) \<and> set (ko m) = dom m)"

lemma key_order_cids:
  assumes "key_order ko" "wf_server sv"
  shows "distinct (server_cids ko sv)" "set (server_cids ko sv) = dom (sv_cid_addr sv)"
  using assms by (simp_all add: key_order_def server_cids_def wf_server_defs)

text \<open>
  The life of a server built with overflow checks: its operations that change state, in any
  order, and the outside world acting on its sockets and its listener. The hooks' captured state is
  a number here, to fix a type.
\<close>

inductive server_step :: "'v server \<Rightarrow> 'v server \<Rightarrow> bool" where
  step_send: "server_send_to now cid msg sv = (r, sv') \<Longrightarrow> server_step sv sv'"
| step_broadcast: "key_order ko \<Longrightarrow> server_broadcast ko nows msg sv = (r, sv') \<Longrightarrow> server_step sv sv'"
| step_send_spec: "key_order ko \<Longrightarrow> server_send_spec ko nows spec msg sv = (r, sv') \<Longrightarrow> server_step sv sv'"
| step_disconnect: "server_disconnect now msg cid sv = (r, sv') \<Longrightarrow> server_step sv sv'"
| step_new_con: "server_handle_new_con True now clk C R hook (h :: nat) sv = (r, h', sv') \<Longrightarrow> server_step sv sv'"
| step_new_cons: "server_handle_new_cons True now clk C R hook (h :: nat) sv = (r, h', sv') \<Longrightarrow> server_step sv sv'"
| step_handle_disconnect: "server_handle_disconnect dhook (h :: nat) sv = (r, h', sv') \<Longrightarrow> server_step sv sv'"
| step_handle_disconnects: "server_handle_disconnects dhook (h :: nat) sv = (r, h', sv') \<Longrightarrow> server_step sv sv'"
| step_recv_msgs: "key_order ko \<Longrightarrow> server_recv_msgs ko True sv = (r, sv') \<Longrightarrow> server_step sv sv'"
| step_clear_msgs: "server_step sv (server_clear_msgs sv)"
| step_listener: "server_step sv (sv\<lparr>sv_listener := l\<rparr>)"
| step_pending: "list_all2 same_pending (sv_new_cons sv) cons \<Longrightarrow> server_step sv (sv\<lparr>sv_new_cons := cons\<rparr>)"
| step_sockets: "socks_only sv sv' \<Longrightarrow> server_step sv sv'"

section \<open>Disconnects, against their specification\<close>

text \<open>
  What handling all disconnects should do: of the queued entries only those of live connections
  count, and of each connection only the first.
\<close>

fun first_live :: "cid set \<Rightarrow> (cid \<times> 'd) list \<Rightarrow> (cid \<times> 'd) list" where
  "first_live live [] = []"
| "first_live live ((cid, d) # queue) =
     (if cid \<in> live then (cid, d) # first_live (live - {cid}) queue else first_live live queue)"

lemma first_live_sound:
  "distinct (map fst (first_live live q))" "fst ` set (first_live live q) = live \<inter> fst ` set q"
  "set (first_live live q) \<subseteq> set q"
proof -
  have "distinct (map fst (first_live live q)) \<and> fst ` set (first_live live q) = live \<inter> fst ` set q \<and>
      set (first_live live q) \<subseteq> set q"
    by (induction live q rule: first_live.induct) auto
  then show "distinct (map fst (first_live live q))" "fst ` set (first_live live q) = live \<inter> fst ` set q"
    "set (first_live live q) \<subseteq> set q" by auto
qed

text \<open>
  The contract between the table of connections and the loop that empties the queue: removing a
  live connection succeeds and removes just it. Under it the loop does what it should.
\<close>

locale con_table =
  fixes inv :: "'s \<Rightarrow> bool" and live :: "'s \<Rightarrow> cid set" and queue :: "'s \<Rightarrow> (cid \<times> 'd) list"
    and pop :: "'s \<Rightarrow> 's" and rm :: "cid \<Rightarrow> 's \<Rightarrow> unit res \<times> 's"
    and reap :: "(cid \<Rightarrow> 'd \<Rightarrow> 'h \<Rightarrow> 'h) \<Rightarrow> 'h \<Rightarrow> u32 \<times> 's \<Rightarrow> unit res \<times> 'h \<times> u32 \<times> 's"
  assumes pop_inv: "inv s \<Longrightarrow> inv (pop s)"
    and pop_live: "live (pop s) = live s"
    and pop_queue: "queue (pop s) = tl (queue s)"
    and rm_live: "inv s \<Longrightarrow> cid \<in> live s \<Longrightarrow>
      \<exists>s'. rm cid s = (Ok (), s') \<and> inv s' \<and> live s' = live s - {cid} \<and> queue s' = queue s"
    and reap_nil: "queue s = [] \<Longrightarrow> reap hook h (i, s) = (Ok (), h, i, s)"
    and reap_dead: "queue s = (cid, d) # q \<Longrightarrow> cid \<notin> live s \<Longrightarrow> reap hook h (i, s) = reap hook h (i, pop s)"
    and reap_live: "queue s = (cid, d) # q \<Longrightarrow> cid \<in> live s \<Longrightarrow> rm cid (pop s) = (Ok (), s') \<Longrightarrow>
      reap hook h (i, s) = reap hook (hook cid d h) (i + 1, s')"
begin

lemma reap_spec:
  "inv s \<Longrightarrow> \<exists>s'. reap hook h (i, s) =
     (Ok (), fold (\<lambda>(cid, d). hook cid d) (first_live (live s) (queue s)) h,
      i + word_of_nat (length (first_live (live s) (queue s))), s') \<and>
     inv s' \<and> live s' = live s - fst ` set (queue s) \<and> queue s' = []"
proof (induction "queue s" arbitrary: s h i)
  case Nil
  then show ?case using reap_nil by auto
next
  case (Cons p q)
  obtain cid d where p: "p = (cid, d)" by (cases p)
  note qs = Cons.hyps(2) [symmetric, unfolded p]
  have pop: "queue (pop s) = q" "inv (pop s)" "live (pop s) = live s"
    using qs Cons.prems pop_inv pop_live pop_queue by simp_all
  show ?case
  proof (cases "cid \<in> live s")
    case False
    from Cons.hyps(1) [of "pop s" h i] pop show ?thesis
      using reap_dead [OF qs False] False by (auto simp: qs)
  next
    case True
    then obtain s1 where s1: "rm cid (pop s) = (Ok (), s1)" "inv s1" "live s1 = live s - {cid}" "queue s1 = q"
      using rm_live [OF pop(2), of cid] pop by auto
    from Cons.hyps(1) [of s1 "hook cid d h" "i + 1"] s1 show ?thesis
      using reap_live [OF qs True s1(1)] True by (auto simp: qs algebra_simps)
  qed
qed

end

lemma server_rm_disconnected: "sv_disconnected (snd (server_rm_tcp_con cid sv)) = sv_disconnected sv"
  by (simp add: server_rm_tcp_con_def Let_def split: option.split)

lemma disconnect_loop_nil:
  "sv_disconnected sv = [] \<Longrightarrow> server_disconnect_loop hook h (i, sv) = (Ok (), h, i, sv)"
  by (subst server_disconnect_loop.simps) simp

lemma disconnect_loop_dead:
  "sv_disconnected sv = (cid, d) # q \<Longrightarrow> cid \<notin> dom (sv_cid_addr sv) \<Longrightarrow>
   server_disconnect_loop hook h (i, sv) = server_disconnect_loop hook h (i, sv\<lparr>sv_disconnected := q\<rparr>)"
  by (subst server_disconnect_loop.simps) (simp add: server_alive_def)

lemma disconnect_loop_live:
  "sv_disconnected sv = (cid, d) # q \<Longrightarrow> cid \<in> dom (sv_cid_addr sv) \<Longrightarrow>
   server_rm_tcp_con cid (sv\<lparr>sv_disconnected := q\<rparr>) = (Ok (), sv') \<Longrightarrow>
   server_disconnect_loop hook h (i, sv) = server_disconnect_loop hook (hook cid d h) (i + 1, sv')"
  by (subst server_disconnect_loop.simps) (simp add: server_alive_def Let_def)

interpretation srv_table: con_table wf_server "\<lambda>sv. dom (sv_cid_addr sv)" sv_disconnected
  "\<lambda>sv. sv\<lparr>sv_disconnected := tl (sv_disconnected sv)\<rparr>" server_rm_tcp_con server_disconnect_loop
proof unfold_locales
  show "\<exists>s'. server_rm_tcp_con cid s = (Ok (), s') \<and> wf_server s' \<and>
      dom (sv_cid_addr s') = dom (sv_cid_addr s) - {cid} \<and> sv_disconnected s' = sv_disconnected s"
    if "wf_server s" "cid \<in> dom (sv_cid_addr s)" for cid and s :: "'a server"
    using wf_rm_tcp_con [OF that(1)] that(2) by (metis prod.collapse)
qed (simp_all add: disconnect_loop_nil disconnect_loop_dead disconnect_loop_live)

lemma server_handle_disconnects_spec:
  assumes "wf_server sv"
  shows "\<exists>sv'. server_handle_disconnects hook h sv =
      (Ok (word_of_nat (length (first_live (dom (sv_cid_addr sv)) (sv_disconnected sv)))),
       fold (\<lambda>(cid, st). hook cid st) (first_live (dom (sv_cid_addr sv)) (sv_disconnected sv)) h, sv') \<and>
    wf_server sv' \<and> dom (sv_cid_addr sv') = dom (sv_cid_addr sv) - fst ` set (sv_disconnected sv) \<and>
    sv_disconnected sv' = []"
  using srv_table.reap_spec [OF assms, of hook h 0] by (auto simp: server_handle_disconnects_def)

lemma server_step_wf:
  assumes "server_step sv sv'" "wf_server sv"
  shows "wf_server sv'"
  using assms(1)
proof (cases rule: server_step.cases)
  case (step_send now cid msg r)
  then show ?thesis using wf_socks [OF server_send_socks] assms(2) by blast
next
  case (step_broadcast ko nows msg r)
  then show ?thesis using wf_socks [OF server_send_each_socks] assms(2) unfolding server_broadcast_def by blast
next
  case (step_send_spec ko nows spec msg r)
  then show ?thesis using wf_socks [OF server_send_each_socks] assms(2) unfolding server_send_spec_def by blast
next
  case (step_disconnect now msg cid r)
  then show ?thesis using wf_server_close assms(2) by blast
next
  case (step_new_con now clk C R hook h r h')
  show ?thesis by (rule wf_handle_new_con [OF assms(2) step_new_con])
next
  case (step_new_cons now clk C R hook h r h')
  show ?thesis by (rule wf_handle_new_cons [OF assms(2) step_new_cons])
next
  case (step_handle_disconnect dhook h r h')
  show ?thesis by (rule wf_handle_disconnect [OF assms(2) step_handle_disconnect])
next
  case (step_handle_disconnects dhook h r h')
  then show ?thesis using server_handle_disconnects_spec [OF assms(2), of dhook h] by auto
next
  case (step_recv_msgs ko r)
  then show ?thesis using server_recv_msgs_inv [OF wf_recv_keeps assms(2)] by blast
next
  case step_clear_msgs
  then show ?thesis using assms(2) by (simp add: server_clear_msgs_def wf_server_defs)
next
  case (step_listener l)
  then show ?thesis using assms(2) by simp
next
  case (step_pending cons)
  then show ?thesis using wf_same_pending assms(2) by blast
next
  case step_sockets
  then show ?thesis using wf_socks assms(2) by blast
qed

end
