(* ===== verification/Server_Connect.thy ===== *)
theory Server_Connect
  imports Server_Invariant
begin

text \<open>
  How pending connections become clients: what \<open>handle_new_con\<close> and \<open>handle_new_cons\<close> of
  \<open>src/server.rs\<close> do with connections whose first message has arrived, has not, or never will.
\<close>

section \<open>Pending connections\<close>

text \<open>
  A connection is ready with \<open>c\<close> when its connection message has arrived and decodes to it,
  waiting when less than a header has arrived, and late when its time is over.
\<close>

definition ready_con :: "'v parts \<Rightarrow> type_id \<Rightarrow> nat \<Rightarrow> nat \<Rightarrow> tcp_con \<Rightarrow> 'v \<Rightarrow> bool" where
  "ready_con parts C timeout age con c \<longleftrightarrow> wf_con con \<and> age \<le> timeout \<and>
     (\<exists>payload rest. rx (tc_tcp con) = frame CONNECTION_TYPE_MID payload @ rest \<and>
        fits (tcp_max_msg_size con) (CONNECTION_TYPE_MID, payload) \<and>
        (deser parts ! CONNECTION_TYPE_MID) payload = Ok (AnyBox C c))"

definition waiting_con :: "nat \<Rightarrow> nat \<Rightarrow> tcp_con \<Rightarrow> bool" where
  "waiting_con timeout age con \<longleftrightarrow> age \<le> timeout \<and> rx_state (tc_tcp con) = RxOpen \<and> length (rx (tc_tcp con)) < 4"

definition late_con :: "nat \<Rightarrow> nat \<Rightarrow> bool" where
  "late_con timeout age \<longleftrightarrow> timeout < age"

lemma helper_ready:
  assumes "ready_con parts C timeout age con c"
  shows "\<exists>con'. handle_con_helper (deser parts ! CONNECTION_TYPE_MID) C timeout age con = (Ok c, con') \<and>
    wf_con con' \<and> (tc_tcp con')\<lparr>rx := []\<rparr> = (tc_tcp con)\<lparr>rx := []\<rparr> \<and> length (tc_buff con') = length (tc_buff con)"
proof -
  obtain payload rest where p: "rx (tc_tcp con) = frame CONNECTION_TYPE_MID payload @ rest"
      "fits (tcp_max_msg_size con) (CONNECTION_TYPE_MID, payload)"
      "(deser parts ! CONNECTION_TYPE_MID) payload = Ok (AnyBox C c)" "wf_con con" "age \<le> timeout"
    using assms by (auto simp: ready_con_def)
  obtain buff where b: "length buff = length (tc_buff con)" "tcp_con_recv con =
      (Ok (CONNECTION_TYPE_MID, payload), con\<lparr>tc_buff := buff, tc_tcp := (tc_tcp con)\<lparr>rx := rest\<rparr>\<rparr>)"
    using recv_frame [OF p(4,1,2)] by blast
  show ?thesis
    using p(3-5) b by (simp add: handle_con_helper_def downcast_def wf_con_def)
qed

lemma helper_waiting:
  assumes "waiting_con timeout age con"
  shows "\<exists>e con'. handle_con_helper d C timeout age con = (Inl (IoErr e), con') \<and> err_kind e = WouldBlock \<and>
    tc_tcp con' = tc_tcp con"
proof (cases "rx (tc_tcp con) = []")
  case True
  then show ?thesis using assms by (auto simp: waiting_con_def handle_con_helper_def recv_nothing)
next
  case False
  then obtain buff where "tcp_con_recv con = (Err WouldBlock HeaderIncomplete, con\<lparr>tc_buff := buff\<rparr>)"
    using recv_part_of_header assms by (auto simp: waiting_con_def)
  then show ?thesis using assms by (auto simp: waiting_con_def handle_con_helper_def)
qed

lemma helper_late:
  "late_con timeout age \<Longrightarrow>
   handle_con_helper d C timeout age con = (Err TimedOut NoConnectionInTime, con)"
  by (simp add: late_con_def handle_con_helper_def)

lemma pending_cid_eq [simp]: "pending_cid (con, cid, time) = cid"
  by (simp add: pending_cid_def)

section \<open>The loop over the pending connections\<close>

text \<open>With the \<open>break\<close>: the first ready connection is handled, those behind it are not touched.\<close>

lemma con_loop_first:
  assumes "handle_con_helper d C timeout (clk (idx + length pre) - time) con = (Ok c, con')"
    and "hook cid c h = ((acc, resp), h')"
  shows "\<forall>i < length pre. waiting_con timeout (clk (idx + i) - snd (snd (pre ! i))) (fst (pre ! i)) \<Longrightarrow>
    \<exists>pre'. map pending_cid pre' = map pending_cid pre \<and>
      con_loop True d C timeout clk hook idx (pre @ (con, cid, time) # post) (as, rs, ds) h =
      (Ok (if acc then (as @ [(idx + length pre, resp)], rs, ds) else (as, rs @ [(idx + length pre, resp)], ds)),
       pre' @ (con', cid, time) # post, h')"
  using assms
proof (induction pre arbitrary: idx)
  case Nil
  then show ?case by simp
next
  case (Cons p pre)
  obtain con0 cid0 time0 where p: "p = (con0, cid0, time0)" by (cases p)
  have "waiting_con timeout (clk idx - time0) con0" using Cons.prems(1) by (auto simp: p)
  then obtain e con1 where e: "handle_con_helper d C timeout (clk idx - time0) con0 = (Inl (IoErr e), con1)"
      "err_kind e = WouldBlock" using helper_waiting by blast
  have "\<forall>i < length pre. waiting_con timeout (clk (Suc idx + i) - snd (snd (pre ! i))) (fst (pre ! i))"
    using Cons.prems(1) by fastforce
  from Cons.IH [OF this] obtain pre' where
    "map pending_cid pre' = map pending_cid pre"
    "con_loop True d C timeout clk hook (Suc idx) (pre @ (con, cid, time) # post) (as, rs, ds) h =
      (Ok (if acc then (as @ [(idx + length (p # pre), resp)], rs, ds)
           else (as, rs @ [(idx + length (p # pre), resp)], ds)),
       pre' @ (con', cid, time) # post, h')"
    using Cons.prems(2,3) by auto
  then show ?case
    using e by (intro exI [of _ "(con1, cid0, time0) # pre'"]) (simp add: p)
qed

text \<open>Without it, all ready connections are handled; the indices found are all of them.\<close>

lemma con_loop_all_ready:
  assumes "\<forall>cid c h. fst (fst (hook cid c h))"
  shows "\<forall>i < length cons. \<exists>c. ready_con parts C timeout (clk (idx + i) - snd (snd (cons ! i))) (fst (cons ! i)) c \<Longrightarrow>
    \<exists>as' cons' h'. con_loop False (deser parts ! CONNECTION_TYPE_MID) C timeout clk hook idx cons (as, rs, ds) h =
        (Ok (as @ as', rs, ds), cons', h') \<and>
      map fst as' = [idx..<idx + length cons] \<and> length cons' = length cons"
proof (induction cons arbitrary: idx as h)
  case Nil
  then show ?case by simp
next
  case (Cons p cons)
  obtain con cid time where p: "p = (con, cid, time)" by (cases p)
  obtain c where ready: "ready_con parts C timeout (clk idx - time) con c" using Cons.prems by (auto simp: p)
  obtain con1 where c: "handle_con_helper (deser parts ! CONNECTION_TYPE_MID) C timeout (clk idx - time) con =
      (Ok c, con1)" using helper_ready [OF ready] by blast
  obtain resp h1 where h: "hook cid c h = ((True, resp), h1)"
    using assms by (metis eq_fst_iff)
  have "\<forall>i < length cons. \<exists>c. ready_con parts C timeout (clk (Suc idx + i) - snd (snd (cons ! i))) (fst (cons ! i)) c"
    using Cons.prems by fastforce
  from Cons.IH [OF this, of "as @ [(idx, resp)]" h1] obtain as' cons' h' where
    r: "con_loop False (deser parts ! CONNECTION_TYPE_MID) C timeout clk hook (Suc idx) cons
        (as @ [(idx, resp)], rs, ds) h1 = (Ok ((as @ [(idx, resp)]) @ as', rs, ds), cons', h')"
      "map fst as' = [Suc idx..<Suc idx + length cons]" "length cons' = length cons"
    by blast
  have "map fst ((idx, resp) # as') = [idx..<idx + length (p # cons)]"
    using r(2) by (simp add: upt_conv_Cons del: upt_Suc)
  then show ?case
    using c h r(1,3) by (intro exI [of _ "(idx, resp) # as'"] exI [of _ "(con1, cid, time) # cons'"] exI [of _ h'])
      (simp add: p)
qed

section \<open>Settling what the loop found\<close>

lemma unwrap_res_cases: "(\<exists>x. unwrap_res r = Ok x) \<or> is_panic (unwrap_res r)"
  by (cases r rule: unwrap_res.cases) auto

lemma accept_incoming_frame:
  assumes "server_accept_incoming now cid con resp sv = (r, sv')"
  shows "sv_new_cons sv' = sv_new_cons sv \<and> (r = Ok () \<or> is_panic r)"
proof (cases "peer_name (tc_tcp con)")
  case None
  then show ?thesis using assms
    by (auto simp: server_accept_incoming_def tcp_con_peer_addr_def name_res_def)
next
  case (Some addr)
  obtain sv1 where a: "server_add_tcp_con_cid cid con sv = (Ok (), sv1)" "sv_new_cons sv1 = sv_new_cons sv"
    using Some by (simp add: server_add_tcp_con_cid_def tcp_con_peer_addr_def name_res_def)
  obtain q sv2 where s: "server_send_to now cid resp sv1 = (q, sv2)" by fastforce
  have "sv_new_cons sv2 = sv_new_cons sv" using socks_only_fields(4) [OF server_send_socks [OF s]] a(2) by simp
  then show ?thesis using assms Some a(1) s
    by (auto simp: server_accept_incoming_def tcp_con_peer_addr_def name_res_def split: sum.splits fail.splits)
qed

text \<open>Removing by ascending indices found before any removal runs off the end.\<close>

lemma accept_all_panics:
  "2 \<le> n \<Longrightarrow> k < n \<Longrightarrow> map fst as = [k..<n] \<Longrightarrow> length (sv_new_cons sv) = n - k \<Longrightarrow>
   is_panic (fst (server_accept_all now R as sv))"
proof (induction as arbitrary: k sv)
  case Nil
  then show ?case by (simp add: upt_rec [of k])
next
  case (Cons a as)
  obtain resp where a: "a = (k, resp)" "map fst as = [Suc k..<n]"
    using Cons.prems(2,3) by (cases a) (simp add: upt_rec [of k])
  show ?case
  proof (cases "k < n - k")
    case False
    then show ?thesis using Cons.prems(4) by (simp add: a(1) vec_remove_def)
  next
    case True
    obtain con cid time where p: "sv_new_cons sv ! k = (con, cid, time)" by (metis surj_pair)
    let ?cons = "take k (sv_new_cons sv) @ drop (Suc k) (sv_new_cons sv)"
    obtain q sv2 where q: "server_accept_incoming now cid con (AnyBox R resp) (sv\<lparr>sv_new_cons := ?cons\<rparr>) = (q, sv2)"
      by fastforce
    have len: "length (sv_new_cons sv2) = n - Suc k"
      using accept_incoming_frame [OF q] True Cons.prems(4) by (simp add: min_def)
    have "Suc k < n" using True Cons.prems(1) by linarith
    from Cons.IH [OF Cons.prems(1) this a(2) len] show ?thesis
      using accept_incoming_frame [OF q] q True Cons.prems(4) p
      by (cases q) (auto simp: a(1) vec_remove_def)
  qed
qed

section \<open>The answer to a connection\<close>

text \<open>Sending a value of a type registered on TCP, with the table's own encoder.\<close>

lemma lookup_codec:
  assumes "wf_parts parts" "codec_of bc parts" "tid_map parts T = Some mid" "transports parts ! mid = tr"
  shows "and_then (hash_index (tid_map parts) T) (\<lambda>mid.
      and_then (index (transports parts) mid) (\<lambda>transport.
      and_then (index (ser parts) mid) (\<lambda>ser_fn.
      and_then (f (ser_fn (AnyBox T v))) (\<lambda>b. Ok (mid, transport, b))))) =
    and_then (f (case bc_serialize bc T v of Inr b \<Rightarrow> Ok b | Inl o1 \<Rightarrow> Err InvalidData (SerError o1)))
      (\<lambda>b. Ok (mid, tr, b))"
proof -
  have "mid < mid_count parts" "length (ser parts) = mid_count parts" "ser parts ! mid = ser_closure bc T"
    using assms by (simp_all add: wf_parts_def codec_of_def)
  then show ?thesis
    using assms(3,4) by (simp add: hash_index_def index_def mid_count_def ser_closure_def downcast_def)
qed

lemma server_send_to_tcp:
  assumes "wf_parts (sv_parts sv)" "codec_of bc (sv_parts sv)" "tid_map (sv_parts sv) T = Some mid"
    "transports (sv_parts sv) ! mid = TCP" "sv_tcp sv cid = Some con"
  shows "server_send_to now cid (AnyBox T v) sv =
    (case bc_serialize bc T v of
       Inl e \<Rightarrow> (Err InvalidData (SerError e), sv)
     | Inr b \<Rightarrow> (case tcp_con_send mid b con of (r, con') \<Rightarrow> (r, sv\<lparr>sv_tcp := (sv_tcp sv)(cid \<mapsto> con')\<rparr>)))"
  using lookup_codec [OF assms(1-4), of "\<lambda>r. r"] assms(3,5)
  by (simp add: server_send_to_def server_valid_tid_def valid_tid_def domI server_send_tcp_def Let_def
      split: sum.split)

definition writable :: "tcp_con \<Rightarrow> nat \<Rightarrow> bool" where
  "writable con n \<longleftrightarrow> n + 4 \<le> tcp_buff_size con \<and> \<not> is_shut (tc_tcp con) \<and> tx_fault (tc_tcp con) = None \<and>
     (is_nonblocking (tc_tcp con) \<longrightarrow> n + 4 \<le> tx_room (tc_tcp con))"

lemma writable_send:
  "writable con (length b) \<Longrightarrow> \<exists>con'. tcp_con_send mid b con = (Ok (), con') \<and>
     tx (tc_tcp con') = tx (tc_tcp con) @ frame mid b"
  by (simp add: tcp_con_send_Ok writable_def)

lemma tcp_con_send_not_panic: "\<not> is_panic (fst (tcp_con_send mid b con))"
  by (auto simp: tcp_con_send_eq stream_write_all_def split: if_splits prod.splits option.splits)

lemma accept_incoming_ok:
  assumes "wf_parts (sv_parts sv)" "codec_of bc (sv_parts sv)"
    "tid_map (sv_parts sv) R = Some RESPONSE_TYPE_MID" "transports (sv_parts sv) ! RESPONSE_TYPE_MID = TCP"
    "peer_name (tc_tcp con) = Some addr"
  shows "\<exists>con'. server_accept_incoming now cid con (AnyBox R v) sv =
      (Ok (), sv\<lparr>sv_tcp := (sv_tcp sv)(cid \<mapsto> con'), sv_addr_cid := (sv_addr_cid sv)(addr \<mapsto> cid),
         sv_cid_addr := (sv_cid_addr sv)(cid \<mapsto> addr)\<rparr>) \<and>
    (\<forall>b. bc_serialize bc R v = Inr b \<and> writable con (length b) \<longrightarrow>
       tx (tc_tcp con') = tx (tc_tcp con) @ frame RESPONSE_TYPE_MID b)"
proof -
  let ?sv1 = "sv\<lparr>sv_tcp := (sv_tcp sv)(cid \<mapsto> con), sv_addr_cid := (sv_addr_cid sv)(addr \<mapsto> cid),
    sv_cid_addr := (sv_cid_addr sv)(cid \<mapsto> addr)\<rparr>"
  have add: "server_add_tcp_con_cid cid con sv = (Ok (), ?sv1)" "unwrap_res (tcp_con_peer_addr con) = Ok addr"
    using assms(5) by (simp_all add: server_add_tcp_con_cid_def tcp_con_peer_addr_def name_res_def)
  have send: "server_send_to now cid (AnyBox R v) ?sv1 =
    (case bc_serialize bc R v of
       Inl e \<Rightarrow> (Err InvalidData (SerError e), ?sv1)
     | Inr b \<Rightarrow> (case tcp_con_send RESPONSE_TYPE_MID b con of
         (r, con') \<Rightarrow> (r, ?sv1\<lparr>sv_tcp := (sv_tcp ?sv1)(cid \<mapsto> con')\<rparr>)))"
    using server_send_to_tcp [of ?sv1 bc R RESPONSE_TYPE_MID cid con now v] assms(1-4) by simp
  show ?thesis
  proof (cases "bc_serialize bc R v")
    case (Inl e)
    then show ?thesis using add send by (intro exI [of _ con]) (simp add: server_accept_incoming_def)
  next
    case (Inr b)
    obtain r con' where c: "tcp_con_send RESPONSE_TYPE_MID b con = (r, con')" by fastforce
    have "\<not> is_panic r" using tcp_con_send_not_panic [of RESPONSE_TYPE_MID b con] c by simp
    then have "server_accept_incoming now cid con (AnyBox R v) sv =
        (Ok (), ?sv1\<lparr>sv_tcp := (sv_tcp ?sv1)(cid \<mapsto> con')\<rparr>)"
      using add send Inr c
      by (cases r) (auto simp: server_accept_incoming_def split: fail.splits)
    moreover have "writable con (length b) \<Longrightarrow> tx (tc_tcp con') = tx (tc_tcp con) @ frame RESPONSE_TYPE_MID b"
      using writable_send [of con b RESPONSE_TYPE_MID] c by auto
    ultimately show ?thesis using Inr by (intro exI [of _ con']) simp
  qed
qed

lemma reject_incoming_ok:
  assumes "wf_parts (sv_parts sv)" "codec_of bc (sv_parts sv)" "tid_map (sv_parts sv) R = Some RESPONSE_TYPE_MID"
    and "peer_name (tc_tcp con) \<noteq> None"
  shows "fst (server_reject_incoming con (AnyBox R resp) sv) = Ok ()"
proof -
  have "RESPONSE_TYPE_MID < length (ser (sv_parts sv))" "ser (sv_parts sv) ! RESPONSE_TYPE_MID = ser_closure bc R"
    using assms(1-3) by (auto simp: wf_parts_def codec_of_def)
  then show ?thesis
    using assms(4) tcp_con_send_not_panic [of RESPONSE_TYPE_MID _ con]
    by (auto simp: server_reject_incoming_def index_def ser_closure_def downcast_def
        tcp_con_peer_addr_def name_res_def split: sum.splits prod.splits fail.splits)
      (metis fst_conv is_panic_simps(1))
qed

text \<open>One call of \<open>handle_new_con\<close>, with a connection that is ready.\<close>

lemma new_con_first_ready:
  assumes "server_start_incoming oc sv = (Ok (), sv1)" "sv_new_cons sv1 = pre @ (con, cid, time) # post"
    and "\<forall>i < length pre. waiting_con (cfg_timeout (sv_config sv1)) (clk i - snd (snd (pre ! i))) (fst (pre ! i))"
    and "ready_con (sv_parts sv1) C (cfg_timeout (sv_config sv1)) (clk (length pre) - time) con c"
    and "hook cid c h = ((acc, resp), h')" "peer_name (tc_tcp con) = Some addr"
    and "wf_parts (sv_parts sv1)" "codec_of bc (sv_parts sv1)"
    and "tid_map (sv_parts sv1) R = Some RESPONSE_TYPE_MID" "transports (sv_parts sv1) ! RESPONSE_TYPE_MID = TCP"
  shows "\<exists>sv'. server_handle_new_con oc now clk C R hook h sv = (Ok True, h', sv') \<and>
    map pending_cid (sv_new_cons sv') = map pending_cid (pre @ post) \<and>
    sv_cid_addr sv' = (if acc then (sv_cid_addr sv1)(cid \<mapsto> addr) else sv_cid_addr sv1) \<and>
    sv_addr_cid sv' = (if acc then (sv_addr_cid sv1)(addr \<mapsto> cid) else sv_addr_cid sv1) \<and>
    (acc \<longrightarrow> (\<exists>con'. sv_tcp sv' cid = Some con' \<and>
       (\<forall>b. bc_serialize bc R resp = Inr b \<and> writable con (length b) \<longrightarrow>
          tx (tc_tcp con') = tx (tc_tcp con) @ frame RESPONSE_TYPE_MID b)))"
proof -
  let ?d = "deser (sv_parts sv1) ! CONNECTION_TYPE_MID"
  have "RESPONSE_TYPE_MID < length (deser (sv_parts sv1))" using assms(7-9) by (auto simp: wf_parts_def)
  then have d: "index (deser (sv_parts sv1)) CONNECTION_TYPE_MID = Ok ?d" by (auto simp: index_def mid_defs)
  obtain con' where con': "handle_con_helper ?d C (cfg_timeout (sv_config sv1)) (clk (length pre) - time) con = (Ok c, con')"
      "(tc_tcp con')\<lparr>rx := []\<rparr> = (tc_tcp con)\<lparr>rx := []\<rparr>" "length (tc_buff con') = length (tc_buff con)"
    using helper_ready [OF assms(4)] by blast
  from arg_cong [OF con'(2), of tx] arg_cong [OF con'(2), of peer_name] arg_cong [OF con'(2), of is_shut]
    arg_cong [OF con'(2), of tx_fault] arg_cong [OF con'(2), of tx_room] arg_cong [OF con'(2), of is_nonblocking]
  have same: "tx (tc_tcp con') = tx (tc_tcp con)" "peer_name (tc_tcp con') = Some addr"
      "writable con' n = writable con n" for n
    using assms(6) con'(3) by (simp_all add: writable_def tcp_buff_size_def)
  let ?lists = "if acc then ([(length pre, resp)], [], []) else ([], [(length pre, resp)], []) :: 'a sorted_cons"
  obtain pre' where pre': "map pending_cid pre' = map pending_cid pre"
    "con_loop True ?d C (cfg_timeout (sv_config sv1)) clk hook 0 (sv_new_cons sv1) ([], [], []) h =
      (Ok ?lists, pre' @ (con', cid, time) # post, h')"
    using con_loop_first [of ?d C "cfg_timeout (sv_config sv1)" clk 0 pre time con c con' hook cid h acc
        resp h' post "[]" "[]" "[]"] con'(1) assms(2,3,5) by (simp only: add_0 append_Nil) blast
  define sv2 where "sv2 = sv1\<lparr>sv_new_cons := pre' @ (con', cid, time) # post\<rparr>"
  have len: "length pre' = length pre" using arg_cong [OF pre'(1), of length] by simp
  have settle: "server_handle_new_con oc now clk C R hook h sv =
      (case server_settle now R ?lists sv2 of (Inl e, s) \<Rightarrow> (Inl e, h', s) | (Inr _, s) \<Rightarrow> (Ok True, h', s))"
    using assms(1,2) d pre'(2) by (simp add: server_handle_new_con_def sv2_def split: sum.split prod.split)
  have rm: "vec_remove (length pre) (sv_new_cons sv2) = Inr ((con', cid, time), pre' @ post)"
    using len by (simp add: vec_remove_def sv2_def nth_append)
  define sv3 where "sv3 = sv2\<lparr>sv_new_cons := pre' @ post\<rparr>"
  have sv3: "sv_parts sv3 = sv_parts sv1" "sv_tcp sv3 = sv_tcp sv1" "sv_cid_addr sv3 = sv_cid_addr sv1"
    "sv_addr_cid sv3 = sv_addr_cid sv1" "sv_new_cons sv3 = pre' @ post" by (simp_all add: sv3_def sv2_def)
  have pending: "map pending_cid (pre' @ post) = map pending_cid (pre @ post)" using pre'(1) by simp
  show ?thesis
  proof (cases acc)
    case True
    obtain con2 where a: "server_accept_incoming now cid con' (AnyBox R resp) sv3 =
        (Ok (), sv3\<lparr>sv_tcp := (sv_tcp sv3)(cid \<mapsto> con2), sv_addr_cid := (sv_addr_cid sv3)(addr \<mapsto> cid),
           sv_cid_addr := (sv_cid_addr sv3)(cid \<mapsto> addr)\<rparr>)"
        "\<forall>b. bc_serialize bc R resp = Inr b \<and> writable con' (length b) \<longrightarrow>
           tx (tc_tcp con2) = tx (tc_tcp con') @ frame RESPONSE_TYPE_MID b"
      using accept_incoming_ok [of sv3 bc R con' addr now cid resp] assms(7-10) same(2) sv3(1) by auto
    show ?thesis
      using a pending same(1,3) True
      by (simp add: settle server_settle_def rm sv3 flip: sv3_def)
  next
    case False
    have "fst (server_reject_incoming con' (AnyBox R resp) sv3) = Ok ()"
      using assms(7-9) same(2) by (intro reject_incoming_ok) (simp_all add: sv3)
    then show ?thesis using False pending
      by (simp add: settle server_settle_def rm Let_def sv3 flip: sv3_def)
  qed
qed

section \<open>Properties of new connections\<close>

text \<open>
  C18: \<open>handle_new_con\<close> handles the first pending connection whose connection message has
  arrived. The hook is called once, with its id and the decoded message; it leaves the list of
  pending connections, whose others stay in order; if accepted it is live under its id and address
  and the hook's response is written to it under the response id; if rejected the tables are as
  before.
\<close>

theorem handle_new_con_first_ready:
  assumes "server_start_incoming oc sv = (Ok (), sv1)" "sv_new_cons sv1 = pre @ (con, cid, time) # post"
    and "\<forall>i < length pre. waiting_con (cfg_timeout (sv_config sv1)) (clk i - snd (snd (pre ! i))) (fst (pre ! i))"
    and "ready_con (sv_parts sv1) C (cfg_timeout (sv_config sv1)) (clk (length pre) - time) con c"
    and "hook cid c h = ((acc, resp), h')" "peer_name (tc_tcp con) = Some addr"
    and "wf_parts (sv_parts sv1)" "codec_of bc (sv_parts sv1)"
    and "tid_map (sv_parts sv1) R = Some RESPONSE_TYPE_MID" "transports (sv_parts sv1) ! RESPONSE_TYPE_MID = TCP"
  shows "\<exists>sv'. server_handle_new_con oc now clk C R hook h sv = (Ok True, h', sv') \<and>
    map pending_cid (sv_new_cons sv') = map pending_cid (pre @ post) \<and>
    sv_cid_addr sv' = (if acc then (sv_cid_addr sv1)(cid \<mapsto> addr) else sv_cid_addr sv1) \<and>
    sv_addr_cid sv' = (if acc then (sv_addr_cid sv1)(addr \<mapsto> cid) else sv_addr_cid sv1) \<and>
    (acc \<longrightarrow> (\<exists>con'. sv_tcp sv' cid = Some con' \<and>
       (\<forall>b. bc_serialize bc R resp = Inr b \<and> writable con (length b) \<longrightarrow>
          tx (tc_tcp con') = tx (tc_tcp con) @ frame RESPONSE_TYPE_MID b)))"
  using assms by (rule new_con_first_ready)

section \<open>A server to try the properties on\<close>

definition demo_pending :: "cid \<Rightarrow> byte list \<Rightarrow> pending_con" where
  "demo_pending cid bs = (demo_con\<lparr>tc_tcp := demo_stream\<lparr>rx := bs\<rparr>\<rparr>, cid, 0)"

definition demo_server :: "pending_con list \<Rightarrow> nat server" where
  "demo_server cons = \<lparr>sv_current_cid = 9, sv_config = config_default, sv_msg_buff = replicate 5 [],
     sv_new_cons = cons, sv_disconnected = [],
     sv_listener = \<lparr>backlog = [], l_nonblocking = True, l_local = Some (SockAddr 1 7777)\<rparr>,
     sv_tcp = Map.empty, sv_udp = demo_ucon, sv_cid_addr = Map.empty, sv_addr_cid = Map.empty,
     sv_parts = demo_parts\<rparr>"

lemma demo_server_simps [simp]:
  "sv_new_cons (demo_server cons) = cons" "sv_parts (demo_server cons) = demo_parts"
  "cfg_timeout (sv_config (demo_server cons)) = 5000000000" "sv_disconnected (demo_server cons) = []"
  "sv_cid_addr (demo_server cons) = Map.empty" "sv_tcp (demo_server cons) = Map.empty"
  "sv_addr_cid (demo_server cons) = Map.empty"
  by (simp_all add: demo_server_def config_default_def)

lemma demo_server_start: "server_start_incoming oc (demo_server cons) = (Ok (), demo_server cons)"
  by (subst server_start_incoming.simps) (simp add: demo_server_def listener_accept_def)

lemma demo_pending_simps [simp]:
  "snd (demo_pending cid bs) = (cid, 0)" "rx (tc_tcp (fst (demo_pending cid bs))) = bs"
  "rx_state (tc_tcp (fst (demo_pending cid bs))) = RxOpen" "wf_con (fst (demo_pending cid bs))"
  "tcp_max_msg_size (fst (demo_pending cid bs)) = 16"
  "peer_name (tc_tcp (fst (demo_pending cid bs))) = Some (SockAddr 1 7777)"
  by (simp_all add: demo_pending_def wf_con_def demo_con_def tcp_from_stream_def tcp_max_msg_size_def demo_stream_def)

lemma demo_pending_ready:
  "age \<le> timeout \<Longrightarrow> ready_con demo_parts 10 timeout age (fst (demo_pending cid (frame 0 [5]))) 5"
  unfolding ready_con_def using demo_deser [of 5 10]
  by (intro conjI exI [of _ "[5]"] exI [of _ "[]"]) (simp_all add: mid_defs fits_def)

theorem handle_new_con_first_ready_witness:
  "\<exists>sv'. server_handle_new_con True 0 (\<lambda>i. 7) 10 11 (\<lambda>cid c h. ((c = 5, 6), h + 1)) (0 :: nat)
      (demo_server [demo_pending 1 [], demo_pending 2 (frame 0 [5]), demo_pending 3 []]) = (Ok True, 1, sv') \<and>
    map pending_cid (sv_new_cons sv') = [1, 3] \<and> server_cid_of sv' (SockAddr 1 7777) = Some 2"
proof -
  let ?p1 = "demo_pending 1 []" and ?p2 = "demo_pending 2 (frame 0 [5])" and ?p3 = "demo_pending 3 []"
  have two: "demo_server [?p1, ?p2, ?p3] = demo_server [?p1, (fst ?p2, 2, 0), ?p3]"
    by (simp add: demo_pending_def)
  have list: "sv_new_cons (demo_server [?p1, ?p2, ?p3]) = [?p1] @ (fst ?p2, 2, 0) # [?p3]"
    by (simp add: demo_pending_def)
  have cids: "pending_cid (demo_pending cid bs) = cid" for cid bs by (simp add: pending_cid_def)
  have "\<exists>sv'. server_handle_new_con True 0 (\<lambda>i. 7) 10 11 (\<lambda>cid c h. ((c = 5, 6), h + 1)) (0 :: nat)
      (demo_server [?p1, ?p2, ?p3]) = (Ok True, 0 + 1, sv') \<and>
    map pending_cid (sv_new_cons sv') = map pending_cid ([?p1] @ [?p3]) \<and>
    sv_cid_addr sv' = (if True then (sv_cid_addr (demo_server [?p1, ?p2, ?p3]))(2 \<mapsto> SockAddr 1 7777)
      else sv_cid_addr (demo_server [?p1, ?p2, ?p3])) \<and>
    sv_addr_cid sv' = (if True then (sv_addr_cid (demo_server [?p1, ?p2, ?p3]))(SockAddr 1 7777 \<mapsto> 2)
      else sv_addr_cid (demo_server [?p1, ?p2, ?p3])) \<and>
    (True \<longrightarrow> (\<exists>con'. sv_tcp sv' 2 = Some con' \<and>
       (\<forall>b. bc_serialize demo_bincode 11 6 = Inr b \<and> writable (fst ?p2) (length b) \<longrightarrow>
          tx (tc_tcp con') = tx (tc_tcp (fst ?p2)) @ frame RESPONSE_TYPE_MID b)))"
    by (rule handle_new_con_first_ready [OF demo_server_start list, of "\<lambda>i. 7" 10 5])
      (use demo_parts_wf(1,3) demo_pending_ready [of 7 5000000000 2] in
        \<open>simp_all add: waiting_con_def mid_defs\<close>)
  then show ?thesis by (auto simp: server_cid_of_def cids)
qed

text \<open>
  \<open>handle_new_cons\<close> panics whenever two or more pending connections are ready in one call
  and the hook accepts them all: it removes them from the list by the indices they had before the
  first removal.
\<close>

lemma handle_new_cons_panics:
  assumes "server_start_incoming oc sv = (Ok (), sv1)" "2 \<le> length (sv_new_cons sv1)"
    and "CONNECTION_TYPE_MID < length (deser (sv_parts sv1))"
    and "\<forall>i < length (sv_new_cons sv1). \<exists>c. ready_con (sv_parts sv1) C (cfg_timeout (sv_config sv1))
      (clk i - snd (snd (sv_new_cons sv1 ! i))) (fst (sv_new_cons sv1 ! i)) c"
    and "\<forall>cid c h. fst (fst (hook cid c h))"
  shows "is_panic (fst (server_handle_new_cons oc now clk C R hook h sv))"
proof -
  let ?d = "deser (sv_parts sv1) ! CONNECTION_TYPE_MID" and ?n = "length (sv_new_cons sv1)"
  obtain as cons h' where loop: "con_loop False ?d C (cfg_timeout (sv_config sv1)) clk hook 0 (sv_new_cons sv1)
      ([], [], []) h = (Ok (as, [], []), cons, h')" "map fst as = [0..<?n]" "length cons = ?n"
    using con_loop_all_ready [OF assms(5), where cons = "sv_new_cons sv1" and parts = "sv_parts sv1" and
        C = C and timeout = "cfg_timeout (sv_config sv1)" and clk = clk and idx = 0 and as = "[]" and
        rs = "[]" and ds = "[]" and h = h] assms(4) by (simp only: add_0 append_Nil) blast
  have "is_panic (fst (server_accept_all now R as (sv1\<lparr>sv_new_cons := cons\<rparr>)))"
    by (rule accept_all_panics [of ?n 0]) (use assms(2) loop(2,3) in auto)
  then obtain p sv2 where "server_accept_all now R as (sv1\<lparr>sv_new_cons := cons\<rparr>) = (panics p, sv2)"
    by (cases "server_accept_all now R as (sv1\<lparr>sv_new_cons := cons\<rparr>)")
      (auto simp: is_panic_def split: sum.splits fail.splits)
  then have "server_settle now R (as, [], []) (sv1\<lparr>sv_new_cons := cons\<rparr>) = (panics p, sv2)"
    by (simp add: server_settle_def)
  moreover have "sv_new_cons sv1 \<noteq> []" using assms(2) by auto
  ultimately show ?thesis
    using assms(1,3) loop(1) by (simp add: server_handle_new_cons_def index_def)
qed

text \<open>
  With two timed-out connections in front of one that is still in time, both functions drop
  the wrong one: after the call only the second timed-out connection is pending, and the third,
  which did nothing wrong, is gone.
\<close>

lemma late_connections_drop_wrong_one:
  assumes "server_start_incoming oc sv = (Ok (), sv1)" "sv_new_cons sv1 = [pa, pb, pc]"
    and "CONNECTION_TYPE_MID < length (deser (sv_parts sv1))"
    and "late_con (cfg_timeout (sv_config sv1)) (clk 0 - snd (snd pa))"
    and "late_con (cfg_timeout (sv_config sv1)) (clk 1 - snd (snd pb))"
    and "waiting_con (cfg_timeout (sv_config sv1)) (clk 2 - snd (snd pc)) (fst pc)"
  shows "server_handle_new_con oc now clk C R hook h sv = (Ok False, h, sv1\<lparr>sv_new_cons := [pb]\<rparr>) \<and>
    server_handle_new_cons oc now clk C R hook h sv = (Ok 0, h, sv1\<lparr>sv_new_cons := [pb]\<rparr>)"
proof -
  let ?d = "deser (sv_parts sv1) ! CONNECTION_TYPE_MID"
  obtain con0 cid0 t0 con1 cid1 t1 con2 cid2 t2 where
    p: "pa = (con0, cid0, t0)" "pb = (con1, cid1, t1)" "pc = (con2, cid2, t2)" by (metis surj_pair)
  obtain e con2' where w: "handle_con_helper ?d C (cfg_timeout (sv_config sv1)) (clk 2 - t2) con2 = (Inl (IoErr e), con2')"
      "err_kind e = WouldBlock"
    using helper_waiting assms(6) by (fastforce simp: p)
  have late: "handle_con_helper ?d C (cfg_timeout (sv_config sv1)) (clk 0 - t0) con0 = (Err TimedOut NoConnectionInTime, con0)"
    "handle_con_helper ?d C (cfg_timeout (sv_config sv1)) (clk (Suc 0) - t1) con1 = (Err TimedOut NoConnectionInTime, con1)"
    using helper_late assms(4,5) by (simp_all add: p)
  have "con_loop one ?d C (cfg_timeout (sv_config sv1)) clk hook 0 [pa, pb, pc] ([], [], []) h =
      (Ok ([], [], [0, 1]), [pa, pb, (con2', cid2, t2)], h)" for one
    using w late by (simp add: p numeral_2_eq_2)
  then show ?thesis
    using assms(1-3) p
    by (simp add: server_handle_new_con_def server_handle_new_cons_def index_def server_settle_def vec_remove_def)
qed

text \<open>
  \<open>handle_new_cons\<close> can accept a connection it has not heard. With two ready connections that
  the hook accepts in front of one whose connection message has not come, the call returns \<open>2\<close>;
  but the clients it has made live are the first and the third, whose message was neither read nor
  shown to the hook, while the second, whose message is used up, is pending again.
\<close>

lemma unheard_connection_accepted:
  assumes "server_start_incoming oc sv = (Ok (), sv1)" "sv_new_cons sv1 = [(con0, cid0, t0), (con1, cid1, t1), (con2, cid2, t2)]"
    and "ready_con (sv_parts sv1) C (cfg_timeout (sv_config sv1)) (clk 0 - t0) con0 c0"
    and "ready_con (sv_parts sv1) C (cfg_timeout (sv_config sv1)) (clk 1 - t1) con1 c1"
    and "waiting_con (cfg_timeout (sv_config sv1)) (clk 2 - t2) con2"
    and "hook cid0 c0 h = ((True, resp0), h1)" "hook cid1 c1 h1 = ((True, resp1), h2)"
    and "peer_name (tc_tcp con0) = Some addr0" "peer_name (tc_tcp con2) = Some addr2"
    and "wf_parts (sv_parts sv1)" "codec_of bc (sv_parts sv1)"
    and "tid_map (sv_parts sv1) R = Some RESPONSE_TYPE_MID" "transports (sv_parts sv1) ! RESPONSE_TYPE_MID = TCP"
  shows "\<exists>sv'. server_handle_new_cons oc now clk C R hook h sv = (Ok 2, h2, sv') \<and>
    sv_cid_addr sv' = (sv_cid_addr sv1)(cid0 \<mapsto> addr0, cid2 \<mapsto> addr2) \<and>
    map pending_cid (sv_new_cons sv') = [cid1]"
proof -
  let ?d = "deser (sv_parts sv1) ! CONNECTION_TYPE_MID"
  have "RESPONSE_TYPE_MID < length (deser (sv_parts sv1))" using assms(10,12) by (auto simp: wf_parts_def)
  then have d: "index (deser (sv_parts sv1)) CONNECTION_TYPE_MID = Ok ?d" by (auto simp: index_def mid_defs)
  obtain con0' where r0: "handle_con_helper ?d C (cfg_timeout (sv_config sv1)) (clk 0 - t0) con0 = (Ok c0, con0')"
      "(tc_tcp con0')\<lparr>rx := []\<rparr> = (tc_tcp con0)\<lparr>rx := []\<rparr>" using helper_ready [OF assms(3)] by blast
  obtain con1' where r1: "handle_con_helper ?d C (cfg_timeout (sv_config sv1)) (clk (Suc 0) - t1) con1 = (Ok c1, con1')"
    using helper_ready [OF assms(4)] by auto
  obtain e con2' where r2: "handle_con_helper ?d C (cfg_timeout (sv_config sv1)) (clk 2 - t2) con2 = (Inl (IoErr e), con2')"
      "err_kind e = WouldBlock" "tc_tcp con2' = tc_tcp con2" using helper_waiting [OF assms(5)] by blast
  have peer: "peer_name (tc_tcp con0') = Some addr0" "peer_name (tc_tcp con2') = Some addr2"
    using arg_cong [OF r0(2), of peer_name] r2(3) assms(8,9) by simp_all
  have loop: "con_loop False ?d C (cfg_timeout (sv_config sv1)) clk hook 0 (sv_new_cons sv1) ([], [], []) h =
      (Ok ([(0, resp0), (1, resp1)], [], []), [(con0', cid0, t0), (con1', cid1, t1), (con2', cid2, t2)], h2)"
    using r0(1) r1 r2(1,2) assms(2,6,7) by (simp add: numeral_2_eq_2)
  let ?sva = "sv1\<lparr>sv_new_cons := [(con1', cid1, t1), (con2', cid2, t2)]\<rparr>"
  obtain d0 where a0: "server_accept_incoming now cid0 con0' (AnyBox R resp0) ?sva =
      (Ok (), ?sva\<lparr>sv_tcp := (sv_tcp ?sva)(cid0 \<mapsto> d0), sv_addr_cid := (sv_addr_cid ?sva)(addr0 \<mapsto> cid0),
         sv_cid_addr := (sv_cid_addr ?sva)(cid0 \<mapsto> addr0)\<rparr>)"
    using accept_incoming_ok [of ?sva bc R con0' addr0 now cid0 resp0] assms(10-13) peer(1) by auto
  define svb where "svb = ?sva\<lparr>sv_tcp := (sv_tcp ?sva)(cid0 \<mapsto> d0), sv_addr_cid := (sv_addr_cid ?sva)(addr0 \<mapsto> cid0),
         sv_cid_addr := (sv_cid_addr ?sva)(cid0 \<mapsto> addr0), sv_new_cons := [(con1', cid1, t1)]\<rparr>"
  obtain d2 where a2: "server_accept_incoming now cid2 con2' (AnyBox R resp1) svb =
      (Ok (), svb\<lparr>sv_tcp := (sv_tcp svb)(cid2 \<mapsto> d2), sv_addr_cid := (sv_addr_cid svb)(addr2 \<mapsto> cid2),
         sv_cid_addr := (sv_cid_addr svb)(cid2 \<mapsto> addr2)\<rparr>)"
    using accept_incoming_ok [of svb bc R con2' addr2 now cid2 resp1] assms(10-13) peer(2) by (auto simp: svb_def)
  have settle: "\<exists>sv'. server_settle now R ([(0, resp0), (1, resp1)], [], [])
        (sv1\<lparr>sv_new_cons := [(con0', cid0, t0), (con1', cid1, t1), (con2', cid2, t2)]\<rparr>) = (Ok (), sv') \<and>
      sv_cid_addr sv' = (sv_cid_addr sv1)(cid0 \<mapsto> addr0, cid2 \<mapsto> addr2) \<and> sv_new_cons sv' = [(con1', cid1, t1)]"
    using a0 a2 by (simp add: server_settle_def vec_remove_def svb_def)
  then show ?thesis
    using assms(1,2) d loop by (auto simp: server_handle_new_cons_def)
qed

end
