(* ===== verification/Server_Rounds.thy ===== *)
theory Server_Rounds
  imports Server_Invariant
begin

text \<open>
  What one call of \<open>recv_msgs\<close> of \<open>src/server.rs\<close> files and queues: its two kinds of loops are
  drain loops over the connections' sources of messages.
\<close>

section \<open>The receive loops as drain loops\<close>

text \<open>As for the client, with the connection \<open>cid\<close> fixed; a disconnect is queued.\<close>

fun srv_offers :: "tail \<Rightarrow> cid \<Rightarrow> u32 \<times> 'v server \<Rightarrow> (mid \<times> 'v erased_net_msg) list \<Rightarrow> bool" where
  "srv_offers st cid (i, sv) ms \<longleftrightarrow> (\<exists>con frames. sv_tcp sv cid = Some con \<and> offers_frames st con frames \<and>
     list_all2 (decoded (sv_parts sv) cid) frames ms)"

abbreviation srv_holds :: "cid \<Rightarrow> u32 \<times> 'v server \<Rightarrow> (mid \<times> 'v erased_net_msg) list \<Rightarrow> bool" where
  "srv_holds \<equiv> srv_offers (Tail [] RxOpen)"

text \<open>On UDP a message is from the client its address is registered for.\<close>

definition sent_by :: "'v server \<Rightarrow> sock_addr \<times> mid \<times> u32 \<times> byte list \<Rightarrow> mid \<times> 'v erased_net_msg \<Rightarrow> bool" where
  "sent_by sv d m = (case d of (src, mid, time, bytes) \<Rightarrow>
     \<exists>cid. sv_addr_cid sv src = Some cid \<and> server_alive sv cid \<and>
       decode_msg (sv_parts sv) cid (Some time) mid bytes = Ok m)"

fun srv_holds_udp :: "bool \<Rightarrow> u32 \<times> 'v server \<Rightarrow> (mid \<times> 'v erased_net_msg) list \<Rightarrow> bool" where
  "srv_holds_udp oc (i, sv) ms \<longleftrightarrow>
     (\<exists>ds. holds_datagrams oc (sv_udp sv) ds \<and> list_all2 (sent_by sv) ds ms)"

fun srv_rcv :: "cid \<Rightarrow> u32 \<times> 'v server \<Rightarrow> (mid \<times> 'v erased_net_msg) res \<times> u32 \<times> 'v server" where
  "srv_rcv cid (i, sv) = (case server_recv_tcp cid sv of (r, sv') \<Rightarrow> (r, i, sv'))"

fun srv_rcv_udp :: "bool \<Rightarrow> u32 \<times> 'v server \<Rightarrow> (mid \<times> 'v erased_net_msg) res \<times> u32 \<times> 'v server" where
  "srv_rcv_udp oc (i, sv) = (case server_recv_udp oc sv of (r, sv') \<Rightarrow> (r, i, sv'))"

definition gone :: "cid \<Rightarrow> mid \<times> 'v erased_net_msg \<Rightarrow> cid \<times> 'v status" where
  "gone cid m = (cid, Disconnected (em_msg (snd m)))"

fun srv_handle :: "cid \<Rightarrow> mid \<times> 'v erased_net_msg \<Rightarrow> u32 \<times> 'v server \<Rightarrow> u32 \<times> 'v server" where
  "srv_handle cid m (i, sv) =
     (i + 1, if is_disconnect m then sv\<lparr>sv_disconnected := sv_disconnected sv @ [gone cid m]\<rparr>
             else sv\<lparr>sv_msg_buff := push_eff m (sv_msg_buff sv)\<rparr>)"

fun srv_handle_udp :: "mid \<times> 'v erased_net_msg \<Rightarrow> u32 \<times> 'v server \<Rightarrow> u32 \<times> 'v server" where
  "srv_handle_udp m (i, sv) = (i + 1, sv\<lparr>sv_msg_buff := push_eff m (sv_msg_buff sv)\<rparr>)"

type_synonym 'v srv_view = "u32 \<times> (cid \<times> 'v status) list \<times> 'v msg_buff"

fun srv_view :: "u32 \<times> 'v server \<Rightarrow> 'v srv_view" where
  "srv_view (i, sv) = (i, sv_disconnected sv, sv_msg_buff sv)"

fun srv_eff :: "cid \<Rightarrow> mid \<times> 'v erased_net_msg \<Rightarrow> 'v srv_view \<Rightarrow> 'v srv_view" where
  "srv_eff cid m (i, q, buff) =
     (i + 1, if is_disconnect m then q @ [gone cid m] else q, if is_disconnect m then buff else push_eff m buff)"

fun srv_eff_udp :: "mid \<times> 'v erased_net_msg \<Rightarrow> 'v srv_view \<Rightarrow> 'v srv_view" where
  "srv_eff_udp m (i, q, buff) = (i + 1, q, push_eff m buff)"

fun srv_ready :: "nat \<Rightarrow> 'v srv_view \<Rightarrow> bool" where
  "srv_ready n (i, q, buff) \<longleftrightarrow> length buff = n"

lemma srv_offers_next:
  assumes "srv_offers st cid s (m # ms)"
  shows "\<exists>s'. srv_rcv cid s = (Ok m, s') \<and> srv_offers st cid s' ms"
proof (cases s)
  case (Pair i sv)
  then obtain con fr frames where f: "sv_tcp sv cid = Some con" "offers_frames st con (fr # frames)"
      "decoded (sv_parts sv) cid fr m" "list_all2 (decoded (sv_parts sv) cid) frames ms"
    using assms by (auto simp: list_all2_Cons2)
  then obtain t where t: "tcp_con_recv con = (Ok fr, t)" "offers_frames st t frames"
    using offers_frames_step by blast
  have "server_recv_tcp cid sv = (Ok m, sv\<lparr>sv_tcp := (sv_tcp sv)(cid \<mapsto> t)\<rparr>)"
    using t(1) f(1,3) by (simp add: server_recv_tcp_def decoded_def split_beta)
  then show ?thesis using f(4) t(2) Pair
    by (intro exI [of _ "(i, sv\<lparr>sv_tcp := (sv_tcp sv)(cid \<mapsto> t)\<rparr>)"]) auto
qed

lemma srv_holds_none:
  assumes "srv_holds cid s []"
  shows "srv_rcv cid s = (Err WouldBlock OsMessage, s)"
proof (cases s)
  case (Pair i sv)
  then obtain con where con: "sv_tcp sv cid = Some con" "holds_frames con []" using assms by auto
  then show ?thesis
    using holds_frames_Nil [OF con(2)] by (simp add: Pair server_recv_tcp_def fun_upd_idem)
qed

lemma srv_rcv_view: "srv_view (snd (srv_rcv cid s)) = srv_view s"
  by (cases s; cases "server_recv_tcp cid (snd s)") (auto dest!: server_recv_tcp_frame(1))

lemma srv_tcp_step:
  assumes "srv_rcv cid s = (Ok m, s')" "srv_ready n (srv_view s)" "srv_view s' = srv_view s" "fst m < n"
  shows "server_tcp_loop cid s = (if is_disconnect m then (Ok (), srv_handle cid m s')
     else server_tcp_loop cid (srv_handle cid m s'))"
proof -
  obtain i sv sv' where s: "s = (i, sv)" "s' = (i, sv')" "server_recv_tcp cid sv = (Ok m, sv')"
    using assms(1) by (cases s) (auto split: prod.splits)
  obtain mid em where m: "m = (mid, em)" by (cases m)
  have "mid < length (sv_msg_buff sv')" using assms(2-4) by (simp_all add: s m)
  then show ?thesis
    using s m by (simp add: server_tcp_loop.simps [of cid i sv] push_msg_in_range is_disconnect_def gone_def)
qed

lemma srv_tcp_blocked:
  assumes "srv_rcv cid s = (Err WouldBlock k, s')"
  shows "server_tcp_loop cid s = (Ok (), s')"
  using assms by (cases s) (auto simp: server_tcp_loop.simps split: prod.splits)

interpretation srv_pre: drain_prefix "srv_rcv cid" "srv_offers st cid" "server_tcp_loop cid" is_disconnect
  "srv_handle cid" srv_view "srv_eff cid" "srv_ready n" "\<lambda>m. fst m < n" for st cid n
proof unfold_locales
  show "srv_offers st cid (srv_handle cid m s) ms" if "srv_offers st cid s ms"
    for s ms and m :: "mid \<times> 'a erased_net_msg"
    using that by (cases s) auto
  show "srv_view (srv_handle cid m s) = srv_eff cid m (srv_view s)"
    for s and m :: "mid \<times> 'a erased_net_msg" by (cases s) simp
  show "srv_ready n (srv_eff cid m b)" if "srv_ready n b" "\<not> is_disconnect m"
    for b and m :: "mid \<times> 'a erased_net_msg" using that by (cases b) simp
qed (use srv_offers_next srv_rcv_view srv_tcp_step in fastforce)+

interpretation srv_tcp: drain_loop "srv_rcv cid" "srv_holds cid" "server_tcp_loop cid" is_disconnect
  "srv_handle cid" srv_view "srv_eff cid" "srv_ready n" "\<lambda>m. fst m < n" for cid n
  by unfold_locales (use srv_holds_none srv_tcp_blocked in fastforce)+

lemma srv_holds_udp_next:
  assumes "srv_holds_udp oc s (m # ms)"
  shows "\<exists>s'. srv_rcv_udp oc s = (Ok m, s') \<and> srv_holds_udp oc s' ms"
proof (cases s)
  case (Pair i sv)
  then obtain src mid time bytes ds cid where d: "holds_datagrams oc (sv_udp sv) ((src, mid, time, bytes) # ds)"
      "sv_addr_cid sv src = Some cid" "server_alive sv cid"
      "decode_msg (sv_parts sv) cid (Some time) mid bytes = Ok m" "list_all2 (sent_by sv) ds ms"
    using assms by (auto simp: list_all2_Cons2 sent_by_def)
  then obtain u where u: "udp_con_recv_from oc (sv_udp sv) = (Ok (src, mid, time, bytes), u)" "holds_datagrams oc u ds"
    using holds_datagrams_recv_from by blast
  let ?sv = "sv\<lparr>sv_udp := u\<rparr>"
  have "server_recv_udp oc sv = (Ok m, ?sv)"
    using u(1) d(2-4) by (auto simp: server_recv_udp_def decode_msg_def res_simps)
  moreover have "sent_by ?sv = sent_by sv" by (simp add: sent_by_def server_alive_def fun_eq_iff)
  ultimately show ?thesis using d(5) u(2) Pair by (intro exI [of _ "(i, ?sv)"]) auto
qed

lemma srv_holds_udp_none:
  assumes "srv_holds_udp oc s []"
  shows "srv_rcv_udp oc s = (Err WouldBlock OsMessage, s)"
  using assms holds_datagrams_Nil [of oc "sv_udp (snd s)"] recv_from_empty [of "sv_udp (snd s)" oc]
  by (cases s) (auto simp: server_recv_udp_def)

lemma srv_rcv_udp_view: "srv_view (snd (srv_rcv_udp oc s)) = srv_view s"
  by (cases s; cases "server_recv_udp oc (snd s)") (auto dest!: server_recv_udp_frame(1))

lemma srv_udp_step:
  assumes "srv_rcv_udp oc s = (Ok m, s')" "srv_ready n (srv_view s)" "srv_view s' = srv_view s" "fst m < n"
  shows "server_udp_loop oc s = server_udp_loop oc (srv_handle_udp m s')"
proof -
  obtain i sv sv' where s: "s = (i, sv)" "s' = (i, sv')" "server_recv_udp oc sv = (Ok m, sv')"
    using assms(1) by (cases s) (auto split: prod.splits)
  obtain mid em where m: "m = (mid, em)" by (cases m)
  have "mid < length (sv_msg_buff sv')" using assms(2-4) by (simp_all add: s m)
  then show ?thesis using s m by (simp add: server_udp_loop.simps [of oc i sv] push_msg_in_range)
qed

lemma srv_udp_blocked:
  assumes "srv_rcv_udp oc s = (Inl (IoErr e), s')"
  shows "server_udp_loop oc s = (Ok (), s')"
  using assms by (cases s) (auto simp: server_udp_loop.simps split: prod.splits)

interpretation srv_udp: drain_loop "srv_rcv_udp oc" "srv_holds_udp oc" "server_udp_loop oc"
  "\<lambda>m. False" srv_handle_udp srv_view srv_eff_udp "srv_ready n" "\<lambda>m. fst m < n" for oc n
proof unfold_locales
  show "srv_holds_udp oc (srv_handle_udp m s) ms" if "srv_holds_udp oc s ms"
    for s ms and m :: "mid \<times> 'a erased_net_msg"
  proof (cases s)
    case (Pair i sv)
    have "sent_by (sv\<lparr>sv_msg_buff := b\<rparr>) = sent_by sv" for b
      by (simp add: sent_by_def server_alive_def fun_eq_iff)
    then show ?thesis using that by (simp add: Pair)
  qed
  show "srv_view (srv_handle_udp m s) = srv_eff_udp m (srv_view s)"
    for s and m :: "mid \<times> 'a erased_net_msg" by (cases s) simp
  show "srv_ready n (srv_eff_udp m b)" if "srv_ready n b"
    for b and m :: "mid \<times> 'a erased_net_msg" using that by (cases b) simp
qed (use srv_holds_udp_next srv_holds_udp_none srv_rcv_udp_view srv_udp_step srv_udp_blocked in fastforce)+

section \<open>A round of \<open>recv_msgs\<close>\<close>

lemma fold_srv_eff:
  "\<forall>m \<in> set ms. \<not> is_disconnect m \<Longrightarrow>
   fold (srv_eff cid) ms (i, q, buff) = (i + word_of_nat (length ms), q, fold push_eff ms buff)"
  by (induction ms arbitrary: i buff) (simp_all add: algebra_simps)

lemma fold_srv_eff_udp:
  "fold srv_eff_udp ms (i, q, buff) = (i + word_of_nat (length ms), q, fold push_eff ms buff)"
  by (induction ms arbitrary: i buff) (simp_all add: algebra_simps)

text \<open>The loop for one connection leaves the others, the tables and the UDP socket alone.\<close>

definition same_but :: "cid set \<Rightarrow> 'v server \<Rightarrow> 'v server \<Rightarrow> bool" where
  "same_but C sv sv' \<longleftrightarrow> (\<forall>c. c \<notin> C \<longrightarrow> sv_tcp sv' c = sv_tcp sv c) \<and> sv_udp sv' = sv_udp sv \<and>
     sv_cid_addr sv' = sv_cid_addr sv \<and> sv_addr_cid sv' = sv_addr_cid sv \<and> sv_parts sv' = sv_parts sv"

lemma server_tcp_loop_keeps:
  assumes "server_tcp_loop cid (i, sv) = (r, i', sv')"
  shows "same_but {cid} sv sv'"
proof -
  have "recv_keeps {cid} {} (same_but {cid} sv)"
    by (rule recv_keeps_any) (auto simp: same_but_def dest!: server_recv_tcp_frame(1))
  from server_tcp_loop_inv [OF this _ _ assms] show ?thesis by (simp add: same_but_def)
qed

lemma server_udp_loop_keeps:
  assumes "server_udp_loop oc (i, sv) = (r, i', sv')"
  shows "sv_tcp sv' = sv_tcp sv \<and> sv_cid_addr sv' = sv_cid_addr sv \<and>
    sv_addr_cid sv' = sv_addr_cid sv \<and> sv_parts sv' = sv_parts sv"
proof -
  let ?P = "\<lambda>sv'. sv_tcp sv' = sv_tcp sv \<and> sv_cid_addr sv' = sv_cid_addr sv \<and>
    sv_addr_cid sv' = sv_addr_cid sv \<and> sv_parts sv' = sv_parts sv"
  have "recv_keeps {} {oc} ?P"
    by (rule recv_keeps_any) (auto dest!: server_recv_udp_frame(1))
  from server_udp_loop_inv [OF this _ _ assms] show ?thesis by simp
qed

text \<open>
  How the conversation with one client ends in a round: with its disconnect message if there is
  one, else with the error that ends its stream if one does.
\<close>

definition departure :: "tail \<Rightarrow> cid \<Rightarrow> (mid \<times> 'v erased_net_msg) list \<Rightarrow> (cid \<times> 'v status) list" where
  "departure st cid ms =
     (case find is_disconnect ms of
        Some d \<Rightarrow> [gone cid d]
      | None \<Rightarrow> (case ending st of None \<Rightarrow> [] | Some e \<Rightarrow> [(cid, Dropped e)]))"

lemma server_tcp_loop_offers:
  assumes "srv_offers st cid (i, sv) ms" "length (sv_msg_buff sv) = n" "\<forall>m \<in> set ms. fst m < n"
  shows "\<exists>sv'. server_tcp_loop cid (i, sv) =
      (Ok (), i + word_of_nat (length (upto_stop is_disconnect ms)), sv') \<and>
    sv_disconnected sv' = sv_disconnected sv @ departure st cid ms \<and>
    sv_msg_buff sv' = fold push_eff (takeWhile (\<lambda>m. \<not> is_disconnect m) ms) (sv_msg_buff sv) \<and>
    (find is_disconnect ms = None \<longrightarrow> srv_offers st cid (j, sv') [])"
proof (cases "\<exists>m \<in> set ms. is_disconnect m")
  case True
  then obtain pre d rest where ms: "ms = pre @ d # rest" "is_disconnect d" "\<forall>m \<in> set pre. \<not> is_disconnect m"
    using split_list_first_prop [of ms is_disconnect] by blast
  have "srv_ready n (srv_view (i, sv))" using assms(2) by simp
  moreover have "\<forall>m \<in> set pre. fst m < n \<and> \<not> is_disconnect m" "fst d < n" using assms(3) ms by auto
  ultimately obtain s1 where s1: "server_tcp_loop cid (i, sv) = (Ok (), s1)"
      "srv_view s1 = fold (srv_eff cid) (pre @ [d]) (srv_view (i, sv))"
    using srv_pre.loop_until_stop [of st cid "(i, sv)" pre d rest n] assms(1) ms by blast
  have "find is_disconnect ms = Some d" using ms by (induction pre arbitrary: ms) auto
  moreover have "takeWhile (\<lambda>m. \<not> is_disconnect m) ms = pre" using ms by (simp add: takeWhile_tail)
  moreover have "upto_stop is_disconnect ms = pre @ [d]" unfolding ms(1) using ms(3,2) by (rule upto_stop_append)
  ultimately show ?thesis
    using s1 ms(2,3) by (cases s1) (simp add: fold_srv_eff departure_def add.assoc add.commute)
next
  case False
  then have none: "find is_disconnect ms = None" "takeWhile (\<lambda>m. \<not> is_disconnect m) ms = ms"
      "upto_stop is_disconnect ms = ms"
    by (auto simp: find_None_iff takeWhile_eq_all_conv upto_stop_none)
  have "srv_ready n (srv_view (i, sv))" using assms(2) by simp
  moreover have "\<forall>m \<in> set ms. fst m < n \<and> \<not> is_disconnect m" using assms(3) False by auto
  ultimately obtain i1 sv1 where s1: "server_tcp_loop cid (i, sv) = server_tcp_loop cid (i1, sv1)"
      "srv_view (i1, sv1) = fold (srv_eff cid) ms (srv_view (i, sv))" "srv_offers st cid (i1, sv1) []"
    using srv_pre.loop_through [of st cid "(i, sv)" ms "[]" n] assms(1) by (auto simp del: srv_offers.simps)
  obtain con where con: "sv_tcp sv1 cid = Some con" "offers_frames st con []" using s1(3) by auto
  obtain e t where e: "tcp_con_recv con = (Inl (IoErr e), t)" "offers_frames st t []"
      "ending st = (if err_kind e = WouldBlock then None else Some e)"
    using offers_frames_Nil [OF con(2)] by blast
  let ?sv = "sv1\<lparr>sv_tcp := (sv_tcp sv1)(cid \<mapsto> t)\<rparr>"
  have "server_recv_tcp cid sv1 = (Inl (IoErr e), ?sv)" using con(1) e(1) by (simp add: server_recv_tcp_def)
  then have "server_tcp_loop cid (i1, sv1) = (Ok (), i1, ?sv\<lparr>sv_disconnected := sv_disconnected sv1 @ departure st cid ms\<rparr>)"
    using e(3) none(1) by (simp add: server_tcp_loop.simps [of cid i1 sv1] departure_def)
  then show ?thesis unfolding none(2,3) using s1(1,2) False e(2) by (simp add: fold_srv_eff)
qed

text \<open>What the TCP part of a round does for the connections \<open>cids\<close>, each offering \<open>ms cid\<close>.\<close>

definition taken :: "(cid \<Rightarrow> (mid \<times> 'v erased_net_msg) list) \<Rightarrow> cid list \<Rightarrow> nat" where
  "taken ms cids = (\<Sum>cid\<leftarrow>cids. length (upto_stop is_disconnect (ms cid)))"

definition kept :: "(cid \<Rightarrow> (mid \<times> 'v erased_net_msg) list) \<Rightarrow> cid list \<Rightarrow> (mid \<times> 'v erased_net_msg) list" where
  "kept ms cids = concat (map (\<lambda>cid. takeWhile (\<lambda>m. \<not> is_disconnect m) (ms cid)) cids)"

definition leaving ::
    "(cid \<Rightarrow> tail) \<Rightarrow> (cid \<Rightarrow> (mid \<times> 'v erased_net_msg) list) \<Rightarrow> cid list \<Rightarrow> (cid \<times> 'v status) list" where
  "leaving st ms cids = concat (map (\<lambda>cid. departure (st cid) cid (ms cid)) cids)"

lemmas round_defs = taken_def kept_def leaving_def

lemma departure_fst: "p \<in> set (departure st cid ms) \<Longrightarrow> fst p = cid"
  by (auto simp: departure_def gone_def split: option.splits)

lemma leaving_filter:
  assumes "distinct cids" "cid \<in> set cids"
  shows "filter (\<lambda>p. fst p = cid) (leaving st ms cids) = departure (st cid) cid (ms cid)"
proof -
  obtain pre post where cids: "cids = pre @ cid # post" "cid \<notin> set pre" "cid \<notin> set post"
    using assms by (auto simp: in_set_conv_decomp distinct_append)
  have own: "filter (\<lambda>p. fst p = cid) (departure (st cid) cid (ms cid)) = departure (st cid) cid (ms cid)"
    using departure_fst by (fastforce simp: filter_id_conv)
  have "filter (\<lambda>p. fst p = cid) (departure (st c) c (ms c)) = []" if "c \<noteq> cid" for c
    using that departure_fst by (fastforce simp: filter_empty_conv)
  then have "filter (\<lambda>p. fst p = cid) (leaving st ms cs) = []" if "cid \<notin> set cs" for cs
    using that by (induction cs) (auto simp: leaving_def)
  from this [OF cids(2)] this [OF cids(3)] own show ?thesis unfolding cids(1) by (simp add: leaving_def)
qed

lemma srv_offers_same_but:
  "same_but C sv sv' \<Longrightarrow> cid \<notin> C \<Longrightarrow> srv_offers st cid (i', sv') ms = srv_offers st cid (i, sv) ms"
  by (auto simp: same_but_def)

lemma srv_offers_in_range:
  assumes "srv_offers st cid (i, sv) ms" "wf_parts (sv_parts sv)" "m \<in> set ms"
  shows "fst m < mid_count (sv_parts sv) \<and> em_cid (snd m) = cid"
proof -
  obtain fr where "decode_msg (sv_parts sv) cid None (fst fr) (snd fr) = Ok m"
    using assms(1,3) by (auto simp: decoded_def in_set_conv_nth list_all2_conv_all_nth)
  then show ?thesis using decode_msg_Ok(1-3) [OF assms(2)] by metis
qed

lemma srv_holds_udp_in_range:
  assumes "srv_holds_udp oc (i, sv) ms" "wf_parts (sv_parts sv)" "m \<in> set ms"
  shows "fst m < mid_count (sv_parts sv)"
proof -
  obtain cid time mid bytes where "decode_msg (sv_parts sv) cid time mid bytes = Ok m"
    using assms(1,3) by (force simp: sent_by_def in_set_conv_nth list_all2_conv_all_nth)
  then show ?thesis using decode_msg_Ok(1,2) [OF assms(2)] by metis
qed

lemma server_tcp_loops_round:
  assumes "wf_parts (sv_parts sv)"
  shows "distinct cids \<Longrightarrow> \<forall>cid \<in> set cids. srv_offers (st cid) cid (i, sv) (ms cid) \<Longrightarrow>
    length (sv_msg_buff sv) = mid_count (sv_parts sv) \<Longrightarrow>
    \<exists>sv'. server_tcp_loops cids (i, sv) = (Ok (), i + word_of_nat (taken ms cids), sv') \<and>
      sv_disconnected sv' = sv_disconnected sv @ leaving st ms cids \<and>
      sv_msg_buff sv' = fold push_eff (kept ms cids) (sv_msg_buff sv) \<and> same_but (set cids) sv sv' \<and>
      (\<forall>cid \<in> set cids. find is_disconnect (ms cid) = None \<longrightarrow> srv_offers (st cid) cid (0, sv') [])"
  using assms
proof (induction cids arbitrary: i sv)
  case Nil
  then show ?case by (simp add: round_defs same_but_def)
next
  case (Cons cid cids)
  let ?n = "mid_count (sv_parts sv)"
  have holds: "srv_offers (st cid) cid (i, sv) (ms cid)" using Cons.prems(2) by simp
  have "\<forall>m \<in> set (ms cid). fst m < ?n" using srv_offers_in_range [OF holds Cons.prems(4)] by blast
  then obtain i1 sv1 where s1: "server_tcp_loop cid (i, sv) = (Ok (), i1, sv1)"
      "i1 = i + word_of_nat (taken ms [cid])" "sv_disconnected sv1 = sv_disconnected sv @ leaving st ms [cid]"
      "sv_msg_buff sv1 = fold push_eff (kept ms [cid]) (sv_msg_buff sv)"
      "find is_disconnect (ms cid) = None \<longrightarrow> srv_offers (st cid) cid (0, sv1) []"
    using server_tcp_loop_offers [OF holds Cons.prems(3), of 0] by (auto simp: round_defs simp del: srv_offers.simps)
  have same: "same_but {cid} sv sv1" using server_tcp_loop_keeps s1(1) by blast
  then have parts: "sv_parts sv1 = sv_parts sv" by (simp add: same_but_def)
  have "srv_offers (st c) c (i1, sv1) (ms c)" if "c \<in> set cids" for c
  proof -
    have "c \<notin> {cid}" "srv_offers (st c) c (i, sv) (ms c)" using Cons.prems(1,2) that by auto
    then show ?thesis using srv_offers_same_but [OF same] by blast
  qed
  then have "\<forall>c \<in> set cids. srv_offers (st c) c (i1, sv1) (ms c)" by blast
  from Cons.IH [OF _ this] obtain sv2 where
    2: "server_tcp_loops cids (i1, sv1) = (Ok (), i1 + word_of_nat (taken ms cids), sv2)"
      "sv_disconnected sv2 = sv_disconnected sv1 @ leaving st ms cids"
      "sv_msg_buff sv2 = fold push_eff (kept ms cids) (sv_msg_buff sv1)" "same_but (set cids) sv1 sv2"
      "\<forall>cid \<in> set cids. find is_disconnect (ms cid) = None \<longrightarrow> srv_offers (st cid) cid (0, sv2) []"
    using Cons.prems(1,3,4) parts s1(4) by (auto simp del: srv_offers.simps)
  have own: "find is_disconnect (ms cid) = None \<longrightarrow> srv_offers (st cid) cid (0, sv2) []"
    using s1(5) 2(4) Cons.prems(1) by (simp add: same_but_def)
  have "same_but (set (cid # cids)) sv sv2" using same 2(4) by (auto simp: same_but_def)
  moreover have "server_tcp_loops (cid # cids) (i, sv) = (Ok (), i + word_of_nat (taken ms (cid # cids)), sv2)"
    using s1(1,2) 2(1) by (simp add: round_defs algebra_simps)
  ultimately show ?case using 2(2,3,5) s1(3,4) own by (simp add: round_defs del: srv_offers.simps)
qed

lemma server_recv_round:
  assumes "wf_server sv" "key_order ko"
    and "\<forall>cid \<in> dom (sv_cid_addr sv). srv_offers (st cid) cid (0, sv) (ms cid)" "srv_holds_udp oc (0, sv) us"
  shows "\<exists>sv'. server_recv_msgs ko oc sv =
      (Ok (word_of_nat (taken ms (server_cids ko sv) + length us)), sv') \<and>
    sv_disconnected sv' = sv_disconnected sv @ leaving st ms (server_cids ko sv) \<and>
    sv_msg_buff sv' = fold push_eff (kept ms (server_cids ko sv) @ us) (sv_msg_buff sv) \<and>
    sv_cid_addr sv' = sv_cid_addr sv \<and> sv_addr_cid sv' = sv_addr_cid sv \<and> sv_parts sv' = sv_parts sv \<and>
    urx (uc_udp (sv_udp sv')) = [] \<and>
    (\<forall>cid \<in> dom (sv_cid_addr sv). find is_disconnect (ms cid) = None \<longrightarrow> srv_offers (st cid) cid (0, sv') [])"
proof -
  let ?cids = "server_cids ko sv" and ?n = "mid_count (sv_parts sv)"
  note cids = key_order_cids [OF assms(2,1)]
  have wf: "wf_parts (sv_parts sv)" "length (sv_msg_buff sv) = ?n"
    using assms(1) by (simp_all add: wf_server_defs)
  obtain sv1 where 1: "server_tcp_loops ?cids (0, sv) = (Ok (), word_of_nat (taken ms ?cids), sv1)"
      "sv_disconnected sv1 = sv_disconnected sv @ leaving st ms ?cids"
      "sv_msg_buff sv1 = fold push_eff (kept ms ?cids) (sv_msg_buff sv)" "same_but (set ?cids) sv sv1"
      "\<forall>cid \<in> set ?cids. find is_disconnect (ms cid) = None \<longrightarrow> srv_offers (st cid) cid (0, sv1) []"
    using server_tcp_loops_round [OF wf(1) cids(1), of st 0 ms] assms(3) wf(2) cids(2)
    by (auto simp del: srv_offers.simps)
  let ?i = "word_of_nat (taken ms ?cids) :: u32"
  have same: "sv_udp sv1 = sv_udp sv" "sv_parts sv1 = sv_parts sv" "sv_addr_cid sv1 = sv_addr_cid sv"
      "sv_cid_addr sv1 = sv_cid_addr sv" using 1(4) by (simp_all add: same_but_def)
  have "sent_by sv1 = sent_by sv" by (simp add: sent_by_def server_alive_def same fun_eq_iff)
  then have holds: "srv_holds_udp oc (?i, sv1) us" using assms(4) by (simp add: same)
  have "srv_ready ?n (srv_view (?i, sv1))" using wf(2) 1(3) by simp
  moreover have "\<forall>m \<in> set us. fst m < ?n \<and> \<not> False"
    using srv_holds_udp_in_range [OF assms(4) wf(1)] by blast
  ultimately obtain s2 where s2: "server_udp_loop oc (?i, sv1) = (Ok (), s2)"
      "srv_view s2 = fold srv_eff_udp us (srv_view (?i, sv1))" "srv_holds_udp oc s2 []"
    using srv_udp.loop_drains_all [OF holds, of ?n] by blast
  obtain i2 sv2 where 2: "s2 = (i2, sv2)" by (cases s2)
  have k2: "sv_cid_addr sv2 = sv_cid_addr sv" "sv_addr_cid sv2 = sv_addr_cid sv" "sv_parts sv2 = sv_parts sv"
      "sv_tcp sv2 = sv_tcp sv1"
    using server_udp_loop_keeps [OF s2(1) [unfolded 2]] same by simp_all
  have "\<forall>cid \<in> dom (sv_cid_addr sv). find is_disconnect (ms cid) = None \<longrightarrow> srv_offers (st cid) cid (0, sv2) []"
    using 1(5) cids(2) k2(3,4) same(2) by simp
  moreover have "urx (uc_udp (sv_udp sv2)) = []" using s2(3) by (auto simp: 2 dest: holds_datagrams_Nil)
  ultimately show ?thesis
    using 1(1-3) s2(1,2) k2 by (simp add: server_recv_msgs_def 2 fold_srv_eff_udp del: srv_offers.simps)
qed

end
