(* ===== verification/Mirror.thy ===== *)
theory Mirror
  imports Server_Invariant
begin

text \<open>
  The two maps of addresses of a server (\<open>src/server.rs\<close>, lines 50 and 56, ask that each mirror the
  other). Every operation keeps the one a mirror of the other as long as no two live clients share an
  address; \<open>reconnect_breaks_mirror\<close> shows what happens when they do.
\<close>

section \<open>Mirrors\<close>

definition mirrored :: "'v server \<Rightarrow> bool" where
  "mirrored sv \<longleftrightarrow> (\<forall>a cid. server_cid_of sv a = Some cid \<longleftrightarrow> server_addr_of sv cid = Some a)"

definition one_each :: "'v server \<Rightarrow> bool" where
  "one_each sv \<longleftrightarrow> inj_on (sv_cid_addr sv) (dom (sv_cid_addr sv))"

text \<open>What the other direction needs: every live client's address is known.\<close>

definition covered :: "'v server \<Rightarrow> bool" where
  "covered sv \<longleftrightarrow> ran (sv_cid_addr sv) \<subseteq> dom (sv_addr_cid sv)"

lemma mirrored_if_covered:
  assumes "wf_server sv" "covered sv" "one_each sv"
  shows "mirrored sv"
proof -
  have leads: "sv_cid_addr sv c = Some a" if "sv_addr_cid sv a = Some c" for a c
    using assms(1) that by (simp add: wf_server_defs)
  have "sv_addr_cid sv a = Some c" if c: "sv_cid_addr sv c = Some a" for a c
  proof -
    obtain d where d: "sv_addr_cid sv a = Some d" using assms(2) c by (auto simp: covered_def ran_def)
    then have "d = c" using inj_onD [OF assms(3) [unfolded one_each_def], of d c] leads [OF d] c by auto
    then show ?thesis using d by simp
  qed
  then show ?thesis using leads unfolding mirrored_def server_cid_of_def server_addr_of_def by blast
qed

definition same_addrs :: "'v server \<Rightarrow> 'v server \<Rightarrow> bool" where
  "same_addrs sv sv' \<longleftrightarrow> sv_cid_addr sv' = sv_cid_addr sv \<and> sv_addr_cid sv' = sv_addr_cid sv"

lemma same_addrs_refl [simp]: "same_addrs sv sv"
  by (simp add: same_addrs_def)

lemma same_addrs_trans: "same_addrs a b \<Longrightarrow> same_addrs b c \<Longrightarrow> same_addrs a c"
  by (simp add: same_addrs_def)

lemma same_addrs_covered: "same_addrs sv sv' \<Longrightarrow> covered sv \<Longrightarrow> covered sv'"
  by (simp add: same_addrs_def covered_def)

lemma same_addrs_socks: "socks_only sv sv' \<Longrightarrow> same_addrs sv sv'"
  by (simp add: same_addrs_def socks_only_fields)

section \<open>Clients coming in\<close>

lemma start_incoming_addrs: "server_start_incoming oc sv = (r, sv') \<Longrightarrow> same_addrs sv sv'"
proof (induction oc sv arbitrary: r sv' rule: server_start_incoming.induct)
  case (1 oc sv)
  note eq = server_start_incoming.simps [of oc sv]
  show ?case
  proof (cases "length (sv_new_cons sv) < cfg_max_con_handle (sv_config sv)")
    case False
    then show ?thesis using "1.prems" by (simp add: eq)
  next
    case room: True
    obtain q l where l: "listener_accept (sv_listener sv) = (q, l)" by fastforce
    show ?thesis
    proof (cases q)
      case (Inl e)
      then show ?thesis using "1.prems" room l by (auto simp: eq same_addrs_def)
    next
      case (Inr x)
      obtain stream at where x: "x = (stream, at)" by (cases x)
      have block: "stream_set_nonblocking True stream = (Inr (), stream\<lparr>is_nonblocking := True\<rparr>)"
        by (simp add: stream_set_nonblocking_def)
      obtain c sv1 where cid: "server_new_cid oc (sv\<lparr>sv_listener := l\<rparr>) = (c, sv1)" by fastforce
      then have same: "same_addrs sv sv1" by (auto simp: server_new_cid_def same_addrs_def split: sum.splits)
      show ?thesis
      proof (cases c)
        case (Inl e)
        then show ?thesis using "1.prems" room l same by (simp add: eq \<open>q = Inr x\<close> x block cid)
      next
        case (Inr d)
        note IH = "1.IH" [OF room l [symmetric] \<open>q = Inr x\<close> x [symmetric] block [symmetric] refl refl cid [symmetric] Inr]
        have "same_addrs sv1 sv'"
          using "1.prems" room l IH by (simp add: eq \<open>q = Inr x\<close> x block cid Inr Let_def same_addrs_def)
        then show ?thesis using same same_addrs_trans by blast
      qed
    qed
  qed
qed

lemma accept_incoming_result:
  assumes "server_accept_incoming now cid con resp sv = (r, sv')"
  shows "(peer_name (tc_tcp con) = None \<and> is_panic r \<and> sv' = sv) \<or>
    (\<exists>addr sv1. server_add_tcp_con_cid cid con sv = (Ok (), sv1) \<and> socks_only sv1 sv' \<and>
       sv1 = sv\<lparr>sv_tcp := (sv_tcp sv)(cid \<mapsto> con), sv_addr_cid := (sv_addr_cid sv)(addr \<mapsto> cid),
         sv_cid_addr := (sv_cid_addr sv)(cid \<mapsto> addr)\<rparr>)"
proof (cases "peer_name (tc_tcp con)")
  case None
  then show ?thesis using assms
    by (auto simp: server_accept_incoming_def tcp_con_peer_addr_def name_res_def)
next
  case (Some addr)
  let ?sv1 = "sv\<lparr>sv_tcp := (sv_tcp sv)(cid \<mapsto> con), sv_addr_cid := (sv_addr_cid sv)(addr \<mapsto> cid),
    sv_cid_addr := (sv_cid_addr sv)(cid \<mapsto> addr)\<rparr>"
  have a: "server_add_tcp_con_cid cid con sv = (Ok (), ?sv1)" "unwrap_res (tcp_con_peer_addr con) = Ok addr"
    using Some by (simp_all add: server_add_tcp_con_cid_def tcp_con_peer_addr_def name_res_def)
  obtain q sv2 where s: "server_send_to now cid resp ?sv1 = (q, sv2)" by fastforce
  have "sv' = sv2" using assms a s
    by (auto simp: server_accept_incoming_def split: sum.splits fail.splits)
  then show ?thesis using server_send_socks [OF s] a(1) by blast
qed

lemma accept_incoming_covered:
  assumes "server_accept_incoming now cid con resp sv = (r, sv')" "covered sv"
  shows "covered sv'"
  using accept_incoming_result [OF assms(1)]
proof (elim disjE exE conjE)
  fix addr sv1
  assume s: "socks_only sv1 sv'" and sv1: "sv1 = sv\<lparr>sv_tcp := (sv_tcp sv)(cid \<mapsto> con), sv_addr_cid := (sv_addr_cid sv)(addr \<mapsto> cid),
      sv_cid_addr := (sv_cid_addr sv)(cid \<mapsto> addr)\<rparr>"
  have "ran ((sv_cid_addr sv)(cid \<mapsto> addr)) \<subseteq> insert addr (ran (sv_cid_addr sv))" by (auto simp: ran_def)
  then have "covered sv1" using assms(2) by (auto simp: covered_def sv1)
  then show "covered sv'" using same_addrs_covered [OF same_addrs_socks [OF s]] by simp
qed (use assms(2) in simp)

lemma accept_all_covered: "server_accept_all now R as sv = (r, sv') \<Longrightarrow> covered sv \<Longrightarrow> covered sv'"
proof (induction as arbitrary: sv)
  case Nil
  then show ?case by simp
next
  case (Cons a as)
  obtain idx resp where a: "a = (idx, resp)" by (cases a)
  show ?case
  proof (cases "vec_remove idx (sv_new_cons sv)")
    case (Inl e)
    then show ?thesis using Cons.prems by (simp add: a)
  next
    case (Inr x)
    obtain con cid t cons where x: "x = ((con, cid, t), cons)" by (metis surj_pair)
    obtain q sv1 where q: "server_accept_incoming now cid con (AnyBox R resp) (sv\<lparr>sv_new_cons := cons\<rparr>) = (q, sv1)"
      by fastforce
    have "covered sv1" using accept_incoming_covered [OF q] Cons.prems(2) by (simp add: covered_def)
    then show ?thesis using Cons.prems(1) Cons.IH [of sv1] Inr x q by (cases q) (auto simp: a)
  qed
qed

lemma reject_all_addrs: "server_reject_all R rs sv = (r, sv') \<Longrightarrow> same_addrs sv sv'"
proof (induction rs arbitrary: sv)
  case Nil
  then show ?case by simp
next
  case (Cons a rs)
  obtain idx resp where a: "a = (idx, resp)" by (cases a)
  show ?case
  proof (cases "vec_remove idx (sv_new_cons sv)")
    case (Inl e)
    then show ?thesis using Cons.prems by (simp add: a)
  next
    case (Inr x)
    obtain con cid t cons where x: "x = ((con, cid, t), cons)" by (metis surj_pair)
    let ?sv1 = "sv\<lparr>sv_new_cons := cons\<rparr>"
    show ?thesis
      using Cons.prems Cons.IH [of ?sv1] Inr x
      by (cases "fst (server_reject_incoming con (AnyBox R resp) ?sv1)") (auto simp: a Let_def same_addrs_def)
  qed
qed

lemma remove_dead_addrs: "server_remove_dead ds sv = (r, sv') \<Longrightarrow> same_addrs sv sv'"
proof (induction ds arbitrary: sv)
  case (Cons idx ds)
  show ?case
  proof (cases "vec_remove idx (sv_new_cons sv)")
    case (Inr x)
    then show ?thesis using Cons.prems Cons.IH [of "sv\<lparr>sv_new_cons := snd x\<rparr>"] by (cases x) (simp add: same_addrs_def)
  qed (use Cons.prems in simp)
qed simp

lemma settle_covered:
  assumes "server_settle now R ls sv = (r, sv')" "covered sv"
  shows "covered sv'"
proof -
  obtain acc rej dead where ls: "ls = (acc, rej, dead)" by (metis prod_cases3)
  obtain q1 sv1 where 1: "server_accept_all now R acc sv = (q1, sv1)" by fastforce
  obtain q2 sv2 where 2: "server_reject_all R rej sv1 = (q2, sv2)" by fastforce
  obtain q3 sv3 where 3: "server_remove_dead dead sv2 = (q3, sv3)" by fastforce
  have "covered sv1" using accept_all_covered [OF 1 assms(2)] .
  moreover from this have "covered sv2" using same_addrs_covered [OF reject_all_addrs [OF 2]] by blast
  moreover from this have "covered sv3" using same_addrs_covered [OF remove_dead_addrs [OF 3]] by blast
  moreover have "sv' \<in> {sv1, sv2, sv3}"
    using assms(1) 1 2 3 by (cases q1; cases q2) (auto simp: server_settle_def ls)
  ultimately show ?thesis by blast
qed

lemma handle_new_covered:
  assumes "server_start_incoming oc sv = (q, sv1)" "covered sv"
  shows "covered sv1" "covered (sv1\<lparr>sv_new_cons := cons\<rparr>)"
    and "server_settle now R ls (sv1\<lparr>sv_new_cons := cons\<rparr>) = (q3, sv2) \<Longrightarrow> covered sv2"
proof -
  show 1: "covered sv1" using same_addrs_covered [OF start_incoming_addrs [OF assms(1)] assms(2)] .
  then show 2: "covered (sv1\<lparr>sv_new_cons := cons\<rparr>)" for cons by (simp add: covered_def)
  show "server_settle now R ls (sv1\<lparr>sv_new_cons := cons\<rparr>) = (q3, sv2) \<Longrightarrow> covered sv2"
    using settle_covered [OF _ 2] .
qed

lemma handle_new_con_covered:
  assumes "server_handle_new_con oc now clk C R hook h sv = (r, h', sv')" "covered sv"
  shows "covered sv'"
proof -
  obtain q sv1 where s: "server_start_incoming oc sv = (q, sv1)" by fastforce
  show ?thesis
    using assms(1) handle_new_covered [OF s assms(2)]
    by (auto simp: server_handle_new_con_def s Let_def split: sum.splits if_splits prod.splits)
qed

lemma handle_new_cons_covered:
  assumes "server_handle_new_cons oc now clk C R hook h sv = (r, h', sv')" "covered sv"
  shows "covered sv'"
proof -
  obtain q sv1 where s: "server_start_incoming oc sv = (q, sv1)" by fastforce
  show ?thesis
    using assms(1) handle_new_covered [OF s assms(2)]
    by (auto simp: server_handle_new_cons_def s Let_def split: sum.splits if_splits prod.splits)
qed

section \<open>Clients leaving\<close>

text \<open>Removing a client takes its address along, which is no other's.\<close>

lemma rm_tcp_con_covered:
  assumes "server_rm_tcp_con cid sv = (r, sv')" "covered sv" "one_each sv"
  shows "covered sv' \<and> one_each sv'"
proof (cases "sv_tcp sv cid = None \<or> sv_cid_addr sv cid = None")
  case True
  then show ?thesis using assms
    by (auto simp: server_rm_tcp_con_def Let_def covered_def one_each_def split: if_splits option.splits)
next
  case False
  then obtain a where a: "sv_cid_addr sv cid = Some a" "sv_tcp sv cid \<noteq> None" by auto
  then have sv': "sv_cid_addr sv' = (sv_cid_addr sv)(cid := None)" "sv_addr_cid sv' = (sv_addr_cid sv)(a := None)"
    using assms(1) by (auto simp: server_rm_tcp_con_def Let_def)
  have "b \<noteq> a" if "((sv_cid_addr sv)(cid := None)) d = Some b" for d b
  proof
    assume "b = a"
    then have "sv_cid_addr sv d = sv_cid_addr sv cid" "d \<noteq> cid" using that a(1) by (auto split: if_splits)
    then show False using inj_onD [OF assms(3) [unfolded one_each_def], of d cid] a(1) by auto
  qed
  then have "covered sv'" using assms(2) by (fastforce simp: covered_def sv' ran_def split: if_splits)
  moreover have "one_each sv'"
    using assms(3) unfolding one_each_def sv' by (auto simp: inj_on_def dom_def split: if_splits)
  ultimately show ?thesis by blast
qed

lemma handle_disconnect_covered:
  "server_handle_disconnect hook h sv = (r, h', sv') \<Longrightarrow> covered sv \<Longrightarrow> one_each sv \<Longrightarrow> covered sv'"
proof (induction hook h sv arbitrary: r h' sv' rule: server_handle_disconnect.induct)
  case (1 hook h sv)
  note eq = server_handle_disconnect.simps [of hook h sv]
  show ?case
  proof (cases "sv_disconnected sv")
    case Nil
    then show ?thesis using "1.prems" by (simp add: eq)
  next
    case (Cons p queue)
    obtain cid st where p: "p = (cid, st)" by (cases p)
    let ?sv1 = "sv\<lparr>sv_disconnected := queue\<rparr>"
    have sv1: "covered ?sv1" "one_each ?sv1" using "1.prems"(2,3) by (simp_all add: covered_def one_each_def)
    obtain q sv2 where rm: "server_rm_tcp_con cid ?sv1 = (q, sv2)" by fastforce
    show ?thesis
      using "1.prems"(1) "1.IH" [OF Cons p [symmetric] refl _ _ sv1] rm_tcp_con_covered [OF rm sv1] rm
      by (cases "server_alive ?sv1 cid") (simp_all add: eq Cons p Let_def)
  qed
qed

lemma disconnect_loop_covered:
  "server_disconnect_loop hook h s = (r, h', i', sv') \<Longrightarrow> covered (snd s) \<Longrightarrow> one_each (snd s) \<Longrightarrow> covered sv'"
proof (induction hook h s arbitrary: r h' i' sv' rule: server_disconnect_loop.induct)
  case (1 hook h i sv)
  note eq = server_disconnect_loop.simps [of hook h i sv]
  show ?case
  proof (cases "sv_disconnected sv")
    case Nil
    then show ?thesis using "1.prems" by (simp add: eq)
  next
    case (Cons p queue)
    obtain cid st where p: "p = (cid, st)" by (cases p)
    let ?sv1 = "sv\<lparr>sv_disconnected := queue\<rparr>"
    have sv1: "covered ?sv1" "one_each ?sv1" using "1.prems"(2,3) by (simp_all add: covered_def one_each_def)
    obtain q sv2 where rm: "server_rm_tcp_con cid ?sv1 = (q, sv2)" by fastforce
    note sv2 = rm_tcp_con_covered [OF rm sv1]
    show ?thesis
    proof (cases "server_alive ?sv1 cid")
      case False
      then show ?thesis using "1.prems"(1) "1.IH"(1) [OF Cons p [symmetric] refl False] sv1 by (simp add: eq Cons p Let_def)
    next
      case True
      show ?thesis
      proof (cases q)
        case (Inl e)
        then show ?thesis using "1.prems"(1) True rm sv2 by (cases e) (simp_all add: eq Cons p Let_def)
      next
        case (Inr x)
        then show ?thesis
          using "1.prems"(1) "1.IH"(2) [OF Cons p [symmetric] refl _ refl rm [symmetric] Inr] True rm sv2
          by (simp add: eq Cons p Let_def)
      qed
    qed
  qed
qed

lemma handle_disconnects_covered:
  assumes "server_handle_disconnects hook h sv = (r, h', sv')" "covered sv" "one_each sv"
  shows "covered sv'"
proof -
  obtain q h1 i sv1 where l: "server_disconnect_loop hook h (0, sv) = (q, h1, i, sv1)" by (metis prod_cases4)
  then have "sv' = sv1" using assms(1) by (cases q) (auto simp: server_handle_disconnects_def)
  then show ?thesis using disconnect_loop_covered [OF l] assms(2,3) by simp
qed

section \<open>Every step\<close>

lemma server_disconnect_addrs:
  assumes "server_disconnect now msg cid sv = (r, sv')"
  shows "same_addrs sv sv'"
proof -
  obtain q sv1 where s: "server_send_to now cid msg sv = (q, sv1)" by fastforce
  have close: "same_addrs sv1 sv2" if "and_then_st (x, sv1\<lparr>sv_tcp := t\<rparr>) (\<lambda>_ sv. (Ok (), sv\<lparr>sv_disconnected :=
      sv_disconnected sv @ [(cid, Closed)]\<rparr>)) = (r, sv2)" for x t r sv2
    using that by (cases x) (auto simp: same_addrs_def)
  show ?thesis
    using assms same_addrs_socks [OF server_send_socks [OF s]] s close same_addrs_trans
    by (cases q) (fastforce simp: server_disconnect_def split: if_splits option.splits prod.splits)+
qed

lemma recv_msgs_addrs:
  assumes "server_recv_msgs ko oc sv = (r, sv')"
  shows "same_addrs sv sv'"
proof -
  have "recv_keeps (set (server_cids ko sv)) {oc} (same_addrs sv)"
    by (rule recv_keeps_any) (auto simp: same_addrs_def dest!: server_recv_tcp_frame(1) server_recv_udp_frame(1))
  from server_recv_msgs_inv [OF this _ assms] show ?thesis by simp
qed

lemma server_step_covered:
  assumes "server_step sv sv'" "covered sv" "one_each sv"
  shows "covered sv'"
  using assms(1)
proof (cases rule: server_step.cases)
  case (step_send now cid msg r)
  then show ?thesis using same_addrs_covered [OF same_addrs_socks [OF server_send_socks]] assms(2) by blast
next
  case (step_broadcast ko nows msg r)
  then show ?thesis using same_addrs_covered [OF same_addrs_socks [OF server_send_each_socks]] assms(2)
    unfolding server_broadcast_def by blast
next
  case (step_send_spec ko nows spec msg r)
  then show ?thesis using same_addrs_covered [OF same_addrs_socks [OF server_send_each_socks]] assms(2)
    unfolding server_send_spec_def by blast
next
  case (step_disconnect now msg cid r)
  then show ?thesis using same_addrs_covered [OF server_disconnect_addrs] assms(2) by blast
next
  case (step_new_con now clk C R hook h r h')
  show ?thesis by (rule handle_new_con_covered [OF step_new_con assms(2)])
next
  case (step_new_cons now clk C R hook h r h')
  show ?thesis by (rule handle_new_cons_covered [OF step_new_cons assms(2)])
next
  case (step_handle_disconnect dhook h r h')
  show ?thesis by (rule handle_disconnect_covered [OF step_handle_disconnect assms(2,3)])
next
  case (step_handle_disconnects dhook h r h')
  show ?thesis by (rule handle_disconnects_covered [OF step_handle_disconnects assms(2,3)])
next
  case (step_recv_msgs ko r)
  then show ?thesis using same_addrs_covered [OF recv_msgs_addrs] assms(2) by blast
next
  case step_sockets
  then show ?thesis using same_addrs_covered [OF same_addrs_socks] assms(2) by blast
qed (use assms(2) in \<open>simp_all add: covered_def server_clear_msgs_def\<close>)

end
