(* ===== verification/Server_Properties.thy ===== *)
theory Server_Properties
  imports Server_Connect Server_Rounds Mirror
begin

text \<open>
  The properties of \<open>src/server.rs\<close> other than those of new connections: its invariant, the
  handling of disconnects, what a round of \<open>recv_msgs\<close> delivers, what sending reaches, and how
  the outside world can disturb it.
\<close>

section \<open>Two clients to try the properties on\<close>

definition demo_accepted :: "sock_addr \<Rightarrow> byte list \<Rightarrow> tcp_con" where
  "demo_accepted addr bs = demo_con\<lparr>tc_tcp := demo_stream\<lparr>rx := bs, peer_name := Some addr\<rparr>\<rparr>"

definition demo_live ::
    "byte list \<Rightarrow> byte list \<Rightarrow> udp_event list \<Rightarrow> (cid \<times> nat status) list \<Rightarrow> nat server" where
  "demo_live bs1 bs2 evs q = (demo_server [])\<lparr>
     sv_tcp := [1 \<mapsto> demo_accepted (SockAddr 2 9) bs1, 2 \<mapsto> demo_accepted (SockAddr 3 9) bs2],
     sv_cid_addr := [1 \<mapsto> SockAddr 2 9, 2 \<mapsto> SockAddr 3 9],
     sv_addr_cid := [SockAddr 2 9 \<mapsto> 1, SockAddr 3 9 \<mapsto> 2],
     sv_udp := demo_ucon\<lparr>uc_udp := demo_socket\<lparr>urx := evs\<rparr>\<rparr>, sv_disconnected := q\<rparr>"

definition demo_ko :: "(cid \<rightharpoonup> sock_addr) \<Rightarrow> cid list" where
  "demo_ko m = sorted_list_of_set (dom m)"

lemma demo_ko_order: "key_order demo_ko"
  by (simp add: key_order_def demo_ko_def)

lemma demo_accepted_simps [simp]:
  "rx (tc_tcp (demo_accepted addr bs)) = bs" "rx_state (tc_tcp (demo_accepted addr bs)) = RxOpen"
  "wf_con (demo_accepted addr bs)" "tcp_max_msg_size (demo_accepted addr bs) = 16"
  "peer_name (tc_tcp (demo_accepted addr bs)) = Some addr" "tx (tc_tcp (demo_accepted addr bs)) = []"
  by (simp_all add: demo_accepted_def wf_con_def demo_con_def tcp_from_stream_def tcp_max_msg_size_def demo_stream_def)

lemma demo_live_simps [simp]:
  "sv_tcp (demo_live bs1 bs2 evs q) = [1 \<mapsto> demo_accepted (SockAddr 2 9) bs1, 2 \<mapsto> demo_accepted (SockAddr 3 9) bs2]"
  "sv_cid_addr (demo_live bs1 bs2 evs q) = [1 \<mapsto> SockAddr 2 9, 2 \<mapsto> SockAddr 3 9]"
  "sv_addr_cid (demo_live bs1 bs2 evs q) = [SockAddr 2 9 \<mapsto> 1, SockAddr 3 9 \<mapsto> 2]"
  "sv_parts (demo_live bs1 bs2 evs q) = demo_parts" "sv_disconnected (demo_live bs1 bs2 evs q) = q"
  "sv_udp (demo_live bs1 bs2 evs q) = demo_ucon\<lparr>uc_udp := demo_socket\<lparr>urx := evs\<rparr>\<rparr>"
  by (simp_all add: demo_live_def)

lemma demo_live_wf: "wf_server (demo_live bs1 bs2 evs q)"
proof -
  let ?sv = "demo_live bs1 bs2 evs q"
  have "maps_ok ?sv" by (auto simp: maps_ok_def)
  moreover have "ids_ok ?sv" by (simp add: ids_ok_def demo_live_def demo_server_def)
  moreover have "buffers_ok ?sv"
    using demo_parts_wf(1)
    by (auto simp: buffers_ok_def demo_live_def demo_server_def wf_ucon_def demo_ucon_def ran_def)
  ultimately show ?thesis by (simp add: wf_server_def)
qed

section \<open>The messages of one client\<close>

lemma kept_empty:
  assumes "cid \<notin> set cids" "\<forall>c \<in> set cids. \<forall>m \<in> set (ms c). em_cid (snd m) = c"
  shows "filter (\<lambda>m. em_cid (snd m) = cid) (kept ms cids) = []"
  using assms by (auto simp: kept_def filter_empty_conv dest!: set_takeWhileD)

lemma kept_filter:
  assumes "distinct cids" "cid \<in> set cids" "\<forall>c \<in> set cids. \<forall>m \<in> set (ms c). em_cid (snd m) = c"
  shows "filter (\<lambda>m. em_cid (snd m) = cid) (kept ms cids) = takeWhile (\<lambda>m. \<not> is_disconnect m) (ms cid)"
  using assms
proof (induction cids)
  case Nil
  then show ?case by simp
next
  case (Cons c cids)
  have own: "filter (\<lambda>m. em_cid (snd m) = c) (takeWhile P (ms c)) = takeWhile P (ms c)" for P
    using Cons.prems(3) by (auto simp: filter_id_conv dest!: set_takeWhileD)
  have other: "c \<noteq> cid \<Longrightarrow> filter (\<lambda>m. em_cid (snd m) = cid) (takeWhile P (ms c)) = []" for P
    using Cons.prems(3) by (auto simp: filter_empty_conv dest!: set_takeWhileD)
  have step: "kept ms (c # cids) = takeWhile (\<lambda>m. \<not> is_disconnect m) (ms c) @ kept ms cids"
    by (simp add: kept_def)
  show ?case
  proof (cases "c = cid")
    case True
    then have "filter (\<lambda>m. em_cid (snd m) = cid) (kept ms cids) = []"
      using Cons.prems(1,3) by (intro kept_empty) auto
    then show ?thesis using own True unfolding step filter_append by simp
  next
    case False
    then show ?thesis using other Cons.IH Cons.prems unfolding step filter_append by simp
  qed
qed

lemma msgs_for_filter:
  "filter (\<lambda>m. P m) (msgs_for mid xs) = msgs_for mid (filter (\<lambda>m. P (snd m)) xs)"
  by (induction xs) (auto simp: msgs_for_def)

lemma srv_offers_decoded:
  "srv_offers st cid (i, sv) ms \<Longrightarrow> m \<in> set ms \<Longrightarrow> \<exists>c time mid bytes. decode_msg (sv_parts sv) c time mid bytes = Ok m"
  by (force simp: decoded_def in_set_conv_nth list_all2_conv_all_nth)

lemma srv_holds_udp_decoded:
  "srv_holds_udp oc (i, sv) ms \<Longrightarrow> m \<in> set ms \<Longrightarrow> \<exists>c time mid bytes. decode_msg (sv_parts sv) c time mid bytes = Ok m"
  by (force simp: sent_by_def in_set_conv_nth list_all2_conv_all_nth)

lemma server_round_recv:
  assumes "wf_server sv" "key_order ko" "server_alive sv cid"
    and "\<forall>c \<in> dom (sv_cid_addr sv). srv_offers (st c) c (0, sv) (ms c)" "srv_holds_udp oc (0, sv) us"
    and "codec_of bc (sv_parts sv)" "tid_map (sv_parts sv) T = Some mid"
  shows "\<exists>sv'. server_recv_msgs ko oc (server_clear_msgs sv) =
      (Ok (word_of_nat (taken ms (server_cids ko sv) + length us)), sv') \<and>
    server_recv_spec (CIdOnly cid) T sv' =
      Ok (map (\<lambda>m. \<lparr>nm_cid = em_cid m, nm_time = em_time m, nm_m = any_val (em_msg m)\<rparr>)
        (msgs_for mid (takeWhile (\<lambda>m. \<not> is_disconnect m) (ms cid) @ filter (\<lambda>m. em_cid (snd m) = cid) us))) \<and>
    sv_disconnected sv' = sv_disconnected sv @ leaving st ms (server_cids ko sv) \<and> sv_cid_addr sv' = sv_cid_addr sv"
proof -
  let ?sv = "server_clear_msgs sv" and ?cids = "server_cids ko sv" and ?n = "mid_count (sv_parts sv)"
  have wf: "wf_parts (sv_parts sv)" "length (sv_msg_buff sv) = ?n" using assms(1) by (simp_all add: wf_server_defs)
  have clear: "sv_msg_buff ?sv = replicate ?n []" "sv_tcp ?sv = sv_tcp sv" "sv_udp ?sv = sv_udp sv"
      "sv_parts ?sv = sv_parts sv" "sv_cid_addr ?sv = sv_cid_addr sv" "sv_addr_cid ?sv = sv_addr_cid sv"
      "sv_disconnected ?sv = sv_disconnected sv" "server_cids ko ?sv = ?cids"
    using wf(2) by (simp_all add: server_clear_msgs_def map_replicate_const server_cids_def)
  have "wf_server ?sv" using server_step_wf [OF step_clear_msgs assms(1)] .
  moreover have "\<forall>c \<in> dom (sv_cid_addr ?sv). srv_offers (st c) c (0, ?sv) (ms c)"
    using assms(4) by (simp add: clear)
  moreover have "sent_by ?sv = sent_by sv" by (simp add: sent_by_def server_alive_def clear fun_eq_iff)
  then have "srv_holds_udp oc (0, ?sv) us" using assms(5) by (simp add: clear)
  ultimately obtain sv' where sv': "server_recv_msgs ko oc ?sv = (Ok (word_of_nat (taken ms ?cids + length us)), sv')"
      "sv_disconnected sv' = sv_disconnected sv @ leaving st ms ?cids"
      "sv_msg_buff sv' = fold push_eff (kept ms ?cids @ us) (replicate ?n [])" "sv_parts sv' = sv_parts sv"
      "sv_cid_addr sv' = sv_cid_addr sv"
    using server_recv_round [of ?sv ko st ms oc us] assms(2) unfolding clear by blast
  have mid: "mid < ?n" using wf(1) assms(7) by (simp add: wf_parts_def)
  note cids = key_order_cids [OF assms(2,1)]
  have own: "\<forall>c \<in> set ?cids. \<forall>m \<in> set (ms c). em_cid (snd m) = c"
    using srv_offers_in_range [OF _ wf(1)] assms(4) cids(2) by blast
  let ?mine = "takeWhile (\<lambda>m. \<not> is_disconnect m) (ms cid) @ filter (\<lambda>m. em_cid (snd m) = cid) us"
  have "filter (\<lambda>m. em_cid (snd m) = cid) (kept ms ?cids @ us) = ?mine"
    using kept_filter [OF cids(1) _ own, of cid] cids(2) assms(3) by (simp add: server_alive_def)
  then have buff: "filter (\<lambda>m. cid_matches (CIdOnly cid) (em_cid m)) (sv_msg_buff sv' ! mid) = msgs_for mid ?mine"
    using mid by (simp add: sv'(3) fold_push_nth msgs_for_filter del: fold_append)
  have "any_tid (em_msg (snd m)) = T" if "m \<in> set ?mine" "fst m = mid" for m
  proof -
    have "\<exists>c time m' bytes. decode_msg (sv_parts sv) c time m' bytes = Ok m"
      using that(1) assms(3-5) srv_offers_decoded [of "st cid" cid 0 sv "ms cid" m] srv_holds_udp_decoded [of oc 0 sv us m]
      by (auto simp: server_alive_def dest: set_takeWhileD simp del: srv_offers.simps srv_holds_udp.simps)
    then show ?thesis using decode_msg_tid [OF wf(1) assms(6)] assms(7) that(2) by metis
  qed
  then have typed: "\<forall>m \<in> set (msgs_for mid ?mine). any_tid (em_msg m) = T" by (auto simp: msgs_for_def)
  have len: "length (sv_msg_buff sv') = ?n" by (simp add: sv'(3))
  have "server_recv_spec (CIdOnly cid) T sv' = typed_msgs T (msgs_for mid ?mine)"
    using mid assms(7) buff len
    by (simp add: server_recv_spec_def valid_tid_def domI sv'(4) hash_index_def index_def)
  then show ?thesis using sv'(1,2,5) typed_msgs_Ok [OF typed] by auto
qed

text \<open>A round as one client sees it.\<close>

lemma server_round_of:
  assumes "wf_server sv" "key_order ko" "server_alive sv cid"
    and "\<forall>c \<in> dom (sv_cid_addr sv). srv_offers (st c) c (0, sv) (ms c)" "srv_holds_udp oc (0, sv) us"
    and "codec_of bc (sv_parts sv)" "tid_map (sv_parts sv) T = Some mid"
  shows "\<exists>n sv'. server_recv_msgs ko oc (server_clear_msgs sv) = (Ok n, sv') \<and>
    server_recv_spec (CIdOnly cid) T sv' =
      Ok (map (\<lambda>m. \<lparr>nm_cid = em_cid m, nm_time = em_time m, nm_m = any_val (em_msg m)\<rparr>)
        (msgs_for mid (takeWhile (\<lambda>m. \<not> is_disconnect m) (ms cid) @ filter (\<lambda>m. em_cid (snd m) = cid) us))) \<and>
    filter (\<lambda>p. fst p = cid) (sv_disconnected sv') =
      filter (\<lambda>p. fst p = cid) (sv_disconnected sv) @ departure (st cid) cid (ms cid) \<and>
    wf_server sv' \<and> sv_cid_addr sv' = sv_cid_addr sv"
proof -
  obtain n sv' where r: "server_recv_msgs ko oc (server_clear_msgs sv) = (Ok n, sv')"
    "server_recv_spec (CIdOnly cid) T sv' =
      Ok (map (\<lambda>m. \<lparr>nm_cid = em_cid m, nm_time = em_time m, nm_m = any_val (em_msg m)\<rparr>)
        (msgs_for mid (takeWhile (\<lambda>m. \<not> is_disconnect m) (ms cid) @ filter (\<lambda>m. em_cid (snd m) = cid) us)))"
    "sv_disconnected sv' = sv_disconnected sv @ leaving st ms (server_cids ko sv)" "sv_cid_addr sv' = sv_cid_addr sv"
    using server_round_recv [OF assms] by blast
  have "wf_server sv'"
    using server_recv_msgs_inv [OF wf_recv_keeps server_step_wf [OF step_clear_msgs assms(1)] r(1)] by blast
  moreover have "filter (\<lambda>p. fst p = cid) (leaving st ms (server_cids ko sv)) = departure (st cid) cid (ms cid)"
    using key_order_cids [OF assms(2,1)] assms(3) by (intro leaving_filter) (simp_all add: server_alive_def)
  ultimately show ?thesis using r by auto
qed

section \<open>Properties of the server\<close>

text \<open>
  C13: From the creation of a server on, through any sequence of its operations (built with overflow
  checks) and of events in its sockets, its tables agree: a client is alive exactly when it has
  a TCP connection, an address leads to a live client with that address, no pending connection
  has the id of another or of a client, and every buffer has its size. The two maps of addresses are
  mirrors of each other if after no operation two live clients have had the same address.
\<close>

theorem server_tables_agree:
  assumes "server_new sys addr parts config = Ok sv" "wf_parts parts" "wf_numbering parts"
    and "server_step\<^sup>*\<^sup>* sv sv'"
  shows "wf_server sv' \<and> (\<forall>cid. server_alive sv' cid \<longleftrightarrow> sv_tcp sv' cid \<noteq> None) \<and>
    (\<forall>a cid. server_cid_of sv' a = Some cid \<longrightarrow> server_addr_of sv' cid = Some a) \<and>
    distinct (map pending_cid (sv_new_cons sv')) \<and>
    (\<forall>cid \<in> set (map pending_cid (sv_new_cons sv')). \<not> server_alive sv' cid) \<and>
    ((\<lambda>s s'. server_step s s' \<and> one_each s')\<^sup>*\<^sup>* sv sv' \<longrightarrow> mirrored sv')"
proof -
  have new: "wf_server sv" "covered sv" "one_each sv"
    using wf_server_new [OF assms(1-3)] assms(1)
    by (auto simp: server_new_def res_simps listener_set_nonblocking_def covered_def one_each_def)
  have "wf_server sv'" using assms(4) by (induction rule: rtranclp_induct) (auto simp: new(1) server_step_wf)
  moreover have "mirrored sv'" if "(\<lambda>s s'. server_step s s' \<and> one_each s')\<^sup>*\<^sup>* sv sv'"
  proof -
    from that have "wf_server sv' \<and> covered sv' \<and> one_each sv'"
    proof (induction rule: rtranclp_induct)
      case (step s1 s2)
      then show ?case using server_step_wf server_step_covered by blast
    qed (simp add: new)
    then show ?thesis using mirrored_if_covered by blast
  qed
  ultimately show ?thesis
    by (auto simp: wf_server_def maps_ok_def ids_ok_def server_alive_def server_cid_of_def server_addr_of_def)
qed

definition demo_srv_os :: os where
  "demo_srv_os = \<lparr>os_connect = (\<lambda>a. Err NotConnected OsMessage),
     os_listen = (\<lambda>a. Ok \<lparr>backlog = [], l_nonblocking = False, l_local = Some a\<rparr>),
     os_udp_bind = (\<lambda>a. Ok (demo_socket\<lparr>u_local := Some a\<rparr>)),
     os_udp_connect = (\<lambda>a s. Ok (s\<lparr>u_peer := Some a\<rparr>)), os_await = (\<lambda>s. s)\<rparr>"

lemma demo_server_new: "\<exists>sv. server_new demo_srv_os (SockAddr 1 7777) demo_parts config_default = Ok sv"
  by (simp add: server_new_def demo_srv_os_def name_res_def listener_set_nonblocking_def udp_con_new_def
    socket_set_nonblocking_def)

theorem server_tables_agree_witness:
  "\<exists>sv. server_new demo_srv_os (SockAddr 1 7777) demo_parts config_default = Ok sv \<and>
     wf_server (server_clear_msgs sv) \<and> mirrored (server_clear_msgs sv)"
proof -
  obtain sv where sv: "server_new demo_srv_os (SockAddr 1 7777) demo_parts config_default = Ok sv"
    using demo_server_new by blast
  then have "one_each (server_clear_msgs sv)"
    by (auto simp: server_new_def res_simps listener_set_nonblocking_def one_each_def server_clear_msgs_def)
  then have "(\<lambda>s s'. server_step s s' \<and> one_each s')\<^sup>*\<^sup>* sv (server_clear_msgs sv)"
    by (intro r_into_rtranclp conjI step_clear_msgs)
  moreover have "server_step\<^sup>*\<^sup>* sv (server_clear_msgs sv)" by (rule r_into_rtranclp) (rule step_clear_msgs)
  ultimately show ?thesis using server_tables_agree [OF sv demo_parts_wf(1,2)] sv by blast
qed

text \<open>
  C17: \<open>handle_disconnects\<close> never panics; it calls the hook once for each live client that is
  queued, with the status queued first, in queue order; it returns their number, removes exactly
  them and empties the queue.
\<close>

theorem handle_disconnects_once_each:
  assumes "wf_server sv" "es = first_live (dom (sv_cid_addr sv)) (sv_disconnected sv)"
  shows "\<exists>sv'. server_handle_disconnects hook h sv =
      (Ok (word_of_nat (length es)), fold (\<lambda>(cid, st). hook cid st) es h, sv') \<and>
    (\<forall>cid. server_alive sv' cid \<longleftrightarrow> server_alive sv cid \<and> cid \<notin> fst ` set (sv_disconnected sv)) \<and>
    sv_disconnected sv' = [] \<and>
    distinct (map fst es) \<and> set es \<subseteq> set (sv_disconnected sv) \<and>
    fst ` set es = {cid. server_alive sv cid} \<inter> fst ` set (sv_disconnected sv)"
proof -
  have "{cid. server_alive sv cid} = dom (sv_cid_addr sv)" by (auto simp: server_alive_def)
  then show ?thesis
    using server_handle_disconnects_spec [OF assms(1), of hook h] first_live_sound
      [of "dom (sv_cid_addr sv)" "sv_disconnected sv"]
    unfolding assms(2) server_alive_def by auto
qed

theorem handle_disconnects_once_each_witness:
  "\<exists>sv'. server_handle_disconnects (\<lambda>cid st seen. seen @ [cid]) []
      (demo_live [] [] [] [(2, Closed), (7, Closed), (2, Dropped (IoError TimedOut OsMessage))]) =
    (Ok 1, [2], sv') \<and> server_alive sv' 1 \<and> \<not> server_alive sv' 2"
proof -
  let ?sv = "demo_live [] [] [] [(2, Closed), (7, Closed), (2, Dropped (IoError TimedOut OsMessage))]"
  have "[(2, Closed)] = first_live (dom (sv_cid_addr ?sv)) (sv_disconnected ?sv)" by simp
  from handle_disconnects_once_each [OF demo_live_wf this, of "\<lambda>cid st seen. seen @ [cid]" "[]"]
  obtain sv' where "server_handle_disconnects (\<lambda>cid st seen. seen @ [cid]) [] ?sv = (Ok 1, [2], sv')"
    "\<forall>cid. server_alive sv' cid \<longleftrightarrow> server_alive ?sv cid \<and> cid \<notin> fst ` set (sv_disconnected ?sv)"
    by auto
  then show ?thesis by (simp add: server_alive_def)
qed

section \<open>\<open>handle_disconnects\<close> and \<open>handle_disconnect\<close>\<close>

lemma handle_disconnect_shortens:
  "server_handle_disconnect hook h sv = (Inr True, h', sv') \<Longrightarrow>
   length (sv_disconnected sv') < length (sv_disconnected sv)"
proof (induction hook h sv rule: server_handle_disconnect.induct)
  case (1 hook h sv)
  note eq = server_handle_disconnect.simps [of hook h sv]
  show ?case
  proof (cases "sv_disconnected sv")
    case Nil
    then show ?thesis using "1.prems" by (simp add: eq)
  next
    case (Cons p queue)
    obtain cid st where p: "p = (cid, st)" by (cases p)
    let ?sv1 = "sv\<lparr>sv_disconnected := queue\<rparr>"
    show ?thesis
    proof (cases "server_alive ?sv1 cid")
      case True
      then have "sv' = snd (server_rm_tcp_con cid ?sv1)" using "1.prems" by (simp add: eq Cons p Let_def split_beta)
      then show ?thesis using server_rm_disconnected [of cid ?sv1] by (simp add: Cons)
    next
      case False
      then show ?thesis using "1.prems" "1.IH" [OF Cons p [symmetric] refl False] by (simp add: eq Cons p Let_def)
    qed
  qed
qed

text \<open>Calling \<open>handle_disconnect\<close> until it returns \<open>false\<close>, and counting.\<close>

function repeat_handle_disconnect ::
    "('v, 'h) discon_hook \<Rightarrow> 'h \<Rightarrow> u32 \<Rightarrow> 'v server \<Rightarrow> u32 res \<times> 'h \<times> 'v server" where
  "repeat_handle_disconnect hook h n sv =
     (case server_handle_disconnect hook h sv of
        (Inl e, h, sv) \<Rightarrow> (Inl e, h, sv)
      | (Inr handled, h, sv) \<Rightarrow> if handled then repeat_handle_disconnect hook h (n + 1) sv else (Ok n, h, sv))"
  by pat_completeness auto
termination
  by (relation "measure (\<lambda>(hook, h, n, sv). length (sv_disconnected sv))")
    (auto dest: handle_disconnect_shortens [OF sym])

declare repeat_handle_disconnect.simps [simp del]

lemma disconnect_loop_repeats:
  "(case server_disconnect_loop hook h (n, sv) of (Inl e, h, _, sv) \<Rightarrow> (Inl e, h, sv) | (Inr _, h, n, sv) \<Rightarrow> (Ok n, h, sv)) =
   repeat_handle_disconnect hook h n sv"
proof (induction "length (sv_disconnected sv)" arbitrary: h n sv rule: less_induct)
  case less
  note eqs = server_disconnect_loop.simps [of hook h n sv] server_handle_disconnect.simps [of hook h sv]
    repeat_handle_disconnect.simps [of hook h n sv]
  show ?case
  proof (cases "sv_disconnected sv")
    case Nil
    then show ?thesis by (simp add: eqs)
  next
    case (Cons p queue)
    obtain cid st where p: "p = (cid, st)" by (cases p)
    let ?sv1 = "sv\<lparr>sv_disconnected := queue\<rparr>"
    have shorter: "length (sv_disconnected ?sv1) < length (sv_disconnected sv)" by (simp add: Cons)
    show ?thesis
    proof (cases "server_alive ?sv1 cid")
      case False
      then have "repeat_handle_disconnect hook h n sv = repeat_handle_disconnect hook h n ?sv1"
        by (simp add: eqs(2,3) repeat_handle_disconnect.simps [of hook h n ?sv1] Cons p Let_def)
      then show ?thesis using less [OF shorter, of h n] False by (simp add: eqs(1) Cons p Let_def)
    next
      case True
      obtain r sv2 where rm: "server_rm_tcp_con cid ?sv1 = (r, sv2)" by fastforce
      then have "length (sv_disconnected sv2) < length (sv_disconnected sv)"
        using shorter server_rm_disconnected [of cid ?sv1] by simp
      from less [OF this, of "hook cid st h" "n + 1"] show ?thesis
        using True rm by (cases r; cases "projl r") (simp_all add: eqs Cons p Let_def)
    qed
  qed
qed

text \<open>
  \<open>handle_disconnects\<close> is \<open>handle_disconnect\<close> called until it returns \<open>false\<close>: the same
  calls of the hook in the same order, the same server afterwards, the number of calls that
  returned \<open>true\<close> as the result, and a panic in one exactly if there is the same in the other.
\<close>

lemma handle_disconnects_repeats:
  "server_handle_disconnects hook h sv = repeat_handle_disconnect hook h 0 sv"
  using disconnect_loop_repeats [of hook h 0 sv] by (simp add: server_handle_disconnects_def)

text \<open>
  C7: One round of the game loop. After \<open>clear_msgs\<close> and \<open>recv_msgs\<close>, whatever order the maps
  are iterated in, \<open>recv_spec::<T>(Only(cid))\<close> yields exactly the messages of type \<open>T\<close> from the
  client \<open>cid\<close>: those that were whole on its TCP connection before its disconnect message if there
  is one, in order, then those it sent over UDP, in order. Each client whose disconnect message
  arrived is queued with it, and each other one whose stream has ended or failed right behind its
  messages (its tail \<open>st\<close>), with the error.
\<close>

theorem server_round_delivers:
  assumes "wf_server sv" "key_order ko" "server_alive sv cid"
    and "\<forall>c \<in> dom (sv_cid_addr sv). srv_offers (st c) c (0, sv) (ms c)" "srv_holds_udp oc (0, sv) us"
    and "codec_of bc (sv_parts sv)" "tid_map (sv_parts sv) T = Some mid"
  shows "\<exists>sv'. server_recv_msgs ko oc (server_clear_msgs sv) =
      (Ok (word_of_nat (taken ms (server_cids ko sv) + length us)), sv') \<and>
    server_recv_spec (CIdOnly cid) T sv' =
      Ok (map (\<lambda>m. \<lparr>nm_cid = em_cid m, nm_time = em_time m, nm_m = any_val (em_msg m)\<rparr>)
        (msgs_for mid (takeWhile (\<lambda>m. \<not> is_disconnect m) (ms cid) @ filter (\<lambda>m. em_cid (snd m) = cid) us))) \<and>
    sv_disconnected sv' = sv_disconnected sv @ leaving st ms (server_cids ko sv)"
  using server_round_recv [OF assms] by blast

lemma demo_live_holds:
  "srv_holds 1 (0, demo_live (frame 3 [7] @ frame 2 [9] @ frame 3 [8]) bs2 evs q)
     [(3, \<lparr>em_cid = 1, em_time = None, em_msg = AnyBox 13 7\<rparr>), (2, \<lparr>em_cid = 1, em_time = None, em_msg = AnyBox 12 9\<rparr>),
      (3, \<lparr>em_cid = 1, em_time = None, em_msg = AnyBox 13 8\<rparr>)]"
  "srv_holds 2 (0, demo_live bs1 (frame 3 [6]) evs q) [(3, \<lparr>em_cid = 2, em_time = None, em_msg = AnyBox 13 6\<rparr>)]"
  "srv_holds_udp oc (0, demo_live bs1 bs2 [] q) []"
proof -
  have "holds_frames (demo_accepted (SockAddr 2 9) (frame 3 [7] @ frame 2 [9] @ frame 3 [8])) [(3, [7]), (2, [9]), (3, [8])]"
    "holds_frames (demo_accepted (SockAddr 3 9) (frame 3 [6])) [(3, [6])]"
    by (simp_all add: offers_frames_def fits_def)
  moreover have "decoded demo_parts 1 (3, [7]) (3, \<lparr>em_cid = 1, em_time = None, em_msg = AnyBox 13 7\<rparr>)"
    "decoded demo_parts 1 (2, [9]) (2, \<lparr>em_cid = 1, em_time = None, em_msg = AnyBox 12 9\<rparr>)"
    "decoded demo_parts 1 (3, [8]) (3, \<lparr>em_cid = 1, em_time = None, em_msg = AnyBox 13 8\<rparr>)"
    "decoded demo_parts 2 (3, [6]) (3, \<lparr>em_cid = 2, em_time = None, em_msg = AnyBox 13 6\<rparr>)"
    using demo_deser [of 7 13] demo_deser [of 9 12] demo_deser [of 8 13] demo_deser [of 6 13]
    by (simp_all add: decoded_def decode_msg_def decode_any_def valid_mid_def index_def)
  ultimately show
    "srv_holds 1 (0, demo_live (frame 3 [7] @ frame 2 [9] @ frame 3 [8]) bs2 evs q)
     [(3, \<lparr>em_cid = 1, em_time = None, em_msg = AnyBox 13 7\<rparr>), (2, \<lparr>em_cid = 1, em_time = None, em_msg = AnyBox 12 9\<rparr>),
      (3, \<lparr>em_cid = 1, em_time = None, em_msg = AnyBox 13 8\<rparr>)]"
    "srv_holds 2 (0, demo_live bs1 (frame 3 [6]) evs q) [(3, \<lparr>em_cid = 2, em_time = None, em_msg = AnyBox 13 6\<rparr>)]"
    by fastforce+
  show "srv_holds_udp oc (0, demo_live bs1 bs2 [] q) []"
    by (simp add: holds_datagrams_def wf_ucon_def demo_ucon_def demo_socket_def)
qed

theorem server_round_delivers_witness:
  "\<exists>sv'. server_recv_msgs demo_ko True
      (server_clear_msgs (demo_live (frame 3 [7] @ frame 2 [9] @ frame 3 [8]) (frame 3 [6]) [] [])) = (Ok 3, sv') \<and>
    server_recv_spec (CIdOnly 1) 13 sv' = Ok [\<lparr>nm_cid = 1, nm_time = None, nm_m = 7\<rparr>] \<and>
    sv_disconnected sv' = [(1, Disconnected (AnyBox 12 9))]"
proof -
  let ?sv = "demo_live (frame 3 [7] @ frame 2 [9] @ frame 3 [8]) (frame 3 [6]) [] []"
  define ms :: "cid \<Rightarrow> (mid \<times> nat erased_net_msg) list" where "ms c = (if c = 1 then
      [(3, \<lparr>em_cid = 1, em_time = None, em_msg = AnyBox 13 7\<rparr>), (2, \<lparr>em_cid = 1, em_time = None, em_msg = AnyBox 12 9\<rparr>),
       (3, \<lparr>em_cid = 1, em_time = None, em_msg = AnyBox 13 8\<rparr>)]
      else [(3, \<lparr>em_cid = 2, em_time = None, em_msg = AnyBox 13 6\<rparr>)])" for c
  have cids: "server_cids demo_ko ?sv = [1, 2]" by (simp add: server_cids_def demo_ko_def word_le_nat_alt)
  have alive: "server_alive ?sv 1" by (simp add: server_alive_def)
  have holds: "\<forall>c \<in> dom (sv_cid_addr ?sv). srv_holds c (0, ?sv) (ms c)"
    using demo_live_holds(1,2) by (simp add: ms_def del: srv_offers.simps)
  show ?thesis
    using server_round_delivers [OF demo_live_wf demo_ko_order alive holds demo_live_holds(3),
        of demo_bincode 13 3] demo_parts_wf(3)
    by (simp add: cids taken_def leaving_def departure_def ms_def is_disconnect_def mid_defs msgs_for_def gone_def)
qed

lemma server_send_each_tcp:
  assumes "codec_of bc (sv_parts sv)" "tid_map (sv_parts sv) T = Some mid"
    "transports (sv_parts sv) ! mid = TCP" "bc_serialize bc T v = Inr b" "wf_parts (sv_parts sv)"
  shows "distinct cids \<Longrightarrow>
    \<forall>cid \<in> set cids. \<exists>con. sv_tcp sv cid = Some con \<and> writable con (length b) \<Longrightarrow>
    \<exists>sv'. server_send_each now cids (AnyBox T v) sv = (Ok (), sv') \<and>
      (\<forall>cid con. sv_tcp sv cid = Some con \<longrightarrow> (\<exists>con'. sv_tcp sv' cid = Some con' \<and>
         tx (tc_tcp con') = tx (tc_tcp con) @ (if cid \<in> set cids then frame mid b else [])))"
  using assms
proof (induction cids arbitrary: sv)
  case Nil
  then show ?case by auto
next
  case (Cons c cids)
  obtain con where con: "sv_tcp sv c = Some con" "writable con (length b)" using Cons.prems(2) by auto
  obtain con' where con': "tcp_con_send mid b con = (Ok (), con')"
      "tx (tc_tcp con') = tx (tc_tcp con) @ frame mid b" using writable_send [OF con(2)] by blast
  let ?sv1 = "sv\<lparr>sv_tcp := (sv_tcp sv)(c \<mapsto> con')\<rparr>"
  have send: "server_send_to (now c) c (AnyBox T v) sv = (Ok (), ?sv1)"
    using server_send_to_tcp [OF Cons.prems(7,3,4,5) con(1)] Cons.prems(6) con'(1) by simp
  have "\<forall>cid \<in> set cids. \<exists>con. sv_tcp ?sv1 cid = Some con \<and> writable con (length b)"
    using Cons.prems(1,2) by auto
  from Cons.IH [OF _ this] obtain sv' where sv': "server_send_each now cids (AnyBox T v) ?sv1 = (Ok (), sv')"
      "\<forall>cid con. sv_tcp ?sv1 cid = Some con \<longrightarrow> (\<exists>con'. sv_tcp sv' cid = Some con' \<and>
         tx (tc_tcp con') = tx (tc_tcp con) @ (if cid \<in> set cids then frame mid b else []))"
    using Cons.prems(1,3-7) by auto
  have "\<exists>con2. sv_tcp sv' cid = Some con2 \<and>
      tx (tc_tcp con2) = tx (tc_tcp con0) @ (if cid \<in> set (c # cids) then frame mid b else [])"
    if c0: "sv_tcp sv cid = Some con0" for cid con0
  proof (cases "cid = c")
    case True
    then have "cid \<notin> set cids" using Cons.prems(1) by simp
    then show ?thesis using sv'(2) True c0 con(1) con'(2) by (auto dest: spec [of _ c])
  next
    case False
    then show ?thesis using sv'(2) c0 by (auto dest: spec [of _ cid])
  qed
  then show ?case using send sv'(1) by auto
qed

text \<open>
  C24: \<open>send_spec\<close> (and with it \<open>broadcast\<close>, its case \<open>All\<close>) of a type on TCP, when every
  matching connection can take the message, appends the frame of the encoded message to each
  matching connection once and leaves the others as they are, in whatever order the map is iterated.
\<close>

theorem send_spec_reaches_matching:
  assumes "wf_server sv" "key_order ko"
    and "codec_of bc (sv_parts sv)" "tid_map (sv_parts sv) T = Some mid"
    and "transports (sv_parts sv) ! mid = TCP" "bc_serialize bc T v = Inr b"
    and "\<forall>cid con. sv_tcp sv cid = Some con \<and> cid_matches spec cid \<longrightarrow> writable con (length b)"
  shows "\<exists>sv'. server_send_spec ko now spec (AnyBox T v) sv = (Ok (), sv') \<and>
    (\<forall>cid con. sv_tcp sv cid = Some con \<longrightarrow> (\<exists>con'. sv_tcp sv' cid = Some con' \<and>
       tx (tc_tcp con') = tx (tc_tcp con) @ (if cid_matches spec cid then frame mid b else []))) \<and>
    (spec = CIdAll \<longrightarrow> server_broadcast ko now (AnyBox T v) sv = (Ok (), sv'))"
proof -
  let ?cids = "filter (cid_matches spec) (server_cids ko sv)"
  note cids = key_order_cids [OF assms(2,1)]
  have dom: "dom (sv_tcp sv) = dom (sv_cid_addr sv)" "wf_parts (sv_parts sv)"
    using assms(1) by (simp_all add: wf_server_defs)
  have "\<exists>con. sv_tcp sv cid = Some con \<and> writable con (length b)" if "cid \<in> set ?cids" for cid
  proof -
    have "cid \<in> dom (sv_tcp sv)" "cid_matches spec cid" using that cids(2) dom(1) by simp_all
    then show ?thesis using assms(7) by blast
  qed
  then obtain sv' where sv': "server_send_each now ?cids (AnyBox T v) sv = (Ok (), sv')"
      "\<forall>cid con. sv_tcp sv cid = Some con \<longrightarrow> (\<exists>con'. sv_tcp sv' cid = Some con' \<and>
         tx (tc_tcp con') = tx (tc_tcp con) @ (if cid \<in> set ?cids then frame mid b else []))"
    using server_send_each_tcp [OF assms(3-6) dom(2), of ?cids now] cids(1) by auto
  have "(cid \<in> set ?cids) = cid_matches spec cid" if "sv_tcp sv cid = Some con" for cid con
    using that cids(2) dom(1) by auto
  then have "\<forall>cid con. sv_tcp sv cid = Some con \<longrightarrow> (\<exists>con'. sv_tcp sv' cid = Some con' \<and>
       tx (tc_tcp con') = tx (tc_tcp con) @ (if cid_matches spec cid then frame mid b else []))"
    using sv'(2) by simp
  moreover have "cid_matches CIdAll = (\<lambda>_. True)" by (simp add: fun_eq_iff)
  ultimately show ?thesis
    using sv'(1) by (intro exI [of _ sv']) (auto simp: server_send_spec_def server_broadcast_def)
qed

theorem send_spec_reaches_matching_witness:
  "\<exists>sv' con1 con2. server_send_spec demo_ko (\<lambda>cid. 0) (CIdExcept 2) (AnyBox 13 7) (demo_live [] [] [] []) = (Ok (), sv') \<and>
     sv_tcp sv' 1 = Some con1 \<and> tx (tc_tcp con1) = frame 3 [7] \<and>
     sv_tcp sv' 2 = Some con2 \<and> tx (tc_tcp con2) = []"
proof -
  let ?sv = "demo_live [] [] [] []"
  have ok: "writable con 1" if "sv_tcp ?sv cid = Some con" for cid con
    using that by (auto simp: writable_def demo_accepted_def demo_con_def tcp_buff_size_def
      tcp_from_stream_def demo_stream_def split: if_splits)
  have "bc_serialize demo_bincode 13 7 = Inr [7]" by (simp add: demo_bincode_def)
  from send_spec_reaches_matching [OF demo_live_wf demo_ko_order, of demo_bincode "[]" "[]" "[]" "[]" 13 3 7, OF _ _ _ this,
      of "CIdExcept 2" "\<lambda>cid. 0"] ok demo_parts_wf(3)
  obtain sv' where sv': "server_send_spec demo_ko (\<lambda>cid. 0) (CIdExcept 2) (AnyBox 13 7) ?sv = (Ok (), sv')"
    "\<forall>cid con. sv_tcp ?sv cid = Some con \<longrightarrow> (\<exists>con'. sv_tcp sv' cid = Some con' \<and>
       tx (tc_tcp con') = tx (tc_tcp con) @ (if cid_matches (CIdExcept 2) cid then frame 3 [7] else []))"
    by auto
  from sv'(2) [rule_format, of 1 "demo_accepted (SockAddr 2 9) []"]
    sv'(2) [rule_format, of 2 "demo_accepted (SockAddr 3 9) []"] sv'(1) show ?thesis by auto
qed

text \<open>
  \<open>Server::disconnect\<close> of a client that is not yet queued: the message is sent to it, its
  stream shut down, and the next \<open>handle_disconnects\<close> calls the hook with the client and
  \<open>Closed\<close> once and removes it. Unlike the client's, it takes a message of any registered type.
\<close>

lemma server_disconnect_then_handled:
  assumes "wf_server sv" "server_disconnect now msg cid sv = (Ok (), sv1)" "sv_disconnected sv = []"
  shows "\<exists>con sv2. sv_tcp sv1 cid = Some con \<and> is_shut (tc_tcp con) \<and>
    any_tid msg \<in> dom (tid_map (sv_parts sv)) \<and>
    server_handle_disconnects hook h sv1 = (Ok 1, hook cid Closed h, sv2) \<and> \<not> server_alive sv2 cid"
proof -
  obtain q s where s: "server_send_to now cid msg sv = (q, s)" by fastforce
  have alive: "server_alive sv cid" and q: "q = Ok ()"
    using assms(2) s by (auto simp: server_disconnect_def split: if_splits sum.splits) (cases q; auto)+
  note f = socks_only_fields [OF server_send_socks [OF s]]
  have tid: "any_tid msg \<in> dom (tid_map (sv_parts sv))"
    using s q by (auto simp: server_send_to_def server_valid_tid_def valid_tid_def Let_def split: if_splits)
  obtain con where con: "sv_tcp s cid = Some con"
    using assms(2) s alive q by (auto simp: server_disconnect_def split: option.splits)
  obtain r con' where close: "tcp_con_close con = (r, con')" by fastforce
  have r: "r = Ok ()" and sv1: "sv1 = s\<lparr>sv_tcp := (sv_tcp s)(cid \<mapsto> con'),
      sv_disconnected := sv_disconnected s @ [(cid, Closed)]\<rparr>"
    using assms(2) s alive q con close by (cases r; simp add: server_disconnect_def)+
  have "is_shut (tc_tcp con')"
    using close r by (auto simp: tcp_con_close_def stream_flush_def stream_shutdown_def split: option.splits)
  moreover have "wf_server sv1" using wf_server_close [OF assms(2,1)] .
  from server_handle_disconnects_spec [OF this, of hook h]
  have "\<exists>sv2. server_handle_disconnects hook h sv1 = (Ok 1, hook cid Closed h, sv2) \<and> \<not> server_alive sv2 cid"
    using alive by (auto simp: sv1 f assms(3) server_alive_def)
  ultimately show ?thesis using tid by (auto simp: sv1)
qed

text \<open>
  C37: The two maps of addresses need not mirror each other. When a client connects from an address
  whose former client has not been removed yet, removing the former one takes the address of the
  new one out of \<open>addr_cid\<close>: the new client is alive and has its address, but no datagram from
  that address is accepted any more.
\<close>

theorem reconnect_breaks_mirror:
  assumes "server_add_tcp_con_cid c1 con1 sv = (Ok (), sv1)" "server_add_tcp_con_cid c2 con2 sv1 = (Ok (), sv2)"
    and "c1 \<noteq> c2" "peer_name (tc_tcp con1) = Some a" "peer_name (tc_tcp con2) = Some a"
    and "server_rm_tcp_con c1 sv2 = (Ok (), sv3)"
  shows "server_alive sv3 c2 \<and> server_addr_of sv3 c2 = Some a \<and> server_cid_of sv3 a = None \<and>
    (\<forall>oc udp udp' mid time bytes. udp_con_recv_from oc udp = (Ok (a, mid, time, bytes), udp') \<longrightarrow>
       \<not> (\<exists>m. fst (server_recv_udp oc (sv3\<lparr>sv_udp := udp\<rparr>)) = Ok m))"
proof -
  have "sv_cid_addr sv3 c2 = Some a" "sv_addr_cid sv3 a = None"
    using assms
    by (auto simp: server_add_tcp_con_cid_def server_rm_tcp_con_def tcp_con_peer_addr_def name_res_def Let_def)
  then show ?thesis
    by (auto simp: server_alive_def server_addr_of_def server_cid_of_def server_recv_udp_def res_simps)
qed

theorem reconnect_breaks_mirror_witness:
  "\<exists>sv3. server_rm_tcp_con 3 (snd (server_add_tcp_con_cid 4 (demo_accepted (SockAddr 4 4) [])
       (snd (server_add_tcp_con_cid 3 (demo_accepted (SockAddr 4 4) []) (demo_server []))))) = (Ok (), sv3) \<and>
     server_alive sv3 4 \<and> server_cid_of sv3 (SockAddr 4 4) = None"
proof -
  let ?con = "demo_accepted (SockAddr 4 4) []"
  let ?sv1 = "snd (server_add_tcp_con_cid 3 ?con (demo_server []))"
  let ?sv2 = "snd (server_add_tcp_con_cid 4 ?con ?sv1)"
  have add: "server_add_tcp_con_cid c ?con sv = (Ok (), snd (server_add_tcp_con_cid c ?con sv))" for c and sv :: "nat server"
    by (simp add: server_add_tcp_con_cid_def tcp_con_peer_addr_def name_res_def)
  have rm: "server_rm_tcp_con 3 ?sv2 = (Ok (), snd (server_rm_tcp_con 3 ?sv2))"
    by (simp add: server_add_tcp_con_cid_def tcp_con_peer_addr_def name_res_def server_rm_tcp_con_def Let_def)
  have "(3 :: cid) \<noteq> 4" by simp
  from reconnect_breaks_mirror [OF add add this _ _ rm, of "SockAddr 4 4"] rm show ?thesis by auto
qed

section \<open>What strangers can do over UDP\<close>

text \<open>With nothing on the TCP connections, the first UDP receive decides how a round ends.\<close>

lemma quiet_round:
  assumes "wf_server sv" "key_order ko" "\<forall>c \<in> dom (sv_cid_addr sv). srv_holds c (0, sv) []"
  obtains sv1 where "server_tcp_loops (server_cids ko sv) (0, sv) = (Ok (), 0, sv1)"
    "sv_msg_buff sv1 = sv_msg_buff sv" "sv_disconnected sv1 = sv_disconnected sv"
    "same_but (set (server_cids ko sv)) sv sv1"
proof -
  note cids = key_order_cids [OF assms(2,1)]
  have wf: "wf_parts (sv_parts sv)" "length (sv_msg_buff sv) = mid_count (sv_parts sv)"
    using assms(1) by (simp_all add: wf_server_defs)
  define ms :: "cid \<Rightarrow> (mid \<times> 'a erased_net_msg) list" where "ms = (\<lambda>_. [])"
  have "kept ms cs = []" "leaving (\<lambda>_. Tail [] RxOpen) ms cs = []" "taken ms cs = 0" for cs
    by (simp_all add: round_defs ms_def departure_def)
  moreover have "\<exists>sv'. server_tcp_loops (server_cids ko sv) (0, sv) =
        (Ok (), 0 + word_of_nat (taken ms (server_cids ko sv)), sv') \<and>
      sv_disconnected sv' = sv_disconnected sv @ leaving (\<lambda>_. Tail [] RxOpen) ms (server_cids ko sv) \<and>
      sv_msg_buff sv' = fold push_eff (kept ms (server_cids ko sv)) (sv_msg_buff sv) \<and>
      same_but (set (server_cids ko sv)) sv sv' \<and>
      (\<forall>cid \<in> set (server_cids ko sv). find is_disconnect (ms cid) = None \<longrightarrow> srv_offers (Tail [] RxOpen) cid (0, sv') [])"
    by (rule server_tcp_loops_round [OF wf(1) cids(1) _ wf(2)]) (use assms(3) cids(2) in \<open>simp add: ms_def del: srv_offers.simps\<close>)
  ultimately show thesis using that by auto
qed

lemma recv_short_datagram:
  assumes "wf_ucon c" "urx (uc_udp c) = Datagram src bs now # es" "0 < length bs" "length bs < 4"
  shows "\<exists>p. fst (udp_con_recv_from oc c) = panics p"
proof -
  have got: "length (take (length (uc_buff c)) bs) = length bs" using assms(1,4) by (simp add: wf_ucon_def)
  let ?c = "c\<lparr>uc_buff := fill_front (take (length (uc_buff c)) bs) (uc_buff c), uc_udp := (uc_udp c)\<lparr>urx := es\<rparr>\<rparr>"
  have "is_panic (udp_recv_shared oc now (length bs) ?c)"
    using assms got by (intro recv_shared_short) (simp_all add: wf_ucon_def)
  then show ?thesis
    using assms(2) got
    by (cases "udp_recv_shared oc now (length bs) ?c") (auto simp: udp_con_recv_from_def socket_recv_from_def Let_def)
qed

text \<open>
  C35: Any stranger can crash the server with one datagram of 1 to 3 bytes: if it is the next on the
  UDP socket, \<open>recv_msgs\<close> panics.
\<close>

theorem stranger_crashes_server:
  assumes "wf_server sv" "key_order ko" "\<forall>c \<in> dom (sv_cid_addr sv). srv_holds c (0, sv) []"
    and "urx (uc_udp (sv_udp sv)) = Datagram src bs now # es" "0 < length bs" "length bs < 4"
  shows "is_panic (fst (server_recv_msgs ko oc sv))"
proof -
  obtain sv1 where sv1: "server_tcp_loops (server_cids ko sv) (0, sv) = (Ok (), 0, sv1)"
      "same_but (set (server_cids ko sv)) sv sv1"
    using quiet_round [OF assms(1-3)] by blast
  have "sv_udp sv1 = sv_udp sv" using sv1(2) by (simp add: same_but_def)
  moreover have "wf_ucon (sv_udp sv)" using assms(1) by (simp add: wf_server_defs)
  ultimately obtain p u where "udp_con_recv_from oc (sv_udp sv1) = (panics p, u)"
    using recv_short_datagram [OF _ assms(4-6), of oc] by (metis prod.collapse)
  then have "server_recv_udp oc sv1 = (panics p, sv1\<lparr>sv_udp := u\<rparr>)" by (simp add: server_recv_udp_def)
  then show ?thesis
    using sv1(1) by (simp add: server_recv_msgs_def server_udp_loop.simps [of oc 0 sv1])
qed

lemma demo_live_quiet: "\<forall>c \<in> dom (sv_cid_addr (demo_live [] [] evs q)). srv_holds c (0, demo_live [] [] evs q) []"
  by (auto simp: offers_frames_def)

theorem stranger_crashes_server_witness:
  "is_panic (fst (server_recv_msgs demo_ko False (demo_live [] [] [Datagram (SockAddr 66 6) [0] 0] [])))"
  by (rule stranger_crashes_server [OF demo_live_wf demo_ko_order demo_live_quiet,
      where src = "SockAddr 66 6" and bs = "[0]" and now = 0 and es = "[]"]) simp_all

text \<open>
  A datagram from an address that is not connected ends the round: \<open>recv_msgs\<close> returns and
  leaves every datagram behind it unread, although the comment on the handler says that errors are
  logged and ignored. With one such datagram per frame a stranger keeps the server from ever
  reading more than one datagram per call.
\<close>

lemma unknown_sender_ends_round:
  assumes "wf_server sv" "key_order ko" "\<forall>c \<in> dom (sv_cid_addr sv). srv_holds c (0, sv) []"
    and "udp_con_recv_from oc (sv_udp sv) = (Ok (src, mid, time, bytes), udp)"
    and "server_cid_of sv src = None" "decode_any (sv_parts sv) mid bytes = Ok m"
  shows "\<exists>sv'. server_recv_msgs ko oc sv = (Ok 0, sv') \<and> sv_msg_buff sv' = sv_msg_buff sv \<and>
    urx (uc_udp (sv_udp sv')) = tl (urx (uc_udp (sv_udp sv)))"
proof -
  obtain sv1 where sv1: "server_tcp_loops (server_cids ko sv) (0, sv) = (Ok (), 0, sv1)"
      "sv_msg_buff sv1 = sv_msg_buff sv" "same_but (set (server_cids ko sv)) sv sv1"
    using quiet_round [OF assms(1-3)] by blast
  have "server_recv_udp oc sv1 = (Err Other UnknownAddress, sv1\<lparr>sv_udp := udp\<rparr>)"
    using sv1(3) assms(4-6) by (simp add: server_recv_udp_def same_but_def server_cid_of_def)
  then have "server_recv_msgs ko oc sv = (Ok 0, sv1\<lparr>sv_udp := udp\<rparr>)"
    using sv1(1) by (simp add: server_recv_msgs_def server_udp_loop.simps [of oc 0 sv1])
  moreover have "urx (uc_udp udp) = tl (urx (uc_udp (sv_udp sv)))"
    using udp_con_recv_from_frame(2) [OF assms(4)] by simp
  ultimately show ?thesis using sv1(2) by simp
qed

end
