(* ===== verification/Lobby.thy ===== *)
theory Lobby
  imports Server_Properties
begin

text \<open>
  What a server (\<open>src/server.rs\<close>) promises about its clients, without its sockets and buffers: a
  lobby hands out ids, and each visitor is first waiting, then a member, then gone. Every operation
  of the server is a sequence of steps of the lobby, so what holds of lobbies holds of servers.
\<close>

section \<open>The specification\<close>

record 'v lobby =
  issued :: nat
  waiting :: "cid list"
  members :: "cid \<rightharpoonup> sock_addr"
  leavers :: "(cid \<times> 'v status) list"

inductive lobby_step :: "'v lobby \<Rightarrow> 'v lobby \<Rightarrow> bool" where
  knock: "issued l + 1 < 2 ^ 32 \<Longrightarrow>
    lobby_step l (l\<lparr>issued := issued l + 1, waiting := waiting l @ [word_of_nat (issued l + 1)]\<rparr>)"
| admit: "waiting l = xs @ c # ys \<Longrightarrow>
    lobby_step l (l\<lparr>waiting := xs @ ys, members := (members l)(c \<mapsto> addr)\<rparr>)"
| refuse: "waiting l = xs @ c # ys \<Longrightarrow> lobby_step l (l\<lparr>waiting := xs @ ys\<rparr>)"
| enqueue: "c \<in> dom (members l) \<Longrightarrow> lobby_step l (l\<lparr>leavers := leavers l @ [(c, st)]\<rparr>)"
| dismiss: "leavers l = (c, st) # q \<Longrightarrow>
    lobby_step l (l\<lparr>leavers := q, members := (members l)(c := None)\<rparr>)"

definition empty_lobby :: "'v lobby" where
  "empty_lobby = \<lparr>issued = 0, waiting = [], members = Map.empty, leavers = []\<rparr>"

inductive_simps lobby_from_empty: "lobby_step empty_lobby l"

text \<open>An id that was given out and is neither waiting nor a member never is again.\<close>

definition spent :: "cid \<Rightarrow> 'v lobby \<Rightarrow> bool" where
  "spent c l \<longleftrightarrow> unat c \<le> issued l \<and> c \<notin> set (waiting l) \<and> c \<notin> dom (members l)"

lemma unat_next_id: "n + 1 < 2 ^ 32 \<Longrightarrow> unat (word_of_nat (n + 1) :: cid) = n + 1"
  by (subst unat_of_nat) simp

text \<open>An id that has come in never waits again.\<close>

definition entered :: "cid \<Rightarrow> 'v lobby \<Rightarrow> bool" where
  "entered c l \<longleftrightarrow> unat c \<le> issued l \<and> c \<notin> set (waiting l)"

lemma entered_step:
  assumes "lobby_step l l'" "entered c l"
  shows "entered c l'"
  using assms
proof (induction rule: lobby_step.induct)
  case (knock l)
  then have "unat c \<noteq> issued l + 1" by (simp add: entered_def)
  then have "c \<noteq> word_of_nat (issued l + 1)" using unat_next_id [OF knock(1)] by metis
  then show ?case using knock(2) by (simp add: entered_def)
qed (auto simp: entered_def)

lemma entered_steps: "lobby_step\<^sup>*\<^sup>* l l' \<Longrightarrow> entered c l \<Longrightarrow> entered c l'"
  by (induction rule: rtranclp_induct) (auto intro: entered_step)

lemma issued_step: "lobby_step l l' \<Longrightarrow> issued l \<le> issued l'"
  by (induction rule: lobby_step.induct) simp_all

lemma issued_steps: "lobby_step\<^sup>*\<^sup>* l l' \<Longrightarrow> issued l \<le> issued l'"
  by (induction rule: rtranclp_induct) (auto dest: issued_step)

lemma spent_step:
  assumes "lobby_step l l'" "spent c l"
  shows "spent c l'"
proof -
  have "entered c l'" using entered_step [OF assms(1)] assms(2) by (simp add: spent_def entered_def)
  moreover have "c \<notin> dom (members l')"
    using assms by (induction rule: lobby_step.induct) (auto simp: spent_def)
  ultimately show ?thesis by (simp add: spent_def entered_def)
qed

lemma spent_steps: "lobby_step\<^sup>*\<^sup>* l l' \<Longrightarrow> spent c l \<Longrightarrow> spent c l'"
  by (induction rule: rtranclp_induct) (auto intro: spent_step)

text \<open>No id waits twice, or waits while it is a member; each of them was given out.\<close>

definition wf_lobby :: "'v lobby \<Rightarrow> bool" where
  "wf_lobby l \<longleftrightarrow> distinct (waiting l) \<and> set (waiting l) \<inter> dom (members l) = {} \<and>
     (\<forall>c \<in> set (waiting l) \<union> dom (members l). 0 < unat c \<and> unat c \<le> issued l)"

lemma wf_empty_lobby: "wf_lobby empty_lobby"
  by (simp add: wf_lobby_def empty_lobby_def)

lemma wf_lobby_step:
  assumes "lobby_step l l'" "wf_lobby l"
  shows "wf_lobby l'"
  using assms
proof (induction rule: lobby_step.induct)
  case (knock l)
  obtain c :: cid where eq: "word_of_nat (issued l + 1) = c" by blast
  have c: "unat c = issued l + 1" using unat_next_id [OF knock(1)] eq by simp
  have old: "x \<in> set (waiting l) \<union> dom (members l) \<Longrightarrow> 0 < unat x \<and> unat x \<le> issued l" for x
    using knock(2) by (auto simp: wf_lobby_def)
  have "c \<notin> set (waiting l) \<union> dom (members l)" using old [of c] c by linarith
  moreover have "x \<in> set (waiting l) \<union> dom (members l) \<Longrightarrow> 0 < unat x \<and> unat x \<le> issued l + 1" for x
    using old [of x] by simp
  ultimately show ?case using knock(2) c unfolding eq by (auto simp: wf_lobby_def)
next
  case (dismiss l c st q)
  then show ?case by (auto simp: wf_lobby_def split: if_splits)
qed (auto simp: wf_lobby_def)

lemma wf_lobby_steps: "lobby_step\<^sup>*\<^sup>* l l' \<Longrightarrow> wf_lobby l \<Longrightarrow> wf_lobby l'"
  by (induction rule: rtranclp_induct) (auto intro: wf_lobby_step)

section \<open>The lobby of a server\<close>

definition lobby_of :: "'v server \<Rightarrow> 'v lobby" where
  "lobby_of sv = \<lparr>issued = unat (sv_current_cid sv), waiting = map pending_cid (sv_new_cons sv),
     members = sv_cid_addr sv, leavers = sv_disconnected sv\<rparr>"

lemma lobby_of_simps [simp]:
  "issued (lobby_of sv) = unat (sv_current_cid sv)" "waiting (lobby_of sv) = map pending_cid (sv_new_cons sv)"
  "members (lobby_of sv) = sv_cid_addr sv" "leavers (lobby_of sv) = sv_disconnected sv"
  by (simp_all add: lobby_of_def)

text \<open>
  One server goes to another as its specification allows, with the table of message types and the
  configuration as before; \<open>advances\<close> adds the message buffers.
\<close>

definition follows :: "'v server \<Rightarrow> 'v server \<Rightarrow> bool" where
  "follows sv sv' \<longleftrightarrow> lobby_step\<^sup>*\<^sup>* (lobby_of sv) (lobby_of sv') \<and> sv_parts sv' = sv_parts sv \<and>
     sv_config sv' = sv_config sv"

definition advances :: "'v server \<Rightarrow> 'v server \<Rightarrow> bool" where
  "advances sv sv' \<longleftrightarrow> follows sv sv' \<and> sv_msg_buff sv' = sv_msg_buff sv"

lemma follows_refl [simp]: "follows sv sv"
  by (simp add: follows_def)

lemma follows_trans [trans]: "follows a b \<Longrightarrow> follows b c \<Longrightarrow> follows a c"
  by (auto simp: follows_def)

lemma advances_refl [simp]: "advances sv sv"
  by (simp add: advances_def)

lemma advances_trans [trans]: "advances a b \<Longrightarrow> advances b c \<Longrightarrow> advances a c"
  by (auto simp: advances_def intro: follows_trans)

lemma advances_stutter:
  assumes "lobby_of sv' = lobby_of sv" "sv_parts sv' = sv_parts sv" "sv_config sv' = sv_config sv"
    "sv_msg_buff sv' = sv_msg_buff sv"
  shows "advances sv sv'"
  using assms by (simp add: advances_def follows_def)

lemma advances_one:
  assumes "lobby_step (lobby_of sv) (lobby_of sv')" "sv_parts sv' = sv_parts sv" "sv_config sv' = sv_config sv"
    "sv_msg_buff sv' = sv_msg_buff sv"
  shows "advances sv sv'"
  using assms by (simp add: advances_def follows_def r_into_rtranclp)

lemma advances_socks: "socks_only sv sv' \<Longrightarrow> advances sv sv'"
  by (intro advances_stutter) (simp_all add: lobby_of_def socks_only_fields)

lemma advances_knock:
  assumes "unat (sv_current_cid sv) + 1 < 2 ^ 32"
  shows "advances sv (sv\<lparr>sv_listener := lis, sv_current_cid := sv_current_cid sv + 1,
    sv_new_cons := sv_new_cons sv @ [(con, sv_current_cid sv + 1, at)]\<rparr>)"
proof (rule advances_one)
  have "unat (sv_current_cid sv + 1) = unat (sv_current_cid sv) + 1"
    using assms by (simp add: unat_plus_if')
  then show "lobby_step (lobby_of sv) (lobby_of (sv\<lparr>sv_listener := lis, sv_current_cid := sv_current_cid sv + 1,
      sv_new_cons := sv_new_cons sv @ [(con, sv_current_cid sv + 1, at)]\<rparr>))"
    using knock [of "lobby_of sv"] assms by (simp add: lobby_of_def add.commute)
qed simp_all

lemma waiting_split:
  assumes "vec_remove idx (sv_new_cons sv) = Inr ((con, cid, time), cons)"
  shows "\<exists>xs ys. map pending_cid (sv_new_cons sv) = xs @ cid # ys \<and> map pending_cid cons = xs @ ys"
proof -
  have idx: "idx < length (sv_new_cons sv)" "sv_new_cons sv ! idx = (con, cid, time)"
      "cons = take idx (sv_new_cons sv) @ drop (Suc idx) (sv_new_cons sv)"
    using assms by (auto simp: vec_remove_def split: if_splits)
  let ?xs = "take idx (sv_new_cons sv)" and ?ys = "drop (Suc idx) (sv_new_cons sv)"
  have "sv_new_cons sv = ?xs @ (con, cid, time) # ?ys" using id_take_nth_drop [OF idx(1)] idx(2) by simp
  then have "map pending_cid (sv_new_cons sv) = map pending_cid ?xs @ cid # map pending_cid ?ys"
    by (metis list.simps(9) map_append pending_cid_eq)
  then show ?thesis using idx(3) by (metis map_append)
qed

lemma advances_refuse:
  assumes "vec_remove idx (sv_new_cons sv) = Inr (p, cons)"
  shows "advances sv (sv\<lparr>sv_new_cons := cons\<rparr>)"
proof -
  obtain con cid time where p: "p = (con, cid, time)" by (cases p)
  obtain xs ys where "map pending_cid (sv_new_cons sv) = xs @ cid # ys" "map pending_cid cons = xs @ ys"
    using waiting_split assms p by blast
  then show ?thesis
    using refuse [of "lobby_of sv" xs cid ys] by (intro advances_one) (simp_all add: lobby_of_def)
qed

lemma advances_admit:
  assumes "vec_remove idx (sv_new_cons sv) = Inr ((con, cid, time), cons)"
  shows "advances sv (sv\<lparr>sv_new_cons := cons, sv_tcp := t, sv_addr_cid := m, sv_cid_addr := (sv_cid_addr sv)(cid \<mapsto> addr)\<rparr>)"
proof -
  obtain xs ys where "map pending_cid (sv_new_cons sv) = xs @ cid # ys" "map pending_cid cons = xs @ ys"
    using waiting_split assms by blast
  then show ?thesis
    using admit [of "lobby_of sv" xs cid ys addr] by (intro advances_one) (simp_all add: lobby_of_def)
qed

lemma advances_enqueue:
  assumes "server_alive sv cid"
  shows "advances sv (sv\<lparr>sv_disconnected := sv_disconnected sv @ [(cid, st)]\<rparr>)"
  using enqueue [of cid "lobby_of sv" st] assms
  by (intro advances_one) (simp_all add: lobby_of_def server_alive_def)

section \<open>Every operation advances the lobby\<close>

lemma advances_start_incoming:
  "server_start_incoming True sv = (r, sv') \<Longrightarrow> advances sv sv'"
proof (induction "True" sv arbitrary: r sv' rule: server_start_incoming.induct)
  case (1 sv)
  note eq = server_start_incoming.simps [of True sv]
  show ?case
  proof (cases "length (sv_new_cons sv) < cfg_max_con_handle (sv_config sv)")
    case False
    then show ?thesis using "1.prems" by (simp add: eq)
  next
    case room: True
    obtain q l where l: "listener_accept (sv_listener sv) = (q, l)" by fastforce
    let ?sv = "sv\<lparr>sv_listener := l\<rparr>"
    have quiet: "advances sv ?sv" by (rule advances_stutter) (simp_all add: lobby_of_def)
    show ?thesis
    proof (cases q)
      case (Inl e)
      then show ?thesis using "1.prems" room l quiet by (simp add: eq)
    next
      case (Inr x)
      obtain stream at where x: "x = (stream, at)" by (cases x)
      let ?s = "stream\<lparr>is_nonblocking := True\<rparr>"
      have block: "stream_set_nonblocking True stream = (Inr (), ?s)"
        by (simp add: stream_set_nonblocking_def)
      show ?thesis
      proof (cases "unat (sv_current_cid sv) + 1 < 2 ^ 32")
        case False
        then show ?thesis using "1.prems" room l quiet
          by (auto simp: eq Inr x block server_new_cid_def add_u32_def)
      next
        case True
        let ?sv1 = "?sv\<lparr>sv_current_cid := sv_current_cid sv + 1\<rparr>"
        let ?con = "tcp_from_stream ?s (cfg_max_msg_size (sv_config sv))"
        let ?sv2 = "?sv1\<lparr>sv_new_cons := sv_new_cons ?sv1 @ [(?con, sv_current_cid sv + 1, at)]\<rparr>"
        have cid: "server_new_cid True ?sv = (Inr (sv_current_cid sv + 1), ?sv1)"
          using True by (simp add: server_new_cid_def add_u32_def)
        have "advances sv ?sv2" using advances_knock [OF True, where lis = l and con = ?con and at = at] by simp
        moreover have "advances ?sv2 sv'"
          using "1.prems" room l "1.hyps" [OF room l [symmetric] Inr x [symmetric] block [symmetric] refl refl cid [symmetric] refl]
          by (simp add: eq Inr x block cid)
        ultimately show ?thesis by (rule advances_trans)
      qed
    qed
  qed
qed

lemma advances_accept:
  assumes "vec_remove idx (sv_new_cons sv) = Inr ((con, cid, time), cons)"
    and "server_accept_incoming now cid con resp (sv\<lparr>sv_new_cons := cons\<rparr>) = (q, sv1)"
  shows "advances sv sv1"
  using accept_incoming_result [OF assms(2)]
proof (elim disjE exE conjE)
  assume "sv1 = sv\<lparr>sv_new_cons := cons\<rparr>"
  then show ?thesis using advances_refuse [OF assms(1)] by simp
next
  fix addr sva
  assume s: "socks_only sva sv1"
    and sva: "sva = sv\<lparr>sv_new_cons := cons, sv_tcp := (sv_tcp (sv\<lparr>sv_new_cons := cons\<rparr>))(cid \<mapsto> con),
      sv_addr_cid := (sv_addr_cid (sv\<lparr>sv_new_cons := cons\<rparr>))(addr \<mapsto> cid),
      sv_cid_addr := (sv_cid_addr (sv\<lparr>sv_new_cons := cons\<rparr>))(cid \<mapsto> addr)\<rparr>"
  have "advances sv sva" using advances_admit [OF assms(1)] by (simp add: sva)
  then show ?thesis using advances_socks [OF s] by (rule advances_trans)
qed

lemma advances_accept_all:
  "server_accept_all now R as sv = (r, sv') \<Longrightarrow> advances sv sv'"
proof (induction as arbitrary: sv)
  case Nil
  then show ?case by simp
next
  case (Cons a as)
  obtain idx resp where a: "a = (idx, resp)" by (cases a)
  show ?case
  proof (cases "vec_remove idx (sv_new_cons sv)")
    case (Inl e)
    then show ?thesis using Cons.prems by (simp add: a)
  next
    case (Inr x)
    obtain con cid time cons where x: "x = ((con, cid, time), cons)" by (metis surj_pair)
    obtain q sv1 where q: "server_accept_incoming now cid con (AnyBox R resp) (sv\<lparr>sv_new_cons := cons\<rparr>) = (q, sv1)"
      by fastforce
    show ?thesis
      using Cons.prems Cons.IH [of sv1] advances_accept [OF Inr [unfolded x] q] q Inr x
      by (cases q) (auto simp: a intro: advances_trans)
  qed
qed

lemma advances_reject_all: "server_reject_all R rs sv = (r, sv') \<Longrightarrow> advances sv sv'"
proof (induction rs arbitrary: sv)
  case Nil
  then show ?case by simp
next
  case (Cons a rs)
  obtain idx resp where a: "a = (idx, resp)" by (cases a)
  show ?case
  proof (cases "vec_remove idx (sv_new_cons sv)")
    case (Inl e)
    then show ?thesis using Cons.prems by (simp add: a)
  next
    case (Inr x)
    obtain con cid time cons where x: "x = ((con, cid, time), cons)" by (metis surj_pair)
    let ?sv1 = "sv\<lparr>sv_new_cons := cons\<rparr>"
    have "advances sv ?sv1" using advances_refuse Inr x by blast
    then show ?thesis
      using Cons.prems Cons.IH [of ?sv1] Inr x
      by (cases "fst (server_reject_incoming con (AnyBox R resp) ?sv1)")
        (auto simp: a Let_def intro: advances_trans)
  qed
qed

lemma advances_remove_dead: "server_remove_dead ds sv = (r, sv') \<Longrightarrow> advances sv sv'"
proof (induction ds arbitrary: sv)
  case Nil
  then show ?case by simp
next
  case (Cons idx ds)
  show ?case
  proof (cases "vec_remove idx (sv_new_cons sv)")
    case (Inl e)
    then show ?thesis using Cons.prems by simp
  next
    case (Inr x)
    obtain p cons where x: "x = (p, cons)" by (cases x)
    let ?sv1 = "sv\<lparr>sv_new_cons := cons\<rparr>"
    have "server_remove_dead ds ?sv1 = (r, sv')" using Cons.prems Inr x by (cases p) simp
    moreover have "advances sv ?sv1" using advances_refuse Inr x by blast
    ultimately show ?thesis using Cons.IH advances_trans by blast
  qed
qed

lemma advances_settle:
  assumes "server_settle now R ls sv = (r, sv')"
  shows "advances sv sv'"
proof -
  obtain acc rej dead where ls: "ls = (acc, rej, dead)" by (metis prod_cases3)
  obtain q1 sv1 where 1: "server_accept_all now R acc sv = (q1, sv1)" by fastforce
  obtain q2 sv2 where 2: "server_reject_all R rej sv1 = (q2, sv2)" by fastforce
  obtain q3 sv3 where 3: "server_remove_dead dead sv2 = (q3, sv3)" by fastforce
  have "advances sv sv1" "advances sv sv2" "advances sv sv3"
    using advances_accept_all [OF 1] advances_reject_all [OF 2] advances_remove_dead [OF 3]
      advances_trans by blast+
  moreover have "sv' \<in> {sv1, sv2, sv3}"
    using assms 1 2 3 by (cases q1; cases q2) (auto simp: server_settle_def ls)
  ultimately show ?thesis by blast
qed

lemma advances_con_loop:
  assumes "con_loop one d C timeout clk hook idx (sv_new_cons sv) ls h = (q, cons, h')"
  shows "advances sv (sv\<lparr>sv_new_cons := cons\<rparr>)"
  using same_pending_cids [OF con_loop_keeps [OF assms]]
  by (intro advances_stutter) (simp_all add: lobby_of_def)

lemma advances_handle_new:
  assumes "server_start_incoming True sv = (q, sv1)"
  shows "advances sv sv1"
    and "con_loop one d C timeout clk hook 0 (sv_new_cons sv1) ls h = (q2, cons, h2) \<Longrightarrow>
      advances sv (sv1\<lparr>sv_new_cons := cons\<rparr>)"
    and "con_loop one d C timeout clk hook 0 (sv_new_cons sv1) ls h = (q2, cons, h2) \<Longrightarrow>
      server_settle now R ls2 (sv1\<lparr>sv_new_cons := cons\<rparr>) = (q3, sv2) \<Longrightarrow> advances sv sv2"
proof -
  show 1: "advances sv sv1" using advances_start_incoming [OF assms] .
  show 2: "con_loop one d C timeout clk hook 0 (sv_new_cons sv1) ls h = (q2, cons, h2) \<Longrightarrow>
      advances sv (sv1\<lparr>sv_new_cons := cons\<rparr>)" for cons q2 h2
    using advances_trans [OF 1 advances_con_loop] .
  show "con_loop one d C timeout clk hook 0 (sv_new_cons sv1) ls h = (q2, cons, h2) \<Longrightarrow>
      server_settle now R ls2 (sv1\<lparr>sv_new_cons := cons\<rparr>) = (q3, sv2) \<Longrightarrow> advances sv sv2"
    using advances_trans [OF 2 advances_settle] .
qed

lemma advances_handle_new_con:
  assumes "server_handle_new_con True now clk C R hook h sv = (r, h', sv')"
  shows "advances sv sv'"
proof -
  obtain q sv1 where s: "server_start_incoming True sv = (q, sv1)" by fastforce
  show ?thesis
    using assms advances_handle_new [OF s]
    by (auto simp: server_handle_new_con_def s Let_def split: sum.splits if_splits prod.splits)
qed

lemma advances_handle_new_cons:
  assumes "server_handle_new_cons True now clk C R hook h sv = (r, h', sv')"
  shows "advances sv sv'"
proof -
  obtain q sv1 where s: "server_start_incoming True sv = (q, sv1)" by fastforce
  show ?thesis
    using assms advances_handle_new [OF s]
    by (auto simp: server_handle_new_cons_def s Let_def split: sum.splits if_splits prod.splits)
qed

text \<open>Disconnecting a client queues it; a queued client is removed from the tables.\<close>

lemma advances_disconnect:
  assumes "server_disconnect now msg cid sv = (r, sv')"
  shows "advances sv sv'"
proof -
  obtain q sv1 where s: "server_send_to now cid msg sv = (q, sv1)" by fastforce
  have s1: "socks_only sv sv1" using server_send_socks [OF s] .
  have close: "socks_only sv1 (sv1\<lparr>sv_tcp := (sv_tcp sv1)(cid \<mapsto> con')\<rparr>)"
    if "sv_tcp sv1 cid = Some con" "tcp_con_close con = (q2, con')" for con q2 con'
  proof -
    have "length (tc_buff con') = length (tc_buff con)"
      using that(2) by (auto simp: tcp_con_close_def stream_flush_def split: prod.splits)
    then show ?thesis using socks_only_tcp [OF that(1)] by simp
  qed
  show ?thesis
  proof (cases "server_alive sv cid \<and> q = Ok ()")
    case False
    then show ?thesis using assms s advances_socks [OF s1]
      by (cases q) (auto simp: server_disconnect_def split: if_splits)
  next
    case sent: True
    show ?thesis
    proof (cases "sv_tcp sv1 cid")
      case None
      then show ?thesis using assms s sent advances_socks [OF s1] by (auto simp: server_disconnect_def)
    next
      case (Some con)
      obtain q2 con' where c: "tcp_con_close con = (q2, con')" by fastforce
      let ?sv2 = "sv1\<lparr>sv_tcp := (sv_tcp sv1)(cid \<mapsto> con')\<rparr>"
      have s2: "socks_only sv ?sv2" using socks_only_trans [OF s1 close [OF Some c]] .
      have "server_alive ?sv2 cid" using sent socks_only_fields(7) [OF s1] by (simp add: server_alive_def)
      from advances_enqueue [OF this] have "advances sv (?sv2\<lparr>sv_disconnected := sv_disconnected ?sv2 @ [(cid, Closed)]\<rparr>)"
        using advances_trans [OF advances_socks [OF s2]] by blast
      then show ?thesis using assms s sent advances_socks [OF s2] Some c
        by (cases q2) (auto simp: server_disconnect_def)
    qed
  qed
qed

lemma advances_dismiss:
  assumes "wf_server sv" "sv_disconnected sv = (cid, st) # queue"
  shows "\<not> server_alive sv cid \<Longrightarrow> advances sv (sv\<lparr>sv_disconnected := queue\<rparr>)"
    "server_alive sv cid \<Longrightarrow> server_rm_tcp_con cid (sv\<lparr>sv_disconnected := queue\<rparr>) = (r, sv') \<Longrightarrow>
      advances sv sv' \<and> r = Ok ()"
proof -
  have step: "lobby_step (lobby_of sv) \<lparr>issued = unat (sv_current_cid sv),
      waiting = map pending_cid (sv_new_cons sv), members = (sv_cid_addr sv)(cid := None), leavers = queue\<rparr>"
    using dismiss [of "lobby_of sv" cid st queue] assms(2) by (simp add: lobby_of_def)
  show "\<not> server_alive sv cid \<Longrightarrow> advances sv (sv\<lparr>sv_disconnected := queue\<rparr>)"
    using step by (intro advances_one) (simp_all add: lobby_of_def server_alive_def domIff fun_upd_idem)
  assume alive: "server_alive sv cid" and rm: "server_rm_tcp_con cid (sv\<lparr>sv_disconnected := queue\<rparr>) = (r, sv')"
  then obtain addr where addr: "sv_cid_addr sv cid = Some addr" by (auto simp: server_alive_def)
  moreover have "dom (sv_tcp sv) = dom (sv_cid_addr sv)" using assms(1) by (simp add: wf_server_defs)
  ultimately obtain con where "sv_tcp sv cid = Some con" by blast
  then have "sv' = sv\<lparr>sv_disconnected := queue, sv_tcp := (sv_tcp sv)(cid := None),
      sv_cid_addr := (sv_cid_addr sv)(cid := None), sv_addr_cid := (sv_addr_cid sv)(addr := None)\<rparr> \<and> r = Ok ()"
    using rm addr by (auto simp: server_rm_tcp_con_def Let_def)
  then show "advances sv sv' \<and> r = Ok ()"
    using step by (auto intro!: advances_one simp: lobby_of_def)
qed

lemma advances_handle_disconnect:
  "wf_server sv \<Longrightarrow> server_handle_disconnect hook h sv = (r, h', sv') \<Longrightarrow> advances sv sv'"
proof (induction hook h sv arbitrary: r h' sv' rule: server_handle_disconnect.induct)
  case (1 hook h sv)
  note eq = server_handle_disconnect.simps [of hook h sv]
  show ?case
  proof (cases "sv_disconnected sv")
    case Nil
    then show ?thesis using "1.prems" by (simp add: eq)
  next
    case (Cons p queue)
    obtain cid st where p: "p = (cid, st)" by (cases p)
    let ?sv1 = "sv\<lparr>sv_disconnected := queue\<rparr>"
    note d = advances_dismiss [OF "1.prems"(1) Cons [unfolded p]]
    show ?thesis
    proof (cases "server_alive ?sv1 cid")
      case True
      then have alive: "server_alive sv cid" by (simp add: server_alive_def)
      obtain q sv2 where rm: "server_rm_tcp_con cid ?sv1 = (q, sv2)" by fastforce
      then have "sv' = sv2" using "1.prems"(2) True by (simp add: eq Cons p Let_def)
      then show ?thesis using d(2) [OF alive rm] by simp
    next
      case False
      then have "\<not> server_alive sv cid" by (simp add: server_alive_def)
      moreover have "advances ?sv1 sv'"
        using "1.prems" "1.IH" [OF Cons p [symmetric] refl False] False by (simp add: eq Cons p Let_def)
      ultimately show ?thesis using d(1) advances_trans by blast
    qed
  qed
qed

lemma advances_disconnect_loop:
  "wf_server (snd s) \<Longrightarrow> server_disconnect_loop hook h s = (r, h', i', sv') \<Longrightarrow> advances (snd s) sv'"
proof (induction hook h s arbitrary: r h' i' sv' rule: server_disconnect_loop.induct)
  case (1 hook h i sv)
  note eq = server_disconnect_loop.simps [of hook h i sv]
  show ?case
  proof (cases "sv_disconnected sv")
    case Nil
    then show ?thesis using "1.prems" by (simp add: eq)
  next
    case (Cons p queue)
    obtain cid st where p: "p = (cid, st)" by (cases p)
    let ?sv1 = "sv\<lparr>sv_disconnected := queue\<rparr>"
    have wf: "wf_server sv" using "1.prems"(1) by simp
    note d = advances_dismiss [OF wf Cons [unfolded p]]
    show ?thesis
    proof (cases "server_alive ?sv1 cid")
      case True
      then have alive: "server_alive sv cid" by (simp add: server_alive_def)
      obtain q sv2 where rm: "server_rm_tcp_con cid ?sv1 = (q, sv2)" by fastforce
      have q: "q = Inr ()" "advances sv sv2" using d(2) [OF alive rm] by simp_all
      have "wf_server sv2" using wf_rm_tcp_con [OF _ rm] wf by simp
      moreover have "server_disconnect_loop hook (hook cid st h) (i + 1, sv2) = (r, h', i', sv')"
        using "1.prems"(2) True rm q(1) by (simp add: eq Cons p Let_def)
      ultimately have "advances sv2 sv'"
        using "1.IH"(2) [OF Cons p [symmetric] refl _ refl rm [symmetric] q(1)] True by simp
      then show ?thesis using q(2) advances_trans by auto
    next
      case False
      then have "\<not> server_alive sv cid" by (simp add: server_alive_def)
      moreover have "advances ?sv1 sv'"
        using "1.prems"(2) wf "1.IH"(1) [OF Cons p [symmetric] refl False] False by (simp add: eq Cons p Let_def)
      ultimately show ?thesis using d(1) advances_trans by auto
    qed
  qed
qed

lemma advances_handle_disconnects:
  assumes "wf_server sv" "server_handle_disconnects hook h sv = (r, h', sv')"
  shows "advances sv sv'"
proof -
  obtain q h1 i sv1 where l: "server_disconnect_loop hook h (0, sv) = (q, h1, i, sv1)" by (metis prod_cases4)
  then have "sv' = sv1" using assms(2) by (cases q) (auto simp: server_handle_disconnects_def)
  then show ?thesis using advances_disconnect_loop [OF _ l] assms(1) by simp
qed

text \<open>Receiving queues clients only: those whose connections it reads.\<close>

lemma follows_recv_msgs:
  assumes "wf_server sv" "key_order ko" "server_recv_msgs ko oc sv = (r, sv')"
  shows "follows sv sv'"
proof -
  let ?P = "\<lambda>x. follows sv x \<and> sv_cid_addr x = sv_cid_addr sv"
  have push: "follows sv (x\<lparr>sv_msg_buff := buff\<rparr>)" if "follows sv x" for x and buff
    using that by (simp add: follows_def lobby_of_def)
  have "recv_keeps (set (server_cids ko sv)) {oc} ?P"
  proof (rule recv_keeps_any)
    fix cid x q x' assume P: "?P x" and q: "server_recv_tcp cid x = (q, x')"
    have "follows x x'" using server_recv_tcp_frame(1) [OF q] by (simp add: follows_def lobby_of_def)
    then show "?P x'" using P follows_trans server_recv_tcp_frame(1) [OF q] by fastforce
  next
    fix c x q x' assume P: "?P x" and q: "server_recv_udp c x = (q, x')"
    have "follows x x'" using server_recv_udp_frame(1) [OF q] by (simp add: follows_def lobby_of_def)
    then show "?P x'" using P follows_trans server_recv_udp_frame(1) [OF q] by fastforce
  next
    fix cid x st assume cid: "cid \<in> set (server_cids ko sv)" and P: "?P x"
    have "server_alive x cid" using cid P key_order_cids(2) [OF assms(2,1)] by (simp add: server_alive_def)
    from advances_enqueue [OF this, of st] have "follows x (x\<lparr>sv_disconnected := sv_disconnected x @ [(cid, st)]\<rparr>)"
      by (simp add: advances_def)
    then show "?P (x\<lparr>sv_disconnected := sv_disconnected x @ [(cid, st)]\<rparr>)" using P follows_trans by auto
  qed (simp add: push)
  from server_recv_msgs_inv [OF this _ assms(3)] show ?thesis by simp
qed

lemma server_step_advances:
  assumes "server_step sv sv'" "wf_server sv"
  shows "advances sv sv' \<or> (\<exists>ko r. key_order ko \<and> server_recv_msgs ko True sv = (r, sv')) \<or>
    sv' = server_clear_msgs sv"
  using assms(1)
proof (cases rule: server_step.cases)
  case (step_send now cid msg r)
  then show ?thesis using advances_socks [OF server_send_socks] by blast
next
  case (step_broadcast ko nows msg r)
  then show ?thesis using advances_socks [OF server_send_each_socks] unfolding server_broadcast_def by blast
next
  case (step_send_spec ko nows spec msg r)
  then show ?thesis using advances_socks [OF server_send_each_socks] unfolding server_send_spec_def by blast
next
  case (step_disconnect now msg cid r)
  then show ?thesis using advances_disconnect by blast
next
  case (step_new_con now clk C R hook h r h')
  show ?thesis using advances_handle_new_con [OF step_new_con] by blast
next
  case (step_new_cons now clk C R hook h r h')
  show ?thesis using advances_handle_new_cons [OF step_new_cons] by blast
next
  case (step_handle_disconnect dhook h r h')
  show ?thesis using advances_handle_disconnect [OF assms(2) step_handle_disconnect] by blast
next
  case (step_handle_disconnects dhook h r h')
  show ?thesis using advances_handle_disconnects [OF assms(2) step_handle_disconnects] by blast
next
  case (step_recv_msgs ko r)
  then show ?thesis by blast
next
  case step_clear_msgs
  then show ?thesis by simp
next
  case (step_listener l)
  then show ?thesis by (simp add: advances_def follows_def lobby_of_def)
next
  case (step_pending cons)
  then show ?thesis using same_pending_cids by (auto simp: advances_def follows_def lobby_of_def)
next
  case step_sockets
  then show ?thesis using advances_socks by blast
qed

lemma server_step_follows:
  assumes "server_step sv sv'" "wf_server sv"
  shows "follows sv sv'"
  using server_step_advances [OF assms]
proof (elim disjE exE conjE)
  assume "sv' = server_clear_msgs sv"
  then show ?thesis by (simp add: follows_def lobby_of_def server_clear_msgs_def)
qed (use follows_recv_msgs [OF assms(2)] in \<open>auto simp: advances_def\<close>)

lemma server_steps_follow:
  "server_step\<^sup>*\<^sup>* sv sv' \<Longrightarrow> wf_server sv \<Longrightarrow> follows sv sv' \<and> wf_server sv'"
  by (induction rule: rtranclp_induct) (auto intro: follows_trans server_step_follows server_step_wf)

lemma server_new_lobby:
  "server_new sys addr parts config = Ok sv \<Longrightarrow> lobby_of sv = empty_lobby \<and> sv_parts sv = parts \<and>
     sv_msg_buff sv = replicate (card (dom (tid_map parts))) []"
  by (auto simp: server_new_def res_simps listener_set_nonblocking_def lobby_of_def empty_lobby_def)

section \<open>Properties of the lobby\<close>

lemma server_reaches:
  assumes "server_new sys addr parts config = Ok sv" "wf_parts parts" "wf_numbering parts"
    and "server_step\<^sup>*\<^sup>* sv sv'"
  shows "wf_server sv'" "lobby_step\<^sup>*\<^sup>* empty_lobby (lobby_of sv')" "wf_lobby (lobby_of sv')"
proof -
  have "follows sv sv'" "wf_server sv'"
    using server_steps_follow [OF assms(4) wf_server_new [OF assms(1-3)]] by simp_all
  then show "wf_server sv'" "lobby_step\<^sup>*\<^sup>* empty_lobby (lobby_of sv')"
    using server_new_lobby [OF assms(1)] by (simp_all add: follows_def)
  then show "wf_lobby (lobby_of sv')" using wf_lobby_steps wf_empty_lobby by blast
qed

text \<open>
  C6: The server, built with overflow checks, refines the lobby. A new server is an empty lobby, every reachable server is a
  reachable lobby, and each operation of a reachable server, whatever its sockets do, even one that
  panics half way, is a sequence of steps the lobby allows.
\<close>

theorem server_refines_lobby:
  assumes "server_new sys addr parts config = Ok sv" "wf_parts parts" "wf_numbering parts"
    and "server_step\<^sup>*\<^sup>* sv sv1" "server_step sv1 sv2"
  shows "lobby_of sv = empty_lobby \<and> lobby_step\<^sup>*\<^sup>* empty_lobby (lobby_of sv1) \<and>
    lobby_step\<^sup>*\<^sup>* (lobby_of sv1) (lobby_of sv2) \<and> wf_lobby (lobby_of sv2)"
proof -
  note r = server_reaches [OF assms(1-4)]
  have "lobby_step\<^sup>*\<^sup>* (lobby_of sv1) (lobby_of sv2)"
    using server_step_follows [OF assms(5) r(1)] by (simp add: follows_def)
  then show ?thesis using r wf_lobby_steps server_new_lobby [OF assms(1)] by blast
qed

text \<open>
  C14: The id of a client is unique for the session, as the documentation of \<open>Server\<close> says, in a
  build with overflow checks: once a client has been alive and is so no more, no later client ever gets its id, and no connection that
  is waiting has it.
\<close>

theorem client_id_unique_for_session:
  assumes "server_new sys addr parts config = Ok sv" "wf_parts parts" "wf_numbering parts"
    and "server_step\<^sup>*\<^sup>* sv sv1" "server_alive sv1 cid"
    and "server_step\<^sup>*\<^sup>* sv1 sv2" "\<not> server_alive sv2 cid" "server_step\<^sup>*\<^sup>* sv2 sv3"
  shows "\<not> server_alive sv3 cid \<and> cid \<notin> set (map pending_cid (sv_new_cons sv3))"
proof -
  have to2: "server_step\<^sup>*\<^sup>* sv sv2" using assms(4,6) by (rule rtranclp_trans)
  note wf1 = server_reaches(1) [OF assms(1-4)] and wf2 = server_reaches(1) [OF assms(1-3) to2]
  have l12: "lobby_step\<^sup>*\<^sup>* (lobby_of sv1) (lobby_of sv2)" and l23: "lobby_step\<^sup>*\<^sup>* (lobby_of sv2) (lobby_of sv3)"
    using server_steps_follow [OF assms(6) wf1] server_steps_follow [OF assms(8) wf2] by (simp_all add: follows_def)
  have "entered cid (lobby_of sv1)"
    using server_reaches(3) [OF assms(1-4)] assms(5) by (auto simp: wf_lobby_def entered_def server_alive_def)
  from entered_steps [OF l12 this] have "spent cid (lobby_of sv2)"
    using assms(7) by (simp add: spent_def entered_def server_alive_def)
  from spent_steps [OF l23 this] show ?thesis by (simp add: spent_def server_alive_def)
qed

text \<open>A client that comes and goes, to try it on.\<close>

lemma demo_server_new_eq:
  "\<exists>sv. server_new demo_srv_os (SockAddr 1 7777) demo_parts config_default = Ok sv \<and>
     sv_current_cid sv = 0 \<and> sv_new_cons sv = [] \<and> sv_config sv = config_default \<and>
     sv_parts sv = demo_parts \<and> sv_disconnected sv = [] \<and> sv_cid_addr sv = Map.empty"
  by (simp add: server_new_def demo_srv_os_def name_res_def listener_set_nonblocking_def udp_con_new_def
    socket_set_nonblocking_def)

lemma demo_joins:
  "\<exists>sv sv1. server_new demo_srv_os (SockAddr 1 7777) demo_parts config_default = Ok sv \<and>
     server_step\<^sup>*\<^sup>* sv sv1 \<and> sv_cid_addr sv1 = [1 \<mapsto> SockAddr 1 7777] \<and> sv_parts sv1 = demo_parts \<and> wf_server sv1"
proof -
  obtain sv where sv: "server_new demo_srv_os (SockAddr 1 7777) demo_parts config_default = Ok sv"
      "sv_current_cid sv = 0" "sv_new_cons sv = []" "sv_config sv = config_default" "sv_parts sv = demo_parts"
      "sv_disconnected sv = []" "sv_cid_addr sv = Map.empty"
    using demo_server_new_eq by blast
  let ?s = "demo_stream\<lparr>rx := frame 0 [5]\<rparr>"
  let ?sva = "sv\<lparr>sv_listener := \<lparr>backlog = [Incoming ?s 0], l_nonblocking = True, l_local = None\<rparr>\<rparr>"
  let ?con = "tcp_from_stream (?s\<lparr>is_nonblocking := True\<rparr>) 2048"
  let ?sv1 = "sv\<lparr>sv_listener := \<lparr>backlog = [], l_nonblocking = True, l_local = None\<rparr>, sv_current_cid := 1,
    sv_new_cons := [(?con, 1, 0)]\<rparr>"
  have start: "server_start_incoming True ?sva = (Ok (), ?sv1)"
    by (subst server_start_incoming.simps)
      (simp add: listener_accept_def stream_set_nonblocking_def server_new_cid_def add_u32_def sv config_default_def Let_def,
        subst server_start_incoming.simps, simp add: listener_accept_def)
  have ready: "ready_con demo_parts 10 5000000000 0 ?con 5"
    unfolding ready_con_def using demo_deser [of 5 10]
    by (intro conjI exI [of _ "[5]"] exI [of _ "[]"]) (simp_all add: mid_defs fits_def)
  have "\<exists>sv'. server_handle_new_con True 0 (\<lambda>i. 0) 10 11 (\<lambda>cid c h. ((True, 6), h)) (0 :: nat) ?sva = (Ok True, 0, sv') \<and>
      map pending_cid (sv_new_cons sv') = map pending_cid ([] @ []) \<and>
      sv_cid_addr sv' = (if True then (sv_cid_addr ?sv1)(1 \<mapsto> SockAddr 1 7777) else sv_cid_addr ?sv1) \<and>
      sv_addr_cid sv' = (if True then (sv_addr_cid ?sv1)(SockAddr 1 7777 \<mapsto> 1) else sv_addr_cid ?sv1) \<and>
      (True \<longrightarrow> (\<exists>con'. sv_tcp sv' 1 = Some con' \<and>
         (\<forall>b. bc_serialize demo_bincode 11 6 = Inr b \<and> writable ?con (length b) \<longrightarrow>
            tx (tc_tcp con') = tx (tc_tcp ?con) @ frame RESPONSE_TYPE_MID b)))"
    by (rule new_con_first_ready [OF start, of "[]" _ _ _ "[]" "\<lambda>i. 0" 10 5])
      (use demo_parts_wf(1,3) ready in \<open>simp_all add: sv mid_defs config_default_def demo_stream_def\<close>)
  then obtain sv' where sv': "server_handle_new_con True 0 (\<lambda>i. 0) 10 11 (\<lambda>cid c h. ((True, 6), h)) (0 :: nat) ?sva =
      (Ok True, 0, sv')" "sv_cid_addr sv' = [1 \<mapsto> SockAddr 1 7777]"
    by (auto simp: sv)
  have s1: "server_step sv ?sva" by (rule step_listener)
  have s2: "server_step ?sva sv'" by (rule step_new_con [OF sv'(1)])
  have run: "server_step\<^sup>*\<^sup>* sv sv'" using s1 s2 by (meson rtranclp.rtrancl_into_rtrancl rtranclp.rtrancl_refl)
  have wf: "wf_server sv'" using server_reaches(1) [OF sv(1) demo_parts_wf(1,2) run] .
  have "sv_parts sv' = demo_parts"
    using server_steps_follow [OF run wf_server_new [OF sv(1) demo_parts_wf(1,2)]] sv(5) by (simp add: follows_def)
  then show ?thesis using sv(1) run sv'(2) wf by auto
qed

theorem server_refines_lobby_witness:
  "\<exists>sv sv1 r sv2. server_new demo_srv_os (SockAddr 1 7777) demo_parts config_default = Ok sv \<and>
     server_step\<^sup>*\<^sup>* sv sv1 \<and> members (lobby_of sv1) = [1 \<mapsto> SockAddr 1 7777] \<and> lobby_step\<^sup>*\<^sup>* empty_lobby (lobby_of sv1) \<and>
     server_disconnect 0 (AnyBox 12 7) 1 sv1 = (r, sv2) \<and> lobby_step\<^sup>*\<^sup>* (lobby_of sv1) (lobby_of sv2)"
proof -
  obtain sv sv1 where run: "server_new demo_srv_os (SockAddr 1 7777) demo_parts config_default = Ok sv"
      "server_step\<^sup>*\<^sup>* sv sv1" "sv_cid_addr sv1 = [1 \<mapsto> SockAddr 1 7777]"
    using demo_joins by blast
  obtain r sv2 where d: "server_disconnect 0 (AnyBox 12 7) 1 sv1 = (r, sv2)" by fastforce
  have "members (lobby_of sv1) = [1 \<mapsto> SockAddr 1 7777]" using run(3) by simp
  with server_refines_lobby [OF run(1) demo_parts_wf(1,2) run(2) step_disconnect [OF d]] run(1,2) d
  show ?thesis by blast
qed

theorem client_id_unique_for_session_witness:
  "\<exists>sv sv1 sv2. server_new demo_srv_os (SockAddr 1 7777) demo_parts config_default = Ok sv \<and>
     server_step\<^sup>*\<^sup>* sv sv1 \<and> server_alive sv1 1 \<and> server_step\<^sup>*\<^sup>* sv1 sv2 \<and>
     \<not> server_alive (server_clear_msgs sv2) 1"
proof -
  obtain sv sv1 where run: "server_new demo_srv_os (SockAddr 1 7777) demo_parts config_default = Ok sv"
      "server_step\<^sup>*\<^sup>* sv sv1" "sv_cid_addr sv1 = [1 \<mapsto> SockAddr 1 7777]" "sv_parts sv1 = demo_parts" "wf_server sv1"
    using demo_joins by blast
  then have alive: "server_alive sv1 1" by (simp add: server_alive_def)
  have "dom (sv_tcp sv1) = {1}" using run(3,5) by (simp add: wf_server_defs)
  then obtain con where con: "sv_tcp sv1 1 = Some con" by blast
  have wfc: "wf_con con" using run(5) con by (auto simp: wf_server_defs ran_def)
  let ?con = "con\<lparr>tc_tcp := demo_stream\<lparr>rx_state := RxEof\<rparr>\<rparr>"
  let ?sva = "sv1\<lparr>sv_tcp := (sv_tcp sv1)(1 \<mapsto> ?con), sv_udp := (sv_udp sv1)\<lparr>uc_udp := demo_socket\<rparr>\<rparr>"
  have socks: "socks_only sv1 (sv1\<lparr>sv_tcp := (sv_tcp sv1)(1 \<mapsto> ?con)\<rparr>)"
    using socks_only_tcp [OF con, of ?con] by simp
  have "socks_only (sv1\<lparr>sv_tcp := (sv_tcp sv1)(1 \<mapsto> ?con)\<rparr>) ?sva"
    using socks_only_udp [of "(sv_udp sv1)\<lparr>uc_udp := demo_socket\<rparr>" "sv1\<lparr>sv_tcp := (sv_tcp sv1)(1 \<mapsto> ?con)\<rparr>"] by simp
  with socks have s1: "server_step sv1 ?sva" using socks_only_trans step_sockets by blast
  obtain r svb where b: "server_recv_msgs demo_ko True ?sva = (r, svb)" by fastforce
  have s2: "server_step ?sva svb" by (rule step_recv_msgs [OF demo_ko_order b])
  have wfa: "wf_server ?sva" using server_step_wf [OF s1 run(5)] .
  have recv: "server_recv_tcp 1 ?sva = (Err ConnectionAborted ConnectionClosed, ?sva)"
    by (simp add: server_recv_tcp_def recv_nothing demo_stream_def fun_upd_idem)
  have "server_cids demo_ko ?sva = [1]" using run(3) by (simp add: server_cids_def demo_ko_def)
  then have "sv_cid_addr svb = [1 \<mapsto> SockAddr 1 7777]" "(1, Dropped (IoError ConnectionAborted ConnectionClosed)) \<in> set (sv_disconnected svb)"
    using b run(3) recv recv_from_empty [of "sv_udp ?sva" True]
    by (auto simp: server_recv_msgs_def server_tcp_loop.simps server_udp_loop.simps server_recv_udp_def
        demo_socket_def)
  moreover obtain n h sv2 where hd: "server_handle_disconnects (\<lambda>c st h. h) (0 :: nat) svb = (Ok n, h, sv2)"
      "dom (sv_cid_addr sv2) = dom (sv_cid_addr svb) - fst ` set (sv_disconnected svb)"
    using server_handle_disconnects_spec [OF server_step_wf [OF s2 wfa], of "\<lambda>c st h. h" 0] by blast
  ultimately have gone: "\<not> server_alive sv2 1" by (force simp: server_alive_def)
  have s3: "server_step svb sv2" by (rule step_handle_disconnects [OF hd(1)])
  have later: "server_step\<^sup>*\<^sup>* sv1 sv2"
    using s1 s2 s3 by (meson rtranclp.rtrancl_into_rtrancl rtranclp.rtrancl_refl)
  have "\<not> server_alive (server_clear_msgs sv2) 1"
    using client_id_unique_for_session [OF run(1) demo_parts_wf(1,2) run(2) alive later gone, of "server_clear_msgs sv2"]
      r_into_rtranclp [of server_step, OF step_clear_msgs] by blast
  then show ?thesis using run(1,2) alive later by blast
qed

end
