(* ===== verification/Typed.thy ===== *)
theory Typed
  imports Client Lobby
begin

text \<open>
  The dynamic types of received messages. A message is filed under the id of its type and read back
  as a value of a type chosen by the caller (\<open>to_typed().unwrap()\<close> in \<open>src/client.rs\<close> and
  \<open>src/server.rs\<close>): that the two types agree is an invariant of both ends.
\<close>

section \<open>Well-filed buffers\<close>

text \<open>Every message has the type registered for the id it is filed under, and an expected sender.\<close>

definition well_filed :: "'v parts \<Rightarrow> (cid \<Rightarrow> bool) \<Rightarrow> 'v msg_buff \<Rightarrow> bool" where
  "well_filed p src b \<longleftrightarrow> length b = mid_count p \<and>
     (\<forall>mid < length b. \<forall>m \<in> set (b ! mid).
        src (em_cid m) \<and> (\<forall>T. tid_map p T = Some mid \<longrightarrow> any_tid (em_msg m) = T))"

named_theorems filing

lemma well_filed_empty [filing]: "well_filed p src (replicate (mid_count p) [])"
  by (simp add: well_filed_def)

lemma well_filed_clear [filing]: "well_filed p src b \<Longrightarrow> well_filed p src (map (\<lambda>buff. []) b)"
  by (simp add: well_filed_def)

lemma well_filed_mono:
  "well_filed p src b \<Longrightarrow> (\<And>c. src c \<Longrightarrow> src' c) \<Longrightarrow> well_filed p src' b"
  by (auto simp: well_filed_def)

lemma well_filed_push:
  assumes "well_filed p src b" "push_msg mid m b = Inr b'" "src (em_cid m)"
    and "\<And>T. tid_map p T = Some mid \<Longrightarrow> any_tid (em_msg m) = T"
  shows "well_filed p src b'"
  using assms by (auto simp: well_filed_def push_msg_def nth_list_update split: if_splits)

lemma well_filed_at:
  assumes "well_filed p src b" "wf_parts p" "tid_map p T = Some mid" "m \<in> set (b ! mid)"
  shows "any_tid (em_msg m) = T" "src (em_cid m)"
proof -
  have "mid < length b" using assms(1-3) by (auto simp: well_filed_def wf_parts_def)
  then show "any_tid (em_msg m) = T" "src (em_cid m)" using assms(1,3,4) by (auto simp: well_filed_def)
qed

lemma decoded_files:
  assumes "well_filed p src b" "wf_parts p" "codec_of bc p" "decode_msg p cid time mid bytes = Ok m"
    and "push_msg (fst m) (snd m) b = Inr b'" "src cid"
  shows "well_filed p src b'"
proof (rule well_filed_push [OF assms(1,5)])
  show "src (em_cid (snd m))" using decode_msg_Ok(3) [OF assms(2,4)] assms(6) by simp
  show "any_tid (em_msg (snd m)) = T" if "tid_map p T = Some (fst m)" for T
    using decode_msg_tid [OF assms(2,3) that assms(4)] .
qed

section \<open>Reading well-filed buffers\<close>

text \<open>
  The contract of an end towards the code that reads its buffers: in every state that satisfies its
  invariant the buffers are well filed. Reading a registered type then never meets a message of
  another type.
\<close>

definition net_msg_of :: "'v erased_net_msg \<Rightarrow> 'v net_msg" where
  "net_msg_of m = \<lparr>nm_cid = em_cid m, nm_time = em_time m, nm_m = any_val (em_msg m)\<rparr>"

locale typed_buffers =
  fixes inv :: "'s \<Rightarrow> bool"
    and table :: "'s \<Rightarrow> 'v parts"
    and buffers :: "'s \<Rightarrow> 'v msg_buff"
    and sender :: "'s \<Rightarrow> cid \<Rightarrow> bool"
  assumes inv_table: "inv s \<Longrightarrow> wf_parts (table s)"
    and inv_filed: "inv s \<Longrightarrow> well_filed (table s) (sender s) (buffers s)"
begin

lemma buffer_index:
  assumes "inv s" "tid_map (table s) T = Some mid"
  shows "index (buffers s) mid = Ok (buffers s ! mid)"
  using assms inv_table [OF assms(1)] inv_filed [OF assms(1)]
  by (auto simp: well_filed_def wf_parts_def index_def)

lemma buffer_typed:
  assumes "inv s" "tid_map (table s) T = Some mid"
  shows "typed_msgs T (filter P (buffers s ! mid)) = Ok (map net_msg_of (filter P (buffers s ! mid)))"
proof -
  have "\<forall>m \<in> set (filter P (buffers s ! mid)). any_tid (em_msg m) = T"
    using well_filed_at(1) [OF inv_filed [OF assms(1)] inv_table [OF assms(1)] assms(2)] by auto
  then show ?thesis by (simp add: typed_msgs_Ok net_msg_of_def [abs_def])
qed

lemma buffer_senders:
  assumes "inv s" "tid_map (table s) T = Some mid" "n \<in> set (map net_msg_of (buffers s ! mid))"
  shows "sender s (nm_cid n)"
  using well_filed_at(2) [OF inv_filed [OF assms(1)] inv_table [OF assms(1)] assms(2)] assms(3)
  by (auto simp: net_msg_of_def)

end

section \<open>The client's buffers\<close>

definition typed_client :: "'v bincode \<Rightarrow> 'v client \<Rightarrow> bool" where
  "typed_client bc cl \<longleftrightarrow> wf_client cl \<and> codec_of bc (cl_parts cl) \<and>
     well_filed (cl_parts cl) (\<lambda>c. c = 0) (cl_msg_buff cl)"

interpretation client_box: typed_buffers "typed_client bc" cl_parts cl_msg_buff "\<lambda>cl c. c = 0"
  by unfold_locales (simp_all add: typed_client_def wf_client_def)

lemma typed_client_recv_tcp:
  assumes "typed_client bc cl" "client_recv_tcp cl = (r, cl')"
  shows "typed_client bc cl'"
    "r = Inr (mid, m) \<Longrightarrow> push_msg mid m (cl_msg_buff cl') = Inr buff \<Longrightarrow> typed_client bc (cl'\<lparr>cl_msg_buff := buff\<rparr>)"
proof -
  note frame = client_recv_tcp_frame(1) [OF assms(2)]
  have wf: "wf_client cl'" using wf_client_recv_tcp [OF _ assms(2)] assms(1) by (simp add: typed_client_def)
  then show "typed_client bc cl'" using assms(1) frame by (simp add: typed_client_def)
  assume r: "r = Inr (mid, m)" and push: "push_msg mid m (cl_msg_buff cl') = Inr buff"
  then obtain mid' bytes where "decode_msg (cl_parts cl) 0 None mid' bytes = Ok (mid, m)"
    using assms(2) by (auto simp: client_recv_tcp_def split: sum.splits prod.splits)
  with push show "typed_client bc (cl'\<lparr>cl_msg_buff := buff\<rparr>)"
    using assms(1) frame wf_client_push [OF wf push] decoded_files [of "cl_parts cl" "\<lambda>c. c = 0"]
    by (fastforce simp: typed_client_def wf_client_def)
qed

lemma typed_client_recv_udp:
  assumes "typed_client bc cl" "client_recv_udp oc cl = (r, cl')"
  shows "typed_client bc cl'"
    "r = Inr (mid, m) \<Longrightarrow> push_msg mid m (cl_msg_buff cl') = Inr buff \<Longrightarrow> typed_client bc (cl'\<lparr>cl_msg_buff := buff\<rparr>)"
proof -
  note frame = client_recv_udp_frame(1) [OF assms(2)]
  have wf: "wf_client cl'" using wf_client_recv_udp [OF _ assms(2)] assms(1) by (simp add: typed_client_def)
  then show "typed_client bc cl'" using assms(1) frame by (simp add: typed_client_def)
  assume r: "r = Inr (mid, m)" and push: "push_msg mid m (cl_msg_buff cl') = Inr buff"
  then obtain time mid' bytes where "decode_msg (cl_parts cl) 0 (Some time) mid' bytes = Ok (mid, m)"
    using assms(2) by (auto simp: client_recv_udp_def split: sum.splits prod.splits)
  with push show "typed_client bc (cl'\<lparr>cl_msg_buff := buff\<rparr>)"
    using assms(1) frame wf_client_push [OF wf push] decoded_files [of "cl_parts cl" "\<lambda>c. c = 0"]
    by (fastforce simp: typed_client_def wf_client_def)
qed

lemma typed_client_status: "typed_client bc cl \<Longrightarrow> typed_client bc (cl\<lparr>cl_status := st\<rparr>)"
  by (simp add: typed_client_def wf_client_def)

lemma typed_client_step:
  assumes "client_step cl cl'" "typed_client bc cl"
  shows "typed_client bc cl'"
proof -
  have wf: "wf_client cl'" using client_step_wf [OF assms(1)] assms(2) by (simp add: typed_client_def)
  show ?thesis
    using assms(1)
  proof (cases rule: client_step.cases)
    case (step_send now msg r)
    then obtain s u where "cl' = client_net cl s u" using client_send_frame by blast
    then show ?thesis using assms(2) wf by (simp add: typed_client_def)
  next
    case (step_disconnect now msg r)
    then obtain s u st where "cl' = (client_net cl s u)\<lparr>cl_status := st\<rparr>" using client_disconnect_frame by blast
    then show ?thesis using assms(2) wf by (simp add: typed_client_def)
  next
    case (step_recv_msgs oc r)
    show ?thesis
      by (rule client_recv_msgs_inv [of "typed_client bc" oc cl r cl', THEN conjunct1])
        (blast intro: typed_client_recv_tcp typed_client_recv_udp typed_client_status
          intro: assms(2) step_recv_msgs)+
  next
    case step_clear_msgs
    then show ?thesis using assms(2) wf by (auto simp: typed_client_def client_clear_msgs_def intro: filing)
  next
    case (step_network s u)
    then show ?thesis using assms(2) wf by (simp add: typed_client_def)
  qed
qed

lemma typed_client_steps: "client_step\<^sup>*\<^sup>* cl cl' \<Longrightarrow> typed_client bc cl \<Longrightarrow> typed_client bc cl'"
  by (induction rule: rtranclp_induct) (auto intro: typed_client_step)

section \<open>The server's buffers\<close>

text \<open>The senders of a server's messages are ids it has given out.\<close>

definition typed_server :: "'v bincode \<Rightarrow> 'v server \<Rightarrow> bool" where
  "typed_server bc sv \<longleftrightarrow> wf_server sv \<and> codec_of bc (sv_parts sv) \<and>
     well_filed (sv_parts sv) (\<lambda>c. 0 < c \<and> c \<le> sv_current_cid sv) (sv_msg_buff sv)"

interpretation server_box: typed_buffers "typed_server bc" sv_parts sv_msg_buff
    "\<lambda>sv c. 0 < c \<and> c \<le> sv_current_cid sv"
  by unfold_locales (simp_all add: typed_server_def wf_server_defs)

lemma alive_issued:
  assumes "wf_server sv" "cid \<in> dom (sv_cid_addr sv)"
  shows "0 < cid \<and> cid \<le> sv_current_cid sv"
  using assms by (auto simp: wf_server_def ids_ok_def)

lemma typed_server_recv_tcp:
  assumes "typed_server bc sv" "server_recv_tcp cid sv = (r, sv')"
  shows "typed_server bc sv'"
    "r = Inr m \<Longrightarrow> push_msg (fst m) (snd m) (sv_msg_buff sv') = Inr buff \<Longrightarrow> typed_server bc (sv'\<lparr>sv_msg_buff := buff\<rparr>)"
proof -
  note frame = server_recv_tcp_frame(1) [OF assms(2)]
  have wf0: "wf_server sv" using assms(1) by (simp add: typed_server_def)
  have wf: "wf_server sv'" using wf_socks [OF server_recv_tcp_socks [OF wf0 assms(2)] wf0] .
  then show typed: "typed_server bc sv'" using assms(1) frame by (simp add: typed_server_def)
  assume r: "r = Inr m" and push: "push_msg (fst m) (snd m) (sv_msg_buff sv') = Inr buff"
  then obtain con mid bytes where con: "sv_tcp sv cid = Some con"
      "decode_msg (sv_parts sv) cid None mid bytes = Ok m"
    using assms(2) by (auto simp: server_recv_tcp_def split: option.splits sum.splits prod.splits)
  have "cid \<in> dom (sv_cid_addr sv)" using con(1) wf0 by (auto simp: wf_server_defs)
  then have "well_filed (sv_parts sv') (\<lambda>c. 0 < c \<and> c \<le> sv_current_cid sv') buff"
    using typed wf con(2) frame alive_issued [OF wf0]
    by (intro decoded_files [OF _ _ _ _ push, where bc = bc and cid = cid and time = None and mid = mid and bytes = bytes])
      (simp_all add: typed_server_def wf_server_defs)
  then show "typed_server bc (sv'\<lparr>sv_msg_buff := buff\<rparr>)"
    using typed wf_server_push [OF wf push] by (simp add: typed_server_def)
qed

lemma typed_server_recv_udp:
  assumes "typed_server bc sv" "server_recv_udp oc sv = (r, sv')"
  shows "typed_server bc sv'"
    "r = Inr m \<Longrightarrow> push_msg (fst m) (snd m) (sv_msg_buff sv') = Inr buff \<Longrightarrow> typed_server bc (sv'\<lparr>sv_msg_buff := buff\<rparr>)"
proof -
  note frame = server_recv_udp_frame(1) [OF assms(2)]
  have wf0: "wf_server sv" using assms(1) by (simp add: typed_server_def)
  have wf: "wf_server sv'" using wf_socks [OF server_recv_udp_socks [OF assms(2)] wf0] .
  then show typed: "typed_server bc sv'" using assms(1) frame by (simp add: typed_server_def)
  assume r: "r = Inr m" and push: "push_msg (fst m) (snd m) (sv_msg_buff sv') = Inr buff"
  then obtain cid time mid bytes where m: "server_alive sv cid"
      "decode_msg (sv_parts sv) cid (Some time) mid bytes = Ok m"
    using assms(2)
    by (auto simp: server_recv_udp_def decode_msg_def res_simps split: option.splits sum.splits prod.splits if_splits)
  then have "well_filed (sv_parts sv') (\<lambda>c. 0 < c \<and> c \<le> sv_current_cid sv') buff"
    using typed wf frame alive_issued [OF wf0]
    by (intro decoded_files [OF _ _ _ _ push, where bc = bc and cid = cid and time = "Some time" and mid = mid and bytes = bytes])
      (simp_all add: typed_server_def wf_server_defs server_alive_def)
  then show "typed_server bc (sv'\<lparr>sv_msg_buff := buff\<rparr>)"
    using typed wf_server_push [OF wf push] by (simp add: typed_server_def)
qed

lemma typed_advances:
  assumes "advances sv sv'" "wf_server sv'" "typed_server bc sv"
  shows "typed_server bc sv'"
proof -
  have "unat (sv_current_cid sv) \<le> unat (sv_current_cid sv')"
    using issued_steps [of "lobby_of sv" "lobby_of sv'"] assms(1) by (simp add: advances_def follows_def)
  then have "sv_current_cid sv \<le> sv_current_cid sv'" by (simp add: word_le_nat_alt)
  then have "c \<le> sv_current_cid sv \<Longrightarrow> c \<le> sv_current_cid sv'" for c using order_trans by blast
  then show ?thesis
    using assms by (auto simp: typed_server_def advances_def follows_def intro: well_filed_mono)
qed

lemma typed_recv_keeps: "recv_keeps C U (typed_server bc)"
proof (rule recv_keepsI)
  fix cid r and sv sv' :: "'a server"
  assume "typed_server bc sv" "server_recv_tcp cid sv = (r, sv')"
  then show "typed_server bc sv'" by (rule typed_server_recv_tcp(1))
next
  fix cid m buff and sv sv' :: "'a server"
  assume "typed_server bc sv" "server_recv_tcp cid sv = (Inr m, sv')"
    "push_msg (fst m) (snd m) (sv_msg_buff sv') = Inr buff"
  then show "typed_server bc (sv'\<lparr>sv_msg_buff := buff\<rparr>)" by (rule typed_server_recv_tcp(2) [OF _ _ refl])
next
  fix oc r and sv sv' :: "'a server"
  assume "typed_server bc sv" "server_recv_udp oc sv = (r, sv')"
  then show "typed_server bc sv'" by (rule typed_server_recv_udp(1))
next
  fix oc m buff and sv sv' :: "'a server"
  assume "typed_server bc sv" "server_recv_udp oc sv = (Inr m, sv')"
    "push_msg (fst m) (snd m) (sv_msg_buff sv') = Inr buff"
  then show "typed_server bc (sv'\<lparr>sv_msg_buff := buff\<rparr>)" by (rule typed_server_recv_udp(2) [OF _ _ refl])
qed (simp add: typed_server_def)

lemma typed_server_step:
  assumes "server_step sv sv'" "typed_server bc sv"
  shows "typed_server bc sv'"
proof -
  have wf0: "wf_server sv" and wf: "wf_server sv'"
    using assms(2) server_step_wf [OF assms(1)] by (simp_all add: typed_server_def)
  show ?thesis
    using server_step_advances [OF assms(1) wf0]
  proof (elim disjE exE conjE)
    assume "advances sv sv'"
    then show ?thesis using typed_advances wf assms(2) by blast
  next
    fix ko r assume r: "server_recv_msgs ko True sv = (r, sv')"
    from server_recv_msgs_inv [OF typed_recv_keeps assms(2) r] show ?thesis by blast
  next
    assume "sv' = server_clear_msgs sv"
    then show ?thesis using assms(2) wf by (auto simp: typed_server_def server_clear_msgs_def intro: filing)
  qed
qed

lemma typed_server_steps: "server_step\<^sup>*\<^sup>* sv sv' \<Longrightarrow> typed_server bc sv \<Longrightarrow> typed_server bc sv'"
  by (induction rule: rtranclp_induct) (auto intro: typed_server_step)

lemma typed_server_new:
  assumes "server_new sys addr parts config = Ok sv" "wf_parts parts" "wf_numbering parts" "codec_of bc parts"
  shows "typed_server bc sv"
proof -
  have "card (dom (tid_map parts)) = mid_count parts"
    using assms(3) bij_betw_same_card by (fastforce simp: wf_numbering_def)
  then show ?thesis
    using wf_server_new [OF assms(1-3)] server_new_lobby [OF assms(1)] assms(4)
    by (auto simp: typed_server_def intro: filing)
qed

section \<open>Properties of reading\<close>

lemma client_step_parts:
  assumes "client_step cl cl'"
  shows "cl_parts cl' = cl_parts cl"
  using assms
proof (cases rule: client_step.cases)
  case (step_send now msg r)
  then show ?thesis using client_send_frame by fastforce
next
  case (step_disconnect now msg r)
  then show ?thesis using client_disconnect_frame by fastforce
next
  case (step_recv_msgs oc r)
  show ?thesis
    by (rule client_recv_msgs_inv [of "\<lambda>c. cl_parts c = cl_parts cl" oc cl, THEN conjunct1])
      (use step_recv_msgs client_recv_tcp_frame(1) client_recv_udp_frame(1) in fastforce)+
qed (simp_all add: client_clear_msgs_def)

lemma client_steps_parts: "client_step\<^sup>*\<^sup>* cl cl' \<Longrightarrow> cl_parts cl' = cl_parts cl"
  by (induction rule: rtranclp_induct) (auto dest: client_step_parts)

text \<open>
  C16: Reading messages at a client is type-safe. From the creation of a client on, through any
  sequence of its operations and of events on its sockets, \<open>recv::<T>\<close> of a registered type never
  panics: it yields every message filed under the id of \<open>T\<close>, all from the server (id 0), and
  \<open>try_recv::<T>\<close> the same; for a type that is not registered \<open>recv\<close> panics and \<open>try_recv\<close> is
  \<open>None\<close>.
\<close>

theorem client_reads_typed:
  assumes "client_new_blocking sys now peer parts config con_msg = Ok (cl, resp)"
    and "wf_parts parts" "codec_of bc parts" "tid_map parts R = Some RESPONSE_TYPE_MID"
    and "client_step\<^sup>*\<^sup>* cl cl'"
  shows "case tid_map parts T of
      None \<Rightarrow> client_recv T cl' = panics NotRegistered \<and> client_try_recv T cl' = Ok None
    | Some mid \<Rightarrow> \<exists>ns. ns = map net_msg_of (cl_msg_buff cl' ! mid) \<and> client_recv T cl' = Ok ns \<and>
        client_try_recv T cl' = Ok (Some ns) \<and> (\<forall>n \<in> set ns. nm_cid n = 0)"
proof -
  note cl = new_blocking_result [OF assms(1-4)]
  have "typed_client bc cl" using cl assms(3) well_filed_empty by (simp add: typed_client_def)
  from typed_client_steps [OF assms(5) this] have inv: "typed_client bc cl'" "cl_parts cl' = parts"
    using client_steps_parts [OF assms(5)] cl by simp_all
  show ?thesis
  proof (cases "tid_map parts T")
    case None
    then show ?thesis using inv(2) by (simp add: client_recv_def client_try_recv_def valid_tid_def domIff)
  next
    case (Some mid)
    note T = Some [folded inv(2)]
    let ?ns = "map net_msg_of (cl_msg_buff cl' ! mid)"
    have reads: "typed_msgs T (cl_msg_buff cl' ! mid) = Ok ?ns"
      using client_box.buffer_typed [OF inv(1) T, of "\<lambda>_. True"] by simp
    have "client_recv T cl' = Ok ?ns" "client_try_recv T cl' = Ok (Some ?ns)"
      using client_box.buffer_index [OF inv(1) T] reads T
      by (simp_all add: client_recv_def client_try_recv_def valid_tid_def domI hash_index_def)
    moreover have "\<forall>n \<in> set ?ns. nm_cid n = 0" using client_box.buffer_senders [OF inv(1) T] by blast
    ultimately show ?thesis using Some by simp
  qed
qed

theorem client_reads_typed_witness:
  "\<exists>cl. client_new_blocking demo_os 0 (SockAddr 1 7777) demo_parts config_default (AnyBox 10 5) = Ok (cl, AnyBox 11 6) \<and>
     client_recv 13 (client_clear_msgs cl) = Ok (map net_msg_of (cl_msg_buff (client_clear_msgs cl) ! 3)) \<and>
     client_recv 99 (client_clear_msgs cl) = panics NotRegistered"
proof -
  obtain cl where c: "client_new_blocking demo_os 0 (SockAddr 1 7777) demo_parts config_default (AnyBox 10 5) =
      Ok (cl, AnyBox 11 6)" using demo_client_connects by blast
  have "client_step\<^sup>*\<^sup>* cl (client_clear_msgs cl)" by (rule r_into_rtranclp) (rule client_step.step_clear_msgs)
  from client_reads_typed [OF c demo_parts_wf(1,3) _ this, of 11 13]
    client_reads_typed [OF c demo_parts_wf(1,3) _ this, of 11 99] c
  show ?thesis by (simp add: mid_defs)
qed

text \<open>
  C15: Reading messages at a server built with overflow checks is type-safe. In every reachable state,
  \<open>recv::<T>\<close> of a
  registered type never panics and yields every message filed under the id of \<open>T\<close>, each from a
  client the server has given an id; \<open>recv_spec\<close> yields of these just the ones whose sender matches
  the specification; the \<open>try\<close> variants yield the same; for a type that is not registered the two
  panic and their \<open>try\<close> variants are \<open>None\<close>.
\<close>

theorem server_reads_typed:
  assumes "server_new sys addr parts config = Ok sv" "wf_parts parts" "wf_numbering parts" "codec_of bc parts"
    and "server_step\<^sup>*\<^sup>* sv sv'"
  shows "case tid_map parts T of
      None \<Rightarrow> server_recv T sv' = panics NotRegistered \<and> server_recv_spec spec T sv' = panics NotRegistered \<and>
        server_try_recv T sv' = Ok None \<and> server_try_recv_spec spec T sv' = Ok None
    | Some mid \<Rightarrow> \<exists>ns. ns = map net_msg_of (sv_msg_buff sv' ! mid) \<and> server_recv T sv' = Ok ns \<and>
        server_try_recv T sv' = Ok (Some ns) \<and>
        server_recv_spec spec T sv' = Ok (filter (\<lambda>n. cid_matches spec (nm_cid n)) ns) \<and>
        server_try_recv_spec spec T sv' = Ok (Some (filter (\<lambda>n. cid_matches spec (nm_cid n)) ns)) \<and>
        (\<forall>n \<in> set ns. 0 < nm_cid n \<and> nm_cid n \<le> sv_current_cid sv')"
proof -
  have wf: "wf_server sv" using wf_server_new [OF assms(1-3)] .
  have inv: "typed_server bc sv'" using typed_server_steps [OF assms(5) typed_server_new [OF assms(1-4)]] .
  have parts: "sv_parts sv' = parts"
    using server_steps_follow [OF assms(5) wf] server_new_lobby [OF assms(1)] by (simp add: follows_def)
  show ?thesis
  proof (cases "tid_map parts T")
    case None
    then show ?thesis using parts
      by (simp add: server_recv_def server_try_recv_def server_recv_spec_def server_try_recv_spec_def
        valid_tid_def domIff)
  next
    case (Some mid)
    note T = Some [folded parts]
    have pick: "map net_msg_of (filter (\<lambda>m. cid_matches spec (em_cid m)) ms) =
        filter (\<lambda>n. cid_matches spec (nm_cid n)) (map net_msg_of ms)" for ms :: "'a erased_net_msg list"
      by (induction ms) (simp_all add: net_msg_of_def)
    let ?ns = "map net_msg_of (sv_msg_buff sv' ! mid)"
    have reads: "typed_msgs T (sv_msg_buff sv' ! mid) = Ok ?ns"
        "typed_msgs T (filter (\<lambda>m. cid_matches spec (em_cid m)) (sv_msg_buff sv' ! mid)) =
          Ok (filter (\<lambda>n. cid_matches spec (nm_cid n)) ?ns)"
      using server_box.buffer_typed [OF inv T, of "\<lambda>_. True"]
        server_box.buffer_typed [OF inv T, of "\<lambda>m. cid_matches spec (em_cid m)"] pick by simp_all
    have "server_recv T sv' = Ok ?ns" "server_try_recv T sv' = Ok (Some ?ns)"
      "server_recv_spec spec T sv' = Ok (filter (\<lambda>n. cid_matches spec (nm_cid n)) ?ns)"
      "server_try_recv_spec spec T sv' = Ok (Some (filter (\<lambda>n. cid_matches spec (nm_cid n)) ?ns))"
      using server_box.buffer_index [OF inv T] reads T
      by (simp_all add: server_recv_def server_try_recv_def server_recv_spec_def server_try_recv_spec_def
        valid_tid_def domI hash_index_def)
    moreover have "\<forall>n \<in> set ?ns. 0 < nm_cid n \<and> nm_cid n \<le> sv_current_cid sv'"
      using server_box.buffer_senders [OF inv T] by blast
    ultimately show ?thesis using Some by simp
  qed
qed

theorem server_reads_typed_witness:
  "\<exists>sv. server_new demo_srv_os (SockAddr 1 7777) demo_parts config_default = Ok sv \<and>
     server_recv 13 (server_clear_msgs sv) = Ok (map net_msg_of (sv_msg_buff (server_clear_msgs sv) ! 3)) \<and>
     server_try_recv_spec (CIdOnly 1) 99 (server_clear_msgs sv) = Ok None"
proof -
  obtain sv where sv: "server_new demo_srv_os (SockAddr 1 7777) demo_parts config_default = Ok sv"
    using demo_server_new by blast
  have "server_step\<^sup>*\<^sup>* sv (server_clear_msgs sv)" by (rule r_into_rtranclp) (rule server_step.step_clear_msgs)
  from server_reads_typed [OF sv demo_parts_wf this, of 13 CIdAll]
    server_reads_typed [OF sv demo_parts_wf this, of 99 "CIdOnly 1"] sv
  show ?thesis by simp
qed

end
