(* ===== verification/Link.thy ===== *)
theory Link
  imports Client Server_Properties
begin

text \<open>
  Both ends together: what one end sends with its own operations and the network delivers, the
  other end hands to the application. The network is the assumption that the bytes one socket has
  written are the bytes the other one reads; \<open>bincode\<close> is assumed to decode what it encoded.
\<close>

section \<open>Values on the wire\<close>

definition encodes :: "'v bincode \<Rightarrow> 'v parts \<Rightarrow> 'v any \<Rightarrow> mid \<times> byte list \<Rightarrow> bool" where
  "encodes bc parts m fr \<longleftrightarrow> tid_map parts (any_tid m) = Some (fst fr) \<and>
     bc_serialize bc (any_tid m) (any_val m) = Inr (snd fr)"

text \<open>A message that goes over TCP, ends no conversation, and survives encoding and decoding.\<close>

abbreviation survives :: "'v bincode \<Rightarrow> 'v any \<Rightarrow> bool" where
  "survives bc m \<equiv>
     \<forall>b. bc_serialize bc (any_tid m) (any_val m) = Inr b \<longrightarrow> bc_deserialize bc (any_tid m) b = Inr (any_val m)"

definition carried :: "'v bincode \<Rightarrow> 'v parts \<Rightarrow> 'v any \<Rightarrow> bool" where
  "carried bc parts m \<longleftrightarrow> (\<exists>mid. tid_map parts (any_tid m) = Some mid \<and> mid \<noteq> DISCONNECT_TYPE_MID \<and>
     transports parts ! mid = TCP) \<and> survives bc m"

abbreviation over_tcp :: "'v parts \<Rightarrow> 'v any \<Rightarrow> bool" where
  "over_tcp parts m \<equiv> \<exists>mid. tid_map parts (any_tid m) = Some mid \<and> transports parts ! mid = TCP"

lemma carried_over_tcp: "carried bc parts m \<Longrightarrow> over_tcp parts m"
  by (auto simp: carried_def)

primrec server_sends :: "int \<Rightarrow> cid \<Rightarrow> 'v any list \<Rightarrow> 'v server \<Rightarrow> unit res \<times> 'v server" where
  "server_sends now cid [] sv = (Ok (), sv)"
| "server_sends now cid (m # ms) sv =
     and_then_st (server_send_to now cid m sv) (\<lambda>_ sv. server_sends now cid ms sv)"

primrec client_sends :: "int \<Rightarrow> 'v any list \<Rightarrow> 'v client \<Rightarrow> unit res \<times> 'v client" where
  "client_sends now [] cl = (Ok (), cl)"
| "client_sends now (m # ms) cl = and_then_st (client_send now m cl) (\<lambda>_ cl. client_sends now ms cl)"

definition wire :: "(mid \<times> byte list) list \<Rightarrow> byte list" where
  "wire frames = concat (map (\<lambda>(mid, payload). frame mid payload) frames)"

lemma wire_append: "wire (fs @ gs) = wire fs @ wire gs"
  by (simp add: wire_def)

lemma tcp_con_send_wire:
  assumes "tcp_con_send mid b con = (Ok (), con')"
  shows "tx (tc_tcp con') = tx (tc_tcp con) @ frame mid b" "length (tc_buff con') = length (tc_buff con)"
    "length b \<le> tcp_max_msg_size con"
  using assms by (auto simp: tcp_con_send_Ok tcp_buff_size_def tcp_max_msg_size_def)

lemma server_sends_wire:
  assumes "wf_parts parts" "codec_of bc parts"
  shows "server_sends now cid ms sv = (Ok (), sv') \<Longrightarrow> sv_parts sv = parts \<Longrightarrow> sv_tcp sv cid = Some con \<Longrightarrow>
    \<forall>m \<in> set ms. over_tcp parts m \<Longrightarrow>
    \<exists>con' frames. sv_tcp sv' cid = Some con' \<and> tx (tc_tcp con') = tx (tc_tcp con) @ wire frames \<and>
      list_all2 (encodes bc parts) ms frames \<and> (\<forall>fr \<in> set frames. length (snd fr) \<le> tcp_max_msg_size con) \<and>
      length (tc_buff con') = length (tc_buff con) \<and> sv_parts sv' = parts"
proof (induction ms arbitrary: sv con)
  case Nil
  then show ?case by (auto simp: wire_def)
next
  case (Cons m ms)
  obtain T v where m: "m = AnyBox T v" by (cases m)
  obtain mid where mid: "tid_map parts T = Some mid" "transports parts ! mid = TCP"
    using Cons.prems(4) by (auto simp: m)
  obtain q sv1 where s1: "server_send_to now cid (AnyBox T v) sv = (q, sv1)" by fastforce
  then have q: "q = Ok ()" "server_sends now cid ms sv1 = (Ok (), sv')"
    using Cons.prems(1) by (cases q; simp add: m)+
  obtain b con1 where b: "bc_serialize bc T v = Inr b" "tcp_con_send mid b con = (Ok (), con1)"
      "sv1 = sv\<lparr>sv_tcp := (sv_tcp sv)(cid \<mapsto> con1)\<rparr>"
    using server_send_to_tcp [of sv bc T mid cid con now v] assms mid Cons.prems(2,3) s1 q(1)
    by (auto split: sum.splits prod.splits)
  note w = tcp_con_send_wire [OF b(2)]
  have "sv_parts sv1 = parts" "sv_tcp sv1 cid = Some con1" "\<forall>m \<in> set ms. over_tcp parts m"
    using b(3) Cons.prems(2,4) by simp_all
  from Cons.IH [OF q(2) this] obtain con' frames where
    "sv_tcp sv' cid = Some con'" "tx (tc_tcp con') = tx (tc_tcp con1) @ wire frames"
    "list_all2 (encodes bc parts) ms frames" "\<forall>fr \<in> set frames. length (snd fr) \<le> tcp_max_msg_size con1"
    "length (tc_buff con') = length (tc_buff con1)" "sv_parts sv' = parts"
    by blast
  moreover have "encodes bc parts m (mid, b)" using b(1) mid(1) by (simp add: encodes_def m)
  ultimately show ?case
    using w by (intro exI [of _ con'] exI [of _ "(mid, b) # frames"])
      (simp add: wire_def tcp_max_msg_size_def)
qed

lemma client_send_tcp_any:
  assumes "wf_parts (cl_parts cl)" "codec_of bc (cl_parts cl)" "tid_map (cl_parts cl) T = Some mid"
    "transports (cl_parts cl) ! mid = TCP" "client_send now (AnyBox T v) cl = (Ok (), cl')"
  shows "\<exists>b t. bc_serialize bc T v = Inr b \<and> tcp_con_send mid b (cl_tcp cl) = (Ok (), t) \<and> cl' = cl\<lparr>cl_tcp := t\<rparr>"
proof (cases "bc_serialize bc T v")
  case (Inl e)
  then show ?thesis using assms lookup_codec [OF assms(1-4), of map_ser_error v]
    by (simp add: client_send_def valid_tid_def domI Let_def)
next
  case (Inr b)
  then show ?thesis using assms lookup_codec [OF assms(1-4), of map_ser_error v]
    by (auto simp: client_send_def valid_tid_def domI Let_def client_send_tcp_def split: prod.splits)
qed

lemma client_sends_wire:
  assumes "wf_parts parts" "codec_of bc parts"
  shows "client_sends now ms cl = (Ok (), cl') \<Longrightarrow> cl_parts cl = parts \<Longrightarrow>
    \<forall>m \<in> set ms. over_tcp parts m \<Longrightarrow>
    \<exists>frames. tx (tc_tcp (cl_tcp cl')) = tx (tc_tcp (cl_tcp cl)) @ wire frames \<and>
      list_all2 (encodes bc parts) ms frames \<and>
      (\<forall>fr \<in> set frames. length (snd fr) \<le> tcp_max_msg_size (cl_tcp cl)) \<and>
      length (tc_buff (cl_tcp cl')) = length (tc_buff (cl_tcp cl)) \<and> cl_parts cl' = parts"
proof (induction ms arbitrary: cl)
  case Nil
  then show ?case by (auto simp: wire_def)
next
  case (Cons m ms)
  obtain T v where m: "m = AnyBox T v" by (cases m)
  obtain mid where mid: "tid_map parts T = Some mid" "transports parts ! mid = TCP"
    using Cons.prems(3) by (auto simp: m)
  obtain q cl1 where s1: "client_send now (AnyBox T v) cl = (q, cl1)" by fastforce
  then have q: "q = Ok ()" "client_sends now ms cl1 = (Ok (), cl')"
    using Cons.prems(1) by (cases q; simp add: m)+
  obtain b t where b: "bc_serialize bc T v = Inr b" "tcp_con_send mid b (cl_tcp cl) = (Ok (), t)"
      "cl1 = cl\<lparr>cl_tcp := t\<rparr>"
    using client_send_tcp_any [of cl bc T mid now v cl1] assms mid Cons.prems(2) s1 q(1) by auto
  note w = tcp_con_send_wire [OF b(2)]
  have "cl_parts cl1 = parts" "\<forall>m \<in> set ms. over_tcp parts m" using b(3) Cons.prems(2,3) by simp_all
  from Cons.IH [OF q(2) this] obtain frames where
    "tx (tc_tcp (cl_tcp cl')) = tx (tc_tcp (cl_tcp cl1)) @ wire frames"
    "list_all2 (encodes bc parts) ms frames"
    "\<forall>fr \<in> set frames. length (snd fr) \<le> tcp_max_msg_size (cl_tcp cl1)"
    "length (tc_buff (cl_tcp cl')) = length (tc_buff (cl_tcp cl1))" "cl_parts cl' = parts"
    by blast
  moreover have "encodes bc parts m (mid, b)" using b(1) mid(1) by (simp add: encodes_def m)
  ultimately show ?case
    using w b(3) by (intro exI [of _ "(mid, b) # frames"]) (simp add: wire_def tcp_max_msg_size_def)
qed

section \<open>What arrives\<close>

definition received :: "'v parts \<Rightarrow> cid \<Rightarrow> 'v any \<Rightarrow> mid \<times> 'v erased_net_msg" where
  "received parts cid m = (the (tid_map parts (any_tid m)), \<lparr>em_cid = cid, em_time = None, em_msg = m\<rparr>)"

lemma encodes_decoded:
  assumes "wf_parts parts" "codec_of bc parts" "survives bc m" "encodes bc parts m fr"
  shows "decoded parts cid fr (received parts cid m) \<and> fst fr < mid_count parts"
proof -
  obtain T v where m: "m = AnyBox T v" by (cases m)
  have fr: "tid_map parts T = Some (fst fr)" "bc_deserialize bc T (snd fr) = Inr v"
    using assms(3,4) by (auto simp: encodes_def m)
  have "fst fr < mid_count parts" "length (deser parts) = mid_count parts" "deser parts ! fst fr = deser_closure bc T"
    using assms(1,2) fr(1) by (auto simp: wf_parts_def codec_of_def)
  then show ?thesis using fr
    by (simp add: decoded_def decode_msg_def decode_any_def valid_mid_def index_def deser_closure_def received_def m)
qed

lemma received_disconnect:
  "tid_map parts (any_tid m) = Some mid \<Longrightarrow> is_disconnect (received parts cid m) \<longleftrightarrow> mid = DISCONNECT_TYPE_MID"
  by (simp add: received_def is_disconnect_def)

lemma carried_received: "carried bc parts m \<Longrightarrow> \<not> is_disconnect (received parts cid m)"
  unfolding carried_def by (metis received_disconnect)

lemma wire_arrives:
  assumes "wf_parts parts" "codec_of bc parts" "mid_count parts \<le> 65536"
    and "\<forall>m \<in> set ms. survives bc m" "list_all2 (encodes bc parts) ms frames"
    and "\<forall>fr \<in> set frames. length (snd fr) \<le> n" "n \<le> tcp_max_msg_size con" "n < 65536"
    and "wf_con con" "rx (tc_tcp con) = wire frames @ bs" "length bs < 4"
  shows "offers_frames (Tail bs (rx_state (tc_tcp con))) con frames"
    "list_all2 (decoded parts cid) frames (map (received parts cid) ms)"
proof -
  have all: "list_all2 (\<lambda>m fr. decoded parts cid fr (received parts cid m) \<and> fst fr < mid_count parts) ms frames"
  proof (rule list_all2_all_nthI)
    show "length ms = length frames" using assms(5) by (rule list_all2_lengthD)
    fix i assume i: "i < length ms"
    then have "survives bc (ms ! i)" "encodes bc parts (ms ! i) (frames ! i)"
      using assms(4) by (simp_all add: list_all2_nthD [OF assms(5)])
    then show "decoded parts cid (frames ! i) (received parts cid (ms ! i)) \<and> fst (frames ! i) < mid_count parts"
      by (rule encodes_decoded [OF assms(1,2)])
  qed
  have "fits (tcp_max_msg_size con) fr" if "fr \<in> set frames" for fr
  proof -
    have "fst fr < mid_count parts" using all that by (auto simp: list_all2_conv_all_nth in_set_conv_nth)
    moreover have "length (snd fr) \<le> n" using assms(6) that by blast
    ultimately show ?thesis using assms(3,7,8) by (simp add: fits_def)
  qed
  then show "offers_frames (Tail bs (rx_state (tc_tcp con))) con frames"
    using assms(9-11) by (simp add: offers_frames_def wire_def)
  show "list_all2 (decoded parts cid) frames (map (received parts cid) ms)"
    using all by (auto simp: list_all2_conv_all_nth)
qed

lemma carried_arrives:
  assumes "\<forall>m \<in> set ms. carried bc parts m"
  shows "\<forall>m \<in> set ms. survives bc m" "\<forall>m \<in> set (map (received parts cid) ms). \<not> is_disconnect m"
proof -
  show "\<forall>m \<in> set ms. survives bc m" using assms by (simp add: carried_def)
  show "\<forall>m \<in> set (map (received parts cid) ms). \<not> is_disconnect m" using assms carried_received by fastforce
qed

lemma msgs_for_received:
  assumes "wf_parts parts" "wf_numbering parts" "tid_map parts T = Some mid" "\<forall>m \<in> set ms. carried bc parts m"
  shows "map (\<lambda>m. \<lparr>nm_cid = em_cid m, nm_time = em_time m, nm_m = any_val (em_msg m)\<rparr>)
      (msgs_for mid (map (received parts cid) ms)) =
    map (\<lambda>m. \<lparr>nm_cid = cid, nm_time = None, nm_m = any_val m\<rparr>) (filter (\<lambda>m. any_tid m = T) ms)"
proof -
  have "inj_on (the \<circ> tid_map parts) (dom (tid_map parts))"
    using assms(2) by (simp add: wf_numbering_def bij_betw_def)
  then have "the (tid_map parts (any_tid m)) = mid \<longleftrightarrow> any_tid m = T" if "m \<in> set ms" for m
    using assms(3,4) that unfolding carried_def inj_on_def
    by (metis comp_apply domI option.sel)
  then show ?thesis using assms(4)
    by (induction ms) (auto simp: msgs_for_def received_def)
qed

section \<open>Properties of the two ends together\<close>

text \<open>
  C4: From server to client. The values a server sends to a client with \<open>send_to\<close>, over TCP, are
  the values \<open>recv::<T>\<close> yields at that client after a round of \<open>clear_msgs\<close> and \<open>recv_msgs\<close>,
  type by type, each once, in the order of sending, when all their bytes have arrived and both ends
  built their table alike; also when the stream behind them has ended or failed, which the client's
  status then tells.
\<close>

theorem server_values_reach_client:
  assumes "wf_parts parts" "wf_numbering parts" "codec_of bc parts" "mid_count parts \<le> 65536"
    and "sv_parts sv = parts" "cl_parts cl = parts" "\<forall>m \<in> set msgs. carried bc parts m"
    and "sv_tcp sv cid = Some con" "tx (tc_tcp con) = []" "tcp_max_msg_size con < 65536"
    and "server_sends now cid msgs sv = (Ok (), sv')" "sv_tcp sv' cid = Some con'"
    and "wf_client cl" "cl_status cl = Connected"
    and "rx (tc_tcp (cl_tcp cl)) = tx (tc_tcp con')" "urx (uc_udp (cl_udp cl)) = []"
    and "tcp_max_msg_size con \<le> tcp_max_msg_size (cl_tcp cl)" "tid_map parts T = Some mid"
  shows "\<exists>cl'. client_recv_msgs oc (client_clear_msgs cl) = (Ok (word_of_nat (length msgs)), cl') \<and>
    cl_status cl' = (case ending (Tail [] (rx_state (tc_tcp (cl_tcp cl)))) of None \<Rightarrow> Connected | Some e \<Rightarrow> Dropped e) \<and>
    client_recv T cl' = Ok (map (\<lambda>m. \<lparr>nm_cid = 0, nm_time = None, nm_m = any_val m\<rparr>)
      (filter (\<lambda>m. any_tid m = T) msgs))"
proof -
  let ?st = "Tail [] (rx_state (tc_tcp (cl_tcp cl)))"
  obtain frames where f: "tx (tc_tcp con') = wire frames" "list_all2 (encodes bc parts) msgs frames"
      "\<forall>fr \<in> set frames. length (snd fr) \<le> tcp_max_msg_size con"
    using server_sends_wire [OF assms(1,3,11,5,8)] carried_over_tcp assms(7,9,12) by fastforce
  have wf: "wf_con (cl_tcp cl)" "wf_ucon (cl_udp cl)" using assms(13) by (simp_all add: wf_client_def)
  have rx: "rx (tc_tcp (cl_tcp cl)) = wire frames @ []" using assms(15) f(1) by simp
  note arr = wire_arrives [OF assms(1,3,4) carried_arrives(1) [OF assms(7)] f(2,3) assms(17,10) wf(1) rx, simplified]
  have offers: "client_offers ?st (0, cl) (map (received parts 0) msgs)" using arr(1,2) assms(6) by auto
  have udp: "client_holds_udp oc (0, cl) []" using wf(2) assms(16) by (simp add: holds_datagrams_def)
  have "codec_of bc (cl_parts cl)" "tid_map (cl_parts cl) T = Some mid" using assms(3,6,18) by simp_all
  from client_round_recv [OF assms(13,14) offers udp this] show ?thesis
    using msgs_for_received [OF assms(1,2,18,7), where cid = 0] carried_arrives(2) [OF assms(7)]
    by (auto simp: outcome_def find_none upto_stop_none takeWhile_eq_all_conv [THEN iffD2])
qed

theorem server_values_reach_client_witness:
  "\<exists>cl'. client_recv_msgs True (client_clear_msgs (demo_client (frame 3 [7]))) = (Ok 1, cl') \<and>
     client_recv 13 cl' = Ok [\<lparr>nm_cid = 0, nm_time = None, nm_m = 7\<rparr>]"
proof -
  let ?sv = "demo_live [] [] [] []" and ?con = "demo_accepted (SockAddr 2 9) []"
  have con: "sv_tcp ?sv 1 = Some ?con" "tx (tc_tcp ?con) = []" "tcp_max_msg_size ?con = 16" by simp_all
  have "writable ?con 1"
    by (simp add: writable_def demo_accepted_def demo_con_def tcp_buff_size_def tcp_from_stream_def demo_stream_def)
  then obtain con' where con': "tcp_con_send 3 [7] ?con = (Ok (), con')" "tx (tc_tcp con') = frame 3 [7]"
    using writable_send [of ?con "[7]" 3] by auto
  let ?sv' = "?sv\<lparr>sv_tcp := (sv_tcp ?sv)(1 \<mapsto> con')\<rparr>"
  have sent: "server_sends 0 1 [AnyBox 13 7] ?sv = (Ok (), ?sv')" "sv_tcp ?sv' 1 = Some con'"
    using server_send_to_tcp [of ?sv demo_bincode 13 3 1 ?con 0 7] demo_parts_wf con'(1)
    by (simp_all add: demo_bincode_def)
  have "\<forall>m \<in> set [AnyBox 13 7]. carried demo_bincode demo_parts m"
    by (simp add: carried_def mid_defs demo_bincode_def)
  moreover have "urx (uc_udp (cl_udp (demo_client (frame 3 [7])))) = []"
    by (simp add: demo_client_def demo_ucon_def demo_socket_def)
  ultimately show ?thesis
    using server_values_reach_client [of demo_parts demo_bincode ?sv "demo_client (frame 3 [7])" "[AnyBox 13 7]"
        1 ?con 0 ?sv' con' 13 3 True] demo_parts_wf con sent con'(2)
    by auto
qed

text \<open>
  C3: From client to server. The values a client sends over TCP are the values
  \<open>recv_spec::<T>(Only(cid))\<close> yields at the server for that client's id, type by type, each once
  and in order, whatever the other clients send and in whatever order they are served, also when the
  stream behind them has ended or failed; then the client is queued with the error, else it is not.
\<close>

theorem client_values_reach_server:
  assumes "wf_parts parts" "wf_numbering parts" "codec_of bc parts" "mid_count parts \<le> 65536"
    and "sv_parts sv = parts" "cl_parts cl = parts" "\<forall>m \<in> set msgs. carried bc parts m"
    and "client_sends now msgs cl = (Ok (), cl')" "tx (tc_tcp (cl_tcp cl)) = []"
    and "tcp_max_msg_size (cl_tcp cl) < 65536" "wf_server sv" "key_order ko"
    and "sv_tcp sv cid = Some con" "rx (tc_tcp con) = tx (tc_tcp (cl_tcp cl'))"
    and "tcp_max_msg_size (cl_tcp cl) \<le> tcp_max_msg_size con"
    and "\<forall>c \<in> dom (sv_cid_addr sv) - {cid}. srv_offers (st c) c (0, sv) (ms c)" "urx (uc_udp (sv_udp sv)) = []"
    and "tid_map parts T = Some mid"
  shows "\<exists>n sv'. server_recv_msgs ko oc (server_clear_msgs sv) = (Ok n, sv') \<and>
    server_recv_spec (CIdOnly cid) T sv' = Ok (map (\<lambda>m. \<lparr>nm_cid = cid, nm_time = None, nm_m = any_val m\<rparr>)
      (filter (\<lambda>m. any_tid m = T) msgs)) \<and>
    filter (\<lambda>p. fst p = cid) (sv_disconnected sv') = filter (\<lambda>p. fst p = cid) (sv_disconnected sv) @
      (case ending (Tail [] (rx_state (tc_tcp con))) of None \<Rightarrow> [] | Some e \<Rightarrow> [(cid, Dropped e)])"
proof -
  obtain frames where f: "tx (tc_tcp (cl_tcp cl')) = wire frames" "list_all2 (encodes bc parts) msgs frames"
      "\<forall>fr \<in> set frames. length (snd fr) \<le> tcp_max_msg_size (cl_tcp cl)"
    using client_sends_wire [OF assms(1,3,8,6)] carried_over_tcp assms(7,9) by fastforce
  have "con \<in> ran (sv_tcp sv)" using assms(13) by (rule ranI)
  then have wf: "wf_con con" "wf_ucon (sv_udp sv)" using assms(11) by (simp_all add: wf_server_defs)
  have rx: "rx (tc_tcp con) = wire frames @ []" using assms(14) f(1) by simp
  note arr = wire_arrives [OF assms(1,3,4) carried_arrives(1) [OF assms(7)] f(2,3) assms(15,10) wf(1) rx, simplified]
  let ?st = "st(cid := Tail [] (rx_state (tc_tcp con)))" and ?ms = "ms(cid := map (received parts cid) msgs)"
  have mine: "srv_offers (?st cid) cid (0, sv) (?ms cid)" using arr(1,2) assms(5,13) by auto
  have all: "\<forall>c \<in> dom (sv_cid_addr sv). srv_offers (?st c) c (0, sv) (?ms c)"
  proof
    fix c assume "c \<in> dom (sv_cid_addr sv)"
    then show "srv_offers (?st c) c (0, sv) (?ms c)" using mine assms(16) by (cases "c = cid") auto
  qed
  have udp: "srv_holds_udp oc (0, sv) []" using wf(2) assms(17) by (simp add: holds_datagrams_def)
  have alive: "server_alive sv cid"
  proof -
    have "dom (sv_tcp sv) = dom (sv_cid_addr sv)" using assms(11) by (simp add: wf_server_defs)
    then show ?thesis using assms(13) unfolding server_alive_def by blast
  qed
  have none: "find is_disconnect (map (received parts cid) msgs) = None"
      "takeWhile (\<lambda>m. \<not> is_disconnect m) (map (received parts cid) msgs) = map (received parts cid) msgs"
    using carried_arrives(2) [OF assms(7)] by (auto simp: takeWhile_eq_all_conv find_None_iff)
  have "codec_of bc (sv_parts sv)" "tid_map (sv_parts sv) T = Some mid" using assms(3,5,18) by simp_all
  from server_round_of [OF assms(11,12) alive all udp this] show ?thesis
    using msgs_for_received [OF assms(1,2,18,7), where cid = cid] by (auto simp: none departure_def)
qed

theorem client_values_reach_server_witness:
  "\<exists>n sv'. server_recv_msgs demo_ko True (server_clear_msgs (demo_live (frame 3 [7]) (frame 3 [6]) [] [])) = (Ok n, sv') \<and>
     server_recv_spec (CIdOnly 1) 13 sv' = Ok [\<lparr>nm_cid = 1, nm_time = None, nm_m = 7\<rparr>]"
proof -
  let ?sv = "demo_live (frame 3 [7]) (frame 3 [6]) [] []" and ?cl = "demo_client []"
  let ?con = "demo_accepted (SockAddr 2 9) (frame 3 [7])"
  have tx: "tx (tc_tcp (cl_tcp ?cl)) = []" by (simp add: demo_client_def demo_con_def demo_stream_def)
  obtain cl' where sent: "client_sends 0 [AnyBox 13 7] ?cl = (Ok (), cl')" "tx (tc_tcp (cl_tcp cl')) = frame 3 [7]"
    by (simp add: client_send_def valid_tid_def hash_index_def index_def demo_ser client_send_tcp_def
      tcp_con_send_eq demo_client_def demo_con_def demo_stream_def stream_write_all_def tcp_buff_size_def
      tcp_from_stream_def Let_def)
  have carry: "\<forall>m \<in> set [AnyBox 13 7]. carried demo_bincode demo_parts m"
    by (simp add: carried_def mid_defs demo_bincode_def)
  have others: "\<forall>c \<in> dom (sv_cid_addr ?sv) - {1}.
      srv_holds c (0, ?sv) [(3, \<lparr>em_cid = 2, em_time = None, em_msg = AnyBox 13 6\<rparr>)]"
  proof
    fix c assume "c \<in> dom (sv_cid_addr ?sv) - {1}"
    then have "c = 2" by (auto split: if_splits)
    then show "srv_holds c (0, ?sv) [(3, \<lparr>em_cid = 2, em_time = None, em_msg = AnyBox 13 6\<rparr>)]"
      using demo_live_holds(2) by blast
  qed
  show ?thesis
    using client_values_reach_server [of demo_parts demo_bincode ?sv ?cl "[AnyBox 13 7]" 0 cl' demo_ko 1 ?con
        "\<lambda>_. Tail [] RxOpen" "\<lambda>_. [(3, \<lparr>em_cid = 2, em_time = None, em_msg = AnyBox 13 6\<rparr>)]" 13 3 True]
      demo_parts_wf sent tx carry others demo_live_wf demo_ko_order
    by (auto simp: demo_ucon_def demo_socket_def simp del: srv_offers.simps)
qed

end
