(* ===== verification/Datagrams.thy ===== *)
theory Datagrams
  imports Link
begin

text \<open>
  Messages over UDP from end to end: what a client sends at various times, a network that may lose,
  repeat and reorder the datagrams, and what the server hands to the application of those that
  arrive.
\<close>

section \<open>Sending\<close>

definition carried_udp :: "'v bincode \<Rightarrow> 'v parts \<Rightarrow> 'v any \<Rightarrow> bool" where
  "carried_udp bc parts m \<longleftrightarrow> (\<exists>mid. tid_map parts (any_tid m) = Some mid \<and> transports parts ! mid = UDP) \<and> survives bc m"

text \<open>The datagram a message sent at a time becomes, no longer than \<open>n\<close> bytes.\<close>

definition dgram_of :: "'v bincode \<Rightarrow> 'v parts \<Rightarrow> nat \<Rightarrow> int \<times> 'v any \<Rightarrow> byte list \<Rightarrow> bool" where
  "dgram_of bc parts n m bs \<longleftrightarrow> (\<exists>mid b. encodes bc parts (snd m) (mid, b) \<and>
     bs = datagram mid (stamp (fst m)) b \<and> length b + 4 \<le> n)"

primrec client_sends_at :: "(int \<times> 'v any) list \<Rightarrow> 'v client \<Rightarrow> unit res \<times> 'v client" where
  "client_sends_at [] cl = (Ok (), cl)"
| "client_sends_at (m # ms) cl =
     and_then_st (client_send (fst m) (snd m) cl) (\<lambda>_ cl. client_sends_at ms cl)"

lemma udp_con_send_Ok:
  assumes "udp_con_send now mid b c = (Ok (), c')"
  shows "length b + 4 \<le> length (uc_buff c) \<and> (\<exists>peer. u_peer (uc_udp c) = Some peer \<and>
    c' = c\<lparr>uc_udp := (uc_udp c)\<lparr>utx := utx (uc_udp c) @ [(peer, datagram mid (stamp now) b)]\<rparr>\<rparr>)"
  using assms
  by (auto simp: udp_con_send_def udp_send_shared_eq socket_send_def socket_send_to_def res_simps udp_buff_size_def
      split: if_splits option.splits)

lemma client_send_udp_any:
  assumes "wf_parts (cl_parts cl)" "codec_of bc (cl_parts cl)" "carried_udp bc (cl_parts cl) m"
    and "client_send now m cl = (Ok (), cl')"
  shows "\<exists>bs peer. dgram_of bc (cl_parts cl) (length (uc_buff (cl_udp cl))) (now, m) bs \<and>
    cl' = cl\<lparr>cl_udp := (cl_udp cl)\<lparr>uc_udp := (uc_udp (cl_udp cl))\<lparr>utx := utx (uc_udp (cl_udp cl)) @ [(peer, bs)]\<rparr>\<rparr>\<rparr>"
proof -
  obtain T v where m: "m = AnyBox T v" by (cases m)
  obtain mid where mid: "tid_map (cl_parts cl) T = Some mid" "transports (cl_parts cl) ! mid = UDP"
    using assms(3) by (auto simp: carried_udp_def m)
  obtain b where b: "bc_serialize bc T v = Inr b"
    using assms(4) lookup_codec [OF assms(1,2) mid, of map_ser_error v] mid(1)
    by (cases "bc_serialize bc T v") (simp_all add: client_send_def valid_tid_def domI Let_def m)
  then obtain u where u: "udp_con_send now mid b (cl_udp cl) = (Ok (), u)" "cl' = cl\<lparr>cl_udp := u\<rparr>"
    using assms(4) lookup_codec [OF assms(1,2) mid, of map_ser_error v] mid(1)
    by (auto simp: client_send_def valid_tid_def domI Let_def client_send_udp_def m split: prod.splits)
  have "encodes bc (cl_parts cl) m (mid, b)" using mid b by (simp add: encodes_def m)
  with udp_con_send_Ok [OF u(1)] u(2) show ?thesis by (auto simp: dgram_of_def)
qed

lemma client_sends_at_wire:
  assumes "wf_parts parts" "codec_of bc parts"
  shows "client_sends_at ms cl = (Ok (), cl') \<Longrightarrow> cl_parts cl = parts \<Longrightarrow> \<forall>m \<in> set ms. carried_udp bc parts (snd m) \<Longrightarrow>
    \<exists>sent. utx (uc_udp (cl_udp cl')) = utx (uc_udp (cl_udp cl)) @ sent \<and>
      list_all2 (dgram_of bc parts (length (uc_buff (cl_udp cl)))) ms (map snd sent)"
proof (induction ms arbitrary: cl)
  case Nil
  then show ?case by simp
next
  case (Cons m ms)
  obtain q cl1 where s1: "client_send (fst m) (snd m) cl = (q, cl1)" by fastforce
  then have q: "q = Ok ()" "client_sends_at ms cl1 = (Ok (), cl')"
    using Cons.prems(1) by (cases q; simp)+
  obtain bs peer where b: "dgram_of bc parts (length (uc_buff (cl_udp cl))) (fst m, snd m) bs"
      "cl1 = cl\<lparr>cl_udp := (cl_udp cl)\<lparr>uc_udp := (uc_udp (cl_udp cl))\<lparr>utx := utx (uc_udp (cl_udp cl)) @ [(peer, bs)]\<rparr>\<rparr>\<rparr>"
    using client_send_udp_any [of cl bc "snd m" "fst m" cl1] assms Cons.prems(2,3) s1 q(1) by auto
  have "cl_parts cl1 = parts" "\<forall>m \<in> set ms. carried_udp bc parts (snd m)" using b(2) Cons.prems(2,3) by simp_all
  from Cons.IH [OF q(2) this] obtain sent where
    "utx (uc_udp (cl_udp cl')) = utx (uc_udp (cl_udp cl1)) @ sent"
    "list_all2 (dgram_of bc parts (length (uc_buff (cl_udp cl1)))) ms (map snd sent)" by blast
  then show ?case using b by (intro exI [of _ "(peer, bs) # sent"]) simp
qed

section \<open>Arriving\<close>

text \<open>
  \<open>picks\<close> says which of the sent datagrams arrive, in which order and when: an index may be
  missing or occur more than once.
\<close>

type_synonym picks = "(nat \<times> int) list"

definition arrivals :: "sock_addr \<Rightarrow> (sock_addr \<times> byte list) list \<Rightarrow> picks \<Rightarrow> udp_event list" where
  "arrivals src sent picks = map (\<lambda>p. Datagram src (snd (sent ! fst p)) (snd p)) picks"

definition arrived :: "'v parts \<Rightarrow> cid \<Rightarrow> (int \<times> 'v any) list \<Rightarrow> nat \<times> int \<Rightarrow> mid \<times> 'v erased_net_msg" where
  "arrived parts cid ms p =
     (the (tid_map parts (any_tid (snd (ms ! fst p)))),
      \<lparr>em_cid = cid, em_time = Some (stamp (fst (ms ! fst p))), em_msg = snd (ms ! fst p)\<rparr>)"

lemma dgram_received:
  assumes "wf_parts parts" "codec_of bc parts" "mid_count parts \<le> 65536"
    and "carried_udp bc parts m" "dgram_of bc parts n (now, m) bs" "n \<le> k" "fresh oc at (stamp now)" "ms ! i = (now, m)"
  shows "\<exists>d. event_of oc k (Datagram src bs at) d \<and> fst d = src \<and> decoded_udp parts cid d (arrived parts cid ms (i, at))"
proof -
  obtain T v where m: "m = AnyBox T v" by (cases m)
  obtain mid b where b: "tid_map parts T = Some mid" "bc_serialize bc T v = Inr b"
      "bs = datagram mid (stamp now) b" "length b + 4 \<le> n"
    using assms(5) by (auto simp: dgram_of_def encodes_def m)
  have mid: "mid < mid_count parts" "length (deser parts) = mid_count parts" "deser parts ! mid = deser_closure bc T"
    using assms(1,2) b(1) by (auto simp: wf_parts_def codec_of_def)
  have "bc_deserialize bc T b = Inr v" using assms(4) b(2) by (simp add: carried_udp_def m)
  then have "decoded_udp parts cid (src, mid, stamp now, b) (arrived parts cid ms (i, at))"
    using mid b(1) assms(8)
    by (simp add: decoded_udp_def decode_msg_def decode_any_def valid_mid_def index_def deser_closure_def arrived_def m)
  moreover have "event_of oc k (Datagram src bs at) (src, mid, stamp now, b)"
    using assms(3,6,7) b(3,4) mid(1) by (auto simp: event_of_def)
  ultimately show ?thesis by (intro exI [of _ "(src, mid, stamp now, b)"]) simp
qed

lemma arrivals_decoded:
  assumes "wf_parts parts" "codec_of bc parts" "mid_count parts \<le> 65536" "\<forall>m \<in> set ms. carried_udp bc parts (snd m)"
    and "list_all2 (dgram_of bc parts n) ms (map snd sent)" "n \<le> k"
    and "\<forall>p \<in> set picks. fst p < length ms \<and> fresh oc (snd p) (stamp (fst (ms ! fst p)))"
  shows "\<exists>ds. list_all2 (event_of oc k) (arrivals src sent picks) ds \<and> (\<forall>d \<in> set ds. fst d = src) \<and>
    list_all2 (decoded_udp parts cid) ds (map (arrived parts cid ms) picks)"
proof -
  have "\<exists>d. event_of oc k (Datagram src (snd (sent ! fst p)) (snd p)) d \<and> fst d = src \<and>
      decoded_udp parts cid d (arrived parts cid ms p)" if "p \<in> set picks" for p
  proof -
    have i: "fst p < length ms" "fresh oc (snd p) (stamp (fst (ms ! fst p)))" using assms(7) that by auto
    have "length sent = length ms" using list_all2_lengthD [OF assms(5)] by simp
    then have "dgram_of bc parts n (fst (ms ! fst p), snd (ms ! fst p)) (snd (sent ! fst p))"
      using list_all2_nthD [OF assms(5) i(1)] i(1) by simp
    then show ?thesis
      using dgram_received [OF assms(1-3) _ _ assms(6) i(2), of "snd (ms ! fst p)" _ ms "fst p"] assms(4) i(1) by simp
  qed
  then obtain d where d: "\<And>p. p \<in> set picks \<Longrightarrow> event_of oc k (Datagram src (snd (sent ! fst p)) (snd p)) (d p) \<and>
      fst (d p) = src \<and> decoded_udp parts cid (d p) (arrived parts cid ms p)"
    by metis
  have "list_all2 (event_of oc k) (arrivals src sent picks) (map d picks)"
    "list_all2 (decoded_udp parts cid) (map d picks) (map (arrived parts cid ms) picks)"
    "\<forall>x \<in> set (map d picks). fst x = src"
    using d by (simp_all add: arrivals_def list_all2_conv_all_nth)
  then show ?thesis by blast
qed

lemma holds_arrivals:
  assumes "list_all2 (event_of oc (length (uc_buff (sv_udp sv)))) (urx (uc_udp (sv_udp sv))) ds" "\<forall>d \<in> set ds. fst d = src"
    and "list_all2 (decoded_udp (sv_parts sv) cid) ds us"
    and "wf_ucon (sv_udp sv)" "sv_addr_cid sv src = Some cid" "server_alive sv cid"
  shows "srv_holds_udp oc (0, sv) us"
proof -
  have "list_all2 (sent_by sv) ds us"
  proof (rule list_all2_all_nthI)
    show "length ds = length us" using list_all2_lengthD [OF assms(3)] .
    show "sent_by sv (ds ! i) (us ! i)" if "i < length ds" for i
    proof -
      have "decoded_udp (sv_parts sv) cid (ds ! i) (us ! i)" using list_all2_nthD [OF assms(3) that] .
      moreover have "fst (ds ! i) = src" using assms(2) that by simp
      ultimately show ?thesis using assms(5,6) by (cases "ds ! i") (simp add: sent_by_def decoded_udp_def)
    qed
  qed
  then show ?thesis using assms(1,4) by (auto simp: holds_datagrams_def)
qed

section \<open>The datagrams a client sends\<close>

lemma msgs_for_arrived:
  assumes "wf_parts parts" "wf_numbering parts" "tid_map parts T = Some mid" "\<forall>m \<in> set ms. carried_udp bc parts (snd m)"
    and "\<forall>p \<in> set picks. fst p < length ms"
  shows "map (\<lambda>m. \<lparr>nm_cid = em_cid m, nm_time = em_time m, nm_m = any_val (em_msg m)\<rparr>)
      (msgs_for mid (map (arrived parts cid ms) picks)) =
    map (\<lambda>p. \<lparr>nm_cid = cid, nm_time = Some (stamp (fst (ms ! fst p))), nm_m = any_val (snd (ms ! fst p))\<rparr>)
      (filter (\<lambda>p. any_tid (snd (ms ! fst p)) = T) picks)"
proof -
  have "inj_on (the \<circ> tid_map parts) (dom (tid_map parts))"
    using assms(2) by (simp add: wf_numbering_def bij_betw_def)
  then have tid: "the (tid_map parts (any_tid (snd m))) = mid \<longleftrightarrow> any_tid (snd m) = T" if "m \<in> set ms" for m
    using assms(3,4) that unfolding carried_udp_def inj_on_def
    by (metis comp_apply domI option.sel)
  have "fst (arrived parts cid ms p) = mid \<longleftrightarrow> any_tid (snd (ms ! fst p)) = T" if "p \<in> set picks" for p
    using tid [of "ms ! fst p"] assms(5) that by (simp add: arrived_def)
  then show ?thesis
    by (induction picks) (auto simp: msgs_for_def arrived_def)
qed

text \<open>
  C9: UDP from client to server. Of the values a client sends over UDP, the server's application
  gets with \<open>recv_spec::<T>(Only(cid))\<close> exactly those whose datagrams arrive, in the order in
  which they arrive and as often as they do, each with the millisecond at which it was sent, if it
  was sent less than 65536 ms before. Nothing else is assumed of the network: it may lose, repeat
  and reorder.
\<close>

theorem client_datagrams_reach_server:
  assumes "wf_parts parts" "wf_numbering parts" "codec_of bc parts" "mid_count parts \<le> 65536"
    and "sv_parts sv = parts" "cl_parts cl = parts" "\<forall>m \<in> set msgs. carried_udp bc parts (snd m)"
    and "client_sends_at msgs cl = (Ok (), cl')" "utx (uc_udp (cl_udp cl)) = []"
    and "wf_server sv" "key_order ko" "server_alive sv cid" "sv_addr_cid sv src = Some cid"
    and "length (uc_buff (cl_udp cl)) \<le> length (uc_buff (sv_udp sv))"
    and "urx (uc_udp (sv_udp sv)) = arrivals src (utx (uc_udp (cl_udp cl'))) picks"
    and "\<forall>p \<in> set picks. fst p < length msgs \<and> fresh oc (snd p) (stamp (fst (msgs ! fst p)))"
    and "\<forall>c \<in> dom (sv_cid_addr sv). srv_offers (st c) c (0, sv) (ms c)" "ms cid = []"
    and "tid_map parts T = Some mid"
  shows "\<exists>n sv'. server_recv_msgs ko oc (server_clear_msgs sv) = (Ok n, sv') \<and>
    server_recv_spec (CIdOnly cid) T sv' = Ok (map (\<lambda>p. \<lparr>nm_cid = cid,
        nm_time = Some (stamp (fst (msgs ! fst p))), nm_m = any_val (snd (msgs ! fst p))\<rparr>)
      (filter (\<lambda>p. any_tid (snd (msgs ! fst p)) = T) picks))"
proof -
  have ucon: "wf_ucon (sv_udp sv)" using assms(10) by (simp add: wf_server_defs)
  have sent: "list_all2 (dgram_of bc (sv_parts sv) (length (uc_buff (cl_udp cl)))) msgs (map snd (utx (uc_udp (cl_udp cl'))))"
    using client_sends_at_wire [OF assms(1,3,8,6,7)] assms(5,9) by auto
  let ?us = "map (arrived parts cid msgs) picks"
  obtain ds where ds: "list_all2 (event_of oc (length (uc_buff (sv_udp sv)))) (urx (uc_udp (sv_udp sv))) ds"
      "\<forall>d \<in> set ds. fst d = src" "list_all2 (decoded_udp (sv_parts sv) cid) ds ?us"
    using arrivals_decoded [OF _ _ _ _ sent assms(14,16)] assms(1,3,4,5,7,15) by metis
  have udp: "srv_holds_udp oc (0, sv) ?us" using holds_arrivals [OF ds ucon assms(13,12)] .
  have "em_cid (snd (arrived parts cid msgs p)) = cid" for p by (simp add: arrived_def)
  then have "filter (\<lambda>m. em_cid (snd m) = cid) ?us = ?us" by (simp add: filter_map comp_def)
  then show ?thesis
    using server_round_recv [OF assms(10,11,12,17) udp, of bc T mid] assms(3,5,16,18,19)
      msgs_for_arrived [OF assms(1,2,19,7), of picks cid]
    by fastforce
qed

text \<open>Two messages are sent; the second arrives twice, before the first.\<close>

theorem client_datagrams_reach_server_witness:
  "\<exists>dgs n sv'. server_recv_msgs demo_ko True (server_clear_msgs (demo_live [] []
       (arrivals (SockAddr 2 9) dgs [(1, 1700000030000000000), (0, 1700000030000000000), (1, 1700000030000000000)]) [])) =
       (Ok n, sv') \<and>
     server_recv_spec (CIdOnly 1) 14 sv' = Ok
       [\<lparr>nm_cid = 1, nm_time = Some (stamp 1700000001000000000), nm_m = 8\<rparr>,
        \<lparr>nm_cid = 1, nm_time = Some (stamp 1700000000000000000), nm_m = 7\<rparr>,
        \<lparr>nm_cid = 1, nm_time = Some (stamp 1700000001000000000), nm_m = 8\<rparr>]"
proof -
  let ?cl = "(demo_client [])\<lparr>cl_udp := demo_ucon\<lparr>uc_udp := demo_socket\<lparr>u_peer := Some (SockAddr 1 7777)\<rparr>\<rparr>\<rparr>"
  let ?msgs = "[(1700000000000000000, AnyBox 14 7), (1700000001000000000, AnyBox 14 8)] :: (int \<times> nat any) list"
  let ?picks = "[(1, 1700000030000000000), (0, 1700000030000000000), (1, 1700000030000000000)] :: picks"
  have send4: "client_send now (AnyBox 14 v) cl = client_send_udp now 4 [word_of_nat v] cl"
    if "cl_parts cl = demo_parts" "v < 256" for now v cl
    using that lookup_codec [OF demo_parts_wf(1,3), of 14 4 UDP map_ser_error v]
    by (simp add: client_send_def valid_tid_def demo_bincode_def Let_def)
  obtain cl' where sent: "client_sends_at ?msgs ?cl = (Ok (), cl')"
    by (simp add: send4 client_send_udp_def udp_con_send_def udp_send_shared_eq socket_send_def socket_send_to_def demo_client_def demo_ucon_def
      demo_socket_def udp_buff_size_def Let_def)
  let ?dgs = "utx (uc_udp (cl_udp cl'))"
  let ?sv = "demo_live [] [] (arrivals (SockAddr 2 9) ?dgs ?picks) []"
  have carry: "\<forall>m \<in> set ?msgs. carried_udp demo_bincode demo_parts (snd m)"
    by (simp add: carried_udp_def demo_bincode_def)
  have in_time: "\<forall>p \<in> set ?picks. fst p < length ?msgs \<and> fresh True (snd p) (stamp (fst (?msgs ! fst p)))"
    by (simp add: fresh_def stamp_def)
  have quiet: "\<forall>c \<in> dom (sv_cid_addr ?sv). srv_holds c (0, ?sv) []"
    by (auto simp: offers_frames_def split: if_splits)
  have no_tx: "utx (uc_udp (cl_udp ?cl)) = []" and fits: "length (uc_buff (cl_udp ?cl)) \<le> length (uc_buff (sv_udp ?sv))"
    by (simp_all add: demo_ucon_def demo_socket_def)
  have parts: "cl_parts ?cl = demo_parts" "sv_parts ?sv = demo_parts" "mid_count demo_parts \<le> 65536"
    by (simp_all add: demo_client_def)
  have live: "server_alive ?sv 1" "sv_addr_cid ?sv (SockAddr 2 9) = Some 1"
      "urx (uc_udp (sv_udp ?sv)) = arrivals (SockAddr 2 9) ?dgs ?picks" "tid_map demo_parts 14 = Some 4"
    by (simp_all add: server_alive_def)
  from client_datagrams_reach_server [OF demo_parts_wf parts(3,2,1) carry sent no_tx demo_live_wf demo_ko_order
      live(1,2) fits live(3) in_time quiet refl live(4)]
  show ?thesis by auto
qed

section \<open>The datagrams a server sends\<close>

primrec server_sends_at :: "cid \<Rightarrow> (int \<times> 'v any) list \<Rightarrow> 'v server \<Rightarrow> unit res \<times> 'v server" where
  "server_sends_at cid [] sv = (Ok (), sv)"
| "server_sends_at cid (m # ms) sv =
     and_then_st (server_send_to (fst m) cid (snd m) sv) (\<lambda>_ sv. server_sends_at cid ms sv)"

lemma udp_con_send_to_Ok:
  assumes "udp_con_send_to now addr mid b c = (Ok (), c')"
  shows "length b + 4 \<le> length (uc_buff c) \<and>
    c' = c\<lparr>uc_udp := (uc_udp c)\<lparr>utx := utx (uc_udp c) @ [(addr, datagram mid (stamp now) b)]\<rparr>\<rparr>"
  using assms
  by (auto simp: udp_con_send_to_def udp_send_shared_eq socket_send_to_def res_simps udp_buff_size_def
      split: if_splits option.splits)

lemma server_send_udp_any:
  assumes "wf_parts (sv_parts sv)" "codec_of bc (sv_parts sv)" "carried_udp bc (sv_parts sv) m"
    and "server_send_to now cid m sv = (Ok (), sv')" "sv_cid_addr sv cid = Some addr"
  shows "\<exists>bs. dgram_of bc (sv_parts sv) (length (uc_buff (sv_udp sv))) (now, m) bs \<and>
    sv' = sv\<lparr>sv_udp := (sv_udp sv)\<lparr>uc_udp := (uc_udp (sv_udp sv))\<lparr>utx := utx (uc_udp (sv_udp sv)) @ [(addr, bs)]\<rparr>\<rparr>\<rparr>"
proof -
  obtain T v where m: "m = AnyBox T v" by (cases m)
  obtain mid where mid: "tid_map (sv_parts sv) T = Some mid" "transports (sv_parts sv) ! mid = UDP"
    using assms(3) by (auto simp: carried_udp_def m)
  obtain b where b: "bc_serialize bc T v = Inr b"
    using assms(4) lookup_codec [OF assms(1,2) mid, of "\<lambda>r. r" v] mid(1)
    by (cases "bc_serialize bc T v") (simp_all add: server_send_to_def server_valid_tid_def valid_tid_def domI Let_def m)
  then obtain u where u: "udp_con_send_to now addr mid b (sv_udp sv) = (Ok (), u)" "sv' = sv\<lparr>sv_udp := u\<rparr>"
    using assms(4,5) lookup_codec [OF assms(1,2) mid, of "\<lambda>r. r" v] mid(1)
    by (auto simp: server_send_to_def server_valid_tid_def valid_tid_def domI Let_def server_send_udp_def m split: prod.splits)
  have "encodes bc (sv_parts sv) m (mid, b)" using mid b by (simp add: encodes_def m)
  with udp_con_send_to_Ok [OF u(1)] u(2) show ?thesis by (auto simp: dgram_of_def)
qed

lemma server_sends_at_wire:
  assumes "wf_parts parts" "codec_of bc parts"
  shows "server_sends_at cid ms sv = (Ok (), sv') \<Longrightarrow> sv_parts sv = parts \<Longrightarrow> sv_cid_addr sv cid = Some addr \<Longrightarrow>
    \<forall>m \<in> set ms. carried_udp bc parts (snd m) \<Longrightarrow>
    \<exists>sent. utx (uc_udp (sv_udp sv')) = utx (uc_udp (sv_udp sv)) @ map (Pair addr) sent \<and>
      list_all2 (dgram_of bc parts (length (uc_buff (sv_udp sv)))) ms sent"
proof (induction ms arbitrary: sv)
  case Nil
  then show ?case by simp
next
  case (Cons m ms)
  obtain q sv1 where s1: "server_send_to (fst m) cid (snd m) sv = (q, sv1)" by fastforce
  then have q: "q = Ok ()" "server_sends_at cid ms sv1 = (Ok (), sv')"
    using Cons.prems(1) by (cases q; simp)+
  obtain bs where b: "dgram_of bc parts (length (uc_buff (sv_udp sv))) (fst m, snd m) bs"
      "sv1 = sv\<lparr>sv_udp := (sv_udp sv)\<lparr>uc_udp := (uc_udp (sv_udp sv))\<lparr>utx := utx (uc_udp (sv_udp sv)) @ [(addr, bs)]\<rparr>\<rparr>\<rparr>"
    using server_send_udp_any [of sv bc "snd m" "fst m" cid sv1 addr] assms Cons.prems(2-4) s1 q(1) by auto
  have "sv_parts sv1 = parts" "sv_cid_addr sv1 cid = Some addr" "\<forall>m \<in> set ms. carried_udp bc parts (snd m)"
    using b(2) Cons.prems(2-4) by simp_all
  from Cons.IH [OF q(2) this] obtain sent where
    "utx (uc_udp (sv_udp sv')) = utx (uc_udp (sv_udp sv1)) @ map (Pair addr) sent"
    "list_all2 (dgram_of bc parts (length (uc_buff (sv_udp sv1)))) ms sent" by blast
  then show ?case using b by (intro exI [of _ "bs # sent"]) simp
qed

text \<open>
  C10: UDP from server to client. Of the values the server sends to a client over UDP, each goes
  to that client's address; those whose datagrams arrive are what \<open>recv::<T>\<close> yields at the
  client, in the order in which they arrive and as often as they do, each with the millisecond at
  which it was sent, if it was sent less than 65536 ms before.
\<close>

theorem server_datagrams_reach_client:
  assumes "wf_parts parts" "wf_numbering parts" "codec_of bc parts" "mid_count parts \<le> 65536"
    and "sv_parts sv = parts" "cl_parts cl = parts" "\<forall>m \<in> set msgs. carried_udp bc parts (snd m)"
    and "sv_cid_addr sv cid = Some addr" "server_sends_at cid msgs sv = (Ok (), sv')" "utx (uc_udp (sv_udp sv)) = []"
    and "wf_client cl" "cl_status cl = Connected" "client_holds (0, cl) []"
    and "length (uc_buff (sv_udp sv)) \<le> length (uc_buff (cl_udp cl))"
    and "urx (uc_udp (cl_udp cl)) = arrivals src (utx (uc_udp (sv_udp sv'))) picks"
    and "\<forall>p \<in> set picks. fst p < length msgs \<and> fresh oc (snd p) (stamp (fst (msgs ! fst p)))"
    and "tid_map parts T = Some mid"
  shows "(\<forall>d \<in> set (utx (uc_udp (sv_udp sv'))). fst d = addr) \<and>
    (\<exists>cl'. client_recv_msgs oc (client_clear_msgs cl) = (Ok (word_of_nat (length picks)), cl') \<and>
      client_recv T cl' = Ok (map (\<lambda>p. \<lparr>nm_cid = 0,
          nm_time = Some (stamp (fst (msgs ! fst p))), nm_m = any_val (snd (msgs ! fst p))\<rparr>)
        (filter (\<lambda>p. any_tid (snd (msgs ! fst p)) = T) picks)))"
proof -
  obtain sent where sent: "utx (uc_udp (sv_udp sv')) = map (Pair addr) sent"
      "list_all2 (dgram_of bc parts (length (uc_buff (sv_udp sv)))) msgs sent"
    using server_sends_at_wire [OF assms(1,3,9,5,8,7)] assms(10) by auto
  have "map snd (utx (uc_udp (sv_udp sv'))) = sent" by (simp add: sent(1) comp_def)
  with sent(2) have all: "list_all2 (dgram_of bc parts (length (uc_buff (sv_udp sv)))) msgs (map snd (utx (uc_udp (sv_udp sv'))))"
    by simp
  let ?us = "map (arrived parts 0 msgs) picks"
  obtain ds where ds: "list_all2 (event_of oc (length (uc_buff (cl_udp cl)))) (urx (uc_udp (cl_udp cl))) ds"
      "list_all2 (decoded_udp (cl_parts cl) 0) ds ?us"
    using arrivals_decoded [OF assms(1,3,4,7) all assms(14,16)] assms(6,15) by metis
  have udp: "client_holds_udp oc (0, cl) ?us" using ds assms(11) by (auto simp: holds_datagrams_def wf_client_def)
  have out: "outcome (Tail [] RxOpen) [] = Connected" "heard (Tail [] RxOpen) [] us = us" for us :: "(mid \<times> 'a erased_net_msg) list"
    by (simp_all add: outcome_def heard_def)
  have "codec_of bc (cl_parts cl)" "tid_map (cl_parts cl) T = Some mid" using assms(3,6,17) by simp_all
  from client_round_recv [OF assms(11,12,13) udp this, unfolded out] obtain cl' where
    "client_recv_msgs oc (client_clear_msgs cl) = (Ok (word_of_nat (length picks)), cl')"
    "client_recv T cl' = Ok (map (\<lambda>m. \<lparr>nm_cid = em_cid m, nm_time = em_time m, nm_m = any_val (em_msg m)\<rparr>) (msgs_for mid ?us))"
    by auto
  then show ?thesis using msgs_for_arrived [OF assms(1,2,17,7), of picks 0] assms(16) sent(1) by auto
qed

theorem server_datagrams_reach_client_witness:
  "\<exists>dgs cl'. client_recv_msgs True (client_clear_msgs ((demo_client [])\<lparr>cl_udp := demo_ucon\<lparr>uc_udp := demo_socket\<lparr>urx :=
       arrivals (SockAddr 1 7777) dgs [(1, 1700000030000000000), (0, 1700000030000000000)]\<rparr>\<rparr>\<rparr>)) = (Ok 2, cl') \<and>
     client_recv 14 cl' = Ok
       [\<lparr>nm_cid = 0, nm_time = Some (stamp 1700000001000000000), nm_m = 8\<rparr>,
        \<lparr>nm_cid = 0, nm_time = Some (stamp 1700000000000000000), nm_m = 7\<rparr>]"
proof -
  let ?sv = "demo_live [] [] [] []"
  let ?msgs = "[(1700000000000000000, AnyBox 14 7), (1700000001000000000, AnyBox 14 8)] :: (int \<times> nat any) list"
  let ?picks = "[(1, 1700000030000000000), (0, 1700000030000000000)] :: picks"
  have send4: "server_send_to now 1 (AnyBox 14 v) sv = server_send_udp now 1 4 [word_of_nat v] sv"
    if "sv_parts sv = demo_parts" "v < 256" for now v sv
    using that lookup_codec [OF demo_parts_wf(1,3), of 14 4 UDP "\<lambda>r. r" v]
    by (simp add: server_send_to_def server_valid_tid_def valid_tid_def demo_bincode_def Let_def)
  obtain sv' where sent: "server_sends_at 1 ?msgs ?sv = (Ok (), sv')"
    by (simp add: send4 server_send_udp_def udp_con_send_to_def udp_send_shared_eq socket_send_to_def demo_ucon_def
      demo_socket_def udp_buff_size_def Let_def)
  let ?dgs = "utx (uc_udp (sv_udp sv'))"
  let ?cl = "(demo_client [])\<lparr>cl_udp := demo_ucon\<lparr>uc_udp := demo_socket\<lparr>urx := arrivals (SockAddr 1 7777) ?dgs ?picks\<rparr>\<rparr>\<rparr>"
  have carry: "\<forall>m \<in> set ?msgs. carried_udp demo_bincode demo_parts (snd m)"
    by (simp add: carried_udp_def demo_bincode_def)
  have in_time: "\<forall>p \<in> set ?picks. fst p < length ?msgs \<and> fresh True (snd p) (stamp (fst (?msgs ! fst p)))"
    by (simp add: fresh_def stamp_def)
  have cl: "wf_client ?cl" "cl_status ?cl = Connected" "client_holds (0, ?cl) []" "cl_parts ?cl = demo_parts"
    using demo_client_simps(4) [of "[]"] by (simp_all add: wf_client_def wf_ucon_def demo_ucon_def offers_frames_def)
  show ?thesis
    using server_datagrams_reach_client [OF demo_parts_wf _ _ cl(4) carry _ sent _ cl(1-3) _ _ in_time, of "SockAddr 2 9" "SockAddr 1 7777" 14 4]
    by (auto simp: demo_socket_def demo_ucon_def)
qed

end
