(* ===== verification/Leaving.thy ===== *)
theory Leaving
  imports Link
begin

text \<open>
  How conversations end, with both ends together (\<open>src/client.rs\<close>, \<open>src/server.rs\<close>): a disconnect
  reaches the other end behind everything that was sent before it and is reported once, a stream that
  ends or fails is reported once as dropped, and the one case in which neither happens.
\<close>

section \<open>Disconnect messages on the wire\<close>

lemma client_disconnect_wire:
  assumes "client_disconnect now d cl = (Ok (), cl')" "wf_parts (cl_parts cl)" "codec_of bc (cl_parts cl)"
    and "transports (cl_parts cl) ! DISCONNECT_TYPE_MID = TCP"
  shows "\<exists>fr. encodes bc (cl_parts cl) d fr \<and> tid_map (cl_parts cl) (any_tid d) = Some DISCONNECT_TYPE_MID \<and>
    tx (tc_tcp (cl_tcp cl')) = tx (tc_tcp (cl_tcp cl)) @ wire [fr] \<and> length (snd fr) \<le> tcp_max_msg_size (cl_tcp cl)"
proof -
  have tid: "tid_map (cl_parts cl) (any_tid d) = Some DISCONNECT_TYPE_MID"
    using client_disconnect_closes [OF assms(1,4)] by blast
  obtain q cl1 where s: "client_send now d cl = (q, cl1)" by fastforce
  then have q: "q = Ok ()" using assms(1) tid
    by (cases q) (auto simp: client_disconnect_def hash_index_def split: if_splits)
  obtain r t where close: "tcp_con_close (cl_tcp cl1) = (r, t)" by fastforce
  have "tx (tc_tcp (cl_tcp cl')) = tx (tc_tcp t)"
    using assms(1) tid s q close by (cases r) (auto simp: client_disconnect_def hash_index_def)
  moreover have "tx (tc_tcp t) = tx (tc_tcp (cl_tcp cl1))"
    using close by (auto simp: tcp_con_close_def stream_flush_def stream_shutdown_def split: option.splits)
  moreover have "client_sends now [d] cl = (Ok (), cl1)" using s q by simp
  from client_sends_wire [OF assms(2,3) this refl] tid assms(4) obtain frames where
    "tx (tc_tcp (cl_tcp cl1)) = tx (tc_tcp (cl_tcp cl)) @ wire frames"
    "list_all2 (encodes bc (cl_parts cl)) [d] frames" "\<forall>fr \<in> set frames. length (snd fr) \<le> tcp_max_msg_size (cl_tcp cl)"
    by auto
  moreover from this(2) obtain fr where "frames = [fr]" "encodes bc (cl_parts cl) d fr"
    by (auto simp: list_all2_Cons1)
  ultimately show ?thesis using tid by (intro exI [of _ fr]) simp
qed

lemma server_disconnect_wire:
  assumes "server_disconnect now d cid sv = (Ok (), sv')" "wf_parts (sv_parts sv)" "codec_of bc (sv_parts sv)"
    and "over_tcp (sv_parts sv) d" "sv_tcp sv cid = Some con"
  shows "\<exists>fr con'. encodes bc (sv_parts sv) d fr \<and> sv_tcp sv' cid = Some con' \<and>
    tx (tc_tcp con') = tx (tc_tcp con) @ wire [fr] \<and> length (snd fr) \<le> tcp_max_msg_size con"
proof -
  obtain q sv1 where s: "server_send_to now cid d sv = (q, sv1)" by fastforce
  then have q: "q = Ok ()" using assms(1) by (cases q) (auto simp: server_disconnect_def split: if_splits)
  have "server_sends now cid [d] sv = (Ok (), sv1)" using s q by simp
  from server_sends_wire [OF assms(2,3) this refl assms(5)] assms(4) obtain con1 frames where
    1: "sv_tcp sv1 cid = Some con1" "tx (tc_tcp con1) = tx (tc_tcp con) @ wire frames"
      "list_all2 (encodes bc (sv_parts sv)) [d] frames" "\<forall>fr \<in> set frames. length (snd fr) \<le> tcp_max_msg_size con"
    by auto
  from 1(3) obtain fr where fr: "frames = [fr]" "encodes bc (sv_parts sv) d fr" by (auto simp: list_all2_Cons1)
  obtain r con' where close: "tcp_con_close con1 = (r, con')" by fastforce
  have "tx (tc_tcp con') = tx (tc_tcp con1)"
    using close by (auto simp: tcp_con_close_def stream_flush_def stream_shutdown_def split: option.splits)
  moreover have "sv_tcp sv' cid = Some con'"
    using assms(1) s q 1(1) close by (cases r) (auto simp: server_disconnect_def split: if_splits)
  ultimately show ?thesis using 1(2,4) fr by (intro exI [of _ fr] exI [of _ con']) simp
qed

text \<open>Frames of messages and of a disconnect behind them.\<close>

lemma farewell_arrives:
  assumes "wf_parts parts" "codec_of bc parts" "mid_count parts \<le> 65536"
    and "\<forall>m \<in> set msgs. carried bc parts m" "survives bc d" "tid_map parts (any_tid d) = Some DISCONNECT_TYPE_MID"
    and "list_all2 (encodes bc parts) msgs frames" "encodes bc parts d fr"
    and "\<forall>f \<in> set (frames @ [fr]). length (snd f) \<le> n" "n \<le> tcp_max_msg_size con" "n < 65536"
    and "wf_con con" "rx (tc_tcp con) = wire (frames @ [fr])"
  shows "offers_frames (Tail [] (rx_state (tc_tcp con))) con (frames @ [fr])"
    "list_all2 (decoded parts cid) (frames @ [fr]) (map (received parts cid) (msgs @ [d]))"
    "find is_disconnect (map (received parts cid) (msgs @ [d])) = Some (received parts cid d)"
    "takeWhile (\<lambda>m. \<not> is_disconnect m) (map (received parts cid) (msgs @ [d])) = map (received parts cid) msgs"
    "upto_stop is_disconnect (map (received parts cid) (msgs @ [d])) = map (received parts cid) (msgs @ [d])"
proof -
  have "\<forall>m \<in> set (msgs @ [d]). survives bc m" "list_all2 (encodes bc parts) (msgs @ [d]) (frames @ [fr])"
    using carried_arrives(1) [OF assms(4)] assms(5,7,8) by (auto simp: list_all2_appendI)
  from wire_arrives [OF assms(1-3) this assms(9-12), of "[]"] assms(13) show
    "offers_frames (Tail [] (rx_state (tc_tcp con))) con (frames @ [fr])"
    "list_all2 (decoded parts cid) (frames @ [fr]) (map (received parts cid) (msgs @ [d]))" by simp_all
  have m: "\<forall>m \<in> set (map (received parts cid) msgs). \<not> is_disconnect m" "is_disconnect (received parts cid d)"
    using carried_arrives(2) [OF assms(4)] received_disconnect [OF assms(6)] by simp_all
  show "find is_disconnect (map (received parts cid) (msgs @ [d])) = Some (received parts cid d)"
    using m by (induction msgs) auto
  show "takeWhile (\<lambda>m. \<not> is_disconnect m) (map (received parts cid) (msgs @ [d])) = map (received parts cid) msgs"
    using m by (simp add: takeWhile_tail)
  show "upto_stop is_disconnect (map (received parts cid) (msgs @ [d])) = map (received parts cid) (msgs @ [d])"
    using upto_stop_append [OF m, of "[]"] by simp
qed

section \<open>What \<open>handle_disconnects\<close> reports of a client\<close>

lemma first_live_filter:
  "filter (\<lambda>p. fst p = cid) (first_live live q) = (if cid \<in> live then take 1 (filter (\<lambda>p. fst p = cid) q) else [])"
  by (induction live q rule: first_live.induct) auto

definition reports :: "('v, 'h) discon_hook \<Rightarrow> 'h \<Rightarrow> 'v server \<Rightarrow> cid \<Rightarrow> 'v status list \<Rightarrow> bool" where
  "reports hook h sv cid sts \<longleftrightarrow> (\<exists>es sv'. server_handle_disconnects hook h sv =
       (Ok (word_of_nat (length es)), fold (\<lambda>(cid, st). hook cid st) es h, sv') \<and>
     map snd (filter (\<lambda>e. fst e = cid) es) = sts \<and> (server_alive sv' cid \<longleftrightarrow> sts = []))"

lemma reports_queued:
  assumes "wf_server sv" "server_alive sv cid" "filter (\<lambda>p. fst p = cid) (sv_disconnected sv) = map (Pair cid) sts"
  shows "reports hook h sv cid (take 1 sts)"
proof -
  have alive: "cid \<in> dom (sv_cid_addr sv)" using assms(2) by (simp add: server_alive_def)
  have "map snd (filter (\<lambda>e. fst e = cid) (first_live (dom (sv_cid_addr sv)) (sv_disconnected sv))) = take 1 sts"
    unfolding first_live_filter assms(3) using alive by (simp add: take_map comp_def)
  moreover have "cid \<in> fst ` set (sv_disconnected sv) \<longleftrightarrow> sts \<noteq> []"
    using assms(3) by (metis (mono_tags, lifting) filter_empty_conv image_iff map_is_Nil_conv)
  then have "server_alive sv' cid \<longleftrightarrow> take 1 sts = []"
    if "dom (sv_cid_addr sv') = dom (sv_cid_addr sv) - fst ` set (sv_disconnected sv)" for sv' :: "'a server"
    using that alive by (auto simp: server_alive_def)
  ultimately show ?thesis
    using server_handle_disconnects_spec [OF assms(1), of hook h] unfolding reports_def by blast
qed

text \<open>A round of \<open>clear_msgs\<close> and \<open>recv_msgs\<close>, and the next \<open>handle_disconnects\<close>.\<close>

lemma round_reports:
  assumes "wf_server sv" "key_order ko" "server_alive sv cid"
    and "\<forall>c \<in> dom (sv_cid_addr sv). srv_offers (st c) c (0, sv) (ms c)" "srv_holds_udp oc (0, sv) us"
    and "codec_of bc (sv_parts sv)" "tid_map (sv_parts sv) T = Some mid" "cid \<notin> fst ` set (sv_disconnected sv)"
  shows "\<exists>n sv'. server_recv_msgs ko oc (server_clear_msgs sv) = (Ok n, sv') \<and>
    server_recv_spec (CIdOnly cid) T sv' =
      Ok (map (\<lambda>m. \<lparr>nm_cid = em_cid m, nm_time = em_time m, nm_m = any_val (em_msg m)\<rparr>)
        (msgs_for mid (takeWhile (\<lambda>m. \<not> is_disconnect m) (ms cid) @ filter (\<lambda>m. em_cid (snd m) = cid) us))) \<and>
    reports hook h sv' cid (map snd (departure (st cid) cid (ms cid)))"
proof -
  obtain n sv' where r: "server_recv_msgs ko oc (server_clear_msgs sv) = (Ok n, sv')"
    "server_recv_spec (CIdOnly cid) T sv' =
      Ok (map (\<lambda>m. \<lparr>nm_cid = em_cid m, nm_time = em_time m, nm_m = any_val (em_msg m)\<rparr>)
        (msgs_for mid (takeWhile (\<lambda>m. \<not> is_disconnect m) (ms cid) @ filter (\<lambda>m. em_cid (snd m) = cid) us)))"
    "filter (\<lambda>p. fst p = cid) (sv_disconnected sv') =
      filter (\<lambda>p. fst p = cid) (sv_disconnected sv) @ departure (st cid) cid (ms cid)"
    "wf_server sv'" "sv_cid_addr sv' = sv_cid_addr sv"
    using server_round_of [OF assms(1-7)] by blast
  let ?d = "departure (st cid) cid (ms cid)"
  have "filter (\<lambda>p. fst p = cid) (sv_disconnected sv) = []" using assms(8) by (force simp: filter_empty_conv)
  moreover have "?d = map (Pair cid) (map snd ?d)" "take 1 (map snd ?d) = map snd ?d"
    by (auto simp: departure_def gone_def split: option.split)
  ultimately have "filter (\<lambda>p. fst p = cid) (sv_disconnected sv') = map (Pair cid) (map snd ?d)" using r(3) by simp
  moreover have "server_alive sv' cid" using assms(3) r(5) by (simp add: server_alive_def)
  ultimately have "reports hook h sv' cid (map snd ?d)"
    using reports_queued [OF r(4)] \<open>take 1 (map snd ?d) = map snd ?d\<close> by metis
  then show ?thesis using r(1,2) by blast
qed

lemma server_sends_socks: "server_sends now cid ms sv = (r, sv') \<Longrightarrow> socks_only sv sv'"
proof (induction ms arbitrary: sv)
  case (Cons m ms)
  obtain q sv1 where s: "server_send_to now cid m sv = (q, sv1)" by fastforce
  then show ?case using Cons server_send_socks [OF s] socks_only_trans by (cases q) auto
qed simp

lemma server_disconnect_queues:
  assumes "server_disconnect now d cid sv = (Ok (), sv')"
  shows "server_alive sv cid" "sv_disconnected sv' = sv_disconnected sv @ [(cid, Closed)]" "sv_cid_addr sv' = sv_cid_addr sv"
proof -
  obtain q sv1 where s: "server_send_to now cid d sv = (q, sv1)" by fastforce
  show alive: "server_alive sv cid" using assms by (auto simp: server_disconnect_def split: if_splits)
  have q: "q = Ok ()" using assms s alive by (cases q) (auto simp: server_disconnect_def)
  obtain con where con: "sv_tcp sv1 cid = Some con" using assms s q alive by (auto simp: server_disconnect_def split: option.splits)
  obtain r con' where "tcp_con_close con = (r, con')" by fastforce
  then have "sv' = sv1\<lparr>sv_tcp := (sv_tcp sv1)(cid \<mapsto> con'), sv_disconnected := sv_disconnected sv1 @ [(cid, Closed)]\<rparr>"
    using assms s q alive con by (cases r) (simp_all add: server_disconnect_def)
  then show "sv_disconnected sv' = sv_disconnected sv @ [(cid, Closed)]" "sv_cid_addr sv' = sv_cid_addr sv"
    using socks_only_fields [OF server_send_socks [OF s]] by simp_all
qed

section \<open>A client that is gone, to try the properties on\<close>

definition demo_gone :: "byte list \<Rightarrow> nat server" where
  "demo_gone bs = (demo_live [] [] [] [])\<lparr>sv_tcp :=
     [1 \<mapsto> demo_con\<lparr>tc_tcp := demo_stream\<lparr>rx := bs, rx_state := RxEof, peer_name := Some (SockAddr 2 9)\<rparr>\<rparr>,
      2 \<mapsto> demo_accepted (SockAddr 3 9) []]\<rparr>"

lemma demo_gone_simps [simp]:
  "sv_cid_addr (demo_gone bs) = [1 \<mapsto> SockAddr 2 9, 2 \<mapsto> SockAddr 3 9]" "sv_parts (demo_gone bs) = demo_parts"
  "sv_disconnected (demo_gone bs) = []" "urx (uc_udp (sv_udp (demo_gone bs))) = []"
  "sv_tcp (demo_gone bs) 1 = Some (demo_con\<lparr>tc_tcp := demo_stream\<lparr>rx := bs, rx_state := RxEof, peer_name := Some (SockAddr 2 9)\<rparr>\<rparr>)"
  "sv_tcp (demo_gone bs) 2 = Some (demo_accepted (SockAddr 3 9) [])"
  by (simp_all add: demo_gone_def demo_socket_def)

lemma demo_gone_wf: "wf_server (demo_gone bs)"
proof -
  have "socks_only (demo_live [] [] [] []) (demo_gone bs)"
    unfolding socks_only_def
    by (intro exI [of _ "sv_tcp (demo_gone bs)"] exI [of _ "sv_udp (demo_gone bs)"])
      (auto simp: demo_gone_def demo_live_def demo_accepted_def)
  then show ?thesis using wf_socks demo_live_wf by blast
qed

lemma demo_gone_con:
  "tcp_max_msg_size (demo_con\<lparr>tc_tcp := s\<rparr>) = 16" "wf_con (demo_con\<lparr>tc_tcp := s\<rparr>)"
  by (simp_all add: demo_con_def tcp_max_msg_size_def tcp_from_stream_def wf_con_def)

lemma demo_gone_offers:
  "srv_offers (Tail [] RxEof) 1 (0, demo_gone (frame 3 [7])) [(3, \<lparr>em_cid = 1, em_time = None, em_msg = AnyBox 13 7\<rparr>)]"
  "srv_holds 2 (0, demo_gone bs) []" "srv_holds_udp oc (0, demo_gone bs) []"
proof -
  have "offers_frames (Tail [] RxEof) (demo_con\<lparr>tc_tcp := demo_stream\<lparr>rx := frame 3 [7], rx_state := RxEof,
      peer_name := Some (SockAddr 2 9)\<rparr>\<rparr>) [(3, [7])]"
    by (simp add: offers_frames_def demo_gone_con fits_def)
  moreover have "decoded demo_parts 1 (3, [7]) (3, \<lparr>em_cid = 1, em_time = None, em_msg = AnyBox 13 7\<rparr>)"
    using demo_deser [of 7 13] by (simp add: decoded_def decode_msg_def decode_any_def valid_mid_def index_def)
  ultimately show "srv_offers (Tail [] RxEof) 1 (0, demo_gone (frame 3 [7])) [(3, \<lparr>em_cid = 1, em_time = None, em_msg = AnyBox 13 7\<rparr>)]"
    by fastforce
  show "srv_holds 2 (0, demo_gone bs) []" by (simp add: offers_frames_def)
  show "srv_holds_udp oc (0, demo_gone bs) []"
    using demo_gone_wf [of bs] by (simp add: holds_datagrams_def wf_server_defs)
qed

lemma demo_goodbye:
  "carried demo_bincode demo_parts (AnyBox 13 7)" "survives demo_bincode (AnyBox 12 9)"
  "transports demo_parts ! DISCONNECT_TYPE_MID = TCP" "tid_map demo_parts 12 = Some DISCONNECT_TYPE_MID"
  by (simp_all add: carried_def mid_defs demo_bincode_def)

section \<open>Properties of leaving\<close>

text \<open>
  C11: A client's disconnect reaches the server. The round in which its bytes arrive delivers all
  it sent over TCP before, and then \<open>handle_disconnects\<close> calls the hook for the client exactly
  once, with \<open>Disconnected\<close> and the value it gave to \<open>disconnect\<close>, and removes it; whatever the
  other clients do, and although the stream behind the message has ended.
\<close>

theorem client_disconnect_reaches_server:
  assumes "wf_parts parts" "wf_numbering parts" "codec_of bc parts" "mid_count parts \<le> 65536"
    and "sv_parts sv = parts" "cl_parts cl = parts" "\<forall>m \<in> set msgs. carried bc parts m"
    and "survives bc d" "transports parts ! DISCONNECT_TYPE_MID = TCP"
    and "client_sends now msgs cl = (Ok (), cl1)" "client_disconnect now' d cl1 = (Ok (), cl')"
    and "tx (tc_tcp (cl_tcp cl)) = []" "tcp_max_msg_size (cl_tcp cl) < 65536"
    and "wf_server sv" "key_order ko" "sv_tcp sv cid = Some con" "rx (tc_tcp con) = tx (tc_tcp (cl_tcp cl'))"
    and "tcp_max_msg_size (cl_tcp cl) \<le> tcp_max_msg_size con" "cid \<notin> fst ` set (sv_disconnected sv)"
    and "\<forall>c \<in> dom (sv_cid_addr sv) - {cid}. srv_offers (st c) c (0, sv) (ms c)" "urx (uc_udp (sv_udp sv)) = []"
    and "tid_map parts T = Some mid"
  shows "\<exists>n sv'. server_recv_msgs ko oc (server_clear_msgs sv) = (Ok n, sv') \<and>
    server_recv_spec (CIdOnly cid) T sv' = Ok (map (\<lambda>m. \<lparr>nm_cid = cid, nm_time = None, nm_m = any_val m\<rparr>)
      (filter (\<lambda>m. any_tid m = T) msgs)) \<and>
    reports hook h sv' cid [Disconnected d]"
proof -
  obtain frames where f: "tx (tc_tcp (cl_tcp cl1)) = wire frames" "list_all2 (encodes bc parts) msgs frames"
      "\<forall>fr \<in> set frames. length (snd fr) \<le> tcp_max_msg_size (cl_tcp cl)"
      "tcp_max_msg_size (cl_tcp cl1) = tcp_max_msg_size (cl_tcp cl)" "cl_parts cl1 = parts"
    using client_sends_wire [OF assms(1,3,10,6)] carried_over_tcp assms(7,12) by (fastforce simp: tcp_max_msg_size_def)
  from client_disconnect_wire [OF assms(11), of bc] obtain fr where fr: "encodes bc parts d fr"
      "tid_map parts (any_tid d) = Some DISCONNECT_TYPE_MID" "tx (tc_tcp (cl_tcp cl')) = wire (frames @ [fr])"
      "length (snd fr) \<le> tcp_max_msg_size (cl_tcp cl)"
    using assms(1,3,9) f(1,4,5) by (auto simp: wire_append)
  have "con \<in> ran (sv_tcp sv)" using assms(16) by (rule ranI)
  then have wf: "wf_con con" "wf_ucon (sv_udp sv)" "dom (sv_tcp sv) = dom (sv_cid_addr sv)"
    using assms(14) by (simp_all add: wf_server_defs)
  have len: "\<forall>f \<in> set (frames @ [fr]). length (snd f) \<le> tcp_max_msg_size (cl_tcp cl)" using f(3) fr(4) by auto
  have rx: "rx (tc_tcp con) = wire (frames @ [fr])" using assms(17) fr(3) by simp
  note arr = farewell_arrives [OF assms(1,3,4,7,8) fr(2) f(2) fr(1) len assms(18,13) wf(1) rx]
  let ?st = "st(cid := Tail [] (rx_state (tc_tcp con)))" and ?ms = "ms(cid := map (received parts cid) (msgs @ [d]))"
  have mine: "srv_offers (?st cid) cid (0, sv) (?ms cid)"
    using arr(1,2) assms(5,16) by (auto simp del: map_append)
  have all: "\<forall>c \<in> dom (sv_cid_addr sv). srv_offers (?st c) c (0, sv) (?ms c)"
  proof
    fix c assume "c \<in> dom (sv_cid_addr sv)"
    then show "srv_offers (?st c) c (0, sv) (?ms c)" using mine assms(20) by (cases "c = cid") auto
  qed
  have udp: "srv_holds_udp oc (0, sv) []" using wf(2) assms(21) by (simp add: holds_datagrams_def)
  have alive: "server_alive sv cid" using assms(16) wf(3) unfolding server_alive_def by blast
  have "codec_of bc (sv_parts sv)" "tid_map (sv_parts sv) T = Some mid" using assms(3,5,22) by simp_all
  from round_reports [OF assms(14,15) alive all udp this assms(19), of hook h] show ?thesis
    using msgs_for_received [OF assms(1,2,22,7), where cid = cid]
    by (auto simp: departure_def arr(3,4) gone_def received_def simp del: map_append)
qed

theorem client_disconnect_reaches_server_witness:
  "\<exists>n sv'. server_recv_msgs demo_ko True (server_clear_msgs (demo_gone (frame 3 [7] @ frame 2 [9]))) = (Ok n, sv') \<and>
    server_recv_spec (CIdOnly 1) 13 sv' = Ok [\<lparr>nm_cid = 1, nm_time = None, nm_m = 7\<rparr>] \<and>
    reports (\<lambda>cid st seen. seen @ [cid]) [] sv' 1 [Disconnected (AnyBox 12 9)]"
proof -
  let ?sv = "demo_gone (frame 3 [7] @ frame 2 [9])" and ?cl = "demo_client []"
  have tx: "tx (tc_tcp (cl_tcp ?cl)) = []" by (simp add: demo_client_def demo_con_def demo_stream_def)
  obtain cl1 cl' where sent: "client_sends 0 [AnyBox 13 7] ?cl = (Ok (), cl1)"
      "client_disconnect 0 (AnyBox 12 9) cl1 = (Ok (), cl')" "tx (tc_tcp (cl_tcp cl')) = frame 3 [7] @ frame 2 [9]"
    by (simp add: client_send_def valid_tid_def hash_index_def index_def demo_ser client_send_tcp_def client_disconnect_def
      tcp_con_send_eq demo_client_def demo_con_def demo_stream_def stream_write_all_def tcp_buff_size_def
      tcp_from_stream_def Let_def tcp_con_close_def stream_flush_def stream_shutdown_def mid_defs)
  have others: "\<forall>c \<in> dom (sv_cid_addr ?sv) - {1}. srv_offers (Tail [] RxOpen) c (0, ?sv) []"
    using demo_gone_offers(2) by (auto split: if_splits simp del: srv_offers.simps)
  show ?thesis
    using client_disconnect_reaches_server [of demo_parts demo_bincode ?sv ?cl "[AnyBox 13 7]" "AnyBox 12 9" 0 cl1 0 cl'
        demo_ko 1 _ "\<lambda>_. Tail [] RxOpen" "\<lambda>_. []" 13 3 True "\<lambda>cid st seen. seen @ [cid]" "[]"]
      demo_parts_wf sent tx others demo_goodbye demo_gone_wf demo_ko_order
    by (simp add: demo_gone_con del: srv_offers.simps)
qed

text \<open>
  C12: A server's disconnect reaches the client. The client's next round delivers what the server
  sent over TCP before, counts the disconnect message, and leaves the client not open, with
  \<open>Disconnected\<close> and the value as its status; at the server the next \<open>handle_disconnects\<close>
  reports it once, as \<open>Closed\<close>, and removes it.
\<close>

theorem server_disconnect_reaches_client:
  assumes "wf_parts parts" "wf_numbering parts" "codec_of bc parts" "mid_count parts \<le> 65536"
    and "sv_parts sv = parts" "cl_parts cl = parts" "\<forall>m \<in> set msgs. carried bc parts m"
    and "survives bc d" "tid_map parts (any_tid d) = Some DISCONNECT_TYPE_MID" "transports parts ! DISCONNECT_TYPE_MID = TCP"
    and "wf_server sv" "sv_tcp sv cid = Some con" "tx (tc_tcp con) = []" "tcp_max_msg_size con < 65536"
    and "server_sends now cid msgs sv = (Ok (), sv1)" "server_disconnect now' d cid sv1 = (Ok (), sv')"
    and "cid \<notin> fst ` set (sv_disconnected sv)" "sv_tcp sv' cid = Some con'"
    and "wf_client cl" "cl_status cl = Connected" "rx (tc_tcp (cl_tcp cl)) = tx (tc_tcp con')"
    and "client_holds_udp oc (0, cl) us" "tcp_max_msg_size con \<le> tcp_max_msg_size (cl_tcp cl)" "tid_map parts T = Some mid"
  shows "\<exists>cl'. client_recv_msgs oc (client_clear_msgs cl) = (Ok (word_of_nat (length msgs + 1)), cl') \<and>
    client_recv T cl' = Ok (map (\<lambda>m. \<lparr>nm_cid = 0, nm_time = None, nm_m = any_val m\<rparr>)
      (filter (\<lambda>m. any_tid m = T) msgs)) \<and>
    cl_status cl' = Disconnected d \<and> \<not> client_open cl' \<and> reports hook h sv' cid [Closed]"
proof -
  obtain con1 frames where f: "sv_tcp sv1 cid = Some con1" "tx (tc_tcp con1) = wire frames"
      "list_all2 (encodes bc parts) msgs frames" "\<forall>fr \<in> set frames. length (snd fr) \<le> tcp_max_msg_size con"
      "tcp_max_msg_size con1 = tcp_max_msg_size con" "sv_parts sv1 = parts"
    using server_sends_wire [OF assms(1,3,15,5,12)] carried_over_tcp assms(7,13) by (fastforce simp: tcp_max_msg_size_def)
  have "over_tcp (sv_parts sv1) d" using assms(9,10) f(6) by simp
  from server_disconnect_wire [OF assms(16) _ _ this f(1), of bc] obtain fr where fr: "encodes bc parts d fr"
      "tx (tc_tcp con') = wire (frames @ [fr])" "length (snd fr) \<le> tcp_max_msg_size con"
    using assms(1,3,18) f(2,5,6) by (auto simp: wire_append)
  have wf: "wf_con (cl_tcp cl)" using assms(19) by (simp add: wf_client_def)
  have len: "\<forall>f \<in> set (frames @ [fr]). length (snd f) \<le> tcp_max_msg_size con" using f(4) fr(3) by auto
  have rx: "rx (tc_tcp (cl_tcp cl)) = wire (frames @ [fr])" using assms(21) fr(2) by simp
  note arr = farewell_arrives [OF assms(1,3,4,7,8,9) f(3) fr(1) len assms(23,14) wf rx]
  have offers: "client_offers (Tail [] (rx_state (tc_tcp (cl_tcp cl)))) (0, cl) (map (received parts 0) (msgs @ [d]))"
    using arr(1,2) assms(6) by (auto simp del: map_append)
  have codec: "codec_of bc (cl_parts cl)" "tid_map (cl_parts cl) T = Some mid" using assms(3,6,24) by simp_all
  have out: "outcome st (map (received parts 0) (msgs @ [d])) = Disconnected d" for st
    unfolding outcome_def arr(3) by (simp add: received_def)
  then have heard: "heard st (map (received parts 0) (msgs @ [d])) us = []" for st by (simp add: heard_def)
  from client_round_recv [OF assms(19,20) offers assms(22) codec, unfolded out heard arr(4,5)] obtain cl' where cl':
    "client_recv_msgs oc (client_clear_msgs cl) = (Ok (word_of_nat (length msgs + 1)), cl')"
    "cl_status cl' = Disconnected d"
    "client_recv T cl' = Ok (map (\<lambda>m. \<lparr>nm_cid = em_cid m, nm_time = em_time m, nm_m = any_val (em_msg m)\<rparr>)
        (msgs_for mid (map (received parts 0) msgs)))" by auto
  have socks: "socks_only sv sv1" using server_sends_socks [OF assms(15)] .
  note same = socks_only_fields [OF socks]
  have wf': "wf_server sv'" using wf_server_close [OF assms(16)] wf_socks [OF socks assms(11)] .
  note q = server_disconnect_queues [OF assms(16)]
  have "filter (\<lambda>p. fst p = cid) (sv_disconnected sv) = []" using assms(17) by (force simp: filter_empty_conv)
  then have "filter (\<lambda>p. fst p = cid) (sv_disconnected sv') = map (Pair cid) [Closed]" using q(2) same by simp
  moreover have "server_alive sv' cid" using q(1,3) by (simp add: server_alive_def)
  ultimately have "reports hook h sv' cid [Closed]" using reports_queued [OF wf'] by fastforce
  then show ?thesis using cl' msgs_for_received [OF assms(1,2,24,7), where cid = 0]
    by (simp add: client_open_def client_get_status_def)
qed

theorem server_disconnect_reaches_client_witness:
  "\<exists>cl'. client_recv_msgs True (client_clear_msgs (demo_client (frame 3 [7] @ frame 2 [9]))) = (Ok 2, cl') \<and>
    client_recv 13 cl' = Ok [\<lparr>nm_cid = 0, nm_time = None, nm_m = 7\<rparr>] \<and> cl_status cl' = Disconnected (AnyBox 12 9)"
proof -
  let ?sv = "demo_live [] [] [] []" and ?con = "demo_accepted (SockAddr 2 9) []"
  have w: "writable ?con 1"
    by (simp add: writable_def demo_accepted_def demo_con_def tcp_buff_size_def tcp_from_stream_def demo_stream_def)
  then obtain con1 where con1: "tcp_con_send 3 [7] ?con = (Ok (), con1)" using writable_send [of ?con "[7]" 3] by auto
  let ?sv1 = "?sv\<lparr>sv_tcp := (sv_tcp ?sv)(1 \<mapsto> con1)\<rparr>"
  have s1: "server_sends 0 1 [AnyBox 13 7] ?sv = (Ok (), ?sv1)"
    using server_send_to_tcp [of ?sv demo_bincode 13 3 1 ?con 0 7] demo_parts_wf con1 by (simp add: demo_bincode_def)
  obtain sv' con' where s2: "server_disconnect 0 (AnyBox 12 9) 1 ?sv1 = (Ok (), sv')" "sv_tcp sv' 1 = Some con'"
      "tx (tc_tcp con') = frame 3 [7] @ frame 2 [9]"
  proof -
    have "\<exists>con2. tcp_con_send 2 [9] con1 = (Ok (), con2) \<and> peer_name (tc_tcp con2) \<noteq> None \<and>
        tx (tc_tcp con2) = frame 3 [7] @ frame 2 [9]"
      using con1 by (auto simp: tcp_con_send_Ok tcp_buff_size_def demo_accepted_def demo_con_def demo_stream_def tcp_from_stream_def)
    then obtain con2 where c2: "tcp_con_send 2 [9] con1 = (Ok (), con2)" "peer_name (tc_tcp con2) \<noteq> None"
        "tx (tc_tcp con2) = frame 3 [7] @ frame 2 [9]" by blast
    have "server_send_to 0 1 (AnyBox 12 9) ?sv1 = (Ok (), ?sv1\<lparr>sv_tcp := (sv_tcp ?sv1)(1 \<mapsto> con2)\<rparr>)"
      using server_send_to_tcp [of ?sv1 demo_bincode 12 2 1 con1 0 9] demo_parts_wf c2(1) by (simp add: demo_bincode_def)
    then show thesis using that c2(2,3)
      by (auto simp: server_disconnect_def server_alive_def tcp_con_close_def stream_flush_def stream_shutdown_def)
  qed
  show ?thesis
    using server_disconnect_reaches_client [of demo_parts demo_bincode ?sv "demo_client (frame 3 [7] @ frame 2 [9])"
        "[AnyBox 13 7]" "AnyBox 12 9" 1 ?con 0 ?sv1 0 sv' con' True "[]" 13 3 "\<lambda>cid st seen. seen @ [cid]" "[]"]
      demo_parts_wf demo_goodbye demo_live_wf s1 s2 demo_client_simps(9)
    by auto
qed

text \<open>
  How each conversation that ends in a round is reported. Let a client offer the messages
  \<open>ms cid\<close> with the tail \<open>st cid\<close> behind them. After the round \<open>handle_disconnects\<close> reports it
  exactly once, with the disconnect message if one is among them and else with the error that ended
  the stream right behind them, and removes it; if there is neither, it does not report it, and the
  client lives on, also when the stream ended behind a part of a header.
\<close>

lemma departures_reported:
  assumes "wf_server sv" "key_order ko" "server_alive sv cid"
    and "\<forall>c \<in> dom (sv_cid_addr sv). srv_offers (st c) c (0, sv) (ms c)" "srv_holds_udp oc (0, sv) us"
    and "codec_of bc (sv_parts sv)" "tid_map (sv_parts sv) T = Some mid" "cid \<notin> fst ` set (sv_disconnected sv)"
  shows "\<exists>n sv'. server_recv_msgs ko oc (server_clear_msgs sv) = (Ok n, sv') \<and>
    reports hook h sv' cid
      (case find is_disconnect (ms cid) of
         Some d \<Rightarrow> [Disconnected (em_msg (snd d))]
       | None \<Rightarrow> (case ending (st cid) of Some e \<Rightarrow> [Dropped e] | None \<Rightarrow> []))"
  using round_reports [OF assms, of hook h]
  by (auto simp: departure_def gone_def split: option.splits)

section \<open>A conversation that never ends\<close>

text \<open>
  \<open>recv\<close> peeks for a header and takes less than one for a header that is still on its way, without
  asking whether the stream has ended.
\<close>

definition half_header :: "cid \<Rightarrow> tcp_stream \<Rightarrow> 'v server \<Rightarrow> bool" where
  "half_header cid s sv \<longleftrightarrow> (\<exists>con. sv_tcp sv cid = Some con \<and> tc_tcp con = s) \<and> rx s \<noteq> [] \<and> length (rx s) < 4 \<and>
     cid \<notin> fst ` set (sv_disconnected sv)"

lemma half_header_recv:
  assumes "half_header cid s sv" "server_recv_tcp c sv = (r, sv')"
  shows "half_header cid s sv' \<and> (c = cid \<longrightarrow> r = Err WouldBlock HeaderIncomplete)"
proof -
  obtain con where con: "sv_tcp sv cid = Some con" "tc_tcp con = s" "rx s \<noteq> []" "length (rx s) < 4"
    using assms(1) by (auto simp: half_header_def)
  then obtain buff where b: "tcp_con_recv con = (Err WouldBlock HeaderIncomplete, con\<lparr>tc_buff := buff\<rparr>)"
    using recv_part_of_header [of con] by auto
  then have "c = cid \<longrightarrow> r = Err WouldBlock HeaderIncomplete"
    using assms(2) con(1) by (auto simp: server_recv_tcp_def)
  then show ?thesis
    using assms(1) con b server_recv_tcp_frame(1) [OF assms(2)] by (auto simp: half_header_def)
qed

lemma half_header_loops:
  "half_header cid s sv \<Longrightarrow> server_tcp_loops cids (i, sv) = (r, i', sv') \<Longrightarrow> half_header cid s sv'"
proof (induction cids arbitrary: i sv)
  case (Cons c cids)
  obtain q j sv1 where 1: "server_tcp_loop c (i, sv) = (q, j, sv1)" by (metis prod_cases3)
  have "half_header cid s sv1"
  proof (cases "c = cid")
    case True
    obtain r1 sv2 where 2: "server_recv_tcp c sv = (r1, sv2)" by fastforce
    from half_header_recv [OF Cons.prems(1) this] True have "half_header cid s sv2" "r1 = Err WouldBlock HeaderIncomplete"
      by simp_all
    then show ?thesis using 1 2 by (simp add: server_tcp_loop.simps [of c i sv])
  next
    case False
    have "recv_keeps {c} {} (half_header cid s)"
    proof (rule recv_keeps_any)
      show "half_header cid s sv'" if "half_header cid s sv" "server_recv_tcp d sv = (r, sv')" for d sv r sv'
        using half_header_recv that by blast
    qed (use False in \<open>auto simp: half_header_def\<close>)
    from server_tcp_loop_inv [OF this _ _ 1] Cons.prems(1) show ?thesis by simp
  qed
  then show ?case using Cons 1 by (cases q) auto
qed simp

lemma half_header_round:
  assumes "half_header cid s sv" "server_recv_msgs ko oc sv = (r, sv')"
  shows "half_header cid s sv'"
proof -
  obtain q i sv1 where 1: "server_tcp_loops (server_cids ko sv) (0, sv) = (q, i, sv1)" by (metis prod_cases3)
  obtain q2 i2 sv2 where 2: "server_udp_loop oc (i, sv1) = (q2, i2, sv2)" by (metis prod_cases3)
  have h1: "half_header cid s sv1" using half_header_loops [OF assms(1) 1] .
  have "recv_keeps {} {oc} (half_header cid s)"
  proof (rule recv_keeps_any)
    show "half_header cid s sv'" if "half_header cid s sv" "server_recv_udp oc sv = (r, sv')" for oc sv r sv'
      using server_recv_udp_frame(1) [OF that(2)] that(1) by (simp add: half_header_def)
  qed (auto simp: half_header_def)
  from server_udp_loop_inv [OF this _ _ 2] h1 have "half_header cid s sv2" by simp
  then show ?thesis using assms(2) 1 2 h1 by (cases q; cases q2) (auto simp: server_recv_msgs_def)
qed

text \<open>
  C34: A conversation can fail to end. When the stream of a client has ended with one to three
  bytes in front of its end, no number of rounds reports the client or takes a byte from its
  stream: it stays alive for the server for ever, although it is gone.
\<close>

theorem half_header_never_reported:
  assumes "sv_tcp sv cid = Some con" "rx (tc_tcp con) = bs @ [b]" "length bs < 3"
    and "rx_state (tc_tcp con) = RxEof" "cid \<notin> fst ` set (sv_disconnected sv)" "wf_server sv"
  shows "\<exists>con'. sv_tcp (((\<lambda>sv. snd (server_recv_msgs ko oc (server_clear_msgs sv))) ^^ n) sv) cid = Some con' \<and>
    tc_tcp con' = tc_tcp con \<and>
    reports hook h (((\<lambda>sv. snd (server_recv_msgs ko oc (server_clear_msgs sv))) ^^ n) sv) cid []"
proof -
  let ?round = "\<lambda>sv. snd (server_recv_msgs ko oc (server_clear_msgs sv))"
  have "half_header cid (tc_tcp con) ((?round ^^ n) sv) \<and> wf_server ((?round ^^ n) sv)"
  proof (induction n)
    case 0
    then show ?case using assms by (simp add: half_header_def)
  next
    case (Suc n)
    let ?sv = "(?round ^^ n) sv"
    obtain r sv' where r: "server_recv_msgs ko oc (server_clear_msgs ?sv) = (r, sv')" by fastforce
    have "half_header cid (tc_tcp con) (server_clear_msgs ?sv)"
      using Suc by (simp add: half_header_def server_clear_msgs_def)
    then have "half_header cid (tc_tcp con) sv'" using half_header_round r by blast
    moreover have "wf_server sv'"
      using server_recv_msgs_inv [OF wf_recv_keeps server_step_wf [OF step_clear_msgs] r] Suc by blast
    ultimately show ?case using r by simp
  qed
  then obtain con' where c: "sv_tcp ((?round ^^ n) sv) cid = Some con'" "tc_tcp con' = tc_tcp con"
      "cid \<notin> fst ` set (sv_disconnected ((?round ^^ n) sv))" "wf_server ((?round ^^ n) sv)"
    by (auto simp: half_header_def)
  then have "server_alive ((?round ^^ n) sv) cid" by (auto simp: server_alive_def wf_server_defs)
  moreover have "filter (\<lambda>p. fst p = cid) (sv_disconnected ((?round ^^ n) sv)) = map (Pair cid) []"
    using c(3) by (force simp: filter_empty_conv)
  ultimately have "reports hook h ((?round ^^ n) sv) cid []"
    using reports_queued [OF c(4), of cid "[]" hook h] by simp
  then show ?thesis using c(1,2) by auto
qed

theorem half_header_never_reported_witness:
  "reports (\<lambda>cid st seen. seen @ [cid]) [] (((\<lambda>sv. snd (server_recv_msgs demo_ko True (server_clear_msgs sv))) ^^ 1000)
     (demo_gone [0, 3])) 1 []"
  using half_header_never_reported [OF demo_gone_simps(5), of "[0, 3]" "[0]" 3] demo_gone_wf by fastforce

end
