(* ===== verification/Session.thy ===== *)
theory Session
  imports Leaving Datagrams
begin

text \<open>
  A whole session: one server and its clients (\<open>src/server.rs\<close>, \<open>src/client.rs\<close>), each sending and
  receiving frame by frame in any order, over a network that moves bytes from one end of a TCP
  connection to the other in pieces of any size, and loses, repeats and reorders datagrams. The step
  relation \<open>link_step\<close> is built from the operations of both ends; each direction of each TCP connection
  is a first-in first-out queue of values, as long as no frame of the game falls between a header and
  the end of its payload (\<open>tcp_recv_loses_partial_payload\<close> shows what happens then), and what is read of
  a type that goes over UDP has been sent.
\<close>

section \<open>Where a stream of frames is cut\<close>

text \<open>Whole frames, and at most three bytes of the next header behind them.\<close>

function no_cut :: "byte list \<Rightarrow> bool" where
  "no_cut bs =
     (if length bs < TCP_HEADER_LEN then True
      else case tcp_from_be_bytes (take TCP_HEADER_LEN bs) of
        Inl e \<Rightarrow> False
      | Inr h \<Rightarrow> th_len h + TCP_HEADER_LEN \<le> length bs \<and> no_cut (drop (th_len h + TCP_HEADER_LEN) bs))"
  by pat_completeness auto
termination
  by (relation "measure length") auto

declare no_cut.simps [simp del]

lemma no_cut_frame:
  assumes "length payload < 65536"
  shows "no_cut (frame mid payload @ bs) \<longleftrightarrow> no_cut bs"
proof -
  have "tcp_from_be_bytes (take TCP_HEADER_LEN (frame mid payload @ bs)) = Ok \<lparr>th_mid = mid mod 65536, th_len = length payload\<rparr>"
    using frame_header_decode [of mid payload bs] assms by simp
  then show ?thesis by (simp add: no_cut.simps [of "frame mid payload @ bs"])
qed

lemma no_cut_short: "length bs < 4 \<Longrightarrow> no_cut bs"
  by (simp add: no_cut.simps [of bs])

lemma no_cut_wire: "\<forall>fr \<in> set frames. length (snd fr) < 65536 \<Longrightarrow> no_cut (wire frames)"
  by (induction frames) (auto simp: wire_def no_cut_frame no_cut_short)

text \<open>What has arrived of a stream of frames, when it is cut nowhere else.\<close>

lemma no_cut_prefix:
  assumes "no_cut bs" "bs @ rest = wire frames" "\<forall>fr \<in> set frames. length (snd fr) < 65536"
  shows "\<exists>k bs'. bs = wire (take k frames) @ bs' \<and> length bs' < 4 \<and> bs' @ rest = wire (drop k frames)"
  using assms
proof (induction frames arbitrary: bs)
  case Nil
  then show ?case by (intro exI [of _ 0] exI [of _ "[]"]) (simp add: wire_def)
next
  case (Cons fr frames)
  obtain mid payload where fr: "fr = (mid, payload)" by (cases fr)
  have all: "bs @ rest = frame mid payload @ wire frames" using Cons.prems(2) by (simp add: fr wire_def)
  have len: "length payload < 65536" using Cons.prems(3) by (simp add: fr)
  show ?case
  proof (cases "length bs < 4")
    case True
    then show ?thesis using Cons.prems(2) by (intro exI [of _ 0] exI [of _ bs]) (simp add: wire_def)
  next
    case False
    then have "take 4 bs = take 4 (frame mid payload @ wire frames)"
      unfolding all [symmetric] by simp
    then have "tcp_from_be_bytes (take 4 bs) = Ok \<lparr>th_mid = mid mod 65536, th_len = length payload\<rparr>"
      using frame_header_decode len by simp
    then have "length payload + 4 \<le> length bs"
      using Cons.prems(1) False by (simp add: no_cut.simps [of bs])
    moreover have "take (length payload + 4) (bs @ rest) = frame mid payload"
      "drop (length payload + 4) (bs @ rest) = wire frames" by (simp_all add: all)
    ultimately obtain bs1 where bs: "bs = frame mid payload @ bs1" "bs1 @ rest = wire frames"
      by (metis append_take_drop_id diff_is_0_eq drop_append take_append take_eq_Nil append_Nil2 drop_0)
    have "no_cut bs1" using Cons.prems(1) len by (simp add: bs(1) no_cut_frame)
    from Cons.IH [OF this bs(2)] Cons.prems(3) obtain k bs' where
      "bs1 = wire (take k frames) @ bs'" "length bs' < 4" "bs' @ rest = wire (drop k frames)" by auto
    then show ?thesis by (intro exI [of _ "Suc k"] exI [of _ bs']) (simp add: bs(1) fr wire_def)
  qed
qed

lemma wire_Nil_iff: "wire frames = [] \<longleftrightarrow> frames = []" "[] = wire frames \<longleftrightarrow> frames = []"
proof -
  have "frame mid payload \<noteq> []" for mid payload by (simp flip: length_greater_0_conv)
  then show "wire frames = [] \<longleftrightarrow> frames = []" by (cases frames) (simp_all add: wire_def split_beta)
  then show "[] = wire frames \<longleftrightarrow> frames = []" by auto
qed

section \<open>One direction of a connection\<close>

definition types_over :: "transport \<Rightarrow> 'v parts \<Rightarrow> type_id set" where
  "types_over tr parts = {T. \<exists>mid. tid_map parts T = Some mid \<and> transports parts ! mid = tr}"

text \<open>The values \<open>ms\<close> are under way: the bytes \<open>bs\<close> are their frames, of payloads of at most \<open>n\<close> bytes.\<close>

definition under_way :: "'v bincode \<Rightarrow> 'v parts \<Rightarrow> nat \<Rightarrow> 'v any list \<Rightarrow> byte list \<Rightarrow> bool" where
  "under_way bc parts n ms bs \<longleftrightarrow> (\<forall>m \<in> set ms. carried bc parts m) \<and>
     (\<exists>frames. bs = wire frames \<and> list_all2 (encodes bc parts) ms frames \<and> (\<forall>fr \<in> set frames. length (snd fr) \<le> n))"

lemma under_way_Nil [simp]: "under_way bc parts n [] []"
  by (simp add: under_way_def wire_def)

lemma under_way_none: "under_way bc parts n ms [] \<Longrightarrow> ms = []"
  by (auto simp: under_way_def wire_Nil_iff)

lemma under_way_send:
  assumes "under_way bc parts n ms bs" "encodes bc parts m (mid, b)" "length b \<le> n" "carried bc parts m"
  shows "under_way bc parts n (ms @ [m]) (bs @ frame mid b)"
proof -
  obtain frames where "bs = wire frames" "list_all2 (encodes bc parts) ms frames" "\<forall>fr \<in> set frames. length (snd fr) \<le> n"
    using assms(1) unfolding under_way_def by blast
  then have "bs @ frame mid b = wire (frames @ [(mid, b)])" "list_all2 (encodes bc parts) (ms @ [m]) (frames @ [(mid, b)])"
    "\<forall>fr \<in> set (frames @ [(mid, b)]). length (snd fr) \<le> n"
    using assms(2,3) by (auto simp: wire_append wire_def list_all2_appendI)
  moreover have "\<forall>m' \<in> set (ms @ [m]). carried bc parts m'" using assms(1,4) by (auto simp: under_way_def)
  ultimately show ?thesis unfolding under_way_def by blast
qed

lemma under_way_no_cut: "under_way bc parts n ms bs \<Longrightarrow> n < 65536 \<Longrightarrow> no_cut bs"
  by (auto simp: under_way_def intro!: no_cut_wire)

lemma under_way_arrives:
  assumes "wf_parts parts" "codec_of bc parts" "mid_count parts \<le> 65536"
    and "under_way bc parts n ms (rx (tc_tcp con) @ rest)" "no_cut (rx (tc_tcp con))"
    and "wf_con con" "n = tcp_max_msg_size con" "n < 65536"
  obtains k bs where "length bs < 4" "under_way bc parts n (drop k ms) (bs @ rest)"
    "\<exists>frames. offers_frames (Tail bs (rx_state (tc_tcp con))) con frames \<and>
       list_all2 (decoded parts cid) frames (map (received parts cid) (take k ms))"
    "\<forall>m \<in> set (take k ms). carried bc parts m"
proof -
  obtain frames where f: "rx (tc_tcp con) @ rest = wire frames" "list_all2 (encodes bc parts) ms frames"
      "\<forall>fr \<in> set frames. length (snd fr) \<le> n" "\<forall>m \<in> set ms. carried bc parts m"
    using assms(4) by (auto simp: under_way_def)
  have "\<forall>fr \<in> set frames. length (snd fr) < 65536" using f(3) assms(8) by auto
  from no_cut_prefix [OF assms(5) f(1) this] obtain k bs where
    k: "rx (tc_tcp con) = wire (take k frames) @ bs" "length bs < 4" "bs @ rest = wire (drop k frames)" by blast
  have sub: "\<forall>m \<in> set (take k ms). carried bc parts m" "\<forall>m \<in> set (drop k ms). carried bc parts m"
      "\<forall>fr \<in> set (take k frames). length (snd fr) \<le> n" "\<forall>fr \<in> set (drop k frames). length (snd fr) \<le> n"
    using f(3,4) by (auto dest: in_set_takeD in_set_dropD)
  have enc: "list_all2 (encodes bc parts) (take k ms) (take k frames)" "list_all2 (encodes bc parts) (drop k ms) (drop k frames)"
    using f(2) by (simp_all add: list_all2_takeI list_all2_dropI)
  have "n \<le> tcp_max_msg_size con" using assms(7) by simp
  note arr = wire_arrives [OF assms(1-3) carried_arrives(1) [OF sub(1)] enc(1) sub(3) this assms(8,6) k(1,2)]
  have "under_way bc parts n (drop k ms) (bs @ rest)" using sub(2,4) enc(2) k(3) by (auto simp: under_way_def)
  then show thesis using that k(2) arr sub(1) by blast
qed

text \<open>
  The queue from one end to the other: of the values sent, those in front have been read, type by
  type, and those behind are under way.
\<close>

definition channel ::
    "'v bincode \<Rightarrow> 'v parts \<Rightarrow> nat \<Rightarrow> cid \<Rightarrow> 'v any list \<Rightarrow> (type_id \<Rightarrow> 'v net_msg list) \<Rightarrow> byte list \<Rightarrow> bool" where
  "channel bc parts n src sent got bs \<longleftrightarrow> (\<exists>old ms. sent = old @ ms \<and> under_way bc parts n ms bs \<and>
     (\<forall>T \<in> types_over TCP parts. got T =
        map (\<lambda>m. \<lparr>nm_cid = src, nm_time = None, nm_m = any_val m\<rparr>) (filter (\<lambda>m. any_tid m = T) old)))"

lemma channel_send:
  assumes "channel bc parts n src sent got bs" "encodes bc parts m (mid, b)" "length b \<le> n" "carried bc parts m"
  shows "channel bc parts n src (sent @ [m]) got (bs @ frame mid b)"
proof -
  obtain old ms where "sent = old @ ms" "under_way bc parts n ms bs" "\<forall>T \<in> types_over TCP parts. got T =
        map (\<lambda>m. \<lparr>nm_cid = src, nm_time = None, nm_m = any_val m\<rparr>) (filter (\<lambda>m. any_tid m = T) old)"
    using assms(1) by (auto simp: channel_def)
  then show ?thesis
    using under_way_send [OF _ assms(2-4)] unfolding channel_def by (intro exI [of _ old] exI [of _ "ms @ [m]"]) auto
qed

text \<open>What of the sent values is read when the receiving end takes all whole frames, with \<open>bs\<close> left.\<close>

lemma channel_receive:
  assumes "sent = old @ ms" "\<forall>T \<in> types_over TCP parts. got T =
        map (\<lambda>m. \<lparr>nm_cid = src, nm_time = None, nm_m = any_val m\<rparr>) (filter (\<lambda>m. any_tid m = T) old)"
    and "under_way bc parts n (drop k ms) bs" "\<forall>T \<in> types_over TCP parts. got' T = got T @
        map (\<lambda>m. \<lparr>nm_cid = src, nm_time = None, nm_m = any_val m\<rparr>) (filter (\<lambda>m. any_tid m = T) (take k ms))"
  shows "channel bc parts n src sent got' bs"
  unfolding channel_def using assms by (intro exI [of _ "old @ take k ms"] exI [of _ "drop k ms"]) auto

section \<open>The link between a server and its clients\<close>

text \<open>
  The state of a session: both ends of every connection, what was sent over TCP and read on it in both
  directions so far, what was sent over UDP and when, and whether a call of \<open>recv_msgs\<close> has panicked.
\<close>

record 'v link =
  lk_server :: "'v server"
  lk_client :: "cid \<Rightarrow> 'v client"
  lk_up :: "cid \<Rightarrow> 'v any list"
  lk_up_got :: "cid \<Rightarrow> type_id \<Rightarrow> 'v net_msg list"
  lk_down :: "cid \<Rightarrow> 'v any list"
  lk_down_got :: "cid \<Rightarrow> type_id \<Rightarrow> 'v net_msg list"
  lk_up_udp :: "cid \<Rightarrow> (int \<times> 'v any) list"
  lk_down_udp :: "cid \<Rightarrow> (int \<times> 'v any) list"
  lk_panicked :: bool

text \<open>The network takes bytes from the send buffer of one end to the receive buffer of the other.\<close>

definition sends_off :: "nat \<Rightarrow> tcp_con \<Rightarrow> tcp_con" where
  "sends_off n c = c\<lparr>tc_tcp := (tc_tcp c)\<lparr>tx := drop n (tx (tc_tcp c)), tx_room := tx_room (tc_tcp c) + n\<rparr>\<rparr>"

definition takes_in :: "byte list \<Rightarrow> tcp_con \<Rightarrow> tcp_con" where
  "takes_in bs c = c\<lparr>tc_tcp := (tc_tcp c)\<lparr>rx := rx (tc_tcp c) @ bs\<rparr>\<rparr>"

definition gets_datagram :: "sock_addr \<Rightarrow> byte list \<Rightarrow> int \<Rightarrow> udp_con \<Rightarrow> udp_con" where
  "gets_datagram src bs at u = u\<lparr>uc_udp := (uc_udp u)\<lparr>urx := urx (uc_udp u) @ [Datagram src bs at]\<rparr>\<rparr>"

lemma network_simps [simp]:
  "tx (tc_tcp (sends_off n c)) = drop n (tx (tc_tcp c))" "rx (tc_tcp (sends_off n c)) = rx (tc_tcp c)"
  "rx_state (tc_tcp (sends_off n c)) = rx_state (tc_tcp c)" "tc_buff (sends_off n c) = tc_buff c"
  "tx (tc_tcp (takes_in bs c)) = tx (tc_tcp c)" "rx (tc_tcp (takes_in bs c)) = rx (tc_tcp c) @ bs"
  "rx_state (tc_tcp (takes_in bs c)) = rx_state (tc_tcp c)" "tc_buff (takes_in bs c) = tc_buff c"
  "tcp_max_msg_size (sends_off n c) = tcp_max_msg_size c" "tcp_max_msg_size (takes_in bs c) = tcp_max_msg_size c"
  "wf_con (sends_off n c) = wf_con c" "wf_con (takes_in bs c) = wf_con c"
  by (simp_all add: sends_off_def takes_in_def tcp_max_msg_size_def wf_con_def)

text \<open>What the application gets when it reads a buffer.\<close>

definition reads :: "'v net_msg list res \<Rightarrow> 'v net_msg list" where
  "reads r = (case r of Inl e \<Rightarrow> [] | Inr ms \<Rightarrow> ms)"

lemma reads_Ok [simp]: "reads (Ok ms) = ms"
  by (simp add: reads_def)

text \<open>The network moves \<open>n\<close> bytes one way or the other.\<close>

inductive network_step :: "'v link \<Rightarrow> 'v link \<Rightarrow> bool" where
  goes_up: "sv_tcp (lk_server l) c = Some con \<Longrightarrow> n \<le> length (tx (tc_tcp (cl_tcp (lk_client l c)))) \<Longrightarrow>
    network_step l
      (l\<lparr>lk_server := (lk_server l)\<lparr>sv_tcp := (sv_tcp (lk_server l))
           (c \<mapsto> takes_in (take n (tx (tc_tcp (cl_tcp (lk_client l c))))) con)\<rparr>,
         lk_client := (lk_client l)(c := (lk_client l c)\<lparr>cl_tcp := sends_off n (cl_tcp (lk_client l c))\<rparr>)\<rparr>)"
| goes_down: "sv_tcp (lk_server l) c = Some con \<Longrightarrow> n \<le> length (tx (tc_tcp con)) \<Longrightarrow>
    network_step l
      (l\<lparr>lk_server := (lk_server l)\<lparr>sv_tcp := (sv_tcp (lk_server l))(c \<mapsto> sends_off n con)\<rparr>,
         lk_client := (lk_client l)
           (c := (lk_client l c)\<lparr>cl_tcp := takes_in (take n (tx (tc_tcp con))) (cl_tcp (lk_client l c))\<rparr>)\<rparr>)"

text \<open>One round at an end: it runs \<open>clear_msgs\<close> and \<open>recv_msgs\<close> and reads its buffers.\<close>

definition server_runs :: "((cid \<rightharpoonup> sock_addr) \<Rightarrow> cid list) \<Rightarrow> bool \<Rightarrow> 'v link \<Rightarrow> 'v link" where
  "server_runs ko oc l =
     (case server_recv_msgs ko oc (server_clear_msgs (lk_server l)) of
        (r, sv) \<Rightarrow> l\<lparr>lk_server := sv, lk_up_got := (\<lambda>c T. lk_up_got l c T @ reads (server_recv_spec (CIdOnly c) T sv)),
          lk_panicked := (lk_panicked l \<or> is_panic r)\<rparr>)"

definition client_runs :: "bool \<Rightarrow> cid \<Rightarrow> 'v link \<Rightarrow> 'v link" where
  "client_runs oc c l =
     (case client_recv_msgs oc (client_clear_msgs (lk_client l c)) of
        (r, cl) \<Rightarrow> l\<lparr>lk_client := (lk_client l)(c := cl),
          lk_down_got := (lk_down_got l)(c := (\<lambda>T. lk_down_got l c T @ reads (client_recv T cl))),
          lk_panicked := (lk_panicked l \<or> is_panic r)\<rparr>)"

text \<open>
  One step: an end sends a value, or fails to and has written none of its bytes; the network moves
  bytes, or brings the datagram of a value that was sent, when it fits the receiver's buffer and is not
  older than a time stamp can tell; or an end runs a round, not in the middle of a payload. (What
  happens after a send that fails half way is \<open>partial_send_forges\<close>. \<open>broadcast\<close> and \<open>send_spec\<close> are
  sequences of \<open>send_to\<close>.)
\<close>

inductive link_step ::
    "'v bincode \<Rightarrow> 'v parts \<Rightarrow> ((cid \<rightharpoonup> sock_addr) \<Rightarrow> cid list) \<Rightarrow> bool \<Rightarrow> 'v link \<Rightarrow> 'v link \<Rightarrow> bool"
  for bc parts ko oc where
  client_sends: "carried bc parts m \<Longrightarrow> client_send now m (lk_client l c) = (Ok (), cl) \<Longrightarrow>
    link_step bc parts ko oc l (l\<lparr>lk_client := (lk_client l)(c := cl), lk_up := (lk_up l)(c := lk_up l c @ [m])\<rparr>)"
| server_sends: "carried bc parts m \<Longrightarrow> server_send_to now c m (lk_server l) = (Ok (), sv) \<Longrightarrow>
    link_step bc parts ko oc l (l\<lparr>lk_server := sv, lk_down := (lk_down l)(c := lk_down l c @ [m])\<rparr>)"
| client_send_fails: "client_send now m (lk_client l c) = (Inl (IoErr e), cl) \<Longrightarrow>
    tx (tc_tcp (cl_tcp cl)) = tx (tc_tcp (cl_tcp (lk_client l c))) \<Longrightarrow>
    link_step bc parts ko oc l (l\<lparr>lk_client := (lk_client l)(c := cl)\<rparr>)"
| server_send_fails: "server_send_to now c m (lk_server l) = (Inl (IoErr e), sv) \<Longrightarrow>
    map_option (\<lambda>con. tx (tc_tcp con)) (sv_tcp sv c) = map_option (\<lambda>con. tx (tc_tcp con)) (sv_tcp (lk_server l) c) \<Longrightarrow>
    link_step bc parts ko oc l (l\<lparr>lk_server := sv\<rparr>)"
| network: "network_step l l' \<Longrightarrow> link_step bc parts ko oc l l'"
| client_sends_udp: "carried_udp bc parts m \<Longrightarrow> client_send now m (lk_client l c) = (Ok (), cl) \<Longrightarrow>
    link_step bc parts ko oc l
      (l\<lparr>lk_client := (lk_client l)(c := cl), lk_up_udp := (lk_up_udp l)(c := lk_up_udp l c @ [(now, m)])\<rparr>)"
| server_sends_udp: "carried_udp bc parts m \<Longrightarrow> server_send_to now c m (lk_server l) = (Ok (), sv) \<Longrightarrow>
    link_step bc parts ko oc l (l\<lparr>lk_server := sv, lk_down_udp := (lk_down_udp l)(c := lk_down_udp l c @ [(now, m)])\<rparr>)"
| datagram_up: "(now, m) \<in> set (lk_up_udp l c) \<Longrightarrow> carried_udp bc parts m \<Longrightarrow>
    dgram_of bc parts (length (uc_buff (sv_udp (lk_server l)))) (now, m) bs \<Longrightarrow> fresh oc at (stamp now) \<Longrightarrow>
    sv_addr_cid (lk_server l) src = Some c \<Longrightarrow>
    link_step bc parts ko oc l (l\<lparr>lk_server := (lk_server l)\<lparr>sv_udp := gets_datagram src bs at (sv_udp (lk_server l))\<rparr>\<rparr>)"
| datagram_down: "(now, m) \<in> set (lk_down_udp l c) \<Longrightarrow> carried_udp bc parts m \<Longrightarrow>
    dgram_of bc parts (length (uc_buff (cl_udp (lk_client l c)))) (now, m) bs \<Longrightarrow> fresh oc at (stamp now) \<Longrightarrow>
    link_step bc parts ko oc l
      (l\<lparr>lk_client := (lk_client l)(c := (lk_client l c)\<lparr>cl_udp := gets_datagram src bs at (cl_udp (lk_client l c))\<rparr>)\<rparr>)"
| server_frame: "\<forall>con \<in> ran (sv_tcp (lk_server l)). no_cut (rx (tc_tcp con)) \<Longrightarrow>
    link_step bc parts ko oc l (server_runs ko oc l)"
| client_frame: "sv_tcp (lk_server l) c = Some con \<Longrightarrow> no_cut (rx (tc_tcp (cl_tcp (lk_client l c)))) \<Longrightarrow>
    link_step bc parts ko oc l (client_runs oc c l)"

text \<open>Both ends of one connection, and the channels in both directions.\<close>

definition joined :: "'v bincode \<Rightarrow> 'v parts \<Rightarrow> cid \<Rightarrow> tcp_con \<Rightarrow> 'v client \<Rightarrow> 'v any list \<Rightarrow> (type_id \<Rightarrow> 'v net_msg list) \<Rightarrow>
    'v any list \<Rightarrow> (type_id \<Rightarrow> 'v net_msg list) \<Rightarrow> bool" where
  "joined bc parts c con cl up up_got down down_got \<longleftrightarrow>
     wf_con con \<and> rx_state (tc_tcp con) = RxOpen \<and> tcp_max_msg_size con < 65536 \<and>
     wf_client cl \<and> rx_state (tc_tcp (cl_tcp cl)) = RxOpen \<and> tcp_max_msg_size (cl_tcp cl) = tcp_max_msg_size con \<and>
     cl_parts cl = parts \<and> cl_status cl = Connected \<and>
     channel bc parts (tcp_max_msg_size con) c up up_got (rx (tc_tcp con) @ tx (tc_tcp (cl_tcp cl))) \<and>
     channel bc parts (tcp_max_msg_size con) 0 down down_got (rx (tc_tcp (cl_tcp cl)) @ tx (tc_tcp con))"

text \<open>They depend on these parts of the streams only.\<close>

definition same_stream :: "tcp_con \<Rightarrow> tcp_con \<Rightarrow> bool" where
  "same_stream a b \<longleftrightarrow> rx (tc_tcp b) = rx (tc_tcp a) \<and> rx_state (tc_tcp b) = rx_state (tc_tcp a) \<and>
     length (tc_buff b) = length (tc_buff a)"

lemma same_stream_refl [simp]: "same_stream a a"
  by (simp add: same_stream_def)

lemma joined_same:
  assumes "joined bc parts c con cl up up_got down down_got" "same_stream con con'" "same_stream (cl_tcp cl) t"
    and "tx (tc_tcp con') = tx (tc_tcp con)" "tx (tc_tcp t) = tx (tc_tcp (cl_tcp cl))" "length (uc_buff u) = length (uc_buff (cl_udp cl))"
  shows "joined bc parts c con' (cl\<lparr>cl_tcp := t, cl_udp := u\<rparr>) up up_got down down_got"
  using assms by (auto simp: joined_def same_stream_def wf_con_def tcp_max_msg_size_def wf_client_def wf_ucon_def)

lemma tcp_send_same_stream: "tcp_con_send mid b con = (r, con') \<Longrightarrow> same_stream con con'"
  by (auto simp: same_stream_def tcp_con_send_eq stream_write_all_def split: if_splits option.splits)

text \<open>What a send leaves alone, whether it succeeds or fails.\<close>

lemma client_send_keeps:
  assumes "client_send now m cl = (r, cl')"
  shows "\<exists>t u. cl' = cl\<lparr>cl_tcp := t, cl_udp := u\<rparr> \<and> same_stream (cl_tcp cl) t \<and>
    urx (uc_udp u) = urx (uc_udp (cl_udp cl)) \<and> length (uc_buff u) = length (uc_buff (cl_udp cl))"
proof -
  have none: ?thesis if "cl' = cl" using that by (intro exI [of _ "cl_tcp cl"] exI [of _ "cl_udp cl"]) simp
  have tcp: ?thesis if "client_send_tcp mid b cl = (r, cl')" for mid b
  proof -
    obtain q t where t: "tcp_con_send mid b (cl_tcp cl) = (q, t)" by fastforce
    then have "cl' = cl\<lparr>cl_tcp := t\<rparr>" using that by (simp add: client_send_tcp_def)
    then show ?thesis using tcp_send_same_stream [OF t] by (intro exI [of _ t] exI [of _ "cl_udp cl"]) simp
  qed
  have udp: ?thesis if "client_send_udp now mid b cl = (r, cl')" for mid b
  proof -
    obtain q u where u: "udp_con_send now mid b (cl_udp cl) = (q, u)" by fastforce
    then have "cl' = cl\<lparr>cl_udp := u\<rparr>" using that by (simp add: client_send_udp_def)
    moreover have "urx (uc_udp u) = urx (uc_udp (cl_udp cl))" "uc_buff u = uc_buff (cl_udp cl)"
      using u by (auto simp: udp_con_send_def socket_send_def socket_send_to_def split: sum.splits option.splits prod.splits)
    ultimately show ?thesis by (intro exI [of _ "cl_tcp cl"] exI [of _ u]) simp
  qed
  consider "cl' = cl" | mid b where "client_send_tcp mid b cl = (r, cl')" | mid b where "client_send_udp now mid b cl = (r, cl')"
    using assms by (auto simp: client_send_def Let_def split: if_splits sum.splits prod.splits transport.splits)
  then show ?thesis using none tcp udp by cases
qed

lemma server_send_keeps:
  assumes "server_send_to now c m sv = (r, sv')"
  shows "\<exists>t u. sv' = sv\<lparr>sv_tcp := t, sv_udp := u\<rparr> \<and> (\<forall>d. rel_option same_stream (sv_tcp sv d) (t d)) \<and>
    (\<forall>d. d \<noteq> c \<longrightarrow> t d = sv_tcp sv d) \<and>
    urx (uc_udp u) = urx (uc_udp (sv_udp sv)) \<and> length (uc_buff u) = length (uc_buff (sv_udp sv))"
proof -
  have refl: "rel_option same_stream x x" for x by (simp add: option.rel_refl)
  have none: ?thesis if "sv' = sv" using that refl by (intro exI [of _ "sv_tcp sv"] exI [of _ "sv_udp sv"]) simp
  have tcp: ?thesis if "server_send_tcp c mid b sv = (r, sv')" for mid b
  proof (cases "sv_tcp sv c")
    case None
    then show ?thesis using that none by (simp add: server_send_tcp_def)
  next
    case (Some con)
    obtain q con' where t: "tcp_con_send mid b con = (q, con')" by fastforce
    then have "sv' = sv\<lparr>sv_tcp := (sv_tcp sv)(c \<mapsto> con')\<rparr>" using that Some by (simp add: server_send_tcp_def)
    then show ?thesis using tcp_send_same_stream [OF t] Some refl
      by (intro exI [of _ "(sv_tcp sv)(c \<mapsto> con')"] exI [of _ "sv_udp sv"]) simp
  qed
  have udp: ?thesis if "server_send_udp now c mid b sv = (r, sv')" for mid b
  proof (cases "sv_cid_addr sv c")
    case None
    then show ?thesis using that none by (simp add: server_send_udp_def)
  next
    case (Some addr)
    obtain q u where u: "udp_con_send_to now addr mid b (sv_udp sv) = (q, u)" by fastforce
    then have "sv' = sv\<lparr>sv_udp := u\<rparr>" using that Some by (simp add: server_send_udp_def)
    moreover have "urx (uc_udp u) = urx (uc_udp (sv_udp sv))" "uc_buff u = uc_buff (sv_udp sv)"
      using u by (auto simp: udp_con_send_to_def socket_send_to_def split: sum.splits option.splits prod.splits)
    ultimately show ?thesis using refl by (intro exI [of _ "sv_tcp sv"] exI [of _ u]) simp
  qed
  consider "sv' = sv" | mid b where "server_send_tcp c mid b sv = (r, sv')" | mid b where "server_send_udp now c mid b sv = (r, sv')"
    using assms by (auto simp: server_send_to_def Let_def split: if_splits sum.splits prod.splits transport.splits)
  then show ?thesis using none tcp udp by cases
qed

text \<open>
  UDP: a message that waits in a socket has been sent, and so has everything read of a type that goes
  over UDP.
\<close>

definition by_udp :: "'v parts \<Rightarrow> (int \<times> 'v any) list \<Rightarrow> cid \<Rightarrow> mid \<times> 'v erased_net_msg \<Rightarrow> bool" where
  "by_udp parts sent c u \<longleftrightarrow> (\<exists>now m. (now, m) \<in> set sent \<and> tid_map parts (any_tid m) = Some (fst u) \<and>
     transports parts ! fst u = UDP \<and> snd u = \<lparr>em_cid = c, em_time = Some (stamp now), em_msg = m\<rparr>)"

definition waits_up :: "bool \<Rightarrow> 'v parts \<Rightarrow> 'v server \<Rightarrow> (cid \<Rightarrow> (int \<times> 'v any) list) \<Rightarrow> bool" where
  "waits_up oc parts sv sent \<longleftrightarrow> (\<exists>us. srv_holds_udp oc (0, sv) us \<and>
     (\<forall>u \<in> set us. server_alive sv (em_cid (snd u)) \<and> by_udp parts (sent (em_cid (snd u))) (em_cid (snd u)) u))"

definition waits_down :: "bool \<Rightarrow> 'v parts \<Rightarrow> 'v client \<Rightarrow> (int \<times> 'v any) list \<Rightarrow> bool" where
  "waits_down oc parts cl sent \<longleftrightarrow> (\<exists>us. client_holds_udp oc (0, cl) us \<and> (\<forall>u \<in> set us. by_udp parts sent 0 u))"

definition udp_read :: "'v parts \<Rightarrow> cid \<Rightarrow> (int \<times> 'v any) list \<Rightarrow> (type_id \<Rightarrow> 'v net_msg list) \<Rightarrow> bool" where
  "udp_read parts src sent got \<longleftrightarrow> (\<forall>T \<in> types_over UDP parts. \<forall>x \<in> set (got T). \<exists>now m. (now, m) \<in> set sent \<and>
     any_tid m = T \<and> x = \<lparr>nm_cid = src, nm_time = Some (stamp now), nm_m = any_val m\<rparr>)"

definition link_ok :: "'v bincode \<Rightarrow> 'v parts \<Rightarrow> bool \<Rightarrow> 'v link \<Rightarrow> bool" where
  "link_ok bc parts oc l \<longleftrightarrow> \<not> lk_panicked l \<and> wf_server (lk_server l) \<and> sv_parts (lk_server l) = parts \<and>
     waits_up oc parts (lk_server l) (lk_up_udp l) \<and>
     (\<forall>c con. sv_tcp (lk_server l) c = Some con \<longrightarrow>
        joined bc parts c con (lk_client l c) (lk_up l c) (lk_up_got l c) (lk_down l c) (lk_down_got l c) \<and>
        waits_down oc parts (lk_client l c) (lk_down_udp l c) \<and>
        udp_read parts c (lk_up_udp l c) (lk_up_got l c) \<and> udp_read parts 0 (lk_down_udp l c) (lk_down_got l c))"

lemma link_okD:
  assumes "link_ok bc parts oc l" "sv_tcp (lk_server l) c = Some con"
  shows "joined bc parts c con (lk_client l c) (lk_up l c) (lk_up_got l c) (lk_down l c) (lk_down_got l c)"
    "waits_down oc parts (lk_client l c) (lk_down_udp l c)"
    "udp_read parts c (lk_up_udp l c) (lk_up_got l c)" "udp_read parts 0 (lk_down_udp l c) (lk_down_got l c)"
  using assms by (simp_all add: link_ok_def)

lemma by_udp_mono: "by_udp parts sent c u \<Longrightarrow> set sent \<subseteq> set sent' \<Longrightarrow> by_udp parts sent' c u"
  unfolding by_udp_def by blast

lemma udp_read_mono: "udp_read parts src sent got \<Longrightarrow> set sent \<subseteq> set sent' \<Longrightarrow> udp_read parts src sent' got"
  unfolding udp_read_def by blast

text \<open>What waits depends on the sockets' receive buffers and on the server's tables only.\<close>

lemma holds_datagrams_same:
  "urx (uc_udp u') = urx (uc_udp u) \<Longrightarrow> length (uc_buff u') = length (uc_buff u) \<Longrightarrow>
   holds_datagrams oc u' ds = holds_datagrams oc u ds"
  by (simp add: holds_datagrams_def wf_ucon_def)

lemma waits_up_mono:
  assumes "waits_up oc parts sv sent" "\<And>c. server_alive sv c \<Longrightarrow> set (sent c) \<subseteq> set (sent' c)"
    and "dom (sv_cid_addr sv) \<subseteq> dom (sv_cid_addr sv')" "sv_addr_cid sv \<subseteq>\<^sub>m sv_addr_cid sv'" "sv_parts sv' = sv_parts sv"
    and "urx (uc_udp (sv_udp sv')) = urx (uc_udp (sv_udp sv))" "length (uc_buff (sv_udp sv')) = length (uc_buff (sv_udp sv))"
  shows "waits_up oc parts sv' sent'"
proof -
  obtain us ds where us: "holds_datagrams oc (sv_udp sv) ds" "list_all2 (sent_by sv) ds us"
      "\<forall>u \<in> set us. server_alive sv (em_cid (snd u)) \<and> by_udp parts (sent (em_cid (snd u))) (em_cid (snd u)) u"
    using assms(1) by (auto simp: waits_up_def)
  have alive: "server_alive sv' c" if "server_alive sv c" for c using assms(3) that by (auto simp: server_alive_def)
  have "sent_by sv' d u" if "sent_by sv d u" for d u
  proof -
    obtain src mid time bytes where d: "d = (src, mid, time, bytes)" by (cases d)
    then obtain c where "sv_addr_cid sv src = Some c" "server_alive sv c" "decode_msg (sv_parts sv) c (Some time) mid bytes = Ok u"
      using \<open>sent_by sv d u\<close> by (auto simp: sent_by_def)
    moreover from this(1) have "sv_addr_cid sv' src = Some c" using assms(4) by (metis domI map_le_def)
    ultimately show ?thesis using alive by (auto simp: sent_by_def d assms(5))
  qed
  then have "list_all2 (sent_by sv') ds us" using us(2) list_all2_mono by blast
  moreover have "\<forall>u \<in> set us. server_alive sv' (em_cid (snd u)) \<and> by_udp parts (sent' (em_cid (snd u))) (em_cid (snd u)) u"
    using us(3) alive assms(2) by (meson by_udp_mono)
  ultimately show ?thesis using us(1) holds_datagrams_same [OF assms(6,7)] unfolding waits_up_def srv_holds_udp.simps by blast
qed

lemma waits_up_same:
  assumes "waits_up oc parts sv sent" "\<And>c. server_alive sv c \<Longrightarrow> set (sent c) \<subseteq> set (sent' c)"
    and "sv_cid_addr sv' = sv_cid_addr sv" "sv_addr_cid sv' = sv_addr_cid sv" "sv_parts sv' = sv_parts sv"
    and "urx (uc_udp (sv_udp sv')) = urx (uc_udp (sv_udp sv))" "length (uc_buff (sv_udp sv')) = length (uc_buff (sv_udp sv))"
  shows "waits_up oc parts sv' sent'"
  by (rule waits_up_mono [OF assms(1,2) _ _ assms(5-7)]) (simp_all add: assms(3,4))

lemma nothing_waits:
  "wf_ucon (sv_udp sv) \<Longrightarrow> urx (uc_udp (sv_udp sv)) = [] \<Longrightarrow> waits_up oc parts sv sent"
  "wf_ucon (cl_udp cl) \<Longrightarrow> urx (uc_udp (cl_udp cl)) = [] \<Longrightarrow> waits_down oc parts cl dsent"
  by (auto simp: waits_up_def waits_down_def holds_datagrams_def intro!: exI [of _ "[]"])

lemma waits_down_same:
  assumes "waits_down oc parts cl sent" "set sent \<subseteq> set sent'" "cl_parts cl' = cl_parts cl"
    and "urx (uc_udp (cl_udp cl')) = urx (uc_udp (cl_udp cl))" "length (uc_buff (cl_udp cl')) = length (uc_buff (cl_udp cl))"
  shows "waits_down oc parts cl' sent'"
  using assms(1,2) holds_datagrams_same [OF assms(4,5)] unfolding waits_down_def client_holds_udp.simps assms(3)
  by (metis by_udp_mono)

text \<open>A datagram arrives, and one that has arrived is read under the type of the value in it.\<close>

lemma dgram_by_udp:
  assumes "wf_parts parts" "codec_of bc parts" "mid_count parts \<le> 65536"
    and "carried_udp bc parts m" "dgram_of bc parts n (now, m) bs" "fresh oc at (stamp now)" "(now, m) \<in> set sent"
  shows "\<exists>d u. event_of oc n (Datagram src bs at) d \<and> fst d = src \<and> decoded_udp parts c d u \<and> by_udp parts sent c u \<and>
    em_cid (snd u) = c"
proof -
  let ?u = "arrived parts c [(now, m)] (0, at)"
  obtain mid where "tid_map parts (any_tid m) = Some mid" "transports parts ! mid = UDP"
    using assms(4) by (auto simp: carried_udp_def)
  then have "by_udp parts sent c ?u" "em_cid (snd ?u) = c" using assms(7) by (auto simp: by_udp_def arrived_def)
  moreover obtain d where "event_of oc n (Datagram src bs at) d" "fst d = src" "decoded_udp parts c d ?u"
    using dgram_received [OF assms(1-5) order_refl assms(6), of "[(now, m)]" 0 src c] by auto
  ultimately show ?thesis by (intro exI [of _ d] exI [of _ ?u] conjI)
qed

lemma holds_datagrams_get:
  "holds_datagrams oc u ds \<Longrightarrow> event_of oc (length (uc_buff u)) (Datagram src bs at) d \<Longrightarrow>
   holds_datagrams oc (gets_datagram src bs at u) (ds @ [d])"
  by (simp add: holds_datagrams_def gets_datagram_def wf_ucon_def list_all2_appendI)

lemma waits_up_get:
  assumes "wf_parts parts" "codec_of bc parts" "mid_count parts \<le> 65536" "waits_up oc parts sv sent" "wf_server sv"
    and "sv_parts sv = parts" "(now, m) \<in> set (sent c)" "carried_udp bc parts m"
    and "dgram_of bc parts (length (uc_buff (sv_udp sv))) (now, m) bs" "fresh oc at (stamp now)" "sv_addr_cid sv src = Some c"
  shows "waits_up oc parts (sv\<lparr>sv_udp := gets_datagram src bs at (sv_udp sv)\<rparr>) sent"
proof -
  let ?sv = "sv\<lparr>sv_udp := gets_datagram src bs at (sv_udp sv)\<rparr>"
  obtain us ds where us: "holds_datagrams oc (sv_udp sv) ds" "list_all2 (sent_by sv) ds us"
      "\<forall>u \<in> set us. server_alive sv (em_cid (snd u)) \<and> by_udp parts (sent (em_cid (snd u))) (em_cid (snd u)) u"
    using assms(4) by (auto simp: waits_up_def)
  obtain d u where u: "event_of oc (length (uc_buff (sv_udp sv))) (Datagram src bs at) d" "fst d = src"
      "decoded_udp parts c d u" "by_udp parts (sent c) c u" "em_cid (snd u) = c"
    using dgram_by_udp [OF assms(1-3,8-10,7)] by metis
  have alive: "server_alive sv c" using assms(5,11) by (auto simp: server_alive_def wf_server_defs)
  then have "sent_by sv d u" using u(2,3) assms(6,11) by (cases d) (simp add: sent_by_def decoded_udp_def)
  moreover have "sent_by ?sv = sent_by sv" "server_alive ?sv = server_alive sv"
    by (simp_all add: sent_by_def server_alive_def fun_eq_iff)
  ultimately have "list_all2 (sent_by ?sv) (ds @ [d]) (us @ [u])" using us(2) by (simp add: list_all2_appendI)
  moreover have "holds_datagrams oc (sv_udp ?sv) (ds @ [d])" using holds_datagrams_get [OF us(1) u(1)] by simp
  moreover have "\<forall>x \<in> set (us @ [u]). server_alive ?sv (em_cid (snd x)) \<and> by_udp parts (sent (em_cid (snd x))) (em_cid (snd x)) x"
    using us(3) u(4,5) alive \<open>server_alive ?sv = server_alive sv\<close> by simp
  ultimately show ?thesis unfolding waits_up_def srv_holds_udp.simps by blast
qed

lemma waits_down_get:
  assumes "wf_parts parts" "codec_of bc parts" "mid_count parts \<le> 65536" "waits_down oc parts cl sent"
    and "cl_parts cl = parts" "(now, m) \<in> set sent" "carried_udp bc parts m"
    and "dgram_of bc parts (length (uc_buff (cl_udp cl))) (now, m) bs" "fresh oc at (stamp now)"
  shows "waits_down oc parts (cl\<lparr>cl_udp := gets_datagram src bs at (cl_udp cl)\<rparr>) sent"
proof -
  obtain us ds where us: "holds_datagrams oc (cl_udp cl) ds" "list_all2 (decoded_udp parts 0) ds us"
      "\<forall>u \<in> set us. by_udp parts sent 0 u" using assms(4,5) by (auto simp: waits_down_def)
  obtain d u where u: "event_of oc (length (uc_buff (cl_udp cl))) (Datagram src bs at) d"
      "decoded_udp parts 0 d u" "by_udp parts sent 0 u" using dgram_by_udp [OF assms(1-3,7-9,6)] by metis
  have "list_all2 (decoded_udp parts 0) (ds @ [d]) (us @ [u])" using us(2) u(2) by (simp add: list_all2_appendI)
  moreover have "\<forall>x \<in> set (us @ [u]). by_udp parts sent 0 x" using us(3) u(3) by simp
  ultimately show ?thesis
    using holds_datagrams_get [OF us(1) u(1)] unfolding waits_down_def client_holds_udp.simps
    by (intro exI [of _ "us @ [u]"] exI [of _ "ds @ [d]"] conjI) (simp_all add: assms(5))
qed

lemma numbering_inj:
  "wf_numbering parts \<Longrightarrow> tid_map parts T = Some mid \<Longrightarrow> tid_map parts T' = Some mid \<Longrightarrow> T' = T"
  unfolding wf_numbering_def bij_betw_def inj_on_def by (metis comp_apply domI option.sel)

lemma msgs_for_udp:
  assumes "wf_numbering parts" "tid_map parts T = Some mid" "\<forall>u \<in> set us. by_udp parts sent c u"
  shows "transports parts ! mid = TCP \<Longrightarrow> msgs_for mid us = []"
    "\<forall>x \<in> set (msgs_for mid us). \<exists>now m. (now, m) \<in> set sent \<and> any_tid m = T \<and>
       x = \<lparr>em_cid = c, em_time = Some (stamp now), em_msg = m\<rparr>"
proof -
  show "msgs_for mid us = []" if "transports parts ! mid = TCP"
    using assms(3) that by (auto simp: msgs_for_def by_udp_def filter_empty_conv)
  show "\<forall>x \<in> set (msgs_for mid us). \<exists>now m. (now, m) \<in> set sent \<and> any_tid m = T \<and>
       x = \<lparr>em_cid = c, em_time = Some (stamp now), em_msg = m\<rparr>"
  proof
    fix x assume "x \<in> set (msgs_for mid us)"
    then obtain u where u: "u \<in> set us" "fst u = mid" "x = snd u" by (auto simp: msgs_for_def)
    then obtain now m where m: "(now, m) \<in> set sent" "tid_map parts (any_tid m) = Some mid"
        "snd u = \<lparr>em_cid = c, em_time = Some (stamp now), em_msg = m\<rparr>"
      using bspec [OF assms(3) u(1)] unfolding by_udp_def by metis
    have "any_tid m = T" using numbering_inj [OF assms(1,2) m(2)] .
    with m u(3) show "\<exists>now m. (now, m) \<in> set sent \<and> any_tid m = T \<and>
       x = \<lparr>em_cid = c, em_time = Some (stamp now), em_msg = m\<rparr>" by metis
  qed
qed

text \<open>Of the values received over TCP none is of a type that goes over UDP.\<close>

lemma msgs_for_tcp:
  "wf_numbering parts \<Longrightarrow> tid_map parts T = Some mid \<Longrightarrow> transports parts ! mid = UDP \<Longrightarrow>
   \<forall>m \<in> set ms. carried bc parts m \<Longrightarrow> msgs_for mid (map (received parts c) ms) = []"
  by (auto simp: msgs_for_def filter_empty_conv received_def carried_def)

text \<open>
  What a round reads: of a type over TCP the values whose frames it took, of a type over UDP values
  that were sent.
\<close>

lemma round_reads:
  assumes "wf_parts parts" "wf_numbering parts" "\<forall>m \<in> set new. carried bc parts m" "\<forall>u \<in> set us. by_udp parts sent c u"
    and "\<And>T mid. tid_map parts T = Some mid \<Longrightarrow> got T =
      map (\<lambda>m. \<lparr>nm_cid = em_cid m, nm_time = em_time m, nm_m = any_val (em_msg m)\<rparr>)
        (msgs_for mid (map (received parts c) new @ us))"
  shows "T \<in> types_over TCP parts \<Longrightarrow> got T =
      map (\<lambda>m. \<lparr>nm_cid = c, nm_time = None, nm_m = any_val m\<rparr>) (filter (\<lambda>m. any_tid m = T) new)"
    and "udp_read parts c sent got"
proof -
  assume "T \<in> types_over TCP parts"
  then obtain mid where mid: "tid_map parts T = Some mid" "transports parts ! mid = TCP" by (auto simp: types_over_def)
  show "got T = map (\<lambda>m. \<lparr>nm_cid = c, nm_time = None, nm_m = any_val m\<rparr>) (filter (\<lambda>m. any_tid m = T) new)"
    using assms(5) [OF mid(1)] msgs_for_received [OF assms(1,2) mid(1) assms(3), where cid = c]
      msgs_for_udp(1) [OF assms(2) mid(1) assms(4) mid(2)] by (simp add: msgs_for_def)
next
  show "udp_read parts c sent got"
    unfolding udp_read_def
  proof (intro ballI)
    fix T x assume T: "T \<in> types_over UDP parts" and x: "x \<in> set (got T)"
    obtain mid where mid: "tid_map parts T = Some mid" "transports parts ! mid = UDP" using T by (auto simp: types_over_def)
    have "msgs_for mid (map (received parts c) new @ us) = msgs_for mid us"
      using msgs_for_tcp [OF assms(2) mid assms(3), of c] by (simp add: msgs_for_def)
    then obtain y where y: "y \<in> set (msgs_for mid us)"
        "x = \<lparr>nm_cid = em_cid y, nm_time = em_time y, nm_m = any_val (em_msg y)\<rparr>"
      using x assms(5) [OF mid(1)] by auto
    then obtain now m where "(now, m) \<in> set sent" "any_tid m = T" "y = \<lparr>em_cid = c, em_time = Some (stamp now), em_msg = m\<rparr>"
      using msgs_for_udp(2) [OF assms(2) mid(1) assms(4)] by blast
    with y(2) show "\<exists>now m. (now, m) \<in> set sent \<and> any_tid m = T \<and> x = \<lparr>nm_cid = c, nm_time = Some (stamp now), nm_m = any_val m\<rparr>"
      by (intro exI [of _ now] exI [of _ m]) simp
  qed
qed

lemma joined_moves:
  assumes "joined bc parts c con cl up up_got down down_got"
  shows "joined bc parts c (takes_in (take n (tx (tc_tcp (cl_tcp cl)))) con) (cl\<lparr>cl_tcp := sends_off n (cl_tcp cl)\<rparr>)
      up up_got down down_got"
    "joined bc parts c (sends_off n con) (cl\<lparr>cl_tcp := takes_in (take n (tx (tc_tcp con))) (cl_tcp cl)\<rparr>)
      up up_got down down_got"
  using assms by (auto simp: joined_def wf_client_def)

text \<open>The UDP socket of the client does not matter to them.\<close>

lemma joined_udp:
  assumes "joined bc parts c con cl up up_got down down_got" "length (uc_buff u) = length (uc_buff (cl_udp cl))"
  shows "joined bc parts c con (cl\<lparr>cl_udp := u\<rparr>) up up_got down down_got"
  using assms by (auto simp: joined_def wf_client_def wf_ucon_def)

lemma sent_frame:
  assumes "wf_parts parts" "codec_of bc parts" "carried bc parts m"
  obtains mid where "tid_map parts (any_tid m) = Some mid" "transports parts ! mid = TCP"
    "\<forall>b. bc_serialize bc (any_tid m) (any_val m) = Inr b \<longrightarrow> encodes bc parts m (mid, b)"
  using assms(3) by (auto simp: carried_def encodes_def)

lemma joined_client_sends:
  assumes "wf_parts parts" "codec_of bc parts" "joined bc parts c con cl up up_got down down_got"
    and "carried bc parts m" "client_send now m cl = (Ok (), cl')"
  shows "joined bc parts c con cl' (up @ [m]) up_got down down_got" "cl_udp cl' = cl_udp cl" "cl_parts cl' = cl_parts cl"
proof -
  obtain T v where m: "m = AnyBox T v" by (cases m)
  obtain mid where mid: "tid_map parts T = Some mid" "transports parts ! mid = TCP"
      "\<forall>b. bc_serialize bc T v = Inr b \<longrightarrow> encodes bc parts m (mid, b)"
    using sent_frame [OF assms(1,2,4)] by (auto simp: m)
  have parts: "cl_parts cl = parts" using assms(3) by (simp add: joined_def)
  obtain b t where b: "bc_serialize bc T v = Inr b" "tcp_con_send mid b (cl_tcp cl) = (Ok (), t)" "cl' = cl\<lparr>cl_tcp := t\<rparr>"
    using client_send_tcp_any [of cl bc T mid now v cl'] assms(1,2,5) mid(1,2) by (auto simp: parts m)
  note w = tcp_con_send_wire [OF b(2)]
  have t: "rx (tc_tcp t) = rx (tc_tcp (cl_tcp cl))" "rx_state (tc_tcp t) = rx_state (tc_tcp (cl_tcp cl))"
      "tcp_max_msg_size t = tcp_max_msg_size (cl_tcp cl)" "wf_con t = wf_con (cl_tcp cl)"
    using b(2) by (auto simp: tcp_con_send_Ok tcp_max_msg_size_def wf_con_def)
  have up: "channel bc parts (tcp_max_msg_size con) c up up_got (rx (tc_tcp con) @ tx (tc_tcp (cl_tcp cl)))"
      "tcp_max_msg_size (cl_tcp cl) = tcp_max_msg_size con" using assms(3) by (simp_all add: joined_def)
  have "channel bc parts (tcp_max_msg_size con) c (up @ [m]) up_got (rx (tc_tcp con) @ tx (tc_tcp t))"
    using channel_send [OF up(1) mid(3) [rule_format, OF b(1)] _ assms(4)] w(1,3) up(2) by simp
  then show "joined bc parts c con cl' (up @ [m]) up_got down down_got" using assms(3) t by (auto simp: joined_def b(3) wf_client_def)
  show "cl_udp cl' = cl_udp cl" "cl_parts cl' = cl_parts cl" by (simp_all add: b(3))
qed

lemma server_sent_frame:
  assumes "wf_parts parts" "codec_of bc parts" "sv_parts sv = parts" "carried bc parts m" "server_send_to now c m sv = (Ok (), sv')"
  shows "\<exists>con mid b con'. sv_tcp sv c = Some con \<and> encodes bc parts m (mid, b) \<and> tcp_con_send mid b con = (Ok (), con') \<and>
    sv' = sv\<lparr>sv_tcp := (sv_tcp sv)(c \<mapsto> con')\<rparr>"
proof -
  obtain T v where m: "m = AnyBox T v" by (cases m)
  obtain mid where mid: "tid_map parts T = Some mid" "transports parts ! mid = TCP"
      "\<forall>b. bc_serialize bc T v = Inr b \<longrightarrow> encodes bc parts m (mid, b)"
    using sent_frame [OF assms(1,2,4)] by (auto simp: m)
  show ?thesis
  proof (cases "sv_tcp sv c")
    case None
    then show ?thesis
      using assms(5) lookup_codec [OF assms(1,2), of T mid TCP "\<lambda>r. r" v] mid(1,2) assms(3)
      by (auto simp: m server_send_to_def server_valid_tid_def valid_tid_def domI server_send_tcp_def Let_def
          split: sum.splits)
  next
    case (Some con)
    then show ?thesis
      using server_send_to_tcp [of sv bc T mid c con now v] assms(1-3,5) mid
      by (auto simp: m split: sum.splits prod.splits)
  qed
qed

lemma server_sent_udp:
  assumes "wf_parts parts" "codec_of bc parts" "sv_parts sv = parts" "carried_udp bc parts m" "server_send_to now c m sv = (Ok (), sv')"
  shows "\<exists>u. sv' = sv\<lparr>sv_udp := u\<rparr> \<and> urx (uc_udp u) = urx (uc_udp (sv_udp sv)) \<and>
    length (uc_buff u) = length (uc_buff (sv_udp sv))"
proof (cases "sv_cid_addr sv c")
  case None
  obtain T v where m: "m = AnyBox T v" by (cases m)
  obtain mid where mid: "tid_map parts T = Some mid" "transports parts ! mid = UDP"
    using assms(4) by (auto simp: carried_udp_def m)
  then show ?thesis
    using assms(5) lookup_codec [OF assms(1,2) mid, of "\<lambda>r. r" v] assms(3) None
    by (auto simp: m server_send_to_def server_valid_tid_def valid_tid_def domI server_send_udp_def Let_def
        split: sum.splits)
next
  case (Some addr)
  then show ?thesis using server_send_udp_any [of sv bc m now c sv' addr] assms by auto
qed

lemma joined_server_sends:
  assumes "joined bc parts c con cl up up_got down down_got"
    and "encodes bc parts m (mid, b)" "carried bc parts m" "tcp_con_send mid b con = (Ok (), con')"
  shows "joined bc parts c con' cl up up_got (down @ [m]) down_got"
proof -
  note w = tcp_con_send_wire [OF assms(4)]
  have t: "rx (tc_tcp con') = rx (tc_tcp con)" "rx_state (tc_tcp con') = rx_state (tc_tcp con)"
      "tcp_max_msg_size con' = tcp_max_msg_size con" "wf_con con' = wf_con con"
    using assms(4) by (auto simp: tcp_con_send_Ok tcp_max_msg_size_def wf_con_def)
  have "channel bc parts (tcp_max_msg_size con) 0 down down_got (rx (tc_tcp (cl_tcp cl)) @ tx (tc_tcp con))"
    using assms(1) by (simp add: joined_def)
  from channel_send [OF this assms(2) w(3) assms(3)]
  have "channel bc parts (tcp_max_msg_size con) 0 (down @ [m]) down_got (rx (tc_tcp (cl_tcp cl)) @ tx (tc_tcp con'))"
    by (simp add: w(1))
  then show ?thesis using assms(1) t by (simp add: joined_def)
qed


text \<open>Receiving keeps the send buffers and the sizes.\<close>

definition same_out :: "tcp_con \<Rightarrow> tcp_con \<Rightarrow> bool" where
  "same_out con con' \<longleftrightarrow> wf_con con' \<and> tcp_max_msg_size con' = tcp_max_msg_size con \<and> tx (tc_tcp con') = tx (tc_tcp con)"

lemma same_out_recv: "same_out c con \<Longrightarrow> same_out c (snd (tcp_con_recv con))"
  using tcp_con_recv_frame(1-3) [of con "fst (tcp_con_recv con)" "snd (tcp_con_recv con)"]
  by (simp add: same_out_def tcp_max_msg_size_def)

definition server_out :: "'v server \<Rightarrow> 'v server \<Rightarrow> bool" where
  "server_out sv sv' \<longleftrightarrow> dom (sv_tcp sv') = dom (sv_tcp sv) \<and>
     (\<forall>c con'. sv_tcp sv' c = Some con' \<longrightarrow> (\<exists>con. sv_tcp sv c = Some con \<and> same_out con con'))"

lemma server_out_recv_tcp:
  assumes "server_out sv sv1" "server_recv_tcp d sv1 = (q, sv2)"
  shows "server_out sv sv2"
proof -
  note f = server_recv_tcp_frame(1) [OF assms(2)]
  have "dom (sv_tcp sv2) = dom (sv_tcp sv1)" by (auto simp: f split: if_splits)
  moreover have "\<exists>con. sv_tcp sv c = Some con \<and> same_out con con'" if "sv_tcp sv2 c = Some con'" for c con'
  proof (cases "sv_tcp sv1 c")
    case None
    then show ?thesis using that by (simp add: f split: if_splits)
  next
    case (Some con1)
    then obtain con where "sv_tcp sv c = Some con" "same_out con con1" using assms(1) unfolding server_out_def by blast
    moreover have "con' = con1 \<or> con' = snd (tcp_con_recv con1)" using that Some by (auto simp: f split: if_splits)
    ultimately show ?thesis using same_out_recv by auto
  qed
  ultimately show ?thesis using assms(1) unfolding server_out_def by (simp add: f)
qed

lemma server_recv_msgs_out:
  assumes "wf_server sv" "server_recv_msgs ko oc sv = (r, sv')"
  shows "server_out sv sv'"
proof -
  have "recv_keeps (set (server_cids ko sv)) {oc} (server_out sv)"
  proof (rule recv_keeps_any)
    show "server_out sv sv2" if "server_out sv sv1" "server_recv_udp u sv1 = (q, sv2)" for u sv1 q sv2
      using that(1) by (simp add: server_out_def server_recv_udp_frame(1) [OF that(2)])
  qed (use server_out_recv_tcp in \<open>blast, simp_all add: server_out_def\<close>)
  moreover have "wf_con con" if "sv_tcp sv c = Some con" for c con
    using assms(1) ranI [of "sv_tcp sv" c con] that by (auto simp: wf_server_defs)
  then have "server_out sv sv" by (simp add: server_out_def same_out_def)
  ultimately show ?thesis using server_recv_msgs_inv [OF _ _ assms(2)] by blast
qed

definition client_out :: "'v client \<Rightarrow> 'v client \<Rightarrow> bool" where
  "client_out cl cl' \<longleftrightarrow> same_out (cl_tcp cl) (cl_tcp cl')"

lemma client_recv_msgs_out:
  assumes "wf_client cl" "client_recv_msgs oc cl = (r, cl')"
  shows "client_out cl cl'"
proof -
  have tcp: "client_out cl cl2" if "client_out cl cl1" "client_recv_tcp cl1 = (q, cl2)" for cl1 q cl2
    using that(1) same_out_recv by (simp add: client_out_def client_recv_tcp_frame(1) [OF that(2)])
  have udp: "client_out cl cl2" if "client_out cl cl1" "client_recv_udp oc cl1 = (q, cl2)" for cl1 q cl2
    using that(1) by (simp add: client_out_def client_recv_udp_frame(1) [OF that(2)])
  have view: "client_out cl (cl1\<lparr>cl_msg_buff := b\<rparr>)" "client_out cl (cl1\<lparr>cl_status := st\<rparr>)"
    if "client_out cl cl1" for cl1 b st using that by (simp_all add: client_out_def)
  have "client_out cl cl" using assms(1) by (simp add: client_out_def same_out_def wf_client_def)
  from client_recv_msgs_inv [of "client_out cl" oc cl r cl', OF _ _ _ _ _ this assms(2)] tcp udp view
  show ?thesis by blast
qed

section \<open>A frame of the game at either end\<close>

text \<open>
  What a server that is not cut in a payload takes from the connection \<open>c\<close>: the values \<open>new\<close>, with
  the bytes \<open>bs\<close> left behind them.
\<close>

definition up_round :: "'v bincode \<Rightarrow> 'v parts \<Rightarrow> 'v link \<Rightarrow> cid \<Rightarrow> tcp_con \<Rightarrow> 'v any list \<Rightarrow> byte list \<Rightarrow> bool" where
  "up_round bc parts l c con new bs \<longleftrightarrow>
     srv_offers (Tail bs RxOpen) c (0, lk_server l) (map (received parts c) new) \<and> (\<forall>m \<in> set new. carried bc parts m) \<and>
     (\<forall>con' got. same_out con con' \<longrightarrow> offers_frames (Tail bs RxOpen) con' [] \<longrightarrow>
        (\<forall>T \<in> types_over TCP parts. got T = lk_up_got l c T @
           map (\<lambda>m. \<lparr>nm_cid = c, nm_time = None, nm_m = any_val m\<rparr>) (filter (\<lambda>m. any_tid m = T) new)) \<longrightarrow>
        joined bc parts c con' (lk_client l c) (lk_up l c) got (lk_down l c) (lk_down_got l c))"

lemma up_round_joined:
  assumes "up_round bc parts l c con new bs" "same_out con con'" "offers_frames (Tail bs RxOpen) con' []"
    and "\<And>T. T \<in> types_over TCP parts \<Longrightarrow> got T = lk_up_got l c T @
      map (\<lambda>m. \<lparr>nm_cid = c, nm_time = None, nm_m = any_val m\<rparr>) (filter (\<lambda>m. any_tid m = T) new)"
  shows "joined bc parts c con' (lk_client l c) (lk_up l c) got (lk_down l c) (lk_down_got l c)"
  using assms by (simp add: up_round_def)

lemma offers_nothing: "offers_frames (Tail bs st) con [] \<Longrightarrow> rx (tc_tcp con) = bs \<and> rx_state (tc_tcp con) = st"
  by (simp add: offers_frames_def)

lemma up_round_ex:
  assumes "wf_parts parts" "codec_of bc parts" "mid_count parts \<le> 65536"
    and "link_ok bc parts oc l" "sv_tcp (lk_server l) c = Some con" "no_cut (rx (tc_tcp con))"
  shows "\<exists>new bs. up_round bc parts l c con new bs"
proof -
  let ?cl = "lk_client l c"
  have j: "joined bc parts c con ?cl (lk_up l c) (lk_up_got l c) (lk_down l c) (lk_down_got l c)"
    and parts: "sv_parts (lk_server l) = parts" using assms(4,5) by (simp_all add: link_ok_def)
  have "channel bc parts (tcp_max_msg_size con) c (lk_up l c) (lk_up_got l c) (rx (tc_tcp con) @ tx (tc_tcp (cl_tcp ?cl)))"
    using j by (simp add: joined_def)
  then obtain old ms where ch: "lk_up l c = old @ ms"
      "under_way bc parts (tcp_max_msg_size con) ms (rx (tc_tcp con) @ tx (tc_tcp (cl_tcp ?cl)))"
      "\<forall>T \<in> types_over TCP parts. lk_up_got l c T =
        map (\<lambda>m. \<lparr>nm_cid = c, nm_time = None, nm_m = any_val m\<rparr>) (filter (\<lambda>m. any_tid m = T) old)"
    unfolding channel_def by blast
  have con: "wf_con con" "tcp_max_msg_size con < 65536" "rx_state (tc_tcp con) = RxOpen" using j by (simp_all add: joined_def)
  obtain k bs where k: "length bs < 4" "under_way bc parts (tcp_max_msg_size con) (drop k ms) (bs @ tx (tc_tcp (cl_tcp ?cl)))"
      "\<exists>frames. offers_frames (Tail bs (rx_state (tc_tcp con))) con frames \<and>
         list_all2 (decoded parts c) frames (map (received parts c) (take k ms))" "\<forall>m \<in> set (take k ms). carried bc parts m"
    by (rule under_way_arrives [OF assms(1-3) ch(2) assms(6) con(1) refl con(2), where cid = c])
  have join: "joined bc parts c con' ?cl (lk_up l c) got (lk_down l c) (lk_down_got l c)"
    if "same_out con con'" "offers_frames (Tail bs RxOpen) con' []"
      "\<forall>T \<in> types_over TCP parts. got T = lk_up_got l c T @
        map (\<lambda>m. \<lparr>nm_cid = c, nm_time = None, nm_m = any_val m\<rparr>) (filter (\<lambda>m. any_tid m = T) (take k ms))" for con' got
  proof -
    have left: "rx (tc_tcp con') = bs" "rx_state (tc_tcp con') = RxOpen" using offers_nothing [OF that(2)] by simp_all
    have "channel bc parts (tcp_max_msg_size con) c (lk_up l c) got (bs @ tx (tc_tcp (cl_tcp ?cl)))"
      by (rule channel_receive [OF ch(1,3) k(2) that(3)])
    then show ?thesis using j that(1) left by (simp add: joined_def same_out_def)
  qed
  have "srv_offers (Tail bs RxOpen) c (0, lk_server l) (map (received parts c) (take k ms))"
    using k(3) assms(5) con(3) parts by auto
  with k(4) join have "up_round bc parts l c con (take k ms) bs" by (simp only: up_round_def) blast
  then show ?thesis by blast
qed

lemma server_cleared_round:
  assumes "wf_server sv" "key_order ko" "sv_parts sv = parts" "codec_of bc parts"
    and "\<forall>c \<in> dom (sv_cid_addr sv). srv_offers (Tail (bs c) RxOpen) c (0, sv) (map (received parts c) (new c))"
    and "\<forall>c \<in> dom (sv_cid_addr sv). \<forall>m \<in> set (new c). carried bc parts m" "srv_holds_udp oc (0, sv) us"
    and "server_recv_msgs ko oc (server_clear_msgs sv) = (r, sv')"
  shows "\<exists>n. r = Ok n" "sv_parts sv' = parts" "urx (uc_udp (sv_udp sv')) = []" "wf_server sv'" "server_out sv sv'"
    and "\<forall>c \<in> dom (sv_cid_addr sv). srv_offers (Tail (bs c) RxOpen) c (0, sv') []"
    and "c \<in> dom (sv_cid_addr sv) \<Longrightarrow> tid_map parts T = Some mid \<Longrightarrow> reads (server_recv_spec (CIdOnly c) T sv') =
      map (\<lambda>m. \<lparr>nm_cid = em_cid m, nm_time = em_time m, nm_m = any_val (em_msg m)\<rparr>)
        (msgs_for mid (map (received parts c) (new c) @ filter (\<lambda>u. em_cid (snd u) = c) us))"
proof -
  let ?csv = "server_clear_msgs sv" and ?ms = "\<lambda>c. map (received parts c) (new c)"
  have cleared: "sv_tcp ?csv = sv_tcp sv" "sv_parts ?csv = parts" "sv_cid_addr ?csv = sv_cid_addr sv" "sv_udp ?csv = sv_udp sv"
      "sv_addr_cid ?csv = sv_addr_cid sv" using assms(3) by (simp_all add: server_clear_msgs_def)
  have senders: "sent_by ?csv = sent_by sv" by (intro ext, simp add: sent_by_def server_alive_def cleared assms(3))
  have wf: "wf_server ?csv" using server_step_wf [OF step_clear_msgs assms(1)] .
  have none: "find is_disconnect (?ms c) = None" "takeWhile (\<lambda>m. \<not> is_disconnect m) (?ms c) = ?ms c"
    if "c \<in> dom (sv_cid_addr sv)" for c
    using carried_arrives(2) [OF bspec [OF assms(6) that]] by (simp_all add: find_None_iff takeWhile_eq_all_conv)
  have "\<forall>c \<in> dom (sv_cid_addr ?csv). srv_offers (Tail (bs c) RxOpen) c (0, ?csv) (?ms c)" "srv_holds_udp oc (0, ?csv) us"
    using assms(3,5,7) by (simp_all add: cleared senders)
  from server_recv_round [OF wf assms(2) this] assms(8) none(1)
  show "\<exists>n. r = Ok n" "sv_parts sv' = parts" "urx (uc_udp (sv_udp sv')) = []"
    "\<forall>c \<in> dom (sv_cid_addr sv). srv_offers (Tail (bs c) RxOpen) c (0, sv') []"
    by (auto simp: cleared simp del: srv_offers.simps)
  show "wf_server sv'" using server_recv_msgs_inv [OF wf_recv_keeps wf assms(8)] by blast
  show "server_out sv sv'" using server_recv_msgs_out [OF wf assms(8)] by (simp add: server_out_def cleared)
  assume c: "c \<in> dom (sv_cid_addr sv)" and "tid_map parts T = Some mid"
  then have "server_alive sv c" "codec_of bc (sv_parts sv)" "tid_map (sv_parts sv) T = Some mid"
    using assms(3,4) by (simp_all add: server_alive_def)
  from server_round_recv [OF assms(1,2) this(1) assms(5,7) this(2,3)]
  show "reads (server_recv_spec (CIdOnly c) T sv') =
      map (\<lambda>m. \<lparr>nm_cid = em_cid m, nm_time = em_time m, nm_m = any_val (em_msg m)\<rparr>)
        (msgs_for mid (?ms c @ filter (\<lambda>u. em_cid (snd u) = c) us))"
    using assms(8) by (auto simp: none(2) [OF c])
qed

lemma server_frame_keeps:
  assumes "wf_parts parts" "wf_numbering parts" "codec_of bc parts" "mid_count parts \<le> 65536" "key_order ko"
    and "link_ok bc parts oc l" "\<forall>con \<in> ran (sv_tcp (lk_server l)). no_cut (rx (tc_tcp con))"
    and "server_recv_msgs ko oc (server_clear_msgs (lk_server l)) = (r, sv)"
  shows "link_ok bc parts oc (l\<lparr>lk_server := sv,
    lk_up_got := (\<lambda>c T. lk_up_got l c T @ reads (server_recv_spec (CIdOnly c) T sv)),
    lk_panicked := (lk_panicked l \<or> is_panic r)\<rparr>) \<and>
    (\<forall>c con. sv_tcp sv c = Some con \<longrightarrow> length (rx (tc_tcp con)) < 4)"
proof -
  let ?sv = "lk_server l" and ?got = "\<lambda>c T. reads (server_recv_spec (CIdOnly c) T sv)"
  have ok: "wf_server ?sv" "sv_parts ?sv = parts" "waits_up oc parts ?sv (lk_up_udp l)" "\<not> lk_panicked l"
    using assms(6) by (simp_all add: link_ok_def)
  obtain us where udp: "srv_holds_udp oc (0, ?sv) us"
      "\<forall>u \<in> set us. by_udp parts (lk_up_udp l (em_cid (snd u))) (em_cid (snd u)) u"
    using ok(3) by (auto simp: waits_up_def)
  have dom: "dom (sv_tcp ?sv) = dom (sv_cid_addr ?sv)" using ok(1) by (simp add: wf_server_defs)
  have "\<forall>c. \<exists>new bs. \<forall>con. sv_tcp ?sv c = Some con \<longrightarrow> up_round bc parts l c con new bs"
    using up_round_ex [OF assms(1,3,4,6)] assms(7) by (metis option.inject ranI)
  then obtain new bs where up: "\<And>c con. sv_tcp ?sv c = Some con \<Longrightarrow> up_round bc parts l c con (new c) (bs c)" by metis
  have offers: "\<forall>c \<in> dom (sv_cid_addr ?sv). srv_offers (Tail (bs c) RxOpen) c (0, ?sv) (map (received parts c) (new c))"
    and carry: "\<forall>c \<in> dom (sv_cid_addr ?sv). \<forall>m \<in> set (new c). carried bc parts m"
    using up unfolding dom [symmetric] up_round_def by blast+
  note r = server_cleared_round [OF ok(1) assms(5) ok(2) assms(3) offers carry udp(1) assms(8)]
  have waits: "waits_up oc parts sv (lk_up_udp l)" by (rule nothing_waits) (use r(3,4) in \<open>simp_all add: wf_server_defs\<close>)
  have "joined bc parts c con' (lk_client l c) (lk_up l c) (\<lambda>T. lk_up_got l c T @ ?got c T) (lk_down l c) (lk_down_got l c) \<and>
      waits_down oc parts (lk_client l c) (lk_down_udp l c) \<and> udp_read parts c (lk_up_udp l c) (\<lambda>T. lk_up_got l c T @ ?got c T) \<and>
      udp_read parts 0 (lk_down_udp l c) (lk_down_got l c) \<and> length (rx (tc_tcp con')) < 4"
    if con': "sv_tcp sv c = Some con'" for c con'
  proof -
    obtain con where con: "sv_tcp ?sv c = Some con" "same_out con con'" using r(5) con' unfolding server_out_def by blast
    then have c: "c \<in> dom (sv_cid_addr ?sv)" using dom by blast
    have "srv_offers (Tail (bs c) RxOpen) c (0, sv) []" using r(6) c by blast
    then have left: "offers_frames (Tail (bs c) RxOpen) con' []" using con' by simp
    have mine: "\<forall>u \<in> set (filter (\<lambda>u. em_cid (snd u) = c) us). by_udp parts (lk_up_udp l c) c u" using udp(2) by auto
    note got = round_reads [OF assms(1,2) bspec [OF carry c] mine r(7) [OF c]]
    have "joined bc parts c con' (lk_client l c) (lk_up l c) (\<lambda>T. lk_up_got l c T @ ?got c T) (lk_down l c) (lk_down_got l c)"
      using got(1) by (intro up_round_joined [OF up [OF con(1)] con(2) left]) simp
    moreover have "udp_read parts c (lk_up_udp l c) (\<lambda>T. lk_up_got l c T @ ?got c T)"
      using got(2) link_okD(3) [OF assms(6) con(1)] by (auto simp: udp_read_def)
    ultimately show ?thesis using link_okD(2,4) [OF assms(6) con(1)] left by (simp add: offers_frames_def)
  qed
  then show ?thesis using r(1,2,4) waits ok(4) by (auto simp: link_ok_def)
qed

lemma client_cleared_round:
  assumes "wf_client cl" "cl_status cl = Connected" "cl_parts cl = parts" "codec_of bc parts" "\<forall>m \<in> set new. carried bc parts m"
    and "client_offers (Tail bs RxOpen) (0, cl) (map (received parts 0) new)" "client_holds_udp oc (0, cl) us"
    and "client_recv_msgs oc (client_clear_msgs cl) = (r, cl')"
  shows "\<exists>n. r = Ok n" "cl_status cl' = Connected" "cl_parts cl' = parts" "offers_frames (Tail bs RxOpen) (cl_tcp cl') []"
    and "urx (uc_udp (cl_udp cl')) = []" "wf_client cl'" "client_out cl cl'"
    and "tid_map parts T = Some mid \<Longrightarrow> reads (client_recv T cl') =
      map (\<lambda>m. \<lparr>nm_cid = em_cid m, nm_time = em_time m, nm_m = any_val (em_msg m)\<rparr>) (msgs_for mid (map (received parts 0) new @ us))"
proof -
  let ?ms = "map (received parts 0) new" and ?st = "Tail bs RxOpen" and ?ccl = "client_clear_msgs cl"
  have none: "\<forall>m \<in> set ?ms. \<not> is_disconnect m" by (rule carried_arrives(2) [OF assms(5)])
  have conn: "outcome ?st ?ms = Connected" using outcome_open [OF none] .
  then have heard: "heard ?st ?ms us = us" by (simp add: heard_def)
  have all: "find is_disconnect ?ms = None" "takeWhile (\<lambda>m. \<not> is_disconnect m) ?ms = ?ms"
    using none by (simp_all add: find_None_iff takeWhile_eq_all_conv)
  have clear: "cl_tcp ?ccl = cl_tcp cl" "cl_udp ?ccl = cl_udp cl" "wf_client ?ccl" "cl_status ?ccl = Connected"
      "cl_parts ?ccl = parts" using assms(1-3) by (simp_all add: client_clear_msgs_def wf_client_def)
  have "client_offers ?st (0, ?ccl) ?ms" "client_holds_udp oc (0, ?ccl) us" using assms(3,6,7) by (simp_all add: clear)
  from client_recv_round [OF clear(3,4) this]
  show "\<exists>n. r = Ok n" "cl_status cl' = Connected" "cl_parts cl' = parts" "offers_frames ?st (cl_tcp cl') []"
      "urx (uc_udp (cl_udp cl')) = []"
    using assms(8) conn all(1) clear(5) by auto
  show "wf_client cl'" using client_recv_msgs_wf [OF clear(3) assms(8)] by blast
  show "client_out cl cl'" using client_recv_msgs_out [OF clear(3) assms(8)] by (simp add: client_out_def clear)
  assume "tid_map parts T = Some mid"
  then have codec: "codec_of bc (cl_parts cl)" "tid_map (cl_parts cl) T = Some mid" using assms(3,4) by simp_all
  from client_round_recv [OF assms(1,2,6,7) codec] show "reads (client_recv T cl') =
      map (\<lambda>m. \<lparr>nm_cid = em_cid m, nm_time = em_time m, nm_m = any_val (em_msg m)\<rparr>) (msgs_for mid (?ms @ us))"
    using assms(8) by (auto simp: all(2) heard)
qed

lemma client_frame_keeps:
  assumes "wf_parts parts" "wf_numbering parts" "codec_of bc parts" "mid_count parts \<le> 65536"
    and "joined bc parts c con cl up up_got down down_got" "no_cut (rx (tc_tcp (cl_tcp cl)))"
    and "client_recv_msgs oc (client_clear_msgs cl) = (r, cl')" "waits_down oc parts cl dsent"
  shows "(\<exists>n. r = Ok n) \<and> joined bc parts c con cl' up up_got down (\<lambda>T. down_got T @ reads (client_recv T cl')) \<and>
    waits_down oc parts cl' dsent \<and> udp_read parts 0 dsent (\<lambda>T. reads (client_recv T cl')) \<and>
    length (rx (tc_tcp (cl_tcp cl'))) < 4 \<and> tx (tc_tcp (cl_tcp cl')) = tx (tc_tcp (cl_tcp cl))"
proof -
  let ?n = "tcp_max_msg_size con"
  have j: "wf_client cl" "cl_status cl = Connected" "cl_parts cl = parts"
      "rx_state (tc_tcp (cl_tcp cl)) = RxOpen" "?n = tcp_max_msg_size (cl_tcp cl)" "?n < 65536" "wf_con (cl_tcp cl)"
    using assms(5) by (auto simp: joined_def wf_client_def)
  obtain us where udp: "client_holds_udp oc (0, cl) us" "\<forall>u \<in> set us. by_udp parts dsent 0 u"
    using assms(8) by (auto simp: waits_down_def)
  have "channel bc parts ?n 0 down down_got (rx (tc_tcp (cl_tcp cl)) @ tx (tc_tcp con))"
    using assms(5) by (simp add: joined_def)
  then obtain old ms where ch: "down = old @ ms" "under_way bc parts ?n ms (rx (tc_tcp (cl_tcp cl)) @ tx (tc_tcp con))"
      "\<forall>T \<in> types_over TCP parts. down_got T =
        map (\<lambda>m. \<lparr>nm_cid = 0, nm_time = None, nm_m = any_val m\<rparr>) (filter (\<lambda>m. any_tid m = T) old)"
    unfolding channel_def by blast
  obtain k bs where k: "length bs < 4" "under_way bc parts ?n (drop k ms) (bs @ tx (tc_tcp con))"
      "\<exists>frames. offers_frames (Tail bs (rx_state (tc_tcp (cl_tcp cl)))) (cl_tcp cl) frames \<and>
         list_all2 (decoded parts 0) frames (map (received parts 0) (take k ms))" "\<forall>m \<in> set (take k ms). carried bc parts m"
    by (rule under_way_arrives [OF assms(1,3,4) ch(2) assms(6) j(7,5,6), where cid = 0])
  have offers: "client_offers (Tail bs RxOpen) (0, cl) (map (received parts 0) (take k ms))" using k(3) j(3,4) by simp
  note r = client_cleared_round [OF j(1-3) assms(3) k(4) offers udp(1) assms(7)]
  note got = round_reads [OF assms(1,2) k(4) udp(2) r(8)]
  have waits: "waits_down oc parts cl' dsent" by (rule nothing_waits) (use r(5,6) in \<open>simp_all add: wf_client_def\<close>)
  have "channel bc parts ?n 0 down (\<lambda>T. down_got T @ reads (client_recv T cl')) (bs @ tx (tc_tcp con))"
    by (rule channel_receive [OF ch(1,3) k(2)]) (use got(1) in auto)
  then have "joined bc parts c con cl' up up_got down (\<lambda>T. down_got T @ reads (client_recv T cl'))"
    using assms(5) r(2,3,6,7) offers_nothing [OF r(4)] by (simp add: joined_def client_out_def same_out_def)
  moreover have "length (rx (tc_tcp (cl_tcp cl'))) < 4" using r(4) by (simp add: offers_frames_def)
  ultimately show ?thesis using r(1,7) waits got(2) by (simp add: client_out_def same_out_def)
qed

section \<open>Every step keeps the channels\<close>

lemma link_ok_moves:
  assumes "link_ok bc parts oc l" "sv_tcp (lk_server l) c = Some con"
    and "joined bc parts c con' ((lk_client l c)\<lparr>cl_tcp := t\<rparr>) (lk_up l c) (lk_up_got l c) (lk_down l c) (lk_down_got l c)"
    and "length (tc_buff con') = length (tc_buff con)"
  shows "link_ok bc parts oc (l\<lparr>lk_server := (lk_server l)\<lparr>sv_tcp := (sv_tcp (lk_server l))(c \<mapsto> con')\<rparr>,
    lk_client := (lk_client l)(c := (lk_client l c)\<lparr>cl_tcp := t\<rparr>)\<rparr>)"
proof -
  let ?sv = "(lk_server l)\<lparr>sv_tcp := (sv_tcp (lk_server l))(c \<mapsto> con')\<rparr>"
  have ok: "wf_server (lk_server l)" "waits_up oc parts (lk_server l) (lk_up_udp l)" using assms(1) by (simp_all add: link_ok_def)
  have "wf_server ?sv" by (rule wf_socks [OF socks_only_tcp [OF assms(2,4)] ok(1)])
  moreover have "waits_up oc parts ?sv (lk_up_udp l)" by (rule waits_up_same [OF ok(2)]) simp_all
  moreover have "waits_down oc parts ((lk_client l c)\<lparr>cl_tcp := t\<rparr>) (lk_down_udp l c)"
    by (rule waits_down_same [OF link_okD(2) [OF assms(1,2)]]) simp_all
  ultimately show ?thesis using assms(1,3) link_okD(3,4) [OF assms(1,2)] by (auto simp: link_ok_def)
qed

lemma network_step_ok:
  assumes "network_step l l'" "link_ok bc parts oc l"
  shows "link_ok bc parts oc l'"
  using assms(1)
proof cases
  case (goes_up c con n)
  then show ?thesis
    using link_ok_moves [OF assms(2) goes_up(2) joined_moves(1) [OF link_okD(1) [OF assms(2) goes_up(2)]]] by simp
next
  case (goes_down c con n)
  then show ?thesis
    using link_ok_moves [OF assms(2) goes_down(2) joined_moves(2) [OF link_okD(1) [OF assms(2) goes_down(2)]]] by simp
qed

lemma client_send_fails_ok:
  assumes "link_ok bc parts oc l" "client_send now m (lk_client l c) = (r, cl)"
    and "tx (tc_tcp (cl_tcp cl)) = tx (tc_tcp (cl_tcp (lk_client l c)))"
  shows "link_ok bc parts oc (l\<lparr>lk_client := (lk_client l)(c := cl)\<rparr>)"
proof -
  obtain t u where t: "cl = (lk_client l c)\<lparr>cl_tcp := t, cl_udp := u\<rparr>" "same_stream (cl_tcp (lk_client l c)) t"
      "urx (uc_udp u) = urx (uc_udp (cl_udp (lk_client l c)))" "length (uc_buff u) = length (uc_buff (cl_udp (lk_client l c)))"
    using client_send_keeps [OF assms(2)] by blast
  have "joined bc parts c con cl (lk_up l c) (lk_up_got l c) (lk_down l c) (lk_down_got l c) \<and>
      waits_down oc parts cl (lk_down_udp l c)" if con: "sv_tcp (lk_server l) c = Some con" for con
    using joined_same [OF link_okD(1) [OF assms(1) con] same_stream_refl t(2) refl _ t(4)] assms(3)
      waits_down_same [OF link_okD(2) [OF assms(1) con], of "lk_down_udp l c" cl] t(3,4) by (simp add: t(1))
  then show ?thesis using assms(1) by (auto simp: link_ok_def)
qed

lemma server_send_fails_ok:
  assumes "link_ok bc parts oc l" "server_send_to now c m (lk_server l) = (r, sv)"
    and "map_option (\<lambda>con. tx (tc_tcp con)) (sv_tcp sv c) = map_option (\<lambda>con. tx (tc_tcp con)) (sv_tcp (lk_server l) c)"
  shows "link_ok bc parts oc (l\<lparr>lk_server := sv\<rparr>)"
proof -
  let ?sv = "lk_server l"
  have ok: "wf_server ?sv" "sv_parts ?sv = parts" "waits_up oc parts ?sv (lk_up_udp l)"
    using assms(1) by (simp_all add: link_ok_def)
  obtain t u where t: "sv = ?sv\<lparr>sv_tcp := t, sv_udp := u\<rparr>" "\<And>d. rel_option same_stream (sv_tcp ?sv d) (t d)"
      "\<And>d. d \<noteq> c \<Longrightarrow> t d = sv_tcp ?sv d" "urx (uc_udp u) = urx (uc_udp (sv_udp ?sv))"
      "length (uc_buff u) = length (uc_buff (sv_udp ?sv))"
    using server_send_keeps [OF assms(2)] by blast
  have "wf_server sv" using wf_socks [OF server_send_socks [OF assms(2)] ok(1)] .
  moreover have "waits_up oc parts sv (lk_up_udp l)" by (rule waits_up_same [OF ok(3)]) (simp_all add: t(1,4,5))
  moreover have "joined bc parts d con' (lk_client l d) (lk_up l d) (lk_up_got l d) (lk_down l d) (lk_down_got l d) \<and>
      waits_down oc parts (lk_client l d) (lk_down_udp l d) \<and> udp_read parts d (lk_up_udp l d) (lk_up_got l d) \<and>
      udp_read parts 0 (lk_down_udp l d) (lk_down_got l d)" if d: "t d = Some con'" for d con'
  proof -
    obtain con where con: "sv_tcp ?sv d = Some con" "same_stream con con'"
      using t(2) [of d] d by (cases "sv_tcp ?sv d") auto
    have "tx (tc_tcp con') = tx (tc_tcp con)" using assms(3) t(3) [of d] con(1) d by (cases "d = c") (auto simp: t(1))
    from joined_same [OF link_okD(1) [OF assms(1) con(1)] con(2) same_stream_refl this refl, of "cl_udp (lk_client l d)"]
    show ?thesis using link_okD(2-4) [OF assms(1) con(1)] by simp
  qed
  ultimately show ?thesis using assms(1) by (simp add: link_ok_def t(1))
qed

lemma link_step_ok:
  assumes "wf_parts parts" "wf_numbering parts" "codec_of bc parts" "mid_count parts \<le> 65536" "key_order ko"
    and "link_step bc parts ko oc l l'" "link_ok bc parts oc l"
  shows "link_ok bc parts oc l'"
  using assms(6)
proof (cases rule: link_step.cases)
  case (client_sends m now c cl)
  have "joined bc parts c con cl (lk_up l c @ [m]) (lk_up_got l c) (lk_down l c) (lk_down_got l c) \<and>
      waits_down oc parts cl (lk_down_udp l c)" if con: "sv_tcp (lk_server l) c = Some con" for con
    using joined_client_sends [OF assms(1,3) link_okD(1) [OF assms(7) con] client_sends(2,3)]
      waits_down_same [OF link_okD(2) [OF assms(7) con]] by simp
  then show ?thesis using assms(7) by (auto simp: client_sends(1) link_ok_def)
next
  case (server_sends m now c sv)
  let ?sv = "lk_server l"
  have ok: "wf_server ?sv" "sv_parts ?sv = parts" "waits_up oc parts ?sv (lk_up_udp l)"
    using assms(7) by (simp_all add: link_ok_def)
  obtain con mid b con' where b: "sv_tcp ?sv c = Some con" "encodes bc parts m (mid, b)" "tcp_con_send mid b con = (Ok (), con')"
      "sv = ?sv\<lparr>sv_tcp := (sv_tcp ?sv)(c \<mapsto> con')\<rparr>"
    using server_sent_frame [OF assms(1,3) ok(2) server_sends(2,3)] by blast
  note joined_server_sends [OF link_okD(1) [OF assms(7) b(1)] b(2) server_sends(2) b(3)]
  moreover have "wf_server sv" using wf_socks [OF server_send_socks [OF server_sends(3)] ok(1)] .
  moreover have "waits_up oc parts sv (lk_up_udp l)" by (rule waits_up_same [OF ok(3)]) (simp_all add: b(4))
  ultimately show ?thesis using assms(7) b(4) link_okD(2-4) [OF assms(7) b(1)] by (auto simp: server_sends(1) link_ok_def)
next
  case (client_send_fails now m c e cl)
  then show ?thesis using client_send_fails_ok [OF assms(7)] by simp
next
  case (server_send_fails now c m e sv)
  then show ?thesis using server_send_fails_ok [OF assms(7)] by simp
next
  case network
  then show ?thesis using network_step_ok assms(7) by blast
next
  case (client_sends_udp m now c cl)
  have "waits_up oc parts (lk_server l) ((lk_up_udp l)(c := lk_up_udp l c @ [(now, m)]))"
    by (rule waits_up_same [where sent = "lk_up_udp l"]) (use assms(7) in \<open>auto simp: link_ok_def\<close>)
  moreover have "joined bc parts c con cl (lk_up l c) (lk_up_got l c) (lk_down l c) (lk_down_got l c) \<and>
      waits_down oc parts cl (lk_down_udp l c) \<and> udp_read parts c (lk_up_udp l c @ [(now, m)]) (lk_up_got l c)"
    if con: "sv_tcp (lk_server l) c = Some con" for con
  proof -
    note d = link_okD [OF assms(7) con]
    have "cl_parts (lk_client l c) = parts" using d(1) by (simp add: joined_def)
    then obtain u where u: "cl = (lk_client l c)\<lparr>cl_udp := u\<rparr>" "urx (uc_udp u) = urx (uc_udp (cl_udp (lk_client l c)))"
        "length (uc_buff u) = length (uc_buff (cl_udp (lk_client l c)))"
      using client_send_udp_any [of "lk_client l c" bc m now cl] assms(1,3) client_sends_udp(2,3) by auto
    show ?thesis unfolding u(1)
      using joined_udp [OF d(1) u(3)] waits_down_same [OF d(2), of "lk_down_udp l c" "(lk_client l c)\<lparr>cl_udp := u\<rparr>"] u(2,3)
        udp_read_mono [OF d(3), of "lk_up_udp l c @ [(now, m)]"] by auto
  qed
  ultimately show ?thesis using assms(7) by (auto simp: client_sends_udp(1) link_ok_def)
next
  case (server_sends_udp m now c sv)
  let ?sv = "lk_server l"
  have ok: "wf_server ?sv" "sv_parts ?sv = parts" "waits_up oc parts ?sv (lk_up_udp l)"
    using assms(7) by (simp_all add: link_ok_def)
  obtain u where u: "sv = ?sv\<lparr>sv_udp := u\<rparr>" "urx (uc_udp u) = urx (uc_udp (sv_udp ?sv))"
      "length (uc_buff u) = length (uc_buff (sv_udp ?sv))"
    using server_sent_udp [OF assms(1,3) ok(2) server_sends_udp(2,3)] by blast
  have "wf_server sv" using wf_socks [OF server_send_socks [OF server_sends_udp(3)] ok(1)] .
  moreover have "waits_up oc parts sv (lk_up_udp l)" by (rule waits_up_same [OF ok(3)]) (simp_all add: u)
  moreover have "waits_down oc parts (lk_client l c) (lk_down_udp l c @ [(now, m)]) \<and>
      udp_read parts 0 (lk_down_udp l c @ [(now, m)]) (lk_down_got l c)" if con: "sv_tcp ?sv c = Some con" for con
    using waits_down_same [OF link_okD(2) [OF assms(7) con], of "lk_down_udp l c @ [(now, m)]" "lk_client l c"]
      udp_read_mono [OF link_okD(4) [OF assms(7) con], of "lk_down_udp l c @ [(now, m)]"] by auto
  ultimately show ?thesis using assms(7) by (auto simp: server_sends_udp(1) u(1) link_ok_def)
next
  case (datagram_up now m c bs at src)
  let ?sv = "lk_server l"
  have ok: "wf_server ?sv" "sv_parts ?sv = parts" "waits_up oc parts ?sv (lk_up_udp l)"
    using assms(7) by (simp_all add: link_ok_def)
  have "socks_only ?sv (?sv\<lparr>sv_udp := gets_datagram src bs at (sv_udp ?sv)\<rparr>)"
    by (rule socks_only_udp) (simp add: gets_datagram_def)
  then have "wf_server (?sv\<lparr>sv_udp := gets_datagram src bs at (sv_udp ?sv)\<rparr>)" using wf_socks ok(1) by blast
  with waits_up_get [OF assms(1,3,4) ok(3,1,2) datagram_up(2-6)] show ?thesis
    using assms(7) by (auto simp: datagram_up(1) link_ok_def)
next
  case (datagram_down now m c bs at src)
  let ?u = "gets_datagram src bs at (cl_udp (lk_client l c))"
  have "joined bc parts c con ((lk_client l c)\<lparr>cl_udp := ?u\<rparr>) (lk_up l c) (lk_up_got l c) (lk_down l c) (lk_down_got l c) \<and>
      waits_down oc parts ((lk_client l c)\<lparr>cl_udp := ?u\<rparr>) (lk_down_udp l c)"
    if con: "sv_tcp (lk_server l) c = Some con" for con
  proof -
    note d = link_okD [OF assms(7) con]
    have "length (uc_buff ?u) = length (uc_buff (cl_udp (lk_client l c)))" by (simp add: gets_datagram_def)
    from joined_udp [OF d(1) this] waits_down_get [OF assms(1,3,4) d(2) _ datagram_down(2-5)] d(1) show ?thesis
      by (simp add: joined_def)
  qed
  then show ?thesis using assms(7) by (auto simp: datagram_down(1) link_ok_def)
next
  case server_frame
  obtain r sv where "server_recv_msgs ko oc (server_clear_msgs (lk_server l)) = (r, sv)" by fastforce
  then show ?thesis using server_frame_keeps [OF assms(1-5,7) server_frame(2)] by (simp add: server_frame(1) server_runs_def)
next
  case (client_frame c con)
  obtain r cl where r: "client_recv_msgs oc (client_clear_msgs (lk_client l c)) = (r, cl)" by fastforce
  note d = link_okD [OF assms(7) client_frame(2)]
  have "(\<exists>n. r = Ok n) \<and> joined bc parts c con cl (lk_up l c) (lk_up_got l c) (lk_down l c)
      (\<lambda>T. lk_down_got l c T @ reads (client_recv T cl)) \<and> waits_down oc parts cl (lk_down_udp l c) \<and>
      udp_read parts 0 (lk_down_udp l c) (\<lambda>T. lk_down_got l c T @ reads (client_recv T cl))"
    using client_frame_keeps [OF assms(1-4) d(1) client_frame(3) r d(2)] d(4) by (auto simp: udp_read_def)
  then show ?thesis using assms(7) client_frame(2) r by (auto simp: client_frame(1) client_runs_def link_ok_def)
qed

lemma link_steps_ok:
  assumes "wf_parts parts" "wf_numbering parts" "codec_of bc parts" "mid_count parts \<le> 65536" "key_order ko"
    and "(link_step bc parts ko oc)\<^sup>*\<^sup>* l l'" "link_ok bc parts oc l"
  shows "link_ok bc parts oc l'"
  using assms(6,7) by (induction rule: rtranclp_induct) (auto intro: link_step_ok [OF assms(1-5)])

end
