(* ===== verification/Delivery.thy ===== *)
theory Delivery
  imports Session
begin

text \<open>
  What the steps of a session come to (\<open>src/server.rs\<close>, \<open>src/client.rs\<close>): from every state what is
  under way can be delivered, by the network and one round at each end; and what has been read are the
  first of the values sent.
\<close>

section \<open>What is under way can always be delivered\<close>

lemma under_way_short: "under_way bc parts n ms bs \<Longrightarrow> length bs < 4 \<Longrightarrow> ms = []"
proof -
  assume "under_way bc parts n ms bs" "length bs < 4"
  then obtain frames where f: "length (wire frames) < 4" "list_all2 (encodes bc parts) ms frames"
    unfolding under_way_def by blast
  then have "frames = []" by (cases frames) (auto simp: wire_def)
  then show "ms = []" using f(2) by simp
qed

text \<open>Nothing waits in the send buffers of a connection.\<close>

definition idle :: "'v link \<Rightarrow> cid \<Rightarrow> bool" where
  "idle l c \<longleftrightarrow> tx (tc_tcp (cl_tcp (lk_client l c))) = [] \<and>
     (\<forall>con. sv_tcp (lk_server l) c = Some con \<longrightarrow> tx (tc_tcp con) = [])"

definition same_sent :: "'v link \<Rightarrow> 'v link \<Rightarrow> bool" where
  "same_sent l l' \<longleftrightarrow> lk_up l' = lk_up l \<and> lk_down l' = lk_down l \<and>
     dom (sv_tcp (lk_server l')) = dom (sv_tcp (lk_server l))"

lemma same_sent_refl [simp]: "same_sent l l"
  by (simp add: same_sent_def)

lemma same_sent_trans: "same_sent l l' \<Longrightarrow> same_sent l' l'' \<Longrightarrow> same_sent l l''"
  by (simp add: same_sent_def)

lemma network_steps: "network_step\<^sup>*\<^sup>* l l' \<Longrightarrow> (link_step bc parts ko oc)\<^sup>*\<^sup>* l l'"
  by (induction rule: rtranclp_induct) (auto intro: network rtranclp.rtrancl_into_rtrancl)

lemma flush_one:
  assumes "sv_tcp (lk_server l) c = Some con"
  shows "\<exists>l'. network_step\<^sup>*\<^sup>* l l' \<and> same_sent l l' \<and> idle l' c \<and>
    (\<forall>d. d \<noteq> c \<longrightarrow> idle l' d = idle l d)"
proof -
  let ?cl = "lk_client l c"
  let ?up = "tx (tc_tcp (cl_tcp ?cl))" and ?down = "tx (tc_tcp con)"
  let ?con1 = "takes_in (take (length ?up) ?up) con" and ?cl1 = "?cl\<lparr>cl_tcp := sends_off (length ?up) (cl_tcp ?cl)\<rparr>"
  define l1 where "l1 = l\<lparr>lk_server := (lk_server l)\<lparr>sv_tcp := (sv_tcp (lk_server l))(c \<mapsto> ?con1)\<rparr>,
    lk_client := (lk_client l)(c := ?cl1)\<rparr>"
  have 1: "network_step l l1" unfolding l1_def by (rule goes_up [OF assms]) simp
  have l1: "sv_tcp (lk_server l1) c = Some ?con1" "lk_client l1 c = ?cl1" by (simp_all add: l1_def)
  let ?con2 = "sends_off (length ?down) ?con1"
    and ?cl2 = "(lk_client l1 c)\<lparr>cl_tcp := takes_in (take (length ?down) (tx (tc_tcp ?con1))) (cl_tcp (lk_client l1 c))\<rparr>"
  define l2 where "l2 = l1\<lparr>lk_server := (lk_server l1)\<lparr>sv_tcp := (sv_tcp (lk_server l1))(c \<mapsto> ?con2)\<rparr>,
    lk_client := (lk_client l1)(c := ?cl2)\<rparr>"
  have 2: "network_step l1 l2" unfolding l2_def by (rule goes_down [OF l1(1)]) simp
  have "dom (sv_tcp (lk_server l2)) = dom (sv_tcp (lk_server l))" using assms by (simp add: l1_def l2_def dom_def) force
  then have "same_sent l l2" by (simp add: same_sent_def l1_def l2_def)
  moreover have "idle l2 c" using l1(2) by (simp add: idle_def l2_def)
  moreover have "\<forall>d. d \<noteq> c \<longrightarrow> idle l2 d = idle l d" by (simp add: idle_def l1_def l2_def)
  moreover have "network_step\<^sup>*\<^sup>* l l2" using 1 2 by (rule rtranclp.intros(2) [OF r_into_rtranclp])
  ultimately show ?thesis by blast
qed

lemma flush_all:
  "set cs \<subseteq> dom (sv_tcp (lk_server l)) \<Longrightarrow>
   \<exists>l'. network_step\<^sup>*\<^sup>* l l' \<and> same_sent l l' \<and> (\<forall>c \<in> set cs. idle l' c)"
proof (induction cs)
  case Nil
  then show ?case by (intro exI [of _ l]) simp
next
  case (Cons c cs)
  then obtain l1 where l1: "network_step\<^sup>*\<^sup>* l l1" "same_sent l l1" "\<forall>c \<in> set cs. idle l1 c" by auto
  then have "c \<in> dom (sv_tcp (lk_server l1))" using Cons.prems by (simp add: same_sent_def)
  then obtain con where "sv_tcp (lk_server l1) c = Some con" by blast
  from flush_one [OF this] obtain l2 where
    l2: "network_step\<^sup>*\<^sup>* l1 l2" "same_sent l1 l2" "idle l2 c" "\<forall>d. d \<noteq> c \<longrightarrow> idle l2 d = idle l1 d" by blast
  have "\<forall>d \<in> set (c # cs). idle l2 d"
  proof
    fix d assume "d \<in> set (c # cs)"
    then show "idle l2 d" using l1(3) l2(3,4) by (cases "d = c") auto
  qed
  then show ?case using l1(1,2) l2(1,2) same_sent_trans by (meson rtranclp_trans)
qed

lemma joined_idle_no_cut:
  assumes "joined bc parts c con cl up up_got down down_got" "tx (tc_tcp (cl_tcp cl)) = []" "tx (tc_tcp con) = []"
  shows "no_cut (rx (tc_tcp con))" "no_cut (rx (tc_tcp (cl_tcp cl)))"
proof -
  have n: "tcp_max_msg_size con < 65536" using assms(1) by (simp add: joined_def)
  have "channel bc parts (tcp_max_msg_size con) c up up_got (rx (tc_tcp con))"
    "channel bc parts (tcp_max_msg_size con) 0 down down_got (rx (tc_tcp (cl_tcp cl)))"
    using assms by (simp_all add: joined_def)
  then show "no_cut (rx (tc_tcp con))" "no_cut (rx (tc_tcp (cl_tcp cl)))"
    using under_way_no_cut [OF _ n] unfolding channel_def by blast+
qed

lemma server_frame_idle:
  assumes "wf_parts parts" "wf_numbering parts" "codec_of bc parts" "mid_count parts \<le> 65536" "key_order ko"
    and "link_ok bc parts oc l" "\<forall>c \<in> dom (sv_tcp (lk_server l)). idle l c"
  shows "link_step bc parts ko oc l (server_runs ko oc l)" "same_sent l (server_runs ko oc l)"
    "\<forall>c \<in> dom (sv_tcp (lk_server l)). idle (server_runs ko oc l) c"
    "\<forall>c con. sv_tcp (lk_server (server_runs ko oc l)) c = Some con \<longrightarrow> length (rx (tc_tcp con)) < 4"
proof -
  let ?sv = "lk_server l" and ?csv = "server_clear_msgs (lk_server l)"
  obtain r sv where r: "server_recv_msgs ko oc ?csv = (r, sv)" by fastforce
  have uncut: "no_cut (rx (tc_tcp con))" if con: "sv_tcp ?sv c = Some con" for c con
  proof -
    have "idle l c" using assms(7) con by blast
    then show ?thesis using joined_idle_no_cut(1) [OF link_okD(1) [OF assms(6) con]] con by (simp add: idle_def)
  qed
  have uncuts: "\<forall>con \<in> ran (sv_tcp ?sv). no_cut (rx (tc_tcp con))" using uncut by (auto simp: ran_def)
  let ?l = "l\<lparr>lk_server := sv, lk_up_got := (\<lambda>c T. lk_up_got l c T @ reads (server_recv_spec (CIdOnly c) T sv)),
    lk_panicked := (lk_panicked l \<or> is_panic r)\<rparr>"
  have wf: "wf_server ?sv" using assms(6) by (simp add: link_ok_def)
  have wf2: "wf_server ?csv" "sv_tcp ?csv = sv_tcp ?sv" "sv_udp ?csv = sv_udp ?sv" "sv_cid_addr ?csv = sv_cid_addr ?sv"
    using server_step_wf [OF step_clear_msgs wf] by (simp_all add: server_clear_msgs_def)
  have out: "server_out ?csv sv" using server_recv_msgs_out [OF wf2(1) r] .
  have quiet: "idle ?l c" if c: "c \<in> dom (sv_tcp ?sv)" for c
  proof -
    have "tx (tc_tcp con') = []" if "sv_tcp sv c = Some con'" for con'
    proof -
      obtain con where "sv_tcp ?sv c = Some con" "same_out con con'"
        using out \<open>sv_tcp sv c = Some con'\<close> unfolding server_out_def wf2(2) by blast
      moreover have "idle l c" using assms(7) c by blast
      ultimately show ?thesis by (simp add: idle_def same_out_def)
    qed
    moreover have "idle l c" using assms(7) c by blast
    ultimately show ?thesis by (simp add: idle_def)
  qed
  have dom: "dom (sv_tcp sv) = dom (sv_tcp ?sv)"
    using out by (simp add: server_out_def wf2)
  have l: "server_runs ko oc l = ?l" by (simp add: server_runs_def r)
  show "link_step bc parts ko oc l (server_runs ko oc l)" by (rule server_frame [OF uncuts])
  show "same_sent l (server_runs ko oc l)" using dom by (simp add: same_sent_def l)
  show "\<forall>c \<in> dom (sv_tcp ?sv). idle (server_runs ko oc l) c" using quiet by (simp add: l)
  show "\<forall>c con. sv_tcp (lk_server (server_runs ko oc l)) c = Some con \<longrightarrow> length (rx (tc_tcp con)) < 4"
    using server_frame_keeps [OF assms(1-6) uncuts r] by (simp add: l)
qed

lemma client_frames_idle:
  assumes "wf_parts parts" "wf_numbering parts" "codec_of bc parts" "mid_count parts \<le> 65536" "key_order ko"
    and "link_ok bc parts oc l" "\<forall>c \<in> dom (sv_tcp (lk_server l)). idle l c"
  shows "set cs \<subseteq> dom (sv_tcp (lk_server l)) \<Longrightarrow> l' = foldr (client_runs oc) cs l \<Longrightarrow>
    (link_step bc parts ko oc)\<^sup>*\<^sup>* l l' \<and> same_sent l l' \<and>
    lk_server l' = lk_server l \<and> (\<forall>c \<in> dom (sv_tcp (lk_server l)). idle l' c) \<and>
    (\<forall>c \<in> set cs. length (rx (tc_tcp (cl_tcp (lk_client l' c)))) < 4)"
proof (induction cs arbitrary: l')
  case Nil
  then show ?case using assms(7) by simp
next
  case (Cons c cs)
  define l1 where "l1 = foldr (client_runs oc) cs l"
  from Cons.IH [OF _ this] Cons.prems(1) have l1: "(link_step bc parts ko oc)\<^sup>*\<^sup>* l l1" "same_sent l l1" "lk_server l1 = lk_server l"
      "\<forall>c \<in> dom (sv_tcp (lk_server l)). idle l1 c" "\<forall>c \<in> set cs. length (rx (tc_tcp (cl_tcp (lk_client l1 c)))) < 4" by simp_all
  have ok: "link_ok bc parts oc l1" using link_steps_ok [OF assms(1-5) l1(1) assms(6)] .
  have "c \<in> dom (sv_tcp (lk_server l1))" using Cons.prems l1(3) by simp
  then obtain con where con: "sv_tcp (lk_server l1) c = Some con" by blast
  note j = link_okD(1) [OF ok con]
  have idle: "tx (tc_tcp (cl_tcp (lk_client l1 c))) = []" "tx (tc_tcp con) = []"
    using l1(3,4) con Cons.prems by (auto simp: idle_def)
  note uncut = joined_idle_no_cut(2) [OF j idle]
  obtain r cl where r: "client_recv_msgs oc (client_clear_msgs (lk_client l1 c)) = (r, cl)" by fastforce
  let ?l = "l1\<lparr>lk_client := (lk_client l1)(c := cl),
         lk_down_got := (lk_down_got l1)(c := (\<lambda>T. lk_down_got l1 c T @ reads (client_recv T cl))),
         lk_panicked := (lk_panicked l1 \<or> is_panic r)\<rparr>"
  have l: "client_runs oc c l1 = ?l" by (simp add: client_runs_def r)
  have "link_step bc parts ko oc l1 ?l" using client_frame [OF con uncut, of bc parts ko oc] by (simp add: l)
  then have steps: "(link_step bc parts ko oc)\<^sup>*\<^sup>* l ?l" using l1(1) by simp
  have cl: "length (rx (tc_tcp (cl_tcp cl))) < 4" "tx (tc_tcp (cl_tcp cl)) = []"
    using client_frame_keeps [OF assms(1-4) j uncut r link_okD(2) [OF ok con]] idle(1) by simp_all
  have "\<forall>d \<in> dom (sv_tcp (lk_server l)). idle ?l d"
    using l1(3,4) cl(2) idle(2) con by (auto simp: idle_def)
  moreover have "\<forall>d \<in> set (c # cs). length (rx (tc_tcp (cl_tcp (lk_client ?l d)))) < 4" using l1(5) cl(1) by simp
  moreover have "same_sent l ?l" "lk_server ?l = lk_server l" using l1(2,3) by (simp_all add: same_sent_def)
  moreover have "l' = ?l" using Cons.prems(2) l by (simp add: l1_def)
  ultimately show ?case using steps by blast
qed

lemma channel_drained:
  assumes "channel bc parts n src sent got bs" "length bs < 4" "T \<in> types_over TCP parts"
  shows "got T = map (\<lambda>m. \<lparr>nm_cid = src, nm_time = None, nm_m = any_val m\<rparr>) (filter (\<lambda>m. any_tid m = T) sent)"
proof -
  obtain old ms where ch: "sent = old @ ms" "under_way bc parts n ms bs" "\<forall>T \<in> types_over TCP parts. got T =
      map (\<lambda>m. \<lparr>nm_cid = src, nm_time = None, nm_m = any_val m\<rparr>) (filter (\<lambda>m. any_tid m = T) old)"
    using assms(1) unfolding channel_def by blast
  have "sent = old" using ch(1) under_way_short [OF ch(2) assms(2)] by simp
  then show ?thesis using bspec [OF ch(3) assms(3)] by (simp only:)
qed

text \<open>The network moves what is under way; then the server runs, then each client of \<open>cs\<close>.\<close>

lemma everything_delivered:
  assumes "wf_parts parts" "wf_numbering parts" "codec_of bc parts" "mid_count parts \<le> 65536" "key_order ko"
    and "link_ok bc parts oc l" "set cs = dom (sv_tcp (lk_server l))"
  shows "\<exists>l1 l'. network_step\<^sup>*\<^sup>* l l1 \<and> l' = foldr (client_runs oc) cs (server_runs ko oc l1) \<and>
    (link_step bc parts ko oc)\<^sup>*\<^sup>* l l' \<and> same_sent l l' \<and> \<not> lk_panicked l' \<and>
    (\<forall>c \<in> dom (sv_tcp (lk_server l)). \<forall>T \<in> types_over TCP parts.
      lk_up_got l' c T = map (\<lambda>m. \<lparr>nm_cid = c, nm_time = None, nm_m = any_val m\<rparr>) (filter (\<lambda>m. any_tid m = T) (lk_up l c)) \<and>
      lk_down_got l' c T = map (\<lambda>m. \<lparr>nm_cid = 0, nm_time = None, nm_m = any_val m\<rparr>) (filter (\<lambda>m. any_tid m = T) (lk_down l c)))"
proof -
  let ?C = "dom (sv_tcp (lk_server l))"
  note cs = assms(7)
  obtain l1 where net: "network_step\<^sup>*\<^sup>* l l1" and l1: "same_sent l l1" "\<forall>c \<in> set cs. idle l1 c"
    using flush_all [of cs l] cs by blast
  have steps1: "(link_step bc parts ko oc)\<^sup>*\<^sup>* l l1" using network_steps [OF net] .
  have ok1: "link_ok bc parts oc l1" using link_steps_ok [OF assms(1-5) steps1 assms(6)] .
  define l2 where "l2 = server_runs ko oc l1"
  have "\<forall>c \<in> dom (sv_tcp (lk_server l1)). idle l1 c" using l1 cs by (simp add: same_sent_def)
  note l2 = server_frame_idle [OF assms(1-5) ok1 this, folded l2_def]
  have ok2: "link_ok bc parts oc l2" using link_step_ok [OF assms(1-5) l2(1) ok1] .
  define l3 where "l3 = foldr (client_runs oc) cs l2"
  have "\<forall>c \<in> dom (sv_tcp (lk_server l2)). idle l2 c" "set cs \<subseteq> dom (sv_tcp (lk_server l2))"
    using l1(1) l2(2,3) cs by (simp_all add: same_sent_def)
  from client_frames_idle [OF assms(1-5) ok2 this l3_def] have
    l3: "(link_step bc parts ko oc)\<^sup>*\<^sup>* l2 l3" "same_sent l2 l3" "lk_server l3 = lk_server l2"
      "\<forall>c \<in> dom (sv_tcp (lk_server l2)). idle l3 c" "\<forall>c \<in> set cs. length (rx (tc_tcp (cl_tcp (lk_client l3 c)))) < 4"
    by simp_all
  have steps: "(link_step bc parts ko oc)\<^sup>*\<^sup>* l l3"
    using steps1 l2(1) l3(1) by (meson rtranclp.rtrancl_into_rtrancl rtranclp_trans)
  have same: "same_sent l l3" using same_sent_trans [OF same_sent_trans [OF l1(1) l2(2)] l3(2)] .
  have ok3: "link_ok bc parts oc l3" using link_steps_ok [OF assms(1-5) steps assms(6)] .
  have got: "lk_up_got l3 c T = map (\<lambda>m. \<lparr>nm_cid = c, nm_time = None, nm_m = any_val m\<rparr>) (filter (\<lambda>m. any_tid m = T) (lk_up l c)) \<and>
      lk_down_got l3 c T = map (\<lambda>m. \<lparr>nm_cid = 0, nm_time = None, nm_m = any_val m\<rparr>) (filter (\<lambda>m. any_tid m = T) (lk_down l c))"
    if c: "c \<in> ?C" and T: "T \<in> types_over TCP parts" for c T
  proof -
    have "c \<in> dom (sv_tcp (lk_server l3))" using same c by (simp add: same_sent_def)
    then obtain con where con: "sv_tcp (lk_server l3) c = Some con" by blast
    then have "idle l3 c" using l3(3,4) by auto
    then have tx: "tx (tc_tcp (cl_tcp (lk_client l3 c))) = []" "tx (tc_tcp con) = []" using con by (simp_all add: idle_def)
    have "joined bc parts c con (lk_client l3 c) (lk_up l3 c) (lk_up_got l3 c) (lk_down l3 c) (lk_down_got l3 c)"
      by (rule link_okD(1) [OF ok3 con])
    then have ch: "channel bc parts (tcp_max_msg_size con) c (lk_up l3 c) (lk_up_got l3 c) (rx (tc_tcp con))"
      "channel bc parts (tcp_max_msg_size con) 0 (lk_down l3 c) (lk_down_got l3 c) (rx (tc_tcp (cl_tcp (lk_client l3 c))))"
      using tx by (simp_all add: joined_def)
    have "length (rx (tc_tcp con)) < 4" "length (rx (tc_tcp (cl_tcp (lk_client l3 c)))) < 4"
      using l2(4) l3(3,5) con c cs by simp_all
    from channel_drained [OF ch(1) this(1) T] channel_drained [OF ch(2) this(2) T] same show ?thesis by (simp add: same_sent_def)
  qed
  moreover have "\<not> lk_panicked l3" using ok3 by (simp add: link_ok_def)
  ultimately show ?thesis using net steps same l3_def l2_def by blast
qed

section \<open>What has been read\<close>

lemma channel_fifo:
  assumes "channel bc parts n src sent got (a @ b)"
  shows "\<exists>old ms. sent = old @ ms \<and> (\<forall>T \<in> types_over TCP parts. got T =
        map (\<lambda>m. \<lparr>nm_cid = src, nm_time = None, nm_m = any_val m\<rparr>) (filter (\<lambda>m. any_tid m = T) old)) \<and>
      (a = [] \<and> b = [] \<longrightarrow> ms = [])"
proof -
  obtain old ms where ch: "sent = old @ ms" "under_way bc parts n ms (a @ b)" "\<forall>T \<in> types_over TCP parts. got T =
      map (\<lambda>m. \<lparr>nm_cid = src, nm_time = None, nm_m = any_val m\<rparr>) (filter (\<lambda>m. any_tid m = T) old)"
    using assms unfolding channel_def by blast
  have "ms = []" if "a = [] \<and> b = []" using ch(2) that under_way_none [of bc parts n ms] by simp
  then have none: "a = [] \<and> b = [] \<longrightarrow> ms = []" ..
  show ?thesis by (rule exI [of _ old], rule exI [of _ ms]) (rule conjI [OF ch(1) conjI [OF ch(3) none]])
qed

lemma link_fifo:
  assumes "link_ok bc parts oc l" "sv_tcp (lk_server l) c = Some con"
  shows "\<not> lk_panicked l \<and>
    (\<exists>old ms. lk_up l c = old @ ms \<and>
      (\<forall>T \<in> types_over TCP parts. lk_up_got l c T =
        map (\<lambda>m. \<lparr>nm_cid = c, nm_time = None, nm_m = any_val m\<rparr>) (filter (\<lambda>m. any_tid m = T) old)) \<and>
      (rx (tc_tcp con) = [] \<and> tx (tc_tcp (cl_tcp (lk_client l c))) = [] \<longrightarrow> ms = [])) \<and>
    (\<exists>old ms. lk_down l c = old @ ms \<and>
      (\<forall>T \<in> types_over TCP parts. lk_down_got l c T =
        map (\<lambda>m. \<lparr>nm_cid = 0, nm_time = None, nm_m = any_val m\<rparr>) (filter (\<lambda>m. any_tid m = T) old)) \<and>
      (rx (tc_tcp (cl_tcp (lk_client l c))) = [] \<and> tx (tc_tcp con) = [] \<longrightarrow> ms = [])) \<and>
    (\<forall>T \<in> types_over UDP parts.
      (\<forall>x \<in> set (lk_up_got l c T). \<exists>now m. (now, m) \<in> set (lk_up_udp l c) \<and> any_tid m = T \<and>
        x = \<lparr>nm_cid = c, nm_time = Some (stamp now), nm_m = any_val m\<rparr>) \<and>
      (\<forall>x \<in> set (lk_down_got l c T). \<exists>now m. (now, m) \<in> set (lk_down_udp l c) \<and> any_tid m = T \<and>
        x = \<lparr>nm_cid = 0, nm_time = Some (stamp now), nm_m = any_val m\<rparr>))"
proof -
  note d = link_okD [OF assms]
  from d(1) have ch: "channel bc parts (tcp_max_msg_size con) c (lk_up l c) (lk_up_got l c)
      (rx (tc_tcp con) @ tx (tc_tcp (cl_tcp (lk_client l c))))"
    "channel bc parts (tcp_max_msg_size con) 0 (lk_down l c) (lk_down_got l c)
      (rx (tc_tcp (cl_tcp (lk_client l c))) @ tx (tc_tcp con))" by (simp_all add: joined_def)
  have "\<not> lk_panicked l" using assms(1) by (simp add: link_ok_def)
  moreover have "\<forall>T \<in> types_over UDP parts.
      (\<forall>x \<in> set (lk_up_got l c T). \<exists>now m. (now, m) \<in> set (lk_up_udp l c) \<and> any_tid m = T \<and>
        x = \<lparr>nm_cid = c, nm_time = Some (stamp now), nm_m = any_val m\<rparr>) \<and>
      (\<forall>x \<in> set (lk_down_got l c T). \<exists>now m. (now, m) \<in> set (lk_down_udp l c) \<and> any_tid m = T \<and>
        x = \<lparr>nm_cid = 0, nm_time = Some (stamp now), nm_m = any_val m\<rparr>)"
    using d(3,4) unfolding udp_read_def by blast
  ultimately show ?thesis using channel_fifo [OF ch(1)] channel_fifo [OF ch(2)] by (intro conjI)
qed

end
