(* ===== verification/Handshake.thy ===== *)
theory Handshake
  imports Link
begin

text \<open>
  The connection handshake from end to end: \<open>Client::new_blocking\<close> at one end,
  \<open>Server::handle_new_con\<close> at the other, and a network that brings the bytes the client wrote
  to the listener and the bytes the server wrote back to the waiting client.
\<close>

section \<open>The network between a connecting client and its server\<close>

text \<open>\<open>arrives t at bytes\<close>: the stream \<open>t\<close>, holding \<open>bytes\<close>, is the next to be accepted.\<close>

definition arrives :: "tcp_stream \<Rightarrow> nat \<Rightarrow> byte list \<Rightarrow> 'v server \<Rightarrow> 'v server" where
  "arrives t at bytes sv = sv\<lparr>sv_listener :=
     (sv_listener sv)\<lparr>backlog := backlog (sv_listener sv) @ [Incoming (t\<lparr>rx := bytes\<rparr>) at]\<rparr>\<rparr>"

definition answered :: "cid \<Rightarrow> 'v server \<Rightarrow> byte list" where
  "answered cid sv = (case sv_tcp sv cid of None \<Rightarrow> [] | Some con \<Rightarrow> tx (tc_tcp con))"

text \<open>
  The server's turn as a function of the bytes that arrived, and a network that, while the client
  waits, takes what it wrote to the server and brings the server's answer back.
\<close>

definition network :: "(byte list \<Rightarrow> 'v server) \<Rightarrow> cid \<Rightarrow> os \<Rightarrow> bool" where
  "network serve cid sys \<longleftrightarrow>
     (\<forall>s. os_await sys s = s\<lparr>rx := answered cid (serve (tx s)), tx := [], tx_room := tx_room s + length (tx s)\<rparr>)"

definition fresh_stream :: "tcp_stream \<Rightarrow> bool" where
  "fresh_stream s \<longleftrightarrow> rx s = [] \<and> rx_state s = RxOpen \<and> tx s = [] \<and> tx_fault s = None \<and>
     \<not> is_nonblocking s \<and> \<not> is_shut s \<and> peer_name s \<noteq> None \<and> local_name s \<noteq> None"

text \<open>A message and the frame it travels in, and a server that expects its next client.\<close>

definition travels :: "'v bincode \<Rightarrow> 'v parts \<Rightarrow> net_config \<Rightarrow> 'v any \<Rightarrow> mid \<Rightarrow> byte list \<Rightarrow> bool" where
  "travels bc parts config m mid b \<longleftrightarrow> carried bc parts m \<and> encodes bc parts m (mid, b) \<and>
     length b < 65536 \<and> length b \<le> cfg_max_msg_size config"

definition expecting :: "'v server \<Rightarrow> cid \<Rightarrow> bool" where
  "expecting sv cid \<longleftrightarrow> sv_new_cons sv = [] \<and> backlog (sv_listener sv) = [] \<and>
     0 < cfg_max_con_handle (sv_config sv) \<and> unat (sv_current_cid sv) + 1 < 4294967296 \<and>
     cid = sv_current_cid sv + 1"

section \<open>The server's side\<close>

lemma start_incoming_one:
  assumes "expecting sv cid"
  shows "server_start_incoming oc (arrives t at bytes sv) =
    (Ok (), sv\<lparr>sv_current_cid := cid,
       sv_new_cons := [(tcp_from_stream (t\<lparr>rx := bytes, is_nonblocking := True\<rparr>)
         (cfg_max_msg_size (sv_config sv)), cid, at)]\<rparr>)"
proof -
  note exp = assms [unfolded expecting_def]
  then obtain m where m: "cfg_max_con_handle (sv_config sv) = Suc m"
    using gr0_implies_Suc by blast
  have "add_u32 oc (sv_current_cid sv) 1 = Ok (sv_current_cid sv + 1)"
    using exp by (simp add: add_u32_def)
  then show ?thesis
    using exp m
    by (subst server_start_incoming.simps)
      (simp add: arrives_def listener_accept_def stream_set_nonblocking_def server_new_cid_def Let_def,
        subst server_start_incoming.simps, simp add: listener_accept_def)
qed

text \<open>
  The one call of \<open>handle_new_con\<close>: the hook is asked, and a client that is accepted gets a connection
  with the answer in its send buffer and nothing else. \<open>answering n m bs con\<close>: what \<open>con\<close> holds are the
  bytes \<open>bs\<close> to be sent, and when they are gone a message of \<open>n\<close> bytes can be, up to \<open>m\<close> bytes of frame.
\<close>

definition welcomed :: "cid \<Rightarrow> sock_addr \<Rightarrow> tcp_con \<Rightarrow> 'v server \<Rightarrow> 'v server" where
  "welcomed cid addr con sv = sv\<lparr>sv_current_cid := cid, sv_new_cons := [], sv_tcp := (sv_tcp sv)(cid \<mapsto> con),
     sv_addr_cid := (sv_addr_cid sv)(addr \<mapsto> cid), sv_cid_addr := (sv_cid_addr sv)(cid \<mapsto> addr)\<rparr>"

definition turned_away :: "cid \<Rightarrow> 'v server \<Rightarrow> 'v server" where
  "turned_away cid sv = sv\<lparr>sv_current_cid := cid, sv_new_cons := []\<rparr>"

definition answering :: "nat \<Rightarrow> nat \<Rightarrow> byte list \<Rightarrow> tcp_con \<Rightarrow> bool" where
  "answering n m bs con \<longleftrightarrow> length (tc_buff con) = n + 4 \<and> rx (tc_tcp con) = [] \<and>
     rx_state (tc_tcp con) = RxOpen \<and> tx (tc_tcp con) = bs \<and> m \<le> tx_room (tc_tcp con) + length bs \<and>
     \<not> is_shut (tc_tcp con) \<and> tx_fault (tc_tcp con) = None"

lemma answeringD:
  assumes "answering n m bs con"
  shows "wf_con con" "tcp_max_msg_size con = n" "rx (tc_tcp con) = []" "rx_state (tc_tcp con) = RxOpen" "tx (tc_tcp con) = bs"
    and "bs = [] \<Longrightarrow> k \<le> n \<Longrightarrow> k + 4 \<le> m \<Longrightarrow> writable con k"
  using assms by (auto simp: answering_def wf_con_def tcp_max_msg_size_def writable_def tcp_buff_size_def)

lemma server_turn:
  assumes "wf_parts (sv_parts sv)" "codec_of bc (sv_parts sv)" "expecting sv cid"
    and "travels bc (sv_parts sv) (sv_config sv) (AnyBox C c) CONNECTION_TYPE_MID cb"
    and "travels bc (sv_parts sv) (sv_config sv) (AnyBox R r) RESPONSE_TYPE_MID rb"
    and "fresh_stream t" "peer_name t = Some addr" "length rb + 4 \<le> tx_room t"
    and "clk 0 - at \<le> cfg_timeout (sv_config sv)" "hook cid c h = ((acc, r), h')"
  shows "\<exists>con. answering (cfg_max_msg_size (sv_config sv)) (tx_room t) (frame RESPONSE_TYPE_MID rb) con \<and>
    server_handle_new_con oc now clk C R hook h (arrives t at (frame CONNECTION_TYPE_MID cb) sv) =
      (Ok True, h', if acc then welcomed cid addr con sv else turned_away cid sv)"
proof -
  let ?n = "cfg_max_msg_size (sv_config sv)"
  let ?con = "tcp_from_stream (t\<lparr>rx := frame CONNECTION_TYPE_MID cb, is_nonblocking := True\<rparr>) ?n"
  let ?d = "deser (sv_parts sv) ! CONNECTION_TYPE_MID"
  have d: "bc_deserialize bc C cb = Inr c" "tid_map (sv_parts sv) C = Some CONNECTION_TYPE_MID"
      "bc_serialize bc R r = Inr rb" "tid_map (sv_parts sv) R = Some RESPONSE_TYPE_MID"
      "transports (sv_parts sv) ! RESPONSE_TYPE_MID = TCP"
    using assms(4,5) by (auto simp: travels_def carried_def encodes_def)
  then have c: "?d cb = Ok (AnyBox C c)" using assms(2) by (simp add: codec_of_def deser_closure_def)
  have "CONNECTION_TYPE_MID < length (deser (sv_parts sv))" using assms(1) d(2) by (auto simp: wf_parts_def)
  then have i: "index (deser (sv_parts sv)) CONNECTION_TYPE_MID = Ok ?d" by (simp add: index_def)
  have "wf_con ?con" "rx (tc_tcp ?con) = frame CONNECTION_TYPE_MID cb @ []"
      "fits (tcp_max_msg_size ?con) (CONNECTION_TYPE_MID, cb)" "length (tc_buff ?con) = ?n + 4"
    using assms(4) by (simp_all add: travels_def fits_def mid_defs) (simp add: tcp_from_stream_def)
  then obtain buff where b: "length buff = ?n + 4" "tcp_con_recv ?con =
      (Ok (CONNECTION_TYPE_MID, cb), ?con\<lparr>tc_buff := buff, tc_tcp := (tc_tcp ?con)\<lparr>rx := []\<rparr>\<rparr>)"
    using recv_frame by metis
  let ?con1 = "?con\<lparr>tc_buff := buff, tc_tcp := (tc_tcp ?con)\<lparr>rx := []\<rparr>\<rparr>"
  have h: "handle_con_helper ?d C (cfg_timeout (sv_config sv)) (clk 0 - at) ?con = (Ok c, ?con1)"
    using b(2) c assms(9) by (simp add: handle_con_helper_def downcast_def)
  have "writable ?con1 (length rb)"
    using assms(5,6,8) b(1) by (simp add: travels_def writable_def fresh_stream_def tcp_buff_size_def tcp_from_stream_def)
  then obtain con where con: "tcp_con_send RESPONSE_TYPE_MID rb ?con1 = (Ok (), con)"
    using writable_send by blast
  have "answering ?n (tx_room t) (frame RESPONSE_TYPE_MID rb) con"
    using con b(1) assms(6) by (auto simp: tcp_con_send_Ok answering_def fresh_stream_def tcp_from_stream_def)
  moreover have "server_handle_new_con oc now clk C R hook h (arrives t at (frame CONNECTION_TYPE_MID cb) sv) =
      (Ok True, h', if acc then welcomed cid addr con sv else turned_away cid sv)"
  proof (cases acc)
    case True
    let ?sv1 = "sv\<lparr>sv_current_cid := cid, sv_new_cons := [], sv_tcp := (sv_tcp sv)(cid \<mapsto> ?con1),
      sv_addr_cid := (sv_addr_cid sv)(addr \<mapsto> cid), sv_cid_addr := (sv_cid_addr sv)(cid \<mapsto> addr)\<rparr>"
    have "server_send_to now cid (AnyBox R r) ?sv1 = (Ok (), welcomed cid addr con sv)"
      using server_send_to_tcp [of ?sv1 bc R RESPONSE_TYPE_MID cid ?con1 now r] assms(1,2) d(3-5) con
      by (simp add: welcomed_def)
    then have "server_accept_incoming now cid ?con1 (AnyBox R r) (sv\<lparr>sv_current_cid := cid, sv_new_cons := []\<rparr>) =
        (Ok (), welcomed cid addr con sv)"
      using assms(7) by (simp add: server_accept_incoming_def server_add_tcp_con_cid_def tcp_con_peer_addr_def name_res_def)
    then show ?thesis
      using start_incoming_one [OF assms(3), of oc t at "frame CONNECTION_TYPE_MID cb"] i h assms(10) True
      by (simp add: server_handle_new_con_def server_settle_def vec_remove_def Let_def)
  next
    case False
    have "fst (server_reject_incoming ?con1 (AnyBox R r) (sv\<lparr>sv_current_cid := cid, sv_new_cons := []\<rparr>)) = Ok ()"
      using assms(1,2,7) d(4) by (intro reject_incoming_ok) simp_all
    then show ?thesis
      using start_incoming_one [OF assms(3), of oc t at "frame CONNECTION_TYPE_MID cb"] i h assms(10) False
      by (simp add: server_handle_new_con_def server_settle_def vec_remove_def Let_def turned_away_def)
  qed
  ultimately show ?thesis by blast
qed

lemma welcomed_answers:
  "answering n m bs con \<Longrightarrow> answered cid (welcomed cid addr con sv) = bs"
  "server_alive (welcomed cid addr con sv) cid"
  by (simp_all add: answering_def answered_def welcomed_def server_alive_def)

section \<open>The client's side\<close>

lemma client_send_writable:
  assumes "wf_parts (cl_parts cl)" "codec_of bc (cl_parts cl)"
    and "carried bc (cl_parts cl) (AnyBox T v)" "encodes bc (cl_parts cl) (AnyBox T v) (mid, b)"
    and "writable (cl_tcp cl) (length b)"
  shows "\<exists>t. client_send now (AnyBox T v) cl = (Ok (), cl\<lparr>cl_tcp := t\<rparr>) \<and> tcp_con_send mid b (cl_tcp cl) = (Ok (), t)"
proof -
  have mid: "tid_map (cl_parts cl) T = Some mid" "transports (cl_parts cl) ! mid = TCP"
      "bc_serialize bc T v = Inr b"
    using assms(3,4) by (auto simp: carried_def encodes_def)
  obtain t where t: "tcp_con_send mid b (cl_tcp cl) = (Ok (), t)" using writable_send [OF assms(5)] by blast
  then have "client_send now (AnyBox T v) cl = (Ok (), cl\<lparr>cl_tcp := t\<rparr>)"
    using lookup_codec [OF assms(1,2) mid(1,2), of map_ser_error v] mid
    by (simp add: client_send_def valid_tid_def domI Let_def client_send_tcp_def)
  with t show ?thesis by blast
qed

lemma client_hello:
  assumes "wf_parts (cl_parts cl)" "codec_of bc (cl_parts cl)"
    and "carried bc (cl_parts cl) (AnyBox T v)" "encodes bc (cl_parts cl) (AnyBox T v) (mid, b)"
    and "cl_tcp cl = tcp_from_stream s n" "fresh_stream s" "length b \<le> n"
  shows "\<exists>t. client_send now (AnyBox T v) cl = (Ok (), cl\<lparr>cl_tcp := t\<rparr>) \<and> answering n (tx_room s) (frame mid b) t"
proof -
  have "writable (cl_tcp cl) (length b)"
    using assms(5-7) by (simp add: writable_def fresh_stream_def tcp_buff_size_def tcp_from_stream_def)
  from client_send_writable [OF assms(1-4) this] obtain t where t: "client_send now (AnyBox T v) cl = (Ok (), cl\<lparr>cl_tcp := t\<rparr>)"
      "tcp_con_send mid b (cl_tcp cl) = (Ok (), t)" by blast
  have "answering n (tx_room s) (frame mid b) t"
    using t(2) assms(5,6) by (auto simp: tcp_con_send_Ok answering_def fresh_stream_def tcp_from_stream_def)
  with t(1) show ?thesis by blast
qed

lemma client_hears:
  assumes "wf_parts (cl_parts cl)" "codec_of bc (cl_parts cl)"
    and "carried bc (cl_parts cl) (AnyBox T v)" "encodes bc (cl_parts cl) (AnyBox T v) (mid, b)"
    and "cl_tcp cl = t\<lparr>tc_tcp := (tc_tcp t)\<lparr>rx := frame mid b, tx := [], tx_room := tx_room (tc_tcp t) + length bs\<rparr>\<rparr>" "answering n m bs t"
    and "mid < 65536" "length b < 65536" "length b \<le> n"
  shows "\<exists>t'. client_recv_tcp cl = (Ok (mid, \<lparr>em_cid = 0, em_time = None, em_msg = AnyBox T v\<rparr>), cl\<lparr>cl_tcp := t'\<rparr>) \<and>
    answering n m [] t'"
proof -
  have "wf_con (cl_tcp cl)" "rx (tc_tcp (cl_tcp cl)) = frame mid b @ []" "fits (tcp_max_msg_size (cl_tcp cl)) (mid, b)"
    using assms(5,7-9) answeringD(1,2) [OF assms(6)] by (simp_all add: wf_con_def tcp_max_msg_size_def fits_def)
  from recv_frame [OF this] obtain buff where
    r: "length buff = length (tc_buff (cl_tcp cl))" "tcp_con_recv (cl_tcp cl) =
      (Ok (mid, b), (cl_tcp cl)\<lparr>tc_buff := buff, tc_tcp := (tc_tcp (cl_tcp cl))\<lparr>rx := []\<rparr>\<rparr>)" by blast
  moreover have "decode_msg (cl_parts cl) 0 None mid b = Ok (mid, \<lparr>em_cid = 0, em_time = None, em_msg = AnyBox T v\<rparr>)"
    using encodes_decoded [OF assms(1,2) _ assms(4), of 0] assms(3,4) by (simp add: carried_def decoded_def received_def encodes_def)
  moreover have "answering n m [] ((cl_tcp cl)\<lparr>tc_buff := buff, tc_tcp := (tc_tcp (cl_tcp cl))\<lparr>rx := []\<rparr>\<rparr>)"
    using r(1) assms(5,6) by (simp add: answering_def)
  ultimately show ?thesis
    by (intro exI [of _ "(cl_tcp cl)\<lparr>tc_buff := buff, tc_tcp := (tc_tcp (cl_tcp cl))\<lparr>rx := []\<rparr>\<rparr>"])
      (simp add: client_recv_tcp_def)
qed

text \<open>A client whose connection is made: nothing waits on its stream.\<close>

definition settled_client :: "'v parts \<Rightarrow> nat \<Rightarrow> nat \<Rightarrow> 'v client \<Rightarrow> bool" where
  "settled_client parts n m cl \<longleftrightarrow> wf_client cl \<and> cl_status cl = Connected \<and> cl_parts cl = parts \<and> answering n m [] (cl_tcp cl)"

lemma client_made:
  assumes "wf_parts parts" "codec_of bc parts"
    and "travels bc parts config (AnyBox C c) CONNECTION_TYPE_MID cb"
    and "travels bc parts config (AnyBox R r) RESPONSE_TYPE_MID rb"
    and "os_connect sys peer = Ok s" "fresh_stream s" "local_name s = Some l" "peer_name s = Some p"
    and "udp_con_new sys l (Some p) (cfg_max_msg_size config) = Ok udp" "cfg_timeout config \<noteq> 0"
    and "network serve cid sys" "answered cid (serve (frame CONNECTION_TYPE_MID cb)) = frame RESPONSE_TYPE_MID rb"
  shows "\<exists>cl. client_new_blocking sys now' peer parts config (AnyBox C c) = Ok (cl, AnyBox R r) \<and>
    settled_client parts (cfg_max_msg_size config) (tx_room s) cl \<and> urx (uc_udp (cl_udp cl)) = urx (uc_udp udp)"
proof -
  let ?n = "cfg_max_msg_size config"
  let ?cl = "\<lparr>cl_config = config, cl_status = Connected, cl_msg_buff = replicate (mid_count parts) [],
      cl_tcp = tcp_from_stream s ?n, cl_udp = udp, cl_parts = parts\<rparr>"
  obtain t where t: "client_send now' (AnyBox C c) ?cl = (Ok (), ?cl\<lparr>cl_tcp := t\<rparr>)"
      "answering ?n (tx_room s) (frame CONNECTION_TYPE_MID cb) t"
    using client_hello [of ?cl bc C c CONNECTION_TYPE_MID cb s ?n now'] assms(1-3,6) by (auto simp: travels_def)
  let ?cl2 = "client_await sys (?cl\<lparr>cl_tcp := t\<rparr>)"
  have "cl_tcp ?cl2 = t\<lparr>tc_tcp := (tc_tcp t)\<lparr>rx := frame RESPONSE_TYPE_MID rb, tx := [],
      tx_room := tx_room (tc_tcp t) + length (frame CONNECTION_TYPE_MID cb)\<rparr>\<rparr>"
    using t(2) assms(11,12) by (simp add: client_await_def network_def answering_def)
  from client_hears [OF _ _ _ _ this t(2), of bc R r] obtain t' where t':
    "client_recv_tcp ?cl2 = (Ok (RESPONSE_TYPE_MID, \<lparr>em_cid = 0, em_time = None, em_msg = AnyBox R r\<rparr>), ?cl2\<lparr>cl_tcp := t'\<rparr>)"
    "answering ?n (tx_room s) [] t'"
    using assms(1,2,4) by (auto simp: client_await_def travels_def mid_defs)
  from client_new_blocking_Ok [OF assms(5,10,7-9) t(1) t'(1)] obtain cl where
    cl: "client_new_blocking sys now' peer parts config (AnyBox C c) = Ok (cl, AnyBox R r)"
      "cl = (?cl2\<lparr>cl_tcp := t'\<rparr>)\<lparr>cl_tcp := t'\<lparr>tc_tcp := (tc_tcp t')\<lparr>is_nonblocking := True\<rparr>\<rparr>,
         cl_udp := udp\<lparr>uc_udp := (uc_udp udp)\<lparr>u_nonblocking := True\<rparr>\<rparr>\<rparr>" by (auto simp: client_await_def)
  have "tid_map parts R = Some RESPONSE_TYPE_MID" using assms(4) by (simp add: travels_def encodes_def)
  from new_blocking_result [OF cl(1) assms(1,2) this] have "wf_client cl \<and> cl_status cl = Connected \<and> cl_parts cl = parts"
    by simp
  then show ?thesis using cl t'(2) by (auto simp: settled_client_def answering_def)
qed

section \<open>Connecting\<close>

lemma handshake_both_ends:
  assumes "wf_parts parts" "codec_of bc parts" "sv_parts sv = parts" "sv_config sv = config"
    and "travels bc parts config (AnyBox C c) CONNECTION_TYPE_MID cb"
    and "travels bc parts config (AnyBox R r) RESPONSE_TYPE_MID rb"
    and "os_connect sys peer = Ok s" "fresh_stream s" "local_name s = Some l" "peer_name s = Some p"
    and "udp_con_new sys l (Some p) (cfg_max_msg_size config) = Ok udp" "cfg_timeout config \<noteq> 0"
    and "expecting sv cid" "fresh_stream t" "peer_name t = Some addr" "length rb + 4 \<le> tx_room t"
    and "clk 0 - at \<le> cfg_timeout config" "hook cid c h = ((True, r), h')"
    and "network (\<lambda>bytes. snd (snd (server_handle_new_con oc now clk C R hook h (arrives t at bytes sv)))) cid sys"
  shows "\<exists>con cl. client_new_blocking sys now' peer parts config (AnyBox C c) = Ok (cl, AnyBox R r) \<and>
    settled_client parts (cfg_max_msg_size config) (tx_room s) cl \<and> urx (uc_udp (cl_udp cl)) = urx (uc_udp udp) \<and>
    answering (cfg_max_msg_size config) (tx_room t) (frame RESPONSE_TYPE_MID rb) con \<and>
    server_handle_new_con oc now clk C R hook h (arrives t at (frame CONNECTION_TYPE_MID cb) sv) =
      (Ok True, h', welcomed cid addr con sv)"
proof -
  obtain con where con: "answering (cfg_max_msg_size config) (tx_room t) (frame RESPONSE_TYPE_MID rb) con"
    "server_handle_new_con oc now clk C R hook h (arrives t at (frame CONNECTION_TYPE_MID cb) sv) =
      (Ok True, h', welcomed cid addr con sv)"
    using server_turn [of sv bc cid C c cb R r rb t addr clk at hook h True h' oc now] assms(1-6,13-18) by auto
  have "answered cid (snd (snd (server_handle_new_con oc now clk C R hook h (arrives t at (frame CONNECTION_TYPE_MID cb) sv)))) =
      frame RESPONSE_TYPE_MID rb"
    using con(2) welcomed_answers(1) [OF con(1)] by simp
  from client_made [OF assms(1,2,5,6,7-12,19) this] con show ?thesis by blast
qed

text \<open>
  C5: A connection that the hook accepts is made. The client's \<open>new_blocking\<close>, over a network
  that takes its bytes to the server and the server's bytes back, returns a connected client and
  the hook's response; the one call of \<open>handle_new_con\<close> it triggers sees the client's connection
  message, calls the hook with it, and makes the client live under the id it was given.
\<close>

theorem handshake_completes:
  assumes "wf_parts parts" "codec_of bc parts" "sv_parts sv = parts" "sv_config sv = config"
    and "travels bc parts config (AnyBox C c) CONNECTION_TYPE_MID cb"
    and "travels bc parts config (AnyBox R r) RESPONSE_TYPE_MID rb"
    and "os_connect sys peer = Ok s" "fresh_stream s" "local_name s = Some l" "peer_name s = Some p"
    and "udp_con_new sys l (Some p) (cfg_max_msg_size config) = Ok udp" "cfg_timeout config \<noteq> 0"
    and "expecting sv cid" "fresh_stream t" "peer_name t = Some addr" "length rb + 4 \<le> tx_room t"
    and "clk 0 - at \<le> cfg_timeout config" "hook cid c h = ((True, r), h')"
    and "network (\<lambda>bytes. snd (snd (server_handle_new_con oc now clk C R hook h (arrives t at bytes sv)))) cid sys"
  shows "(\<exists>cl. client_new_blocking sys now' peer parts config (AnyBox C c) = Ok (cl, AnyBox R r) \<and>
      client_open cl \<and> wf_client cl) \<and>
    (\<exists>sv'. server_handle_new_con oc now clk C R hook h (arrives t at (frame CONNECTION_TYPE_MID cb) sv) =
      (Ok True, h', sv') \<and> server_alive sv' cid)"
  using handshake_both_ends [OF assms, of now'] welcomed_answers(2)
  by (fastforce simp: settled_client_def client_open_def client_get_status_def)

text \<open>A server that has just been made, and a network for its first client.\<close>

definition demo_hook :: "(nat, nat) con_hook" where
  "demo_hook cid v h = ((True, 6), h)"

definition demo_arriving :: tcp_stream where
  "demo_arriving = demo_stream\<lparr>is_nonblocking := False\<rparr>"

abbreviation demo_serve :: "nat server \<Rightarrow> byte list \<Rightarrow> nat server" where
  "demo_serve sv \<equiv> (\<lambda>bytes. snd (snd (server_handle_new_con True 0 (\<lambda>i. 0) 10 11 demo_hook 0 (arrives demo_arriving 0 bytes sv))))"

definition demo_net :: "nat server \<Rightarrow> os" where
  "demo_net sv = demo_os\<lparr>os_await := (\<lambda>s. s\<lparr>rx := answered 1 (demo_serve sv (tx s)), tx := [],
     tx_room := tx_room s + length (tx s)\<rparr>)\<rparr>"

definition new_server :: "nat server \<Rightarrow> bool" where
  "new_server sv \<longleftrightarrow> server_new demo_srv_os (SockAddr 1 7777) demo_parts config_default = Ok sv"

lemma new_server_ex: "\<exists>sv. new_server sv"
  by (simp add: new_server_def server_new_def demo_srv_os_def name_res_def listener_set_nonblocking_def udp_con_new_def
      socket_set_nonblocking_def)

lemma demo_handshake:
  assumes "new_server sv"
  shows "sv_parts sv = demo_parts" "sv_config sv = config_default" "expecting sv 1" "sv_tcp sv = Map.empty"
    "urx (uc_udp (sv_udp sv)) = []"
    "travels demo_bincode demo_parts config_default (AnyBox 10 5) CONNECTION_TYPE_MID [5]"
    "travels demo_bincode demo_parts config_default (AnyBox 11 6) RESPONSE_TYPE_MID [6]"
    "os_connect (demo_net sv) (SockAddr 1 7777) = Ok demo_arriving" "fresh_stream demo_arriving"
    "local_name demo_arriving = Some (SockAddr 2 40000)" "peer_name demo_arriving = Some (SockAddr 1 7777)"
    "\<exists>udp. udp_con_new (demo_net sv) (SockAddr 2 40000) (Some (SockAddr 1 7777)) (cfg_max_msg_size config_default) = Ok udp \<and>
       urx (uc_udp udp) = []"
    "cfg_timeout config_default \<noteq> 0" "length ([6] :: byte list) + 4 \<le> tx_room demo_arriving"
    "(0 :: nat) - 0 \<le> cfg_timeout config_default" "demo_hook 1 5 0 = ((True, 6), 0)"
    "network (demo_serve sv) 1 (demo_net sv)" "cfg_max_msg_size config_default = 2048" "tx_room demo_arriving = 100"
proof -
  have sv: "sv_current_cid sv = 0" "sv_new_cons sv = []" "sv_config sv = config_default" "sv_parts sv = demo_parts"
      "backlog (sv_listener sv) = []" "sv_tcp sv = Map.empty" "urx (uc_udp (sv_udp sv)) = []"
    using assms by (auto simp: new_server_def server_new_def demo_srv_os_def name_res_def listener_set_nonblocking_def
      udp_con_new_def socket_set_nonblocking_def demo_socket_def)
  then show "sv_parts sv = demo_parts" "sv_config sv = config_default" "sv_tcp sv = Map.empty" "urx (uc_udp (sv_udp sv)) = []"
    "expecting sv 1" by (simp_all add: expecting_def config_default_def)
  show "travels demo_bincode demo_parts config_default (AnyBox 10 5) CONNECTION_TYPE_MID [5]"
      "travels demo_bincode demo_parts config_default (AnyBox 11 6) RESPONSE_TYPE_MID [6]"
    by (simp_all add: travels_def carried_def encodes_def demo_bincode_def mid_defs config_default_def)
  show "network (demo_serve sv) 1 (demo_net sv)" by (simp add: network_def demo_net_def)
qed (simp_all add: demo_net_def demo_os_def demo_arriving_def demo_stream_def fresh_stream_def udp_con_new_def
    socket_set_nonblocking_def config_default_def demo_hook_def demo_socket_def)

theorem handshake_completes_witness:
  "\<exists>sys cl sv'. client_new_blocking sys 0 (SockAddr 1 7777) demo_parts config_default (AnyBox 10 5) =
       Ok (cl, AnyBox 11 6) \<and> client_open cl \<and> server_alive (sv' :: nat server) 1"
proof -
  obtain sv where sv: "new_server sv" using new_server_ex ..
  note d = demo_handshake [OF sv]
  obtain udp where udp: "udp_con_new (demo_net sv) (SockAddr 2 40000) (Some (SockAddr 1 7777)) (cfg_max_msg_size config_default) = Ok udp"
    using d(12) by blast
  show ?thesis
    using handshake_completes [OF demo_parts_wf(1,3) d(1,2,6-11) udp d(13,3,9,11,14,15,16,17), where now' = 0] by blast
qed

end
