(* ===== verification/Joining.thy ===== *)
theory Joining
  imports Delivery Handshake
begin

text \<open>
  Sessions from their start: a server that \<open>Server::new\<close> has made, clients that connect to it at any
  time by the handshake of \<open>Client::new_blocking\<close> and \<open>Server::handle_new_con\<close> or are turned away, and
  those connected sending, receiving and running their frames.
\<close>

section \<open>A client joins a session\<close>

text \<open>The network has brought the new client the answer; nothing has been sent on its connection yet.\<close>

definition joins :: "cid \<Rightarrow> 'v client \<Rightarrow> 'v server \<Rightarrow> 'v link \<Rightarrow> 'v link" where
  "joins cid cl sv l = l\<lparr>
     lk_server := sv\<lparr>sv_tcp := (sv_tcp sv)
       (cid := map_option (\<lambda>con. sends_off (length (tx (tc_tcp con))) con) (sv_tcp sv cid))\<rparr>,
     lk_client := (lk_client l)(cid := cl), lk_up := (lk_up l)(cid := []), lk_down := (lk_down l)(cid := []),
     lk_up_got := (lk_up_got l)(cid := (\<lambda>T. [])), lk_down_got := (lk_down_got l)(cid := (\<lambda>T. [])),
     lk_up_udp := (lk_up_udp l)(cid := []), lk_down_udp := (lk_down_udp l)(cid := [])\<rparr>"

lemma expecting_fresh:
  assumes "wf_server sv" "expecting sv cid"
  shows "0 < cid" "sv_current_cid sv < cid" "cid \<notin> dom (sv_cid_addr sv)" "cid \<notin> dom (sv_tcp sv)"
proof -
  have u: "unat cid = unat (sv_current_cid sv) + 1"
    using assms(2) by (auto simp: expecting_def unat_word_ariths)
  then show less: "sv_current_cid sv < cid" by (simp add: word_less_nat_alt)
  show "0 < cid" using u by (simp add: word_less_nat_alt)
  show "cid \<notin> dom (sv_cid_addr sv)"
    using assms(1) less unfolding wf_server_def ids_ok_def by (meson UnI1 leD)
  then show "cid \<notin> dom (sv_tcp sv)" using assms(1) by (simp add: wf_server_defs)
qed

lemma wf_turned_away:
  assumes "wf_server sv" "expecting sv cid"
  shows "wf_server (turned_away cid sv)"
proof -
  note new = expecting_fresh [OF assms]
  have "c \<le> cid" if "c \<in> dom (sv_cid_addr sv)" for c
    using assms(1) that new(2) unfolding wf_server_def ids_ok_def by (meson UnI1 le_less_trans less_imp_le)
  then show ?thesis using assms(1) by (simp add: wf_server_defs turned_away_def)
qed

lemma wf_welcomed:
  assumes "wf_server sv" "expecting sv cid" "wf_con con"
  shows "wf_server (welcomed cid addr con sv)"
proof -
  note new = expecting_fresh [OF assms(1,2)]
  let ?sv = "turned_away cid sv"
  let ?con = "con\<lparr>tc_tcp := (tc_tcp con)\<lparr>peer_name := Some addr\<rparr>\<rparr>"
  have "fresh_cid ?sv cid" using new by (simp add: fresh_cid_def turned_away_def)
  moreover have "wf_con ?con" using assms(3) by (simp add: wf_con_def)
  moreover have "server_add_tcp_con_cid cid ?con ?sv = (Ok (), welcomed cid addr ?con sv)"
    by (simp add: server_add_tcp_con_cid_def tcp_con_peer_addr_def name_res_def welcomed_def turned_away_def)
  ultimately have "wf_server (welcomed cid addr ?con sv)"
    using wf_add_tcp_con [OF wf_turned_away [OF assms(1,2)]] by blast
  moreover have "socks_only (welcomed cid addr ?con sv)
      ((welcomed cid addr ?con sv)\<lparr>sv_tcp := (sv_tcp (welcomed cid addr ?con sv))(cid \<mapsto> con)\<rparr>)"
    by (rule socks_only_tcp [where con = ?con]) (simp_all add: welcomed_def)
  ultimately have "wf_server ((welcomed cid addr ?con sv)\<lparr>sv_tcp := (sv_tcp (welcomed cid addr ?con sv))(cid \<mapsto> con)\<rparr>)"
    by (metis wf_socks)
  moreover have "(welcomed cid addr ?con sv)\<lparr>sv_tcp := (sv_tcp (welcomed cid addr ?con sv))(cid \<mapsto> con)\<rparr> = welcomed cid addr con sv"
    by (cases sv) (simp add: welcomed_def)
  ultimately show ?thesis by simp
qed

lemma joins_ok:
  assumes "link_ok bc parts oc l" "expecting (lk_server l) cid" "settled_client parts n k cl" "urx (uc_udp (cl_udp cl)) = []"
    and "answering n m bs con" "n < 65536" "sv_addr_cid (lk_server l) addr = None"
  shows "link_ok bc parts oc (joins cid cl (welcomed cid addr con (lk_server l)) l)"
proof -
  let ?con = "sends_off (length (tx (tc_tcp con))) con" and ?l = "joins cid cl (welcomed cid addr con (lk_server l)) l"
  have ok: "wf_server (lk_server l)" "sv_parts (lk_server l) = parts" "\<not> lk_panicked l"
      "waits_up oc parts (lk_server l) (lk_up_udp l)" using assms(1) by (simp_all add: link_ok_def)
  note con = answeringD(1-5) [OF assms(5)] and new = expecting_fresh(3) [OF ok(1) assms(2)]
  have server: "lk_server ?l = welcomed cid addr ?con (lk_server l)" by (simp add: joins_def welcomed_def)
  have cl: "wf_client cl" "cl_status cl = Connected" "cl_parts cl = parts" "answering n k [] (cl_tcp cl)"
    using assms(3) by (simp_all add: settled_client_def)
  note clt = answeringD(1-5) [OF cl(4)]
  have "wf_server (lk_server ?l)" unfolding server by (rule wf_welcomed [OF ok(1) assms(2)]) (simp add: con)
  moreover have "channel bc parts n c [] (\<lambda>T. []) []" for c by (simp add: channel_def)
  then have "joined bc parts cid ?con cl [] (\<lambda>T. []) [] (\<lambda>T. [])"
    using con clt cl(1-3) assms(6) by (simp add: joined_def)
  moreover have "waits_down oc parts cl []" by (rule nothing_waits) (use cl(1) assms(4) in \<open>simp_all add: wf_client_def\<close>)
  moreover have "udp_read parts c [] (\<lambda>T. [])" for c by (simp add: udp_read_def)
  moreover note link_okD [OF assms(1)]
  moreover have "set (lk_up_udp l c) \<subseteq> set (lk_up_udp ?l c)" if "server_alive (lk_server l) c" for c
    using that new by (auto simp: server_alive_def joins_def)
  then have "waits_up oc parts (lk_server ?l) (lk_up_udp ?l)"
    unfolding server by (rule waits_up_mono [OF ok(4)]) (use assms(7) in \<open>auto simp: welcomed_def map_le_def\<close>)
  moreover have "sv_parts (lk_server ?l) = parts" "\<not> lk_panicked ?l"
    using ok(2,3) by (simp_all add: server) (simp_all add: welcomed_def joins_def)
  moreover have "sv_tcp (lk_server ?l) = (sv_tcp (lk_server l))(cid \<mapsto> ?con)" by (simp add: server) (simp add: welcomed_def)
  ultimately show ?thesis by (auto simp: link_ok_def) (auto simp: joins_def)
qed

lemma turned_away_ok:
  assumes "link_ok bc parts oc l" "expecting (lk_server l) cid"
  shows "link_ok bc parts oc (l\<lparr>lk_server := turned_away cid (lk_server l)\<rparr>)"
proof -
  have ok: "wf_server (lk_server l)" "waits_up oc parts (lk_server l) (lk_up_udp l)" using assms(1) by (simp_all add: link_ok_def)
  have "waits_up oc parts (turned_away cid (lk_server l)) (lk_up_udp l)"
    by (rule waits_up_same [OF ok(2)]) (simp_all add: turned_away_def)
  then show ?thesis
    using assms(1) wf_turned_away [OF ok(1) assms(2)] by (simp add: link_ok_def) (simp add: turned_away_def)
qed

section \<open>Sessions from their start\<close>

text \<open>
  A server with no clients; and a step of a session: one of \<open>link_step\<close>, or a client that connects,
  over a network that carries the two messages of the handshake, from an address that no client has,
  and is accepted or turned away by the hook. The client has the tables and the configuration of the
  server. (\<open>reconnect_breaks_mirror\<close> shows what a second client at the same address does.)
\<close>

definition opened :: "'v server \<Rightarrow> (cid \<Rightarrow> 'v client) \<Rightarrow> 'v link" where
  "opened sv cls = \<lparr>lk_server = sv, lk_client = cls, lk_up = (\<lambda>c. []), lk_up_got = (\<lambda>c T. []),
     lk_down = (\<lambda>c. []), lk_down_got = (\<lambda>c T. []), lk_up_udp = (\<lambda>c. []), lk_down_udp = (\<lambda>c. []), lk_panicked = False\<rparr>"

inductive session_step ::
    "'v bincode \<Rightarrow> 'v parts \<Rightarrow> ((cid \<rightharpoonup> sock_addr) \<Rightarrow> cid list) \<Rightarrow> bool \<Rightarrow> 'v link \<Rightarrow> 'v link \<Rightarrow> bool"
  for bc parts ko oc where
  runs: "link_step bc parts ko oc l l' \<Longrightarrow> session_step bc parts ko oc l l'"
| connects: "config = sv_config (lk_server l) \<Longrightarrow> cfg_max_msg_size config < 65536 \<Longrightarrow> cfg_timeout config \<noteq> 0 \<Longrightarrow>
    travels bc parts config (AnyBox C v) CONNECTION_TYPE_MID cb \<Longrightarrow>
    travels bc parts config (AnyBox R r) RESPONSE_TYPE_MID rb \<Longrightarrow>
    os_connect sys peer = Ok s \<Longrightarrow> fresh_stream s \<Longrightarrow> local_name s = Some la \<Longrightarrow> peer_name s = Some pa \<Longrightarrow>
    udp_con_new sys la (Some pa) (cfg_max_msg_size config) = Ok udp \<Longrightarrow> urx (uc_udp udp) = [] \<Longrightarrow>
    expecting (lk_server l) cid \<Longrightarrow> sv_addr_cid (lk_server l) addr = None \<Longrightarrow>
    fresh_stream t \<Longrightarrow> peer_name t = Some addr \<Longrightarrow> length rb + 4 \<le> tx_room t \<Longrightarrow>
    clk 0 - at \<le> cfg_timeout config \<Longrightarrow> hook cid v (h :: nat) = ((True, r), h') \<Longrightarrow>
    network (\<lambda>bytes. snd (snd (server_handle_new_con oc now clk C R hook h (arrives t at bytes (lk_server l))))) cid sys \<Longrightarrow>
    client_new_blocking sys now' peer parts config (AnyBox C v) = Ok (cl, resp) \<Longrightarrow>
    server_handle_new_con oc now clk C R hook h (arrives t at (frame CONNECTION_TYPE_MID cb) (lk_server l)) = (q, h2, sv) \<Longrightarrow>
    session_step bc parts ko oc l (joins cid cl sv l)"
| refused: "config = sv_config (lk_server l) \<Longrightarrow>
    travels bc parts config (AnyBox C v) CONNECTION_TYPE_MID cb \<Longrightarrow>
    travels bc parts config (AnyBox R r) RESPONSE_TYPE_MID rb \<Longrightarrow>
    expecting (lk_server l) cid \<Longrightarrow> fresh_stream t \<Longrightarrow> peer_name t = Some addr \<Longrightarrow> length rb + 4 \<le> tx_room t \<Longrightarrow>
    clk 0 - at \<le> cfg_timeout config \<Longrightarrow> hook cid v (h :: nat) = ((False, r), h') \<Longrightarrow>
    server_handle_new_con oc now clk C R hook h (arrives t at (frame CONNECTION_TYPE_MID cb) (lk_server l)) = (q, h2, sv) \<Longrightarrow>
    session_step bc parts ko oc l (l\<lparr>lk_server := sv\<rparr>)"

lemma session_step_ok:
  assumes "wf_parts parts" "wf_numbering parts" "codec_of bc parts" "mid_count parts \<le> 65536" "key_order ko"
    and "session_step bc parts ko oc l l'" "link_ok bc parts oc l"
  shows "link_ok bc parts oc l'"
  using assms(6)
proof cases
  case runs
  then show ?thesis by (rule link_step_ok [OF assms(1-5) _ assms(7)])
next
  case (connects config C v cb R r rb sys peer s la pa udp cid addr t clk at hook h h' now now' cl resp q h2 sv)
  have parts: "sv_parts (lk_server l) = parts" using assms(7) by (simp add: link_ok_def)
  from handshake_both_ends [OF assms(1,3) parts connects(2) [symmetric] connects(5-11) connects(4) connects(13,15-20), of now']
  obtain con cl1 where j: "client_new_blocking sys now' peer parts config (AnyBox C v) = Ok (cl1, AnyBox R r)"
      "settled_client parts (cfg_max_msg_size config) (tx_room s) cl1" "urx (uc_udp (cl_udp cl1)) = urx (uc_udp udp)"
      "answering (cfg_max_msg_size config) (tx_room t) (frame RESPONSE_TYPE_MID rb) con"
      "server_handle_new_con oc now clk C R hook h (arrives t at (frame CONNECTION_TYPE_MID cb) (lk_server l)) =
        (Ok True, h', welcomed cid addr con (lk_server l))" by blast
  have "cl = cl1" "sv = welcomed cid addr con (lk_server l)" using j(1,5) connects(21,22) by simp_all
  then show ?thesis
    using joins_ok [OF assms(7) connects(13) j(2) _ j(4) connects(3) connects(14)] j(3) connects(12) by (simp add: connects(1))
next
  case (refused config C v cb R r rb cid t addr clk at hook h h' now q h2 sv)
  have parts: "sv_parts (lk_server l) = parts" using assms(7) by (simp add: link_ok_def)
  have "sv = turned_away cid (lk_server l)"
    using server_turn [of "lk_server l" bc cid C v cb R r rb t addr clk at hook h False h' oc now] assms(1,3) parts
      refused(2-11) by auto
  then show ?thesis using turned_away_ok [OF assms(7) refused(5)] by (simp add: refused(1))
qed

lemma session_steps_ok:
  assumes "wf_parts parts" "wf_numbering parts" "codec_of bc parts" "mid_count parts \<le> 65536" "key_order ko"
    and "(session_step bc parts ko oc)\<^sup>*\<^sup>* l l'" "link_ok bc parts oc l"
  shows "link_ok bc parts oc l'"
  using assms(6,7) by (induction rule: rtranclp_induct) (auto intro: session_step_ok [OF assms(1-5)])

lemma opened_ok:
  assumes "server_new sys addr parts config = Ok sv" "wf_parts parts" "wf_numbering parts" "urx (uc_udp (sv_udp sv)) = []"
  shows "link_ok bc parts oc (opened sv cls)"
proof -
  have "sv_tcp sv = Map.empty" "sv_parts sv = parts"
    using assms(1) by (auto simp: server_new_def listener_set_nonblocking_def res_simps)
  then show ?thesis using wf_server_new [OF assms(1-3)] assms(4) nothing_waits(1) [of sv]
    by (simp add: link_ok_def opened_def wf_server_defs)
qed

section \<open>Properties of a session\<close>

text \<open>
  C1: A session as a whole, from the server's start, through any sequence of these steps: a client
  connects or is turned away, its whole handshake being one step, with no other connection pending; an
  end sends a value over TCP or UDP, or its send fails with none of the frame's bytes written; bytes
  arrive in pieces of any size; a datagram arrives, in any order, never or twice, but not 65536
  milliseconds late or more; an end runs a round, not in the middle of a payload. Then no round panics;
  in both directions of every connection, of a type that goes over TCP the values read are the first
  of those sent, each once and in order, and when no byte is under way, they are all; of a type that
  goes over UDP every value read was sent, at the time it bears.
\<close>

theorem session_is_fifo:
  assumes "wf_parts parts" "wf_numbering parts" "codec_of bc parts" "mid_count parts \<le> 65536" "key_order ko"
    and "server_new sys addr parts config = Ok sv" "urx (uc_udp (sv_udp sv)) = []"
    and "(session_step bc parts ko oc)\<^sup>*\<^sup>* (opened sv cls) l" "sv_tcp (lk_server l) c = Some con"
  shows "\<not> lk_panicked l \<and>
    (\<exists>old ms. lk_up l c = old @ ms \<and>
      (\<forall>T \<in> types_over TCP parts. lk_up_got l c T =
        map (\<lambda>m. \<lparr>nm_cid = c, nm_time = None, nm_m = any_val m\<rparr>) (filter (\<lambda>m. any_tid m = T) old)) \<and>
      (rx (tc_tcp con) = [] \<and> tx (tc_tcp (cl_tcp (lk_client l c))) = [] \<longrightarrow> ms = [])) \<and>
    (\<exists>old ms. lk_down l c = old @ ms \<and>
      (\<forall>T \<in> types_over TCP parts. lk_down_got l c T =
        map (\<lambda>m. \<lparr>nm_cid = 0, nm_time = None, nm_m = any_val m\<rparr>) (filter (\<lambda>m. any_tid m = T) old)) \<and>
      (rx (tc_tcp (cl_tcp (lk_client l c))) = [] \<and> tx (tc_tcp con) = [] \<longrightarrow> ms = [])) \<and>
    (\<forall>T \<in> types_over UDP parts.
      (\<forall>x \<in> set (lk_up_got l c T). \<exists>now m. (now, m) \<in> set (lk_up_udp l c) \<and> any_tid m = T \<and>
        x = \<lparr>nm_cid = c, nm_time = Some (stamp now), nm_m = any_val m\<rparr>) \<and>
      (\<forall>x \<in> set (lk_down_got l c T). \<exists>now m. (now, m) \<in> set (lk_down_udp l c) \<and> any_tid m = T \<and>
        x = \<lparr>nm_cid = 0, nm_time = Some (stamp now), nm_m = any_val m\<rparr>))"
  by (rule link_fifo [OF session_steps_ok [OF assms(1-5,8) opened_ok [OF assms(6,1,2,7)]] assms(9)])

text \<open>
  C2: Nothing is ever stuck. From every state that a session can come to by the steps of C1 the network
  can move the bytes that are under way so that after it one round of the server and then one round of
  each client, in whatever order \<open>cs\<close>, suffice: every value sent over TCP in either direction
  has been read, type by type, once and in order, and nothing has panicked.
\<close>

theorem session_can_deliver:
  assumes "wf_parts parts" "wf_numbering parts" "codec_of bc parts" "mid_count parts \<le> 65536" "key_order ko"
    and "server_new sys addr parts config = Ok sv" "urx (uc_udp (sv_udp sv)) = []"
    and "(session_step bc parts ko oc)\<^sup>*\<^sup>* (opened sv cls) l"
    and "distinct cs" "set cs = dom (sv_tcp (lk_server l))"
  shows "\<exists>l1 l'. network_step\<^sup>*\<^sup>* l l1 \<and> l' = foldr (client_runs oc) cs (server_runs ko oc l1) \<and>
    (link_step bc parts ko oc)\<^sup>*\<^sup>* l l' \<and> \<not> lk_panicked l' \<and> lk_up l' = lk_up l \<and> lk_down l' = lk_down l \<and>
    (\<forall>c \<in> set cs. \<forall>T \<in> types_over TCP parts.
      lk_up_got l' c T = map (\<lambda>m. \<lparr>nm_cid = c, nm_time = None, nm_m = any_val m\<rparr>) (filter (\<lambda>m. any_tid m = T) (lk_up l c)) \<and>
      lk_down_got l' c T = map (\<lambda>m. \<lparr>nm_cid = 0, nm_time = None, nm_m = any_val m\<rparr>) (filter (\<lambda>m. any_tid m = T) (lk_down l c)))"
  using everything_delivered [OF assms(1-5) session_steps_ok [OF assms(1-5,8) opened_ok [OF assms(6,1,2,7)]] assms(10)]
  unfolding same_sent_def assms(10) by blast

section \<open>A session to try the properties on\<close>

text \<open>A client connects to a new server and sends it a value; the server sends one back.\<close>

lemma demo_connects:
  assumes "new_server sv"
  shows "\<exists>cl con. session_step demo_bincode demo_parts demo_ko True (opened sv cls) (joins 1 cl (welcomed 1 (SockAddr 1 7777) con sv) (opened sv cls)) \<and>
    settled_client demo_parts 2048 100 cl \<and> answering 2048 100 (frame RESPONSE_TYPE_MID [6]) con"
proof -
  note d = demo_handshake [OF assms]
  obtain udp where udp: "udp_con_new (demo_net sv) (SockAddr 2 40000) (Some (SockAddr 1 7777)) (cfg_max_msg_size config_default) = Ok udp"
      "urx (uc_udp udp) = []" using d(12) by blast
  have sv: "lk_server (opened sv cls) = sv" for cls by (simp add: opened_def)
  have free: "sv_addr_cid sv (SockAddr 1 7777) = None"
    using assms by (auto simp: new_server_def server_new_def listener_set_nonblocking_def res_simps)
  have size: "cfg_max_msg_size config_default < 65536" by (simp add: d(18))
  obtain cl con where j: "client_new_blocking (demo_net sv) 0 (SockAddr 1 7777) demo_parts config_default (AnyBox 10 5) = Ok (cl, AnyBox 11 6)"
      "settled_client demo_parts 2048 100 cl" "answering 2048 100 (frame RESPONSE_TYPE_MID [6]) con"
      "server_handle_new_con True 0 (\<lambda>i. 0) 10 11 demo_hook 0 (arrives demo_arriving 0 (frame CONNECTION_TYPE_MID [5]) sv) =
        (Ok True, 0, welcomed 1 (SockAddr 1 7777) con sv)"
    using handshake_both_ends [OF demo_parts_wf(1,3) d(1,2,6-11) udp(1) d(13,3,9,11,14,15,16,17), where now' = 0]
    unfolding d(18,19) by blast
  have "session_step demo_bincode demo_parts demo_ko True (opened sv cls) (joins 1 cl (welcomed 1 (SockAddr 1 7777) con sv) (opened sv cls))"
    by (rule connects [where l = "opened sv cls", unfolded sv, OF d(2) [symmetric] size d(13,6-11) udp d(3) free d(9,11,14,15,16,17) j(1,4)])
  with j(2,3) show ?thesis by blast
qed

lemma demo_session:
  assumes "new_server sv"
  shows "\<exists>l. (session_step demo_bincode demo_parts demo_ko True)\<^sup>*\<^sup>* (opened sv cls) l \<and> lk_up l 1 = [AnyBox 13 7] \<and>
     lk_down l 1 = [AnyBox 13 6] \<and> dom (sv_tcp (lk_server l)) = {1}"
proof -
  obtain cl con where c: "session_step demo_bincode demo_parts demo_ko True (opened sv cls)
        (joins 1 cl (welcomed 1 (SockAddr 1 7777) con sv) (opened sv cls))"
      "settled_client demo_parts 2048 100 cl" "answering 2048 100 (frame RESPONSE_TYPE_MID [6]) con"
    using demo_connects [OF assms] by blast
  define l1 where "l1 = joins 1 cl (welcomed 1 (SockAddr 1 7777) con sv) (opened sv cls)"
  let ?con = "sends_off (length (tx (tc_tcp con))) con"
  have l1: "lk_client l1 1 = cl" "lk_up l1 1 = []" "lk_down l1 1 = []" "sv_tcp (lk_server l1) = [1 \<mapsto> ?con]"
      "sv_parts (lk_server l1) = demo_parts"
    using demo_handshake(1,4) [OF assms] by (simp_all add: l1_def joins_def welcomed_def opened_def)
  have carry: "carried demo_bincode demo_parts (AnyBox 13 7)" "carried demo_bincode demo_parts (AnyBox 13 6)"
      "encodes demo_bincode demo_parts (AnyBox 13 7) (3, [7])"
    by (simp_all add: carried_def encodes_def mid_defs demo_bincode_def)
  have "writable (cl_tcp cl) (length ([7] :: byte list))" "cl_parts cl = demo_parts"
    using c(2) answeringD(6) [of 2048 100 "[]" "cl_tcp cl" 1] by (simp_all add: settled_client_def)
  then obtain t where t: "client_send 0 (AnyBox 13 7) cl = (Ok (), cl\<lparr>cl_tcp := t\<rparr>)"
    using client_send_writable [of cl demo_bincode 13 7 3 "[7]" 0] demo_parts_wf carry by auto
  define l2 where "l2 = l1\<lparr>lk_client := (lk_client l1)(1 := cl\<lparr>cl_tcp := t\<rparr>), lk_up := (lk_up l1)(1 := lk_up l1 1 @ [AnyBox 13 7])\<rparr>"
  have 2: "link_step demo_bincode demo_parts demo_ko True l1 l2"
    unfolding l2_def by (rule client_sends [where now = 0, OF carry(1)]) (simp add: l1(1) t)
  have "answering 2048 100 [] ?con" using c(3) by (simp add: answering_def sends_off_def)
  from answeringD(6) [OF this, of 1] have "writable ?con 1" by simp
  then obtain con' where con': "tcp_con_send 3 [6] ?con = (Ok (), con')"
    using writable_send [of ?con "[6]" 3] by auto
  let ?sv' = "(lk_server l2)\<lparr>sv_tcp := (sv_tcp (lk_server l2))(1 \<mapsto> con')\<rparr>"
  have "lk_server l2 = lk_server l1" by (simp add: l2_def)
  then have sent: "server_send_to 0 1 (AnyBox 13 6) (lk_server l2) = (Ok (), ?sv')"
    using server_send_to_tcp [of "lk_server l2" demo_bincode 13 3 1 ?con 0 6] demo_parts_wf con' l1(4,5)
    by (simp add: demo_bincode_def)
  define l3 where "l3 = l2\<lparr>lk_server := ?sv', lk_down := (lk_down l2)(1 := lk_down l2 1 @ [AnyBox 13 6])\<rparr>"
  have 3: "link_step demo_bincode demo_parts demo_ko True l2 l3"
    unfolding l3_def by (rule server_sends [OF carry(2) sent])
  have "lk_up l3 1 = [AnyBox 13 7]" "lk_down l3 1 = [AnyBox 13 6]" "dom (sv_tcp (lk_server l3)) = {1}"
    using l1(2-4) by (simp_all add: l3_def l2_def)
  moreover have "(session_step demo_bincode demo_parts demo_ko True)\<^sup>*\<^sup>* (opened sv cls) l3"
    using c(1) runs [OF 2] runs [OF 3] unfolding l1_def [symmetric]
    by (meson rtranclp.rtrancl_into_rtrancl r_into_rtranclp)
  ultimately show ?thesis by blast
qed

lemma demo_delivered:
  assumes "new_server sv"
  shows "\<exists>l. (session_step demo_bincode demo_parts demo_ko True)\<^sup>*\<^sup>* (opened sv cls) l \<and> lk_up l 1 = [AnyBox 13 7] \<and>
     1 \<in> dom (sv_tcp (lk_server l)) \<and> lk_up_got l 1 13 = [\<lparr>nm_cid = 1, nm_time = None, nm_m = 7\<rparr>]"
proof -
  have new: "server_new demo_srv_os (SockAddr 1 7777) demo_parts config_default = Ok sv"
    using assms by (simp add: new_server_def)
  obtain l where l: "(session_step demo_bincode demo_parts demo_ko True)\<^sup>*\<^sup>* (opened sv cls) l" "lk_up l 1 = [AnyBox 13 7]"
      "dom (sv_tcp (lk_server l)) = {1}" using demo_session [OF assms] by blast
  have parts: "mid_count demo_parts \<le> 65536" "13 \<in> types_over TCP demo_parts" by (simp_all add: types_over_def)
  have "link_ok demo_bincode demo_parts True l"
    by (rule session_steps_ok [OF demo_parts_wf parts(1) demo_ko_order l(1)
      opened_ok [OF new demo_parts_wf(1,2) demo_handshake(5) [OF assms]]])
  from everything_delivered [OF demo_parts_wf parts(1) demo_ko_order this, of "[1]"] obtain l2 where
    l2: "(link_step demo_bincode demo_parts demo_ko True)\<^sup>*\<^sup>* l l2" "same_sent l l2"
      "lk_up_got l2 1 13 = [\<lparr>nm_cid = 1, nm_time = None, nm_m = 7\<rparr>]" using l(2,3) parts(2) by fastforce
  have "(session_step demo_bincode demo_parts demo_ko True)\<^sup>*\<^sup>* l l2"
    using l2(1) by (induction rule: rtranclp_induct) (auto intro: runs rtranclp.rtrancl_into_rtrancl)
  with l(1) have "(session_step demo_bincode demo_parts demo_ko True)\<^sup>*\<^sup>* (opened sv cls) l2" by (rule rtranclp_trans)
  moreover have "lk_up l2 1 = [AnyBox 13 7]" "1 \<in> dom (sv_tcp (lk_server l2))" using l(2,3) l2(2) by (simp_all add: same_sent_def)
  ultimately show ?thesis using l2(3) by blast
qed

theorem session_is_fifo_witness:
  "\<exists>sv l old ms. new_server sv \<and> (session_step demo_bincode demo_parts demo_ko True)\<^sup>*\<^sup>* (opened sv (\<lambda>c. demo_client [])) l \<and>
     \<not> lk_panicked l \<and> [AnyBox 13 7] = old @ ms \<and> lk_up_got l 1 13 = map (\<lambda>m. \<lparr>nm_cid = 1, nm_time = None, nm_m = any_val m\<rparr>)
       (filter (\<lambda>m. any_tid m = 13) old) \<and> lk_up_got l 1 13 = [\<lparr>nm_cid = 1, nm_time = None, nm_m = 7\<rparr>]"
proof -
  obtain sv where sv: "new_server sv" using new_server_ex ..
  then have new: "server_new demo_srv_os (SockAddr 1 7777) demo_parts config_default = Ok sv" by (simp add: new_server_def)
  obtain l where l: "(session_step demo_bincode demo_parts demo_ko True)\<^sup>*\<^sup>* (opened sv (\<lambda>c. demo_client [])) l"
      "lk_up l 1 = [AnyBox 13 7]" "1 \<in> dom (sv_tcp (lk_server l))" "lk_up_got l 1 13 = [\<lparr>nm_cid = 1, nm_time = None, nm_m = 7\<rparr>]"
    using demo_delivered [OF sv] by blast
  have parts: "mid_count demo_parts \<le> 65536" "13 \<in> types_over TCP demo_parts" by (simp_all add: types_over_def)
  obtain con where "sv_tcp (lk_server l) 1 = Some con" using l(3) by blast
  from session_is_fifo [OF demo_parts_wf parts(1) demo_ko_order new demo_handshake(5) [OF sv] l(1) this]
  obtain old ms where "\<not> lk_panicked l" "[AnyBox 13 7] = old @ ms"
    "lk_up_got l 1 13 = map (\<lambda>m. \<lparr>nm_cid = 1, nm_time = None, nm_m = any_val m\<rparr>) (filter (\<lambda>m. any_tid m = 13) old)"
    unfolding l(2) using parts(2) by metis
  then show ?thesis using sv l(1,4) by blast
qed

theorem session_can_deliver_witness:
  "\<exists>sv l l1 l'. new_server sv \<and> (session_step demo_bincode demo_parts demo_ko True)\<^sup>*\<^sup>* (opened sv (\<lambda>c. demo_client [])) l \<and>
     network_step\<^sup>*\<^sup>* l l1 \<and> l' = foldr (client_runs True) [1] (server_runs demo_ko True l1) \<and>
     lk_up_got l' 1 13 = [\<lparr>nm_cid = 1, nm_time = None, nm_m = 7\<rparr>] \<and>
     lk_down_got l' 1 13 = [\<lparr>nm_cid = 0, nm_time = None, nm_m = 6\<rparr>]"
proof -
  obtain sv where sv: "new_server sv" using new_server_ex ..
  then have new: "server_new demo_srv_os (SockAddr 1 7777) demo_parts config_default = Ok sv" by (simp add: new_server_def)
  obtain l where l: "(session_step demo_bincode demo_parts demo_ko True)\<^sup>*\<^sup>* (opened sv (\<lambda>c. demo_client [])) l" "lk_up l 1 = [AnyBox 13 7]"
      "lk_down l 1 = [AnyBox 13 6]" "dom (sv_tcp (lk_server l)) = {1}" using demo_session [OF sv] by blast
  have parts: "mid_count demo_parts \<le> 65536" "13 \<in> types_over TCP demo_parts" by (simp_all add: types_over_def)
  have "distinct [1 :: cid]" "set [1] = dom (sv_tcp (lk_server l))" using l(4) by simp_all
  from session_can_deliver [OF demo_parts_wf parts(1) demo_ko_order new demo_handshake(5) [OF sv] l(1) this]
  obtain l1 l2 where l2: "network_step\<^sup>*\<^sup>* l l1" "l2 = foldr (client_runs True) [1] (server_runs demo_ko True l1)"
      "\<forall>T \<in> types_over TCP demo_parts.
         lk_up_got l2 1 T = map (\<lambda>m. \<lparr>nm_cid = 1, nm_time = None, nm_m = any_val m\<rparr>) (filter (\<lambda>m. any_tid m = T) (lk_up l 1)) \<and>
         lk_down_got l2 1 T = map (\<lambda>m. \<lparr>nm_cid = 0, nm_time = None, nm_m = any_val m\<rparr>) (filter (\<lambda>m. any_tid m = T) (lk_down l 1))"
    by auto
  with bspec [OF l2(3) parts(2)] l(1-3) sv show ?thesis by fastforce
qed

end
