(* ===== verification/Settling.thy ===== *)
theory Settling
  imports Server_Properties
begin

text \<open>
  When the two functions that handle new connections settle what they found (\<open>src/server.rs\<close>,
  lines 188-198 and 260-275). They go through the pending connections, note by position which to
  accept, to reject and to drop, and then remove by these positions one after the other. Against
  what was meant, namely that all the connections noted and no others leave the list, this is
  exact: it happens if and only if the positions come in descending order.
\<close>

section \<open>Removing by positions\<close>

fun pluck :: "nat list \<Rightarrow> 'a list \<Rightarrow> 'a list option" where
  "pluck [] xs = Some xs"
| "pluck (i # is) xs = (if i < length xs then pluck is (take i xs @ drop (Suc i) xs) else None)"

lemma pluck_append: "pluck (is @ js) xs = Option.bind (pluck is xs) (pluck js)"
  by (induction "is" xs rule: pluck.induct) simp_all

lemma pluck_map: "pluck is (map f xs) = map_option (map f) (pluck is xs)"
  by (induction "is" xs rule: pluck.induct) (simp_all add: take_map drop_map flip: map_append)

text \<open>What should be left: all elements but those at the positions.\<close>

definition but_at :: "nat set \<Rightarrow> 'a list \<Rightarrow> 'a list" where
  "but_at A xs = nths xs (- A)"

lemma but_at_map: "but_at A (map f xs) = map f (but_at A xs)"
  by (simp add: but_at_def nths_map)

lemma but_at_empty [simp]: "but_at {} xs = xs"
  by (simp add: but_at_def nths_all)

lemma but_at_upt: "but_at A [0..<n] = filter (\<lambda>i. i \<notin> A) [0..<n]"
proof -
  have "nths [0..<n] (- A) = map fst (filter (\<lambda>p. snd p \<in> - A) (zip [0..<n] [0..<n]))"
    by (simp add: nths_def)
  also have "\<dots> = filter (\<lambda>i. i \<notin> A) [0..<n]" by (simp add: zip_same_conv_map filter_map comp_def)
  finally show ?thesis by (simp add: but_at_def)
qed

lemma but_at_last:
  assumes "\<forall>j \<in> A. j < i" "i < length xs"
  shows "but_at A (take i xs @ drop (Suc i) xs) = but_at (insert i A) xs"
proof -
  have "nths (drop (Suc i) xs) {j. j + i \<in> - A} = drop (Suc i) xs"
    using assms(1) by (intro nths_all) auto
  moreover have "nths (drop i xs) {j. j + i \<in> - insert i A} = drop (Suc i) xs"
  proof -
    have "nths (xs ! i # drop (Suc i) xs) {j. j + i \<in> - insert i A} = nths (drop (Suc i) xs) {j. Suc j + i \<in> - insert i A}"
      by (simp add: nths_Cons)
    also have "\<dots> = drop (Suc i) xs" using assms(1) by (intro nths_all) auto
    finally show ?thesis using assms(2) by (simp add: Cons_nth_drop_Suc)
  qed
  moreover have "nths (take i xs) (- A) = nths (take i xs) (- insert i A)"
    by (simp add: nths_def) (rule arg_cong [where f = "map fst"], rule filter_cong, auto simp: set_zip)
  moreover have "nths xs (- insert i A) = nths (take i xs) (- insert i A) @ nths (drop i xs) {j. j + i \<in> - insert i A}"
    using nths_append [of "take i xs" "drop i xs" "- insert i A"] assms(2) by (simp add: min_def)
  ultimately show ?thesis using assms(2) by (simp add: but_at_def nths_append min_def)
qed

lemma pluck_descending:
  "sorted_wrt (>) is \<Longrightarrow> \<forall>i \<in> set is. i < length xs \<Longrightarrow> pluck is xs = Some (but_at (set is) xs)"
proof (induction "is" arbitrary: xs)
  case Nil
  then show ?case by simp
next
  case (Cons i "is")
  have "pluck is (take i xs @ drop (Suc i) xs) = Some (but_at (set is) (take i xs @ drop (Suc i) xs))"
    using Cons.prems by (intro Cons.IH) auto
  then show ?case using Cons.prems but_at_last [of "set is" i xs] by simp
qed

text \<open>
  In an ascending list of numbers none stands before its place. So the sum of what is plucked is at
  least the sum of the positions, and equal to it only if each number plucked was in its place, with
  all smaller ones before it.
\<close>

lemma ascending_nth:
  "sorted_wrt (<) (ps :: nat list) \<Longrightarrow> i < length ps \<Longrightarrow> i \<le> ps ! i"
proof (induction i)
  case (Suc i)
  then have "ps ! i < ps ! Suc i" by (simp add: sorted_wrt_nth_less)
  then show ?case using Suc by simp
qed simp

lemma ascending_in_place:
  assumes "sorted_wrt (<) (ps :: nat list)" "i < length ps" "ps ! i = i" "k \<le> i"
  shows "k \<in> set ps"
proof -
  have "ps ! k = k" using assms(4,3,2)
  proof (induction rule: inc_induct)
    case (step k)
    then have "ps ! k < ps ! Suc k" "ps ! Suc k = Suc k"
      using sorted_wrt_nth_less [OF assms(1), of k "Suc k"] assms(2,3) by simp_all
    then show ?case using ascending_nth [OF assms(1), of k] step assms(2) by simp
  qed
  then show ?thesis using assms(2,4) by (metis nth_mem order_le_less_trans)
qed

lemma pluck_sum:
  "pluck is ps = Some qs \<Longrightarrow> sorted_wrt (<) ps \<Longrightarrow>
   sum_list qs + sum_list is \<le> sum_list ps \<and>
   (sum_list qs + sum_list is = sum_list ps \<longrightarrow> sorted_wrt (>) is \<and> (\<forall>j \<in> set is. \<forall>k \<le> j. k \<in> set ps))"
proof (induction "is" arbitrary: ps)
  case Nil
  then show ?case by simp
next
  case (Cons i "is")
  let ?ps = "take i ps @ drop (Suc i) ps"
  have i: "i < length ps" "pluck is ?ps = Some qs" using Cons.prems(1) by (simp_all split: if_splits)
  have split: "ps = take i ps @ ps ! i # drop (Suc i) ps" using i(1) by (simp add: id_take_nth_drop)
  have "sorted_wrt (<) (take i ps @ ps ! i # drop (Suc i) ps)" using Cons.prems(2) split by simp
  then have sorted: "sorted_wrt (<) ?ps" and free: "ps ! i \<notin> set ?ps" by (auto simp: sorted_wrt_append)
  have "sum_list ps = sum_list (take i ps @ ps ! i # drop (Suc i) ps)" using split by simp
  then have sum: "sum_list ps = ps ! i + sum_list ?ps" by simp
  note IH = Cons.IH [OF i(2) sorted]
  have ge: "i \<le> ps ! i" using ascending_nth [OF Cons.prems(2) i(1)] .
  have le: "sum_list qs + sum_list (i # is) \<le> sum_list ps" using IH ge sum by simp
  moreover have "sorted_wrt (>) (i # is) \<and> (\<forall>j \<in> set (i # is). \<forall>k \<le> j. k \<in> set ps)"
    if eq: "sum_list qs + sum_list (i # is) = sum_list ps"
  proof -
    have "sum_list qs + sum_list is = sum_list ?ps" "ps ! i = i" using eq IH ge sum by simp_all
    then have "sorted_wrt (>) is" "\<forall>j \<in> set is. \<forall>k \<le> j. k \<in> set ?ps" "i \<notin> set ?ps" using IH free by simp_all
    moreover from this have "\<forall>j \<in> set is. j < i" by (meson not_le_imp_less)
    moreover have "\<forall>k \<le> i. k \<in> set ps" using ascending_in_place [OF Cons.prems(2) i(1) \<open>ps ! i = i\<close>] by blast
    ultimately show ?thesis by auto
  qed
  ultimately show ?case by blast
qed

lemma pluck_right_iff:
  assumes "distinct xs" "distinct is" "\<forall>i \<in> set is. i < length xs"
  shows "pluck is xs = Some (but_at (set is) xs) \<longleftrightarrow> sorted_wrt (>) is"
proof
  assume r: "pluck is xs = Some (but_at (set is) xs)"
  let ?n = "length xs" and ?f = "(!) xs"
  have xs: "xs = map ?f [0..<?n]" by (simp add: map_nth)
  have "map_option (map ?f) (pluck is [0..<?n]) = Some (map ?f (but_at (set is) [0..<?n]))"
    using r by (simp add: map_nth flip: pluck_map but_at_map)
  then obtain qs where qs: "pluck is [0..<?n] = Some qs" "map ?f qs = map ?f (but_at (set is) [0..<?n])" by auto
  have sub: "pluck js ys = Some zs \<Longrightarrow> set zs \<subseteq> set ys" for js and ys zs :: "nat list"
    by (induction js ys rule: pluck.induct) (auto split: if_splits dest: in_set_takeD in_set_dropD)
  have "inj_on ?f {0..<?n}" using assms(1) by (auto intro: inj_on_nth)
  then have "qs = but_at (set is) [0..<?n]"
    using qs(2) sub [OF qs(1)] by (intro map_inj_on [OF qs(2)]) (auto simp: but_at_upt inj_on_def)
  moreover have "sum_list (but_at (set is) [0..<?n]) + sum_list is = sum_list [0..<?n]"
  proof -
    have "sum_list [0..<?n] = \<Sum> {0..<?n}" by (simp add: sum_list_distinct_conv_sum_set)
    moreover have "sum_list is = \<Sum> (set is)" "sum_list (but_at (set is) [0..<?n]) = \<Sum> ({0..<?n} - set is)"
      using assms(2) by (auto simp: but_at_upt distinct_sum_list_conv_Sum intro!: sum.cong)
    moreover have "set is \<subseteq> {0..<?n}" using assms(3) by auto
    ultimately show ?thesis by (simp add: sum.subset_diff [of "set is" "{0..<?n}"])
  qed
  ultimately show "sorted_wrt (>) is" using pluck_sum [OF qs(1)] by simp
qed (use pluck_descending assms(3) in blast)

section \<open>Verdicts\<close>

text \<open>
  What becomes of each pending connection, in the order of the list: the two functions' decisions
  without their bookkeeping. With \<open>one\<close> those behind the first that calls the hook are left
  waiting. There is no result when handling a connection panics.
\<close>

datatype 'v verdict = Waits | Welcomed 'v | Refused 'v | Dies

fun verdicts ::
    "bool \<Rightarrow> 'v deser_fn \<Rightarrow> type_id \<Rightarrow> nat \<Rightarrow> (nat \<Rightarrow> nat) \<Rightarrow> ('v, 'h) con_hook \<Rightarrow>
     nat \<Rightarrow> pending_con list \<Rightarrow> 'h \<Rightarrow> ('v verdict list \<times> 'h) option" where
  "verdicts one d C timeout clk hook idx [] h = Some ([], h)"
| "verdicts one d C timeout clk hook idx ((con, cid, time) # cons) h =
     (case fst (handle_con_helper d C timeout (clk idx - time) con) of
        Inl (Panic _) \<Rightarrow> None
      | Inl (IoErr e) \<Rightarrow>
          map_option (\<lambda>(vs, h). ((if err_kind e = WouldBlock then Waits else Dies) # vs, h))
            (verdicts one d C timeout clk hook (Suc idx) cons h)
      | Inr c \<Rightarrow>
          (case hook cid c h of ((acc, resp), h) \<Rightarrow>
             map_option (\<lambda>(vs, h). ((if acc then Welcomed resp else Refused resp) # vs, h))
               (if one then Some (replicate (length cons) Waits, h)
                else verdicts one d C timeout clk hook (Suc idx) cons h)))"

fun welcomes :: "nat \<Rightarrow> 'v verdict list \<Rightarrow> (nat \<times> 'v) list" where
  "welcomes i [] = []"
| "welcomes i (Welcomed resp # vs) = (i, resp) # welcomes (Suc i) vs"
| "welcomes i (_ # vs) = welcomes (Suc i) vs"

fun refusals :: "nat \<Rightarrow> 'v verdict list \<Rightarrow> (nat \<times> 'v) list" where
  "refusals i [] = []"
| "refusals i (Refused resp # vs) = (i, resp) # refusals (Suc i) vs"
| "refusals i (_ # vs) = refusals (Suc i) vs"

fun deaths :: "nat \<Rightarrow> 'v verdict list \<Rightarrow> nat list" where
  "deaths i [] = []"
| "deaths i (Dies # vs) = i # deaths (Suc i) vs"
| "deaths i (_ # vs) = deaths (Suc i) vs"

text \<open>The positions, in the order in which the code removes them.\<close>

definition removals :: "'v verdict list \<Rightarrow> nat list" where
  "removals vs = map fst (welcomes 0 vs) @ map fst (refusals 0 vs) @ deaths 0 vs"

definition still_waiting :: "'v verdict list \<Rightarrow> 'a list \<Rightarrow> 'a list" where
  "still_waiting vs xs = map fst (filter (\<lambda>(x, v). v = Waits) (zip xs vs))"

lemma kinds_above:
  "x \<in> set (welcomes i vs) \<Longrightarrow> i \<le> fst x \<and> fst x < i + length vs \<and> vs ! (fst x - i) = Welcomed (snd x)"
  "x \<in> set (refusals i vs) \<Longrightarrow> i \<le> fst x \<and> fst x < i + length vs \<and> vs ! (fst x - i) = Refused (snd x)"
  "j \<in> set (deaths i vs) \<Longrightarrow> i \<le> j \<and> j < i + length vs \<and> vs ! (j - i) = Dies"
proof (induction vs arbitrary: i)
  case (Cons v vs)
  { case 1 then show ?case using Cons.IH(1) [of "Suc i"] by (cases v) (auto simp: nth_Cons' Suc_diff_le dest!: Suc_le_D) }
  { case 2 then show ?case using Cons.IH(2) [of "Suc i"] by (cases v) (auto simp: nth_Cons' Suc_diff_le dest!: Suc_le_D) }
  { case 3 then show ?case using Cons.IH(3) [of "Suc i"] by (cases v) (auto simp: nth_Cons' Suc_diff_le dest!: Suc_le_D) }
qed simp_all

lemma kinds_place:
  "j < length vs \<Longrightarrow> vs ! j = Welcomed r \<Longrightarrow> (i + j, r) \<in> set (welcomes i vs)"
  "j < length vs \<Longrightarrow> vs ! j = Refused r \<Longrightarrow> (i + j, r) \<in> set (refusals i vs)"
  "j < length vs \<Longrightarrow> vs ! j = Dies \<Longrightarrow> i + j \<in> set (deaths i vs)"
proof (induction vs arbitrary: i j)
  case (Cons v vs)
  { case 1 then show ?case using Cons.IH(1) [of "j - 1" "Suc i"] by (cases j; cases v) auto }
  { case 2 then show ?case using Cons.IH(2) [of "j - 1" "Suc i"] by (cases j; cases v) auto }
  { case 3 then show ?case using Cons.IH(3) [of "j - 1" "Suc i"] by (cases j; cases v) auto }
qed simp_all

lemma kinds_ascending:
  "sorted_wrt (<) (map fst (welcomes i vs))" "sorted_wrt (<) (map fst (refusals i vs))" "sorted_wrt (<) (deaths i vs)"
proof (induction vs arbitrary: i)
  case (Cons v vs)
  { case 1 then show ?case using Cons.IH(1) [of "Suc i"] kinds_above(1) [of _ "Suc i" vs] by (cases v) fastforce+ }
  { case 2 then show ?case using Cons.IH(2) [of "Suc i"] kinds_above(2) [of _ "Suc i" vs] by (cases v) fastforce+ }
  { case 3 then show ?case using Cons.IH(3) [of "Suc i"] kinds_above(3) [of _ "Suc i" vs] by (cases v) fastforce+ }
qed simp_all

lemma in_kinds:
  "(i, r) \<in> set (welcomes 0 vs) \<longleftrightarrow> i < length vs \<and> vs ! i = Welcomed r"
  "(i, r) \<in> set (refusals 0 vs) \<longleftrightarrow> i < length vs \<and> vs ! i = Refused r"
  "i \<in> set (deaths 0 vs) \<longleftrightarrow> i < length vs \<and> vs ! i = Dies"
proof -
  show "(i, r) \<in> set (welcomes 0 vs) \<longleftrightarrow> i < length vs \<and> vs ! i = Welcomed r"
    using kinds_above(1) [of "(i, r)" 0 vs] kinds_place(1) [of i vs r 0] by (intro iffI) simp_all
  show "(i, r) \<in> set (refusals 0 vs) \<longleftrightarrow> i < length vs \<and> vs ! i = Refused r"
    using kinds_above(2) [of "(i, r)" 0 vs] kinds_place(2) [of i vs r 0] by (intro iffI) simp_all
  show "i \<in> set (deaths 0 vs) \<longleftrightarrow> i < length vs \<and> vs ! i = Dies"
    using kinds_above(3) [of i 0 vs] kinds_place(3) [of i vs 0] by (intro iffI) simp_all
qed

lemma set_kinds:
  "set (welcomes 0 vs) = {(i, resp). i < length vs \<and> vs ! i = Welcomed resp}"
  "set (refusals 0 vs) = {(i, resp). i < length vs \<and> vs ! i = Refused resp}"
  "set (deaths 0 vs) = {i. i < length vs \<and> vs ! i = Dies}"
  by (auto simp: in_kinds)

lemma set_removals: "set (removals vs) = {i. i < length vs \<and> vs ! i \<noteq> Waits}"
proof -
  have fst: "i \<in> fst ` A \<longleftrightarrow> (\<exists>r. (i, r) \<in> A)" for i and A :: "(nat \<times> 'a) set" by force
  have "i \<in> set (removals vs) \<longleftrightarrow> i < length vs \<and> vs ! i \<noteq> Waits" for i
    by (cases "vs ! i") (auto simp: removals_def in_kinds fst)
  then show ?thesis by blast
qed

lemma distinct_removals: "distinct (removals vs)"
proof -
  have "distinct (map fst (welcomes 0 vs))" "distinct (map fst (refusals 0 vs))" "distinct (deaths 0 vs)"
    using kinds_ascending [of 0 vs] by (simp_all add: strict_sorted_iff)
  then show ?thesis by (auto simp: removals_def set_kinds)
qed

lemma but_at_removals:
  assumes "length xs = length vs"
  shows "but_at (set (removals vs)) xs = still_waiting vs xs"
proof -
  have "zip xs vs = map (\<lambda>(x, i). (x, vs ! i)) (zip xs [0..<length vs])"
    using assms by (intro nth_equalityI) auto
  then show ?thesis
    using assms by (auto simp: but_at_def nths_def still_waiting_def set_removals filter_map comp_def split_beta
      intro!: arg_cong [where f = "map fst"] filter_cong dest: set_zip_rightD)
qed

section \<open>The loop finds the verdicts\<close>

lemma idle_kinds:
  "welcomes i (replicate n Waits) = []" "refusals i (replicate n Waits) = []" "deaths i (replicate n Waits) = []"
  by (induction n arbitrary: i) simp_all

lemma con_loop_verdicts:
  "con_loop one d C timeout clk hook idx cons (as, rs, ds) h = (r, cons', h') \<Longrightarrow>
   verdicts one d C timeout clk hook idx cons h = Some (vs, h1) \<Longrightarrow>
   r = Ok (as @ welcomes idx vs, rs @ refusals idx vs, ds @ deaths idx vs) \<and> h' = h1 \<and> length vs = length cons"
proof (induction cons arbitrary: idx as rs ds h r cons' h' vs)
  case Nil
  then show ?case by auto
next
  case (Cons p cons)
  obtain con cid time where p: "p = (con, cid, time)" by (cases p)
  obtain q con1 where q: "handle_con_helper d C timeout (clk idx - time) con = (q, con1)" by fastforce
  show ?case
  proof (cases q)
    case (Inl e)
    then obtain e' where e: "q = Inl (IoErr e')" using Cons.prems(2) p q by (cases e) auto
    let ?ds = "if err_kind e' = WouldBlock then ds else ds @ [idx]"
    obtain r2 c2 h2 where l: "con_loop one d C timeout clk hook (Suc idx) cons (as, rs, ?ds) h = (r2, c2, h2)"
      by (metis prod_cases3)
    obtain vs2 where v: "verdicts one d C timeout clk hook (Suc idx) cons h = Some (vs2, h1)"
        "vs = (if err_kind e' = WouldBlock then Waits else Dies) # vs2"
      using Cons.prems(2) p q e by (auto split: option.splits)
    from Cons.IH [OF l v(1)] show ?thesis using Cons.prems(1) p q e l v(2) by (auto simp: Let_def split: if_splits)
  next
    case (Inr c)
    obtain acc resp h2 where hook: "hook cid c h = ((acc, resp), h2)" by (metis surj_pair)
    show ?thesis
    proof (cases one)
      case True
      then show ?thesis using Cons.prems p q Inr hook by (cases acc) (auto simp: idle_kinds)
    next
      case False
      let ?ls = "if acc then (as @ [(idx, resp)], rs, ds) else (as, rs @ [(idx, resp)], ds)"
      obtain r2 c2 h3 where l: "con_loop one d C timeout clk hook (Suc idx) cons ?ls h2 = (r2, c2, h3)"
        by (metis prod_cases3)
      obtain vs2 where v: "verdicts one d C timeout clk hook (Suc idx) cons h2 = Some (vs2, h1)"
          "vs = (if acc then Welcomed resp else Refused resp) # vs2"
        using Cons.prems(2) p q Inr hook False by (auto split: option.splits)
      show ?thesis
        using Cons.IH [of "Suc idx" "fst ?ls" "fst (snd ?ls)" "snd (snd ?ls)" h2 r2 c2 h3 vs2] l v
          Cons.prems(1) p q Inr hook False
        by (cases acc) auto
    qed
  qed
qed

section \<open>Settling\<close>

lemma accept_all_plucks:
  "server_accept_all now R as sv = (Ok (), sv') \<Longrightarrow>
   pluck (map fst as) (sv_new_cons sv) = Some (sv_new_cons sv')"
proof (induction as arbitrary: sv)
  case Nil
  then show ?case by simp
next
  case (Cons a as)
  obtain idx resp where a: "a = (idx, resp)" by (cases a)
  have idx: "idx < length (sv_new_cons sv)" using Cons.prems by (auto simp: a vec_remove_def split: if_splits)
  obtain con cid time where p: "sv_new_cons sv ! idx = (con, cid, time)" by (metis surj_pair)
  let ?sv = "sv\<lparr>sv_new_cons := take idx (sv_new_cons sv) @ drop (Suc idx) (sv_new_cons sv)\<rparr>"
  obtain q sv1 where q: "server_accept_incoming now cid con (AnyBox R resp) ?sv = (q, sv1)" by fastforce
  then have "q = Ok ()" "server_accept_all now R as sv1 = (Ok (), sv')"
    using Cons.prems p idx by (cases q; simp add: a vec_remove_def)+
  then show ?case using Cons.IH [of sv1] accept_incoming_frame [OF q] idx by (simp add: a)
qed

lemma reject_all_plucks:
  "server_reject_all R rs sv = (Ok (), sv') \<Longrightarrow>
   pluck (map fst rs) (sv_new_cons sv) = Some (sv_new_cons sv') \<and> sv_cid_addr sv' = sv_cid_addr sv"
proof (induction rs arbitrary: sv)
  case Nil
  then show ?case by simp
next
  case (Cons a rs)
  obtain idx resp where a: "a = (idx, resp)" by (cases a)
  have idx: "idx < length (sv_new_cons sv)" using Cons.prems by (auto simp: a vec_remove_def split: if_splits)
  obtain con cid time where p: "sv_new_cons sv ! idx = (con, cid, time)" by (metis surj_pair)
  let ?sv = "sv\<lparr>sv_new_cons := take idx (sv_new_cons sv) @ drop (Suc idx) (sv_new_cons sv)\<rparr>"
  have "server_reject_all R rs ?sv = (Ok (), sv')"
    using Cons.prems p idx
    by (cases "fst (server_reject_incoming con (AnyBox R resp) ?sv)") (simp_all add: a vec_remove_def Let_def)
  then show ?case using Cons.IH [of ?sv] idx by (simp add: a)
qed

lemma remove_dead_plucks:
  "server_remove_dead ds sv = (Ok (), sv') \<longleftrightarrow>
   (\<exists>cons. pluck ds (sv_new_cons sv) = Some cons \<and> sv' = sv\<lparr>sv_new_cons := cons\<rparr>)"
  by (induction ds arbitrary: sv) (auto simp: vec_remove_def)

lemma settle_plucks:
  assumes "server_settle now R (as, rs, ds) sv = (Ok (), sv')"
  shows "pluck (map fst as @ map fst rs @ ds) (sv_new_cons sv) = Some (sv_new_cons sv')"
proof -
  obtain q1 sv1 where 1: "server_accept_all now R as sv = (q1, sv1)" by fastforce
  then have q1: "q1 = Ok ()" using assms by (cases q1) (simp_all add: server_settle_def)
  obtain q2 sv2 where 2: "server_reject_all R rs sv1 = (q2, sv2)" by fastforce
  then have q2: "q2 = Ok ()" using assms 1 q1 by (cases q2) (simp_all add: server_settle_def)
  have 3: "server_remove_dead ds sv2 = (Ok (), sv')" using assms 1 2 q1 q2 by (simp add: server_settle_def)
  show ?thesis using accept_all_plucks [OF 1 [unfolded q1]] reject_all_plucks [OF 2 [unfolded q2]] 3
    by (auto simp: pluck_append remove_dead_plucks)
qed

text \<open>
  When every pending connection knows its peer and the table has a response type, settling by
  positions that are in range never fails.
\<close>

definition answerable :: "'v bincode \<Rightarrow> type_id \<Rightarrow> 'v server \<Rightarrow> bool" where
  "answerable bc R sv \<longleftrightarrow> wf_parts (sv_parts sv) \<and> codec_of bc (sv_parts sv) \<and>
     tid_map (sv_parts sv) R = Some RESPONSE_TYPE_MID \<and> transports (sv_parts sv) ! RESPONSE_TYPE_MID = TCP \<and>
     (\<forall>p \<in> set (sv_new_cons sv). peer_name (tc_tcp (fst p)) \<noteq> None)"

lemma accept_all_succeeds:
  "answerable bc R sv \<Longrightarrow> pluck (map fst as) (sv_new_cons sv) \<noteq> None \<Longrightarrow>
   \<exists>sv'. server_accept_all now R as sv = (Ok (), sv') \<and> answerable bc R sv'"
proof (induction as arbitrary: sv)
  case Nil
  then show ?case by simp
next
  case (Cons a as)
  obtain idx resp where a: "a = (idx, resp)" by (cases a)
  have idx: "idx < length (sv_new_cons sv)" using Cons.prems(2) by (simp add: a split: if_splits)
  obtain con cid time where p: "sv_new_cons sv ! idx = (con, cid, time)" by (metis surj_pair)
  let ?cons = "take idx (sv_new_cons sv) @ drop (Suc idx) (sv_new_cons sv)"
  have sub: "set ?cons \<subseteq> set (sv_new_cons sv)" by (auto dest: in_set_takeD in_set_dropD)
  have "(con, cid, time) \<in> set (sv_new_cons sv)" using idx p by (metis nth_mem)
  then obtain addr where addr: "peer_name (tc_tcp con) = Some addr" using Cons.prems(1) by (auto simp: answerable_def)
  obtain sv1 where sv1: "server_accept_incoming now cid con (AnyBox R resp) (sv\<lparr>sv_new_cons := ?cons\<rparr>) = (Ok (), sv1)"
      "answerable bc R sv1" "sv_new_cons sv1 = ?cons"
    using accept_incoming_ok [of "sv\<lparr>sv_new_cons := ?cons\<rparr>" bc R con addr now cid resp] Cons.prems(1) addr sub
    by (fastforce simp: answerable_def)
  show ?case using Cons.IH [OF sv1(2)] Cons.prems(2) sv1 p idx by (simp add: a vec_remove_def)
qed

lemma reject_all_succeeds:
  "answerable bc R sv \<Longrightarrow> pluck (map fst rs) (sv_new_cons sv) \<noteq> None \<Longrightarrow>
   \<exists>sv'. server_reject_all R rs sv = (Ok (), sv')"
proof (induction rs arbitrary: sv)
  case Nil
  then show ?case by simp
next
  case (Cons a rs)
  obtain idx resp where a: "a = (idx, resp)" by (cases a)
  have idx: "idx < length (sv_new_cons sv)" using Cons.prems(2) by (simp add: a split: if_splits)
  obtain con cid time where p: "sv_new_cons sv ! idx = (con, cid, time)" by (metis surj_pair)
  let ?sv = "sv\<lparr>sv_new_cons := take idx (sv_new_cons sv) @ drop (Suc idx) (sv_new_cons sv)\<rparr>"
  have ans: "answerable bc R ?sv" using Cons.prems(1) by (auto simp: answerable_def dest: in_set_takeD in_set_dropD)
  have "(con, cid, time) \<in> set (sv_new_cons sv)" using idx p by (metis nth_mem)
  then have "fst (server_reject_incoming con (AnyBox R resp) ?sv) = Ok ()"
    using Cons.prems(1) by (intro reject_incoming_ok) (auto simp: answerable_def)
  then show ?case using Cons.IH [OF ans] Cons.prems(2) p idx by (simp add: a vec_remove_def Let_def)
qed

lemma asc_desc: "sorted_wrt (<) (is :: nat list) \<Longrightarrow> sorted_wrt (>) is \<longleftrightarrow> length is \<le> 1"
  by (cases "is" rule: remdups_adj.cases) auto

lemma settle_right:
  assumes "answerable bc R sv" "length vs = length (sv_new_cons sv)" "sorted_wrt (>) (removals vs)"
  shows "\<exists>sv'. server_settle now R (welcomes 0 vs, refusals 0 vs, deaths 0 vs) sv = (Ok (), sv') \<and>
    sv_new_cons sv' = still_waiting vs (sv_new_cons sv) \<and>
    dom (sv_cid_addr sv') = dom (sv_cid_addr sv) \<union>
      {pending_cid (sv_new_cons sv ! i) | i resp. i < length vs \<and> vs ! i = Welcomed resp}"
proof -
  let ?as = "welcomes 0 vs" and ?rs = "refusals 0 vs" and ?ds = "deaths 0 vs" and ?cons = "sv_new_cons sv"
  have left: "pluck (map fst ?as @ map fst ?rs @ ?ds) ?cons = Some (still_waiting vs ?cons)"
    using pluck_descending [OF assms(3), of ?cons] but_at_removals [of ?cons vs] assms(2)
    by (simp add: set_removals) (simp add: removals_def)
  then obtain c1 c2 where c: "pluck (map fst ?as) ?cons = Some c1" "pluck (map fst ?rs) c1 = Some c2"
      "pluck ?ds c2 = Some (still_waiting vs ?cons)"
    by (auto simp: pluck_append bind_eq_Some_conv)
  obtain sv1 where 1: "server_accept_all now R ?as sv = (Ok (), sv1)" "answerable bc R sv1"
    using accept_all_succeeds [OF assms(1), of ?as] c(1) by blast
  have n1: "sv_new_cons sv1 = c1" using accept_all_plucks [OF 1(1)] c(1) by simp
  obtain sv2 where 2: "server_reject_all R ?rs sv1 = (Ok (), sv2)"
    using reject_all_succeeds [OF 1(2), of ?rs] c(2) n1 by blast
  have n2: "sv_new_cons sv2 = c2" "sv_cid_addr sv2 = sv_cid_addr sv1" using reject_all_plucks [OF 2] c(2) n1 by simp_all
  have settled: "server_settle now R (?as, ?rs, ?ds) sv = (Ok (), sv2\<lparr>sv_new_cons := still_waiting vs ?cons\<rparr>)"
    using 1(1) 2 c(3) n2 remove_dead_plucks [of ?ds sv2] by (simp add: server_settle_def)
  have "sorted_wrt (>) (map fst ?as)" using assms(3) by (simp add: removals_def sorted_wrt_append)
  then have "length ?as \<le> 1" using asc_desc [OF kinds_ascending(1) [of 0 vs]] by simp
  moreover have who: "{pending_cid (?cons ! i) | i resp. i < length vs \<and> vs ! i = Welcomed resp} =
      (\<lambda>x. pending_cid (?cons ! fst x)) ` set ?as"
    by (force simp: set_kinds)
  ultimately have "dom (sv_cid_addr sv1) = dom (sv_cid_addr sv) \<union> (\<lambda>x. pending_cid (?cons ! fst x)) ` set ?as"
  proof (cases ?as)
    case Nil
    then show ?thesis using 1(1) by simp
  next
    case (Cons a as)
    obtain idx resp where a: "?as = [(idx, resp)]" using Cons \<open>length ?as \<le> 1\<close> by (cases a) auto
    obtain con cid time where p: "?cons ! idx = (con, cid, time)" by (metis surj_pair)
    have idx: "idx < length ?cons" using c(1) a by (simp split: if_splits)
    then have "(con, cid, time) \<in> set ?cons" using p by (metis nth_mem)
    then obtain addr where "peer_name (tc_tcp con) = Some addr" using assms(1) by (auto simp: answerable_def)
    then obtain con' where "server_accept_incoming now cid con (AnyBox R resp)
        (sv\<lparr>sv_new_cons := take idx ?cons @ drop (Suc idx) ?cons\<rparr>) =
      (Ok (), sv\<lparr>sv_new_cons := take idx ?cons @ drop (Suc idx) ?cons, sv_tcp := (sv_tcp sv)(cid \<mapsto> con'),
         sv_addr_cid := (sv_addr_cid sv)(addr \<mapsto> cid), sv_cid_addr := (sv_cid_addr sv)(cid \<mapsto> addr)\<rparr>)"
      using accept_incoming_ok [of "sv\<lparr>sv_new_cons := take idx ?cons @ drop (Suc idx) ?cons\<rparr>" bc R con addr now cid resp]
        assms(1) by (auto simp: answerable_def)
    then have "sv_cid_addr sv1 = (sv_cid_addr sv)(cid \<mapsto> addr)"
      using 1(1) idx p by (auto simp: a vec_remove_def)
    then show ?thesis using p a by simp
  qed
  then show ?thesis using settled n2(2) who by simp
qed

lemma settle_right_iff:
  assumes "answerable bc R sv" "length vs = length (sv_new_cons sv)" "distinct (map pending_cid (sv_new_cons sv))"
  shows "(\<exists>sv'. server_settle now R (welcomes 0 vs, refusals 0 vs, deaths 0 vs) sv = (Ok (), sv') \<and>
      map pending_cid (sv_new_cons sv') = map pending_cid (still_waiting vs (sv_new_cons sv))) \<longleftrightarrow>
    sorted_wrt (>) (removals vs)"
proof
  assume "\<exists>sv'. server_settle now R (welcomes 0 vs, refusals 0 vs, deaths 0 vs) sv = (Ok (), sv') \<and>
      map pending_cid (sv_new_cons sv') = map pending_cid (still_waiting vs (sv_new_cons sv))"
  then obtain sv' where sv': "server_settle now R (welcomes 0 vs, refusals 0 vs, deaths 0 vs) sv = (Ok (), sv')"
      "map pending_cid (sv_new_cons sv') = map pending_cid (still_waiting vs (sv_new_cons sv))" by blast
  have "pluck (removals vs) (map pending_cid (sv_new_cons sv)) = Some (map pending_cid (sv_new_cons sv'))"
    using settle_plucks [OF sv'(1)] by (simp add: pluck_map removals_def)
  also have "\<dots> = Some (but_at (set (removals vs)) (map pending_cid (sv_new_cons sv)))"
    using sv'(2) assms(2) by (simp add: but_at_map but_at_removals)
  finally show "sorted_wrt (>) (removals vs)"
    using pluck_right_iff [OF assms(3) distinct_removals, of vs] assms(2) by (simp add: set_removals)
qed (use settle_right [OF assms(1,2)] in fastforce)

text \<open>With the \<open>break\<close>, the connection handled stands behind all the dead ones.\<close>

lemma one_verdict:
  "verdicts True d C timeout clk hook idx cons h = Some (vs, h') \<Longrightarrow>
   (\<exists>ds. (\<forall>v \<in> set ds. v = Waits \<or> v = Dies) \<and>
      (vs = ds \<or> (\<exists>r n. vs = ds @ Welcomed r # replicate n Waits \<or> vs = ds @ Refused r # replicate n Waits)))"
proof (induction cons arbitrary: idx h vs)
  case Nil
  then show ?case by (intro exI [of _ "[]"]) simp
next
  case (Cons p cons)
  obtain con cid time where p: "p = (con, cid, time)" by (cases p)
  show ?case
  proof (cases "fst (handle_con_helper d C timeout (clk idx - time) con)")
    case (Inl e)
    then obtain e' where e: "e = IoErr e'" using Cons.prems p by (cases e) auto
    obtain vs2 where v: "verdicts True d C timeout clk hook (Suc idx) cons h = Some (vs2, h')"
        "vs = (if err_kind e' = WouldBlock then Waits else Dies) # vs2"
      using Cons.prems p Inl e by (auto split: option.splits)
    let ?v = "if err_kind e' = WouldBlock then Waits else Dies :: 'a verdict"
    obtain ds where "\<forall>v \<in> set ds. v = Waits \<or> v = Dies"
        "vs2 = ds \<or> (\<exists>r n. vs2 = ds @ Welcomed r # replicate n Waits \<or> vs2 = ds @ Refused r # replicate n Waits)"
      using Cons.IH [OF v(1)] by blast
    then show ?thesis by (intro exI [of _ "?v # ds"]) (auto simp: v(2))
  next
    case (Inr c)
    then show ?thesis using Cons.prems p by (intro exI [of _ "[]"]) (auto split: prod.splits if_splits)
  qed
qed

lemma kinds_append:
  "welcomes i (us @ vs) = welcomes i us @ welcomes (i + length us) vs"
  "refusals i (us @ vs) = refusals i us @ refusals (i + length us) vs"
  "deaths i (us @ vs) = deaths i us @ deaths (i + length us) vs"
proof (induction us arbitrary: i)
  case (Cons u us)
  { case 1 then show ?case using Cons.IH(1) [of "Suc i"] by (cases u) simp_all }
  { case 2 then show ?case using Cons.IH(2) [of "Suc i"] by (cases u) simp_all }
  { case 3 then show ?case using Cons.IH(3) [of "Suc i"] by (cases u) simp_all }
qed simp_all

lemma kinds_plain:
  "\<forall>v \<in> set ds. v = Waits \<or> v = Dies \<Longrightarrow> welcomes i ds = [] \<and> refusals i ds = []"
  by (induction ds arbitrary: i) auto

lemma one_removals:
  assumes "verdicts True d C timeout clk hook idx cons h = Some (vs, h')"
  shows "sorted_wrt (>) (removals vs) \<longleftrightarrow> length (deaths 0 vs) \<le> 1"
proof -
  obtain ds where ds: "\<forall>v \<in> set ds. v = Waits \<or> v = Dies"
    and vs: "vs = ds \<or> (\<exists>r n. vs = ds @ Welcomed r # replicate n Waits \<or> vs = ds @ Refused r # replicate n Waits)"
    using one_verdict [OF assms] by blast
  have "deaths 0 vs = deaths 0 ds" using vs by (auto simp: kinds_append idle_kinds)
  moreover have "removals vs = deaths 0 ds \<or> removals vs = length ds # deaths 0 ds"
    using vs kinds_plain [OF ds] by (auto simp: removals_def kinds_append idle_kinds)
  moreover have "\<forall>j \<in> set (deaths 0 ds). j < length ds" using kinds_above(3) [of _ 0 ds] by fastforce
  ultimately show ?thesis using asc_desc [OF kinds_ascending(3) [of 0 ds]] by auto
qed

section \<open>Both functions\<close>

text \<open>What the loop leaves of the connections is as answerable, and has the same ids.\<close>

lemma loop_keeps:
  assumes "con_loop one d C timeout clk hook 0 (sv_new_cons sv) ls h = (r, cons', h')" "wf_server sv"
    and "answerable bc R sv"
  shows "wf_server (sv\<lparr>sv_new_cons := cons'\<rparr>)" "answerable bc R (sv\<lparr>sv_new_cons := cons'\<rparr>)"
    "map pending_cid cons' = map pending_cid (sv_new_cons sv)"
proof -
  note same = con_loop_keeps [OF assms(1)]
  show "wf_server (sv\<lparr>sv_new_cons := cons'\<rparr>)" using wf_same_pending [OF assms(2) same] .
  have "\<forall>p \<in> set (sv_new_cons sv). wf_con (fst p)" using assms(2) by (simp add: wf_server_defs)
  then have "\<forall>p \<in> set cons'. peer_name (tc_tcp (fst p)) \<noteq> None"
    using same assms(3) by (fastforce simp: answerable_def list_all2_conv_all_nth in_set_conv_nth same_pending_def)
  then show "answerable bc R (sv\<lparr>sv_new_cons := cons'\<rparr>)" using assms(3) by (simp add: answerable_def)
  show "map pending_cid cons' = map pending_cid (sv_new_cons sv)"
    using same by (auto simp: list_all2_conv_all_nth same_pending_def pending_cid_def intro: nth_equalityI)
qed

lemma still_waiting_map: "still_waiting vs (map f xs) = map f (still_waiting vs xs)"
  by (simp add: still_waiting_def zip_map1 filter_map comp_def case_prod_unfold)

text \<open>
  What should come of the verdicts: those that wait are pending, in order; and the live clients are
  those from before and the accepted ones.
\<close>

definition leaves_waiting :: "'v verdict list \<Rightarrow> 'v server \<Rightarrow> 'v server \<Rightarrow> bool" where
  "leaves_waiting vs sv sv' \<longleftrightarrow>
     map pending_cid (sv_new_cons sv') = still_waiting vs (map pending_cid (sv_new_cons sv))"

definition admits :: "'v verdict list \<Rightarrow> 'v server \<Rightarrow> 'v server \<Rightarrow> bool" where
  "admits vs sv sv' \<longleftrightarrow> dom (sv_cid_addr sv') = dom (sv_cid_addr sv) \<union>
     {pending_cid (sv_new_cons sv ! i) | i resp. i < length vs \<and> vs ! i = Welcomed resp}"

text \<open>The state in which both functions settle, and what comes of it.\<close>

lemma found_settles:
  assumes "wf_server sv" "answerable bc R sv"
    and "verdicts one (deser (sv_parts sv) ! CONNECTION_TYPE_MID) C timeout clk hook 0 (sv_new_cons sv) h = Some (vs, h')"
  obtains cons' q sv' where
    "con_loop one (deser (sv_parts sv) ! CONNECTION_TYPE_MID) C timeout clk hook 0 (sv_new_cons sv) ([], [], []) h =
      (Ok (welcomes 0 vs, refusals 0 vs, deaths 0 vs), cons', h')"
    "server_settle now R (welcomes 0 vs, refusals 0 vs, deaths 0 vs) (sv\<lparr>sv_new_cons := cons'\<rparr>) = (q, sv')"
    "q = Ok () \<and> leaves_waiting vs sv sv' \<longleftrightarrow> sorted_wrt (>) (removals vs)"
    "sorted_wrt (>) (removals vs) \<longrightarrow> admits vs sv sv'"
proof -
  obtain r cons' h2 where l: "con_loop one (deser (sv_parts sv) ! CONNECTION_TYPE_MID) C timeout clk hook 0 (sv_new_cons sv)
      ([], [], []) h = (r, cons', h2)" by (metis prod_cases3)
  from con_loop_verdicts [OF l assms(3)]
  have found: "r = Ok (welcomes 0 vs, refusals 0 vs, deaths 0 vs)" "h2 = h'" "length vs = length (sv_new_cons sv)" by simp_all
  let ?sv = "sv\<lparr>sv_new_cons := cons'\<rparr>"
  note k = loop_keeps [OF l assms(1,2)]
  have len: "length vs = length (sv_new_cons ?sv)" using arg_cong [OF k(3), of length] found(3) by simp
  have "distinct (map pending_cid (sv_new_cons ?sv))" using k(1) by (simp add: wf_server_defs)
  note iff = settle_right_iff [OF k(2) len this, of now]
  obtain q sv' where q: "server_settle now R (welcomes 0 vs, refusals 0 vs, deaths 0 vs) ?sv = (q, sv')" by fastforce
  have at: "pending_cid (cons' ! i) = pending_cid (sv_new_cons sv ! i)" if "i < length vs" for i
    using that arg_cong [OF k(3), of "\<lambda>xs. xs ! i"] len found(3) by simp
  then have who: "{pending_cid (cons' ! i) | i resp. i < length vs \<and> vs ! i = Welcomed resp} =
      {pending_cid (sv_new_cons sv ! i) | i resp. i < length vs \<and> vs ! i = Welcomed resp}" by force
  show thesis
  proof (rule that)
    show "con_loop one (deser (sv_parts sv) ! CONNECTION_TYPE_MID) C timeout clk hook 0 (sv_new_cons sv) ([], [], []) h =
      (Ok (welcomes 0 vs, refusals 0 vs, deaths 0 vs), cons', h')" using l found by simp
    show "q = Ok () \<and> leaves_waiting vs sv sv' \<longleftrightarrow> sorted_wrt (>) (removals vs)"
      using iff q k(3) by (simp add: leaves_waiting_def flip: still_waiting_map)
    show "sorted_wrt (>) (removals vs) \<longrightarrow> admits vs sv sv'"
      using settle_right [OF k(2) len, of now] q who by (simp add: admits_def)
  qed (rule q)
qed

section \<open>Properties of settling\<close>

text \<open>
  C19: When \<open>handle_new_cons\<close> does what it means to. Let \<open>vs\<close> be the verdicts on the pending
  connections. The call returns with exactly those still pending that wait, in order, if and only if
  the positions it removes come in descending order, accepted before rejected before dead: so there
  is at most one of each, the accepted one behind the rejected one behind the dead one. Then it
  returns how many it handled, and the live clients are those from before and the accepted one.
\<close>

theorem handle_new_cons_settles_iff:
  assumes "server_start_incoming oc sv = (Ok (), sv1)" "wf_server sv1" "answerable bc R sv1" "sv_new_cons sv1 \<noteq> []"
    and "verdicts False (deser (sv_parts sv1) ! CONNECTION_TYPE_MID) C (cfg_timeout (sv_config sv1)) clk hook 0
      (sv_new_cons sv1) h = Some (vs, h')"
  shows "\<exists>r sv'. server_handle_new_cons oc now clk C R hook h sv = (r, h', sv') \<and>
    ((\<exists>n. r = Ok n) \<and> leaves_waiting vs sv1 sv' \<longleftrightarrow> sorted_wrt (>) (removals vs)) \<and>
    (sorted_wrt (>) (removals vs) \<longrightarrow>
      r = Ok (word_of_nat (length (welcomes 0 vs) + length (refusals 0 vs))) \<and> admits vs sv1 sv')"
proof -
  obtain cons' q sv' where
    c: "con_loop False (deser (sv_parts sv1) ! CONNECTION_TYPE_MID) C (cfg_timeout (sv_config sv1)) clk hook 0
      (sv_new_cons sv1) ([], [], []) h = (Ok (welcomes 0 vs, refusals 0 vs, deaths 0 vs), cons', h')"
    "server_settle now R (welcomes 0 vs, refusals 0 vs, deaths 0 vs) (sv1\<lparr>sv_new_cons := cons'\<rparr>) = (q, sv')"
    and right: "q = Ok () \<and> leaves_waiting vs sv1 sv' \<longleftrightarrow> sorted_wrt (>) (removals vs)"
      "sorted_wrt (>) (removals vs) \<longrightarrow> admits vs sv1 sv'"
    using found_settles [OF assms(2,3,5), where now = now] .
  have "RESPONSE_TYPE_MID < length (deser (sv_parts sv1))" using assms(3) by (auto simp: answerable_def wf_parts_def)
  then have "index (deser (sv_parts sv1)) CONNECTION_TYPE_MID = Ok (deser (sv_parts sv1) ! CONNECTION_TYPE_MID)"
    by (auto simp: index_def mid_defs)
  then have "server_handle_new_cons oc now clk C R hook h sv =
      (and_then q (\<lambda>_. Ok (word_of_nat (length (welcomes 0 vs) + length (refusals 0 vs)))), h', sv')"
    using assms(1,4) c by (cases q) (simp_all add: server_handle_new_cons_def Let_def)
  then show ?thesis using right by (cases q) auto
qed

text \<open>
  C20: When \<open>handle_new_con\<close>, which stops at the first connection it calls the hook for, does what
  it means to: if and only if at most one of the connections before that one is dead.
\<close>

theorem handle_new_con_settles_iff:
  assumes "server_start_incoming oc sv = (Ok (), sv1)" "wf_server sv1" "answerable bc R sv1" "sv_new_cons sv1 \<noteq> []"
    and "verdicts True (deser (sv_parts sv1) ! CONNECTION_TYPE_MID) C (cfg_timeout (sv_config sv1)) clk hook 0
      (sv_new_cons sv1) h = Some (vs, h')"
  shows "\<exists>r sv'. server_handle_new_con oc now clk C R hook h sv = (r, h', sv') \<and>
    ((\<exists>b. r = Ok b) \<and> leaves_waiting vs sv1 sv' \<longleftrightarrow> length (deaths 0 vs) \<le> 1) \<and>
    (length (deaths 0 vs) \<le> 1 \<longrightarrow>
      r = Ok (welcomes 0 vs \<noteq> [] \<or> refusals 0 vs \<noteq> []) \<and> admits vs sv1 sv')"
proof -
  obtain cons' q sv' where
    c: "con_loop True (deser (sv_parts sv1) ! CONNECTION_TYPE_MID) C (cfg_timeout (sv_config sv1)) clk hook 0
      (sv_new_cons sv1) ([], [], []) h = (Ok (welcomes 0 vs, refusals 0 vs, deaths 0 vs), cons', h')"
    "server_settle now R (welcomes 0 vs, refusals 0 vs, deaths 0 vs) (sv1\<lparr>sv_new_cons := cons'\<rparr>) = (q, sv')"
    and right: "q = Ok () \<and> leaves_waiting vs sv1 sv' \<longleftrightarrow> sorted_wrt (>) (removals vs)"
      "sorted_wrt (>) (removals vs) \<longrightarrow> admits vs sv1 sv'"
    using found_settles [OF assms(2,3,5), where now = now] .
  have "RESPONSE_TYPE_MID < length (deser (sv_parts sv1))" using assms(3) by (auto simp: answerable_def wf_parts_def)
  then have "index (deser (sv_parts sv1)) CONNECTION_TYPE_MID = Ok (deser (sv_parts sv1) ! CONNECTION_TYPE_MID)"
    by (auto simp: index_def mid_defs)
  then have "server_handle_new_con oc now clk C R hook h sv =
      (and_then q (\<lambda>_. Ok (welcomes 0 vs \<noteq> [] \<or> refusals 0 vs \<noteq> [])), h', sv')"
    using assms(1,4) c by (cases q) (auto simp add: server_handle_new_con_def Let_def)
  then show ?thesis using right one_removals [OF assms(5)] by (cases q) auto
qed

section \<open>A run of each\<close>

text \<open>
  Four connections: the first is late, the second and third have sent \<open>4\<close> and \<open>5\<close>, the fourth
  has sent nothing yet. The hook wants \<open>5\<close>.
\<close>

definition demo_crowd :: "pending_con list" where
  "demo_crowd = [demo_pending 1 [], demo_pending 2 (frame 0 [4]), demo_pending 3 (frame 0 [5]), demo_pending 4 []]"

lemma demo_pending_cid [simp]: "pending_cid (demo_pending cid bs) = cid"
  by (simp add: demo_pending_def)

lemma demo_crowd_wf: "wf_server (demo_server demo_crowd)" "answerable demo_bincode 11 (demo_server demo_crowd)"
  using demo_parts_wf demo_pending_simps(4)
  by (auto simp: wf_server_defs demo_crowd_def answerable_def mid_defs wf_ucon_def)
    (auto simp: demo_server_def demo_ucon_def)

lemma four_verdicts:
  assumes "handle_con_helper d C t 6000000000 c1 = (Err TimedOut o1, c1')"
    and "handle_con_helper d C t 1 c2 = (Ok 4, c2')" "handle_con_helper d C t 1 c3 = (Ok 5, c3')"
    and "handle_con_helper d C t 1 c4 = (Inl (IoErr e), c4')" "err_kind e = WouldBlock"
  shows "verdicts one d C t (\<lambda>i. if i = 0 then 6000000000 else 1) (\<lambda>cid c h. ((c = (5 :: nat), 6), h + 1)) 0
      [(c1, 1, 0), (c2, 2, 0), (c3, 3, 0), (c4, 4, 0)] (0 :: nat) =
    Some (if one then [Dies, Refused 6, Waits, Waits] else [Dies, Refused 6, Welcomed 6, Waits], if one then 1 else 2)"
  using assms by (simp add: numeral_2_eq_2)

lemma demo_verdicts:
  "verdicts one (deser demo_parts ! CONNECTION_TYPE_MID) 10 5000000000 (\<lambda>i. if i = 0 then 6000000000 else 1)
     (\<lambda>cid c h. ((c = 5, 6), h + 1)) 0 demo_crowd (0 :: nat) =
   Some (if one then [Dies, Refused 6, Waits, Waits] else [Dies, Refused 6, Welcomed 6, Waits], if one then 1 else 2)"
proof -
  have ready: "ready_con demo_parts 10 5000000000 1 (fst (demo_pending cid (frame 0 [word_of_nat v]))) v"
    if "v < 256" for v cid
    unfolding ready_con_def using demo_deser [of v 10] that
    by (intro conjI exI [of _ "[word_of_nat v]"] exI [of _ "[]"]) (simp_all add: mid_defs fits_def)
  obtain c2 c3 where
    "handle_con_helper (deser demo_parts ! CONNECTION_TYPE_MID) 10 5000000000 1 (fst (demo_pending 2 (frame 0 [4]))) = (Ok 4, c2)"
    "handle_con_helper (deser demo_parts ! CONNECTION_TYPE_MID) 10 5000000000 1 (fst (demo_pending 3 (frame 0 [5]))) = (Ok 5, c3)"
    using helper_ready [OF ready [of 4 2]] helper_ready [OF ready [of 5 3]] by auto
  moreover have "waiting_con 5000000000 1 (fst (demo_pending 4 []))" by (simp add: waiting_con_def)
  from helper_waiting [OF this] obtain e c4 where "handle_con_helper (deser demo_parts ! CONNECTION_TYPE_MID) 10 5000000000 1 (fst (demo_pending 4 [])) =
      (Inl (IoErr e), c4)" "err_kind e = WouldBlock" by blast
  moreover have "handle_con_helper (deser demo_parts ! CONNECTION_TYPE_MID) 10 5000000000 6000000000 (fst (demo_pending 1 [])) =
      (Err TimedOut NoConnectionInTime, fst (demo_pending 1 []))"
    by (rule helper_late) (simp add: late_con_def)
  ultimately have "verdicts one (deser demo_parts ! CONNECTION_TYPE_MID) 10 5000000000 (\<lambda>i. if i = 0 then 6000000000 else 1)
      (\<lambda>cid c h. ((c = 5, 6), h + 1)) 0 [(fst (demo_pending 1 []), 1, 0), (fst (demo_pending 2 (frame 0 [4])), 2, 0),
        (fst (demo_pending 3 (frame 0 [5])), 3, 0), (fst (demo_pending 4 []), 4, 0)] (0 :: nat) =
      Some (if one then [Dies, Refused 6, Waits, Waits] else [Dies, Refused 6, Welcomed 6, Waits], if one then 1 else 2)"
    using four_verdicts by blast
  then show ?thesis by (simp add: demo_crowd_def demo_pending_def del: verdicts.simps)
qed

lemma demo_crowd_some: "sv_new_cons (demo_server demo_crowd) \<noteq> []"
  by (simp add: demo_crowd_def)

lemma demo_verdicts_false:
  "verdicts False (deser (sv_parts (demo_server demo_crowd)) ! CONNECTION_TYPE_MID) 10
     (cfg_timeout (sv_config (demo_server demo_crowd))) (\<lambda>i. if i = 0 then 6000000000 else 1)
     (\<lambda>cid c h. ((c = 5, 6), h + 1)) 0 (sv_new_cons (demo_server demo_crowd)) (0 :: nat) = Some ([Dies, Refused 6, Welcomed 6, Waits], 2)"
  by (simp only: demo_server_simps demo_verdicts if_True if_False)

lemma demo_verdicts_true:
  "verdicts True (deser (sv_parts (demo_server demo_crowd)) ! CONNECTION_TYPE_MID) 10
     (cfg_timeout (sv_config (demo_server demo_crowd))) (\<lambda>i. if i = 0 then 6000000000 else 1)
     (\<lambda>cid c h. ((c = 5, 6), h + 1)) 0 (sv_new_cons (demo_server demo_crowd)) (0 :: nat) = Some ([Dies, Refused 6, Waits, Waits], 1)"
  by (simp only: demo_server_simps demo_verdicts if_True if_False)

theorem handle_new_cons_settles_iff_witness:
  "\<exists>sv'. server_handle_new_cons True 0 (\<lambda>i. if i = 0 then 6000000000 else 1) 10 11 (\<lambda>cid c h. ((c = 5, 6), h + 1)) (0 :: nat)
      (demo_server demo_crowd) = (Ok 2, 2, sv') \<and>
    map pending_cid (sv_new_cons sv') = [4] \<and> dom (sv_cid_addr sv') = {3}"
proof -
  let ?vs = "[Dies, Refused 6, Welcomed 6, Waits] :: nat verdict list"
  have "sorted_wrt (>) (removals ?vs)" by (simp add: removals_def)
  moreover have "{pending_cid (demo_crowd ! i) | i resp. i < length ?vs \<and> ?vs ! i = Welcomed resp} = {3}"
    (is "?S = {3}")
  proof
    show "{3} \<subseteq> ?S" by (auto simp: demo_crowd_def intro: exI [of _ 2])
  qed (auto simp: less_Suc_eq demo_crowd_def)
  moreover have "still_waiting ?vs (map pending_cid demo_crowd) = [4]"
    by (simp add: still_waiting_def demo_crowd_def pending_cid_def)
  ultimately show ?thesis
    using handle_new_cons_settles_iff [OF demo_server_start demo_crowd_wf demo_crowd_some demo_verdicts_false, of True 0]
    by (simp add: leaves_waiting_def admits_def)
qed

theorem handle_new_con_settles_iff_witness:
  "\<exists>sv'. server_handle_new_con True 0 (\<lambda>i. if i = 0 then 6000000000 else 1) 10 11 (\<lambda>cid c h. ((c = 5, 6), h + 1)) (0 :: nat)
      (demo_server demo_crowd) = (Ok True, 1, sv') \<and>
    map pending_cid (sv_new_cons sv') = [3, 4] \<and> dom (sv_cid_addr sv') = {}"
proof -
  let ?vs = "[Dies, Refused 6, Waits, Waits] :: nat verdict list"
  have "length (deaths 0 ?vs) \<le> 1" by simp
  moreover have "{pending_cid (demo_crowd ! i) | i resp. i < length ?vs \<and> ?vs ! i = Welcomed resp} = {}"
  proof -
    have "?vs ! i \<noteq> Welcomed resp" if "i < length ?vs" for i resp using that by (auto simp: less_Suc_eq)
    then show ?thesis by blast
  qed
  moreover have "still_waiting ?vs (map pending_cid demo_crowd) = [3, 4]"
    by (simp add: still_waiting_def demo_crowd_def pending_cid_def)
  moreover obtain sv' where sv': "server_handle_new_con True 0 (\<lambda>i. if i = 0 then 6000000000 else 1) 10 11
      (\<lambda>cid c h. ((c = 5, 6), h + 1)) (0 :: nat) (demo_server demo_crowd) = (Ok True, 1, sv')"
      "leaves_waiting ?vs (demo_server demo_crowd) sv'" "admits ?vs (demo_server demo_crowd) sv'"
    using handle_new_con_settles_iff [OF demo_server_start demo_crowd_wf demo_crowd_some demo_verdicts_true, of True 0]
    by auto
  ultimately have "map pending_cid (sv_new_cons sv') = [3, 4]" "dom (sv_cid_addr sv') = {}"
    by (simp_all only: leaves_waiting_def admits_def demo_server_simps dom_empty Un_empty)
  then show ?thesis using sv'(1) by (intro exI [of _ sv'] conjI)
qed

end
