(* ===== verification/Round_Bounds.thy ===== *)
theory Round_Bounds
  imports Client Server_Properties
begin

text \<open>
  That a round of \<open>recv_msgs\<close> ends, whatever has arrived, and how many messages it can handle: a
  TCP message takes at least the four bytes of its header from its stream, a UDP message one
  datagram from the socket.
\<close>

lemma tcp_con_recv_takes:
  assumes "tcp_con_recv c = (Inr m, c')"
  shows "length (rx (tc_tcp c')) + 4 \<le> length (rx (tc_tcp c))"
proof -
  have read: "length (rx (tc_tcp d')) + 4 \<le> length (rx (tc_tcp d))"
    if "tcp_con_read d = (Inr m, d')" for d d'
    using that
    by (auto simp: tcp_con_read_def stream_read_exact_def Let_def res_simps split: sum.splits if_splits prod.splits)
  show ?thesis
    using assms read [of "c\<lparr>tc_buff := fill_front (take 4 (rx (tc_tcp c))) (tc_buff c)\<rparr>" c']
    by (auto simp: tcp_con_recv_def stream_peek_def Let_def rx_end_def
        split: sum.splits if_splits rx_state.splits)
qed

text \<open>A result that is a value or a panic, and \<open>k\<close> messages counted.\<close>

definition no_io_error :: "'a res \<Rightarrow> bool" where
  "no_io_error r \<longleftrightarrow> (case r of Inl (IoErr e) \<Rightarrow> False | _ \<Rightarrow> True)"

lemma no_io_error_simps [simp]:
  "no_io_error (Inr x)" "no_io_error (Inl (Panic p))" "\<not> no_io_error (Inl (IoErr e))"
  by (simp_all add: no_io_error_def)

lemma push_msg_no_io_error: "push_msg mid m buff = Inl e \<Longrightarrow> no_io_error (Inl e :: 'b res)"
  by (auto simp: push_msg_def index_def split: if_splits)

section \<open>The server's loops\<close>

lemma server_tcp_loop_bound:
  "server_tcp_loop cid (i, sv) = (r, i', sv') \<Longrightarrow> no_io_error r \<and>
   (\<exists>k. i' = i + word_of_nat k \<and> 4 * k \<le> length (server_rx cid sv)) \<and>
   (\<forall>c. c \<noteq> cid \<longrightarrow> server_rx c sv' = server_rx c sv) \<and> sv_udp sv' = sv_udp sv"
proof (induction "length (server_rx cid sv)" arbitrary: i sv rule: less_induct)
  case less
  obtain msg sv1 where recv: "server_recv_tcp cid sv = (msg, sv1)" by fastforce
  note frame = server_recv_tcp_frame [OF recv]
  have other: "\<forall>c. c \<noteq> cid \<longrightarrow> server_rx c sv1 = server_rx c sv" "sv_udp sv1 = sv_udp sv"
    by (simp_all add: frame(1) server_rx_def)
  show ?case
  proof (cases msg)
    case (Inl e)
    then show ?thesis using less.prems other
      by (cases e) (auto simp: server_tcp_loop.simps recv server_rx_def split: if_splits intro: exI [of _ 0])
  next
    case (Inr m)
    obtain mid net_msg where m: "m = (mid, net_msg)" by (cases m)
    have four: "length (server_rx cid sv1) + 4 \<le> length (server_rx cid sv)"
      using recv tcp_con_recv_takes [of "the (sv_tcp sv cid)"] Inr
      by (auto simp: server_recv_tcp_def server_rx_def split: option.splits prod.splits sum.splits)
    then have one: "\<exists>k. (1 :: u32) = word_of_nat k \<and> 4 * k \<le> length (server_rx cid sv)"
      by (intro exI [of _ 1]) simp
    show ?thesis
    proof (cases "mid = DISCONNECT_TYPE_MID")
      case True
      then show ?thesis using less.prems other one Inr
        by (auto simp: server_tcp_loop.simps recv m server_rx_def)
    next
      case not_disc: False
      show ?thesis
      proof (cases "push_msg mid net_msg (sv_msg_buff sv1)")
        case (Inl e)
        then show ?thesis using less.prems other one Inr not_disc push_msg_no_io_error [OF Inl]
          by (auto simp: server_tcp_loop.simps recv m)
      next
        case push: (Inr buff)
        let ?sv2 = "sv1\<lparr>sv_msg_buff := buff\<rparr>"
        have loop: "server_tcp_loop cid (i + 1, ?sv2) = (r, i', sv')"
          using less.prems Inr not_disc push by (simp add: server_tcp_loop.simps [of cid i] recv m)
        have same: "server_rx c ?sv2 = server_rx c sv1" for c by (simp add: server_rx_def)
        have "length (server_rx cid ?sv2) < length (server_rx cid sv)" using four same by simp
        from less.hyps [OF this loop] obtain k where k: "no_io_error r" "i' = i + 1 + word_of_nat k"
            "4 * k \<le> length (server_rx cid sv1)" "\<forall>c. c \<noteq> cid \<longrightarrow> server_rx c sv' = server_rx c sv1"
            "sv_udp sv' = sv_udp sv1"
          using same by auto
        have "i' = i + word_of_nat (Suc k)" "4 * Suc k \<le> length (server_rx cid sv)" using k(2,3) four by simp_all
        then show ?thesis using k(1,4,5) other by metis
      qed
    qed
  qed
qed

lemma server_udp_loop_bound:
  "server_udp_loop oc (i, sv) = (r, i', sv') \<Longrightarrow> no_io_error r \<and>
   (\<exists>k. i' = i + word_of_nat k \<and> k \<le> length (urx (uc_udp (sv_udp sv))))"
proof (induction "length (urx (uc_udp (sv_udp sv)))" arbitrary: i sv rule: less_induct)
  case less
  obtain msg sv1 where recv: "server_recv_udp oc sv = (msg, sv1)" by fastforce
  note frame = server_recv_udp_frame [OF recv]
  show ?case
  proof (cases msg)
    case (Inl e)
    then show ?thesis using less.prems
      by (cases e) (auto simp: server_udp_loop.simps recv intro: exI [of _ 0])
  next
    case (Inr m)
    obtain mid net_msg where m: "m = (mid, net_msg)" by (cases m)
    have one: "length (urx (uc_udp (sv_udp sv))) = Suc (length (urx (uc_udp (sv_udp sv1))))"
      using frame(2,3) Inr by (cases "urx (uc_udp (sv_udp sv))") auto
    then have one': "\<exists>k. (1 :: u32) = word_of_nat k \<and> k \<le> length (urx (uc_udp (sv_udp sv)))"
      by (intro exI [of _ 1]) simp
    show ?thesis
    proof (cases "push_msg mid net_msg (sv_msg_buff sv1)")
      case (Inl e)
      then show ?thesis using less.prems one' Inr push_msg_no_io_error [OF Inl]
        by (auto simp: server_udp_loop.simps recv m)
    next
      case push: (Inr buff)
      let ?sv2 = "sv1\<lparr>sv_msg_buff := buff\<rparr>"
      have loop: "server_udp_loop oc (i + 1, ?sv2) = (r, i', sv')"
        using less.prems Inr push by (simp add: server_udp_loop.simps [of oc i] recv m)
      have "length (urx (uc_udp (sv_udp ?sv2))) < length (urx (uc_udp (sv_udp sv)))" using one by simp
      from less.hyps [OF this loop] obtain k where k: "no_io_error r" "i' = i + 1 + word_of_nat k"
          "k \<le> length (urx (uc_udp (sv_udp sv1)))" by auto
      have "i' = i + word_of_nat (Suc k)" "Suc k \<le> length (urx (uc_udp (sv_udp sv)))" using k(2,3) one by simp_all
      then show ?thesis using k(1) by metis
    qed
  qed
qed

lemma server_tcp_loops_bound:
  "server_tcp_loops cids (i, sv) = (r, i', sv') \<Longrightarrow> distinct cids \<Longrightarrow> no_io_error r \<and>
   (\<exists>k. i' = i + word_of_nat k \<and> k \<le> (\<Sum>c \<leftarrow> cids. length (server_rx c sv) div 4)) \<and> sv_udp sv' = sv_udp sv"
proof (induction cids arbitrary: i sv)
  case Nil
  then show ?case by (auto intro: exI [of _ 0])
next
  case (Cons c cids)
  obtain q j sv1 where loop: "server_tcp_loop c (i, sv) = (q, j, sv1)" by (metis prod_cases3)
  from server_tcp_loop_bound [OF loop] obtain k where k: "no_io_error q" "j = i + word_of_nat k"
      "4 * k \<le> length (server_rx c sv)" "\<forall>d. d \<noteq> c \<longrightarrow> server_rx d sv1 = server_rx d sv" "sv_udp sv1 = sv_udp sv"
    by blast
  have mine: "k \<le> length (server_rx c sv) div 4" using k(3) by simp
  show ?case
  proof (cases q)
    case (Inl e)
    then have "r = Inl e" "i' = j" "sv' = sv1" using Cons.prems(1) loop by simp_all
    then show ?thesis using k(1,2,5) mine Inl by (auto intro!: exI [of _ k])
  next
    case (Inr x)
    then have rest: "server_tcp_loops cids (j, sv1) = (r, i', sv')" "distinct cids" using Cons.prems loop by simp_all
    have "map (\<lambda>c. length (server_rx c sv1) div 4) cids = map (\<lambda>c. length (server_rx c sv) div 4) cids"
      using k(4) Cons.prems(2) by auto
    with Cons.IH [OF rest] obtain k' where k': "no_io_error r" "i' = j + word_of_nat k'"
        "k' \<le> (\<Sum>c \<leftarrow> cids. length (server_rx c sv) div 4)" "sv_udp sv' = sv_udp sv1"
      by auto
    have "i' = i + word_of_nat (k + k')" using k(2) k'(2) by simp
    then show ?thesis using k'(1,3,4) k(5) mine by (auto intro!: exI [of _ "k + k'"])
  qed
qed

section \<open>The client's loops\<close>

lemma client_tcp_loop_bound:
  "client_tcp_loop (i, cl) = (r, i', cl') \<Longrightarrow> no_io_error r \<and>
   (\<exists>k. i' = i + word_of_nat k \<and> 4 * k \<le> length (rx (tc_tcp (cl_tcp cl)))) \<and> cl_udp cl' = cl_udp cl"
proof (induction "length (rx (tc_tcp (cl_tcp cl)))" arbitrary: i cl rule: less_induct)
  case less
  obtain msg cl1 where recv: "client_recv_tcp cl = (msg, cl1)" by fastforce
  have udp: "cl_udp cl1 = cl_udp cl" by (simp add: client_recv_tcp_frame(1) [OF recv])
  show ?case
  proof (cases "connected (cl_status cl)")
    case False
    then show ?thesis using less.prems by (auto simp: client_tcp_loop.simps intro: exI [of _ 0])
  next
    case True
    show ?thesis
    proof (cases msg)
      case (Inl e)
      have ended: "client_tcp_loop (i, cl1\<lparr>cl_status := Dropped x\<rparr>) = (Ok (), i, cl1\<lparr>cl_status := Dropped x\<rparr>)" for x
        by (simp add: client_tcp_loop.simps connected_def)
      show ?thesis using less.prems True udp Inl
        by (cases e) (auto simp: client_tcp_loop.simps [of i cl] recv ended split: if_splits intro: exI [of _ 0])
    next
      case (Inr m)
      obtain mid net_msg where m: "m = (mid, net_msg)" by (cases m)
      have four: "length (rx (tc_tcp (cl_tcp cl1))) + 4 \<le> length (rx (tc_tcp (cl_tcp cl)))"
        using recv tcp_con_recv_takes [of "cl_tcp cl"] Inr
        by (auto simp: client_recv_tcp_def split: prod.splits sum.splits)
      then have one: "\<exists>k. (1 :: u32) = word_of_nat k \<and> 4 * k \<le> length (rx (tc_tcp (cl_tcp cl)))"
        by (intro exI [of _ 1]) simp
      consider "mid = DISCONNECT_TYPE_MID" | e where "mid \<noteq> DISCONNECT_TYPE_MID" "push_msg mid net_msg (cl_msg_buff cl1) = Inl e"
        | buff where "mid \<noteq> DISCONNECT_TYPE_MID" "push_msg mid net_msg (cl_msg_buff cl1) = Inr buff"
        by (cases "push_msg mid net_msg (cl_msg_buff cl1)") blast+
      then show ?thesis
      proof cases
        case 1
        have ended: "client_tcp_loop (i + 1, cl1\<lparr>cl_status := Disconnected x\<rparr>) =
            (Ok (), i + 1, cl1\<lparr>cl_status := Disconnected x\<rparr>)" for x
          by (simp add: client_tcp_loop.simps connected_def)
        show ?thesis using less.prems True one udp Inr 1
          by (auto simp: client_tcp_loop.simps [of i cl] recv m ended)
      next
        case 2
        then show ?thesis using less.prems True one udp Inr push_msg_no_io_error [OF 2(2)]
          by (auto simp: client_tcp_loop.simps [of i cl] recv m)
      next
        case 3
        have loop: "client_tcp_loop (i + 1, cl1\<lparr>cl_msg_buff := buff\<rparr>) = (r, i', cl')"
          using less.prems True Inr 3 by (simp add: client_tcp_loop.simps [of i cl] recv m)
        have "length (rx (tc_tcp (cl_tcp (cl1\<lparr>cl_msg_buff := buff\<rparr>)))) < length (rx (tc_tcp (cl_tcp cl)))"
          using four by simp
        from less.hyps [OF this loop] obtain k where k: "no_io_error r" "i' = i + 1 + word_of_nat k"
            "4 * k \<le> length (rx (tc_tcp (cl_tcp cl1)))" "cl_udp cl' = cl_udp cl1" by auto
        have "i' = i + word_of_nat (Suc k)" "4 * Suc k \<le> length (rx (tc_tcp (cl_tcp cl)))" using k(2,3) four by simp_all
        then show ?thesis using k(1,4) udp by metis
      qed
    qed
  qed
qed

lemma client_udp_loop_bound:
  "client_udp_loop oc (i, cl) = (r, i', cl') \<Longrightarrow> no_io_error r \<and>
   (\<exists>k. i' = i + word_of_nat k \<and> k \<le> length (urx (uc_udp (cl_udp cl))))"
proof (induction "length (urx (uc_udp (cl_udp cl)))" arbitrary: i cl rule: less_induct)
  case less
  obtain msg cl1 where recv: "client_recv_udp oc cl = (msg, cl1)" by fastforce
  note frame = client_recv_udp_frame [OF recv]
  show ?case
  proof (cases "connected (cl_status cl)")
    case False
    then show ?thesis using less.prems by (auto simp: client_udp_loop.simps intro: exI [of _ 0])
  next
    case True
    have shorter: "length (urx (uc_udp (cl_udp cl))) = Suc (length (urx (uc_udp (cl_udp cl1))))"
      if "msg \<noteq> Err WouldBlock OsMessage"
      using frame(2,3) that by (cases "urx (uc_udp (cl_udp cl))") auto
    consider p where "msg = panics p" | e where "msg = Inl (IoErr e)" "err_kind e = WouldBlock"
      | e where "msg = Inl (IoErr e)" "err_kind e \<noteq> WouldBlock"
      | mid net_msg e where "msg = Inr (mid, net_msg)" "push_msg mid net_msg (cl_msg_buff cl1) = Inl e"
      | mid net_msg buff where "msg = Inr (mid, net_msg)" "push_msg mid net_msg (cl_msg_buff cl1) = Inr buff"
      by (metis fail.exhaust old.sum.exhaust surj_pair)
    then show ?thesis
    proof cases
      case 3
      then have loop: "client_udp_loop oc (i, cl1) = (r, i', cl')"
        using less.prems True by (simp add: client_udp_loop.simps [of oc i cl] recv)
      have "length (urx (uc_udp (cl_udp cl1))) < length (urx (uc_udp (cl_udp cl)))" using shorter 3 by (cases e) auto
      from less.hyps [OF this loop] show ?thesis using shorter 3 by force
    next
      case (4 mid net_msg e)
      then have "r = Inl e" "i' = i + 1"
        using less.prems True by (simp_all add: client_udp_loop.simps [of oc i cl] recv)
      then show ?thesis using shorter 4 push_msg_no_io_error [OF 4(2)] by (intro conjI exI [of _ 1]) simp_all
    next
      case (5 mid net_msg buff)
      let ?cl2 = "cl1\<lparr>cl_msg_buff := buff\<rparr>"
      have loop: "client_udp_loop oc (i + 1, ?cl2) = (r, i', cl')"
        using less.prems True 5 by (simp add: client_udp_loop.simps [of oc i cl] recv)
      have "length (urx (uc_udp (cl_udp ?cl2))) < length (urx (uc_udp (cl_udp cl)))" using shorter 5 by simp
      from less.hyps [OF this loop] obtain k where k: "no_io_error r" "i' = i + 1 + word_of_nat k"
          "k \<le> length (urx (uc_udp (cl_udp cl1)))" by auto
      have "i' = i + word_of_nat (Suc k)" "Suc k \<le> length (urx (uc_udp (cl_udp cl)))" using k(2,3) shorter 5 by simp_all
      then show ?thesis using k(1) by metis
    qed (use less.prems True in \<open>auto simp: client_udp_loop.simps [of oc i cl] recv intro: exI [of _ 0]\<close>)
  qed
qed

section \<open>Properties of rounds\<close>

lemma no_io_error_cases: "no_io_error r \<Longrightarrow> (\<exists>x. r = Inr x) \<or> (\<exists>p. r = panics p)"
  by (auto simp: no_io_error_def split: sum.splits fail.splits)

lemma unat_word_le: "k \<le> n \<Longrightarrow> unat (word_of_nat k :: u32) \<le> n"
  by (metis le_trans unat_of_nat mod_less_eq_dividend)

lemma client_round_returns:
  "\<exists>r cl'. client_recv_msgs oc cl = (r, cl') \<and> ((\<exists>p. r = panics p) \<or>
    (\<exists>n. r = Ok n \<and> unat n \<le> length (rx (tc_tcp (cl_tcp cl))) div 4 + length (urx (uc_udp (cl_udp cl)))))"
proof -
  obtain q j cl1 where tcp: "client_tcp_loop (0, cl) = (q, j, cl1)" by (metis prod_cases3)
  from client_tcp_loop_bound [OF tcp] obtain k where k: "no_io_error q" "j = word_of_nat k"
      "4 * k \<le> length (rx (tc_tcp (cl_tcp cl)))" "cl_udp cl1 = cl_udp cl" by auto
  obtain q' j' cl2 where udp: "client_udp_loop oc (j, cl1) = (q', j', cl2)" by (metis prod_cases3)
  from client_udp_loop_bound [OF udp] obtain k' where k': "no_io_error q'" "j' = word_of_nat (k + k')"
      "k' \<le> length (urx (uc_udp (cl_udp cl)))" using k(2,4) by auto
  have "unat j' \<le> length (rx (tc_tcp (cl_tcp cl))) div 4 + length (urx (uc_udp (cl_udp cl)))"
    unfolding k'(2) using k(3) k'(3) by (intro unat_word_le) simp
  then show ?thesis
    using no_io_error_cases [OF k(1)] no_io_error_cases [OF k'(1)] tcp udp by (auto simp: client_recv_msgs_def)
qed

lemma server_round_count:
  assumes "wf_server sv" "key_order ko"
  shows "\<exists>r sv'. server_recv_msgs ko oc sv = (r, sv') \<and> ((\<exists>p. r = panics p) \<or>
    (\<exists>n. r = Ok n \<and> unat n \<le>
       (\<Sum>c \<in> dom (sv_cid_addr sv). length (server_rx c sv) div 4) + length (urx (uc_udp (sv_udp sv)))))"
proof -
  let ?cids = "server_cids ko sv"
  have cids: "distinct ?cids" "set ?cids = dom (sv_cid_addr sv)" using key_order_cids [OF assms(2,1)] by simp_all
  obtain q j sv1 where tcp: "server_tcp_loops ?cids (0, sv) = (q, j, sv1)" by (metis prod_cases3)
  from server_tcp_loops_bound [OF tcp cids(1)] obtain k where k: "no_io_error q" "j = word_of_nat k"
      "k \<le> (\<Sum>c \<leftarrow> ?cids. length (server_rx c sv) div 4)" "sv_udp sv1 = sv_udp sv" by auto
  have sum: "(\<Sum>c \<leftarrow> ?cids. length (server_rx c sv) div 4) = (\<Sum>c \<in> dom (sv_cid_addr sv). length (server_rx c sv) div 4)"
    using sum_list_distinct_conv_sum_set [OF cids(1)] cids(2) by simp
  obtain q' j' sv2 where udp: "server_udp_loop oc (j, sv1) = (q', j', sv2)" by (metis prod_cases3)
  from server_udp_loop_bound [OF udp] obtain k' where k': "no_io_error q'" "j' = word_of_nat (k + k')"
      "k' \<le> length (urx (uc_udp (sv_udp sv)))" using k(2,4) by auto
  have "unat j' \<le> (\<Sum>c \<in> dom (sv_cid_addr sv). length (server_rx c sv) div 4) + length (urx (uc_udp (sv_udp sv)))"
    unfolding k'(2) using k(3) k'(3) sum by (intro unat_word_le) simp
  then show ?thesis
    using no_io_error_cases [OF k(1)] no_io_error_cases [OF k'(1)] tcp udp by (auto simp: server_recv_msgs_def)
qed

section \<open>The turns of the server's loops\<close>

text \<open>
  Rust's \<open>loop\<close> by rules: \<open>n\<close> turns of the body, the last of which breaks or fails, lead from a state
  to a result. A loop that never ends has no derivation.
\<close>

inductive loop_turns :: "('s \<Rightarrow> bool res \<times> 's) \<Rightarrow> nat \<Rightarrow> 's \<Rightarrow> unit res \<times> 's \<Rightarrow> bool" for turn where
  turn_breaks: "turn s = (Inr True, s') \<Longrightarrow> loop_turns turn 1 s (Ok (), s')"
| turn_fails: "turn s = (Inl e, s') \<Longrightarrow> loop_turns turn 1 s (Inl e, s')"
| turn_again: "turn s = (Inr False, s1) \<Longrightarrow> loop_turns turn n s1 out \<Longrightarrow> loop_turns turn (Suc n) s out"

text \<open>The same for \<open>for c in cs { loop { .. } }\<close>, with the turns of all loops added up.\<close>

inductive for_turns :: "('c \<Rightarrow> 's \<Rightarrow> bool res \<times> 's) \<Rightarrow> nat \<Rightarrow> 'c list \<Rightarrow> 's \<Rightarrow> unit res \<times> 's \<Rightarrow> bool" for turn where
  for_ends: "for_turns turn 0 [] s (Ok (), s)"
| for_next: "loop_turns (turn c) n s (Ok (), s1) \<Longrightarrow> for_turns turn k cs s1 out \<Longrightarrow> for_turns turn (n + k) (c # cs) s out"
| for_fails: "loop_turns (turn c) n s (Inl e, s1) \<Longrightarrow> for_turns turn n (c # cs) s (Inl e, s1)"

lemma loop_turns_det: "loop_turns turn n s out \<Longrightarrow> loop_turns turn k s out' \<Longrightarrow> k = n \<and> out' = out"
proof (induction arbitrary: k out' rule: loop_turns.induct)
  case (turn_again s s1 n out)
  from turn_again.prems turn_again.hyps(1) turn_again.IH show ?case by (cases rule: loop_turns.cases) auto
qed (auto elim: loop_turns.cases)

text \<open>A loop each of whose further turns lowers a measure ends.\<close>

lemma loop_turns_bound:
  assumes "\<And>s s'. turn s = (Inr False, s') \<Longrightarrow> f s' < (f s :: nat)"
  shows "\<exists>n out. loop_turns turn n s out \<and> n \<le> Suc (f s)"
proof (induction "f s" arbitrary: s rule: less_induct)
  case less
  obtain r s1 where turn: "turn s = (r, s1)" by fastforce
  show ?case
  proof (cases "r = Inr False")
    case True
    then have "f s1 < f s" using assms turn by simp
    from less.hyps [OF this] obtain n out where "loop_turns turn n s1 out" "n \<le> Suc (f s1)" by blast
    then show ?thesis using turn_again [of turn s s1 n out] turn True \<open>f s1 < f s\<close>
      by (intro exI [of _ "Suc n"] exI [of _ out]) simp
  next
    case False
    then have "loop_turns turn 1 s (Ok (), s1) \<or> (\<exists>e. loop_turns turn 1 s (Inl e, s1))"
      using turn turn_breaks [of turn s s1] turn_fails [of turn s _ s1] by (cases r) auto
    then show ?thesis by (metis One_nat_def Suc_le_mono le0)
  qed
qed

text \<open>The bodies of the two loops of \<open>recv_msgs\<close>, and a whole call as its loops' turns.\<close>

definition server_tcp_turn :: "cid \<Rightarrow> u32 \<times> 'v server \<Rightarrow> bool res \<times> u32 \<times> 'v server" where
  "server_tcp_turn cid s =
     (case s of (i, sv) \<Rightarrow> case server_recv_tcp cid sv of (msg, sv) \<Rightarrow> server_handle_tcp_msg cid msg (i, sv))"

definition server_udp_turn :: "bool \<Rightarrow> u32 \<times> 'v server \<Rightarrow> bool res \<times> u32 \<times> 'v server" where
  "server_udp_turn oc s =
     (case s of (i, sv) \<Rightarrow> case server_recv_udp oc sv of (msg, sv) \<Rightarrow> server_handle_udp_msg msg (i, sv))"

inductive round_turns ::
    "((cid \<rightharpoonup> sock_addr) \<Rightarrow> cid list) \<Rightarrow> bool \<Rightarrow> nat \<Rightarrow> 'v server \<Rightarrow> u32 res \<times> 'v server \<Rightarrow> bool" for ko oc where
  round_tcp_fails: "for_turns server_tcp_turn n (server_cids ko sv) (0, sv) (Inl e, i, sv') \<Longrightarrow>
    round_turns ko oc n sv (Inl e, sv')"
| round_udp_fails: "for_turns server_tcp_turn n (server_cids ko sv) (0, sv) (Ok (), s) \<Longrightarrow>
    loop_turns (server_udp_turn oc) k s (Inl e, i, sv') \<Longrightarrow> round_turns ko oc (n + k) sv (Inl e, sv')"
| round_returns: "for_turns server_tcp_turn n (server_cids ko sv) (0, sv) (Ok (), s) \<Longrightarrow>
    loop_turns (server_udp_turn oc) k s (Ok (), i, sv') \<Longrightarrow> round_turns ko oc (n + k) sv (Ok i, sv')"

lemma server_tcp_turns: "loop_turns (server_tcp_turn cid) n s out \<Longrightarrow> server_tcp_loop cid s = out"
proof (induction rule: loop_turns.induct)
  case (turn_breaks s s')
  then show ?case by (cases s) (simp add: server_tcp_turn_def server_tcp_loop.simps split: prod.splits)
next
  case (turn_fails s e s')
  then show ?case by (cases s) (simp add: server_tcp_turn_def server_tcp_loop.simps split: prod.splits)
next
  case (turn_again s s1 n out)
  obtain i sv msg sv1 where s: "s = (i, sv)" "server_recv_tcp cid sv = (msg, sv1)" by (metis surj_pair)
  then show ?case using turn_again by (simp add: server_tcp_turn_def server_tcp_loop.simps [of cid i])
qed

lemma server_udp_turns: "loop_turns (server_udp_turn oc) n s out \<Longrightarrow> server_udp_loop oc s = out"
proof (induction rule: loop_turns.induct)
  case (turn_breaks s s')
  then show ?case by (cases s) (simp add: server_udp_turn_def server_udp_loop.simps split: prod.splits)
next
  case (turn_fails s e s')
  then show ?case by (cases s) (simp add: server_udp_turn_def server_udp_loop.simps split: prod.splits)
next
  case (turn_again s s1 n out)
  obtain i sv msg sv1 where s: "s = (i, sv)" "server_recv_udp oc sv = (msg, sv1)" by (metis surj_pair)
  then show ?case using turn_again by (simp add: server_udp_turn_def server_udp_loop.simps [of oc i])
qed

lemma server_tcp_turn_bound:
  "\<exists>n. loop_turns (server_tcp_turn cid) n (i, sv) (server_tcp_loop cid (i, sv)) \<and> n \<le> length (server_rx cid sv) div 4 + 1"
proof -
  let ?f = "\<lambda>(i :: u32, sv). length (server_rx cid sv) div 4"
  have "?f s' < ?f s" if t: "server_tcp_turn cid s = (Inr False, s')" for s s' :: "u32 \<times> 'a server"
  proof -
    obtain i sv msg sv1 where s: "s = (i, sv)" "server_recv_tcp cid sv = (msg, sv1)" by (metis surj_pair)
    obtain m buff where m: "msg = Inr m" "s' = (i + 1, sv1\<lparr>sv_msg_buff := buff\<rparr>)"
      using server_handle_tcp_continues [of cid msg i sv1 s'] t s by (fastforce simp: server_tcp_turn_def)
    have "length (server_rx cid sv1) + 4 \<le> length (server_rx cid sv)"
      using s(2) m(1) tcp_con_recv_takes [of "the (sv_tcp sv cid)"]
      by (auto simp: server_recv_tcp_def server_rx_def split: option.splits prod.splits sum.splits)
    then show ?thesis by (simp add: s(1) m(2)) (simp add: server_rx_def)
  qed
  from loop_turns_bound [of "server_tcp_turn cid" ?f, OF this, of "(i, sv)"] obtain n out where
    "loop_turns (server_tcp_turn cid) n (i, sv) out" "n \<le> length (server_rx cid sv) div 4 + 1" by auto
  with server_tcp_turns [OF this(1)] show ?thesis by blast
qed

lemma server_udp_turn_bound:
  "\<exists>n. loop_turns (server_udp_turn oc) n (i, sv) (server_udp_loop oc (i, sv)) \<and> n \<le> length (urx (uc_udp (sv_udp sv))) + 1"
proof -
  let ?f = "\<lambda>(i :: u32, sv). length (urx (uc_udp (sv_udp sv)))"
  have "?f s' < ?f s" if t: "server_udp_turn oc s = (Inr False, s')" for s s' :: "u32 \<times> 'a server"
  proof -
    obtain i sv msg sv1 where s: "s = (i, sv)" "server_recv_udp oc sv = (msg, sv1)" by (metis surj_pair)
    obtain m buff where m: "msg = Inr m" "s' = (i + 1, sv1\<lparr>sv_msg_buff := buff\<rparr>)"
      using server_handle_udp_continues [of msg i sv1 s'] t s by (fastforce simp: server_udp_turn_def)
    show ?thesis using server_recv_udp_frame(2,3) [OF s(2)] m(1)
      by (cases "urx (uc_udp (sv_udp sv))") (simp_all add: s(1) m(2))
  qed
  from loop_turns_bound [of "server_udp_turn oc" ?f, OF this, of "(i, sv)"] obtain n out where
    "loop_turns (server_udp_turn oc) n (i, sv) out" "n \<le> length (urx (uc_udp (sv_udp sv))) + 1" by auto
  with server_udp_turns [OF this(1)] show ?thesis by blast
qed

lemma server_tcp_loops_turns:
  "distinct cids \<Longrightarrow> \<exists>n. for_turns server_tcp_turn n cids (i, sv) (server_tcp_loops cids (i, sv)) \<and>
     n \<le> (\<Sum>c \<leftarrow> cids. length (server_rx c sv) div 4 + 1)"
proof (induction cids arbitrary: i sv)
  case Nil
  then show ?case by (auto intro: for_ends)
next
  case (Cons c cids)
  obtain q j sv1 where loop: "server_tcp_loop c (i, sv) = (q, j, sv1)" by (metis prod_cases3)
  obtain n where n: "loop_turns (server_tcp_turn c) n (i, sv) (q, j, sv1)" "n \<le> length (server_rx c sv) div 4 + 1"
    using server_tcp_turn_bound [of c i sv] loop by auto
  show ?case
  proof (cases q)
    case (Inl e)
    then show ?thesis using n for_fails [of server_tcp_turn c n "(i, sv)" e "(j, sv1)" cids] loop
      by (intro exI [of _ n]) auto
  next
    case (Inr x)
    have "\<forall>d. d \<noteq> c \<longrightarrow> server_rx d sv1 = server_rx d sv" using server_tcp_loop_bound [OF loop] by blast
    then have same: "map (\<lambda>c. length (server_rx c sv1) div 4 + 1) cids = map (\<lambda>c. length (server_rx c sv) div 4 + 1) cids"
      using Cons.prems by auto
    obtain k where k: "for_turns server_tcp_turn k cids (j, sv1) (server_tcp_loops cids (j, sv1))"
        "k \<le> (\<Sum>c \<leftarrow> cids. length (server_rx c sv) div 4 + 1)"
      using Cons.IH [of j sv1] Cons.prems unfolding same by auto
    have "for_turns server_tcp_turn (n + k) (c # cids) (i, sv) (server_tcp_loops (c # cids) (i, sv))"
      using for_next [of server_tcp_turn c n "(i, sv)" "(j, sv1)" k cids] n(1) k(1) loop Inr by simp
    then show ?thesis using n(2) k(2) by (intro exI [of _ "n + k"]) simp
  qed
qed

lemma round_turns_bound:
  assumes "wf_server sv" "key_order ko"
  shows "\<exists>n. round_turns ko oc n sv (server_recv_msgs ko oc sv) \<and>
    n \<le> (\<Sum>c \<in> dom (sv_cid_addr sv). length (server_rx c sv) div 4 + 1) + length (urx (uc_udp (sv_udp sv))) + 1"
proof -
  let ?cids = "server_cids ko sv"
  have cids: "distinct ?cids" "set ?cids = dom (sv_cid_addr sv)" using key_order_cids [OF assms(2,1)] by simp_all
  obtain q j sv1 where tcp: "server_tcp_loops ?cids (0, sv) = (q, j, sv1)" by (metis prod_cases3)
  obtain n where n: "for_turns server_tcp_turn n ?cids (0, sv) (q, j, sv1)"
      "n \<le> (\<Sum>c \<leftarrow> ?cids. length (server_rx c sv) div 4 + 1)"
    using server_tcp_loops_turns [OF cids(1), of 0 sv] tcp by auto
  have sum: "(\<Sum>c \<leftarrow> ?cids. length (server_rx c sv) div 4 + 1) = (\<Sum>c \<in> dom (sv_cid_addr sv). length (server_rx c sv) div 4 + 1)"
    using sum_list_distinct_conv_sum_set [OF cids(1)] cids(2) by simp
  show ?thesis
  proof (cases q)
    case (Inl e)
    then show ?thesis using n sum tcp round_tcp_fails [of n ko sv e j sv1 oc]
      by (intro exI [of _ n]) (simp add: server_recv_msgs_def)
  next
    case (Inr x)
    have same: "sv_udp sv1 = sv_udp sv" using server_tcp_loops_bound [OF tcp cids(1)] by blast
    obtain q' j' sv2 where udp: "server_udp_loop oc (j, sv1) = (q', j', sv2)" by (metis prod_cases3)
    obtain k where k: "loop_turns (server_udp_turn oc) k (j, sv1) (q', j', sv2)" "k \<le> length (urx (uc_udp (sv_udp sv))) + 1"
      using server_udp_turn_bound [of oc j sv1] udp same by auto
    have "round_turns ko oc (n + k) sv (server_recv_msgs ko oc sv)"
      using n(1) k(1) round_udp_fails [of n ko sv "(j, sv1)" oc k _ j' sv2] round_returns [of n ko sv "(j, sv1)" oc k j' sv2]
      by (cases q') (simp_all add: server_recv_msgs_def tcp udp Inr)
    then show ?thesis using n(2) k(2) sum by (intro exI [of _ "n + k"]) simp
  qed
qed

text \<open>
  C23: A round of the server's \<open>recv_msgs\<close> ends on every input. Its loops, by the rules of \<open>loop\<close>,
  take in all at most one turn for each client and each four bytes waiting on its TCP stream, one for
  each datagram waiting on the socket, and one more; the call then returns or panics, never with an I/O
  error, and a count it returns is at most a quarter of the bytes plus the datagrams.
\<close>

theorem server_round_returns:
  assumes "wf_server sv" "key_order ko"
  shows "\<exists>n r sv'. round_turns ko oc n sv (r, sv') \<and> server_recv_msgs ko oc sv = (r, sv') \<and>
    n \<le> (\<Sum>c \<in> dom (sv_cid_addr sv). length (server_rx c sv) div 4 + 1) + length (urx (uc_udp (sv_udp sv))) + 1 \<and>
    ((\<exists>p. r = panics p) \<or> (\<exists>i. r = Ok i \<and> unat i \<le>
       (\<Sum>c \<in> dom (sv_cid_addr sv). length (server_rx c sv) div 4) + length (urx (uc_udp (sv_udp sv)))))"
  using round_turns_bound [OF assms, of oc] server_round_count [OF assms, of oc] by (metis surj_pair)

theorem server_round_returns_witness:
  "\<exists>k n sv'. round_turns demo_ko True k (server_clear_msgs (demo_live (frame 3 [7] @ frame 2 [9] @ frame 3 [8])
       (frame 3 [6]) [] [])) (Ok n, sv') \<and> k \<le> 7 \<and> unat n \<le> 4"
proof -
  let ?sv = "demo_live (frame 3 [7] @ frame 2 [9] @ frame 3 [8]) (frame 3 [6]) [] []"
  define ms :: "cid \<Rightarrow> (mid \<times> nat erased_net_msg) list" where "ms c = (if c = 1 then
      [(3, \<lparr>em_cid = 1, em_time = None, em_msg = AnyBox 13 7\<rparr>), (2, \<lparr>em_cid = 1, em_time = None, em_msg = AnyBox 12 9\<rparr>),
       (3, \<lparr>em_cid = 1, em_time = None, em_msg = AnyBox 13 8\<rparr>)]
      else [(3, \<lparr>em_cid = 2, em_time = None, em_msg = AnyBox 13 6\<rparr>)])" for c
  have holds: "\<forall>c \<in> dom (sv_cid_addr ?sv). srv_holds c (0, ?sv) (ms c)"
    using demo_live_holds(1,2) by (simp add: ms_def del: srv_offers.simps)
  have alive: "server_alive ?sv 1" and parts: "codec_of demo_bincode (sv_parts ?sv)" "tid_map (sv_parts ?sv) 13 = Some 3"
    using demo_parts_wf by (simp_all add: server_alive_def)
  obtain n sv' where run: "server_recv_msgs demo_ko True (server_clear_msgs ?sv) = (Ok n, sv')"
    using server_round_recv [OF demo_live_wf demo_ko_order alive holds demo_live_holds(3) parts] by blast
  have clear: "sv_cid_addr (server_clear_msgs ?sv) = [1 \<mapsto> SockAddr 2 9, 2 \<mapsto> SockAddr 3 9]"
      "server_rx 1 (server_clear_msgs ?sv) = frame 3 [7] @ frame 2 [9] @ frame 3 [8]"
      "server_rx 2 (server_clear_msgs ?sv) = frame 3 [6]" "urx (uc_udp (sv_udp (server_clear_msgs ?sv))) = []"
    by (simp_all add: server_clear_msgs_def server_rx_def)
  have "dom (sv_cid_addr (server_clear_msgs ?sv)) = {1, 2}" unfolding clear(1) by auto
  then have "(\<Sum>c \<in> dom (sv_cid_addr (server_clear_msgs ?sv)). length (server_rx c (server_clear_msgs ?sv)) div 4) = 4"
      "(\<Sum>c \<in> dom (sv_cid_addr (server_clear_msgs ?sv)). length (server_rx c (server_clear_msgs ?sv)) div 4 + 1) = 6"
    by (simp_all add: clear(2,3))
  moreover have "wf_server (server_clear_msgs ?sv)" using server_step_wf [OF step_clear_msgs demo_live_wf] .
  ultimately show ?thesis
    using server_round_returns [of "server_clear_msgs ?sv" demo_ko True] demo_ko_order run clear(4) by auto
qed

end
