(* ===== verification/Pending.thy ===== *)
theory Pending
  imports Client
begin

text \<open>
  \<open>src/client.rs\<close>, \<open>PendingClient\<close> and \<open>OptionPendingClient\<close>: a client that connects on
  another thread, which sends the result of \<open>new_blocking\<close> through a \<open>crossbeam\<close> channel. The
  channel is a parameter: a new channel of a capacity, the effects of \<open>send\<close> and of dropping the
  sender on it, whether its receiver is ready, and what \<open>recv\<close> returns (\<open>None\<close> for
  \<open>RecvError\<close>) with the receiver it leaves.
\<close>

type_synonym 'v connected = "('v client \<times> 'v any) res"

record ('v, 'ch) channel_ops =
  ch_bounded :: "nat \<Rightarrow> 'ch"
  ch_send :: "'v connected \<Rightarrow> 'ch \<Rightarrow> 'ch"
  ch_drop_sender :: "'ch \<Rightarrow> 'ch"
  ch_ready :: "'ch \<Rightarrow> bool"
  ch_recv :: "'ch \<Rightarrow> 'v connected option \<times> 'ch"

record 'ch pending_client =
  pc_channel :: 'ch

record 'ch option_pending_client =
  opc_channel :: "'ch option"

section \<open>\<open>Client::new\<close>\<close>

text \<open>
  The pending client, and what the spawned thread does to its channel when it has run: it sends the
  result of \<open>new_blocking\<close> and ends, or unwinds before it has sent anything. Either way its sender
  is dropped.
\<close>

definition client_thread ::
    "('v, 'ch) channel_ops \<Rightarrow> os \<Rightarrow> int \<Rightarrow> sock_addr \<Rightarrow> 'v parts \<Rightarrow> net_config \<Rightarrow> 'v any \<Rightarrow> 'ch \<Rightarrow> 'ch" where
  "client_thread ops sys now peer parts config con_msg ch =
     ch_drop_sender ops
       (case client_new_blocking sys now peer parts config con_msg of
          Inl (Panic p) \<Rightarrow> ch
        | r \<Rightarrow> ch_send ops r ch)"

definition client_new ::
    "('v, 'ch) channel_ops \<Rightarrow> os \<Rightarrow> int \<Rightarrow> sock_addr \<Rightarrow> 'v parts \<Rightarrow> net_config \<Rightarrow> 'v any \<Rightarrow>
     'ch pending_client \<times> ('ch \<Rightarrow> 'ch)" where
  "client_new ops sys now peer parts config con_msg =
     (let ch = ch_bounded ops 1
      in (\<lparr>pc_channel = ch\<rparr>, client_thread ops sys now peer parts config con_msg))"

section \<open>\<open>PendingClient\<close>\<close>

definition pending_done :: "('v, 'ch) channel_ops \<Rightarrow> 'ch pending_client \<Rightarrow> bool" where
  "pending_done ops p = ch_ready ops (pc_channel p)"

definition pending_fmt :: "('v, 'ch) channel_ops \<Rightarrow> 'ch pending_client \<Rightarrow> string" where
  "pending_fmt ops p =
     ''Pending client connection ('' @ (if pending_done ops p then ''done'' else ''not done'') @ '').''"

text \<open>\<open>recv().unwrap().map(|(client, m)| (client, *m.downcast::<R>().expect(...)))\<close>\<close>

definition take_response :: "type_id \<Rightarrow> 'v connected option \<Rightarrow> ('v client \<times> 'v) res" where
  "take_response R r =
     (case r of
        None \<Rightarrow> panics UnwrapFailed
      | Some r \<Rightarrow> and_then r (\<lambda>(client, m).
          case downcast R m of None \<Rightarrow> panics DowncastFailed | Some v \<Rightarrow> Ok (client, v)))"

definition pending_take ::
    "('v, 'ch) channel_ops \<Rightarrow> type_id \<Rightarrow> 'ch pending_client \<Rightarrow> ('v client \<times> 'v) res + 'ch pending_client" where
  "pending_take ops R p =
     (if pending_done ops p then Inl (take_response R (fst (ch_recv ops (pc_channel p)))) else Inr p)"

definition pending_block ::
    "('v, 'ch) channel_ops \<Rightarrow> type_id \<Rightarrow> 'ch pending_client \<Rightarrow> ('v client \<times> 'v) res" where
  "pending_block ops R p = take_response R (fst (ch_recv ops (pc_channel p)))"

definition pending_option :: "'ch pending_client \<Rightarrow> 'ch option_pending_client" where
  "pending_option p = \<lparr>opc_channel = Some (pc_channel p)\<rparr>"

definition option_from :: "'ch pending_client \<Rightarrow> 'ch option_pending_client" where
  "option_from value = pending_option value"

section \<open>\<open>OptionPendingClient\<close>\<close>

definition option_done :: "('v, 'ch) channel_ops \<Rightarrow> 'ch option_pending_client \<Rightarrow> bool option" where
  "option_done ops p = (case opc_channel p of None \<Rightarrow> None | Some ch \<Rightarrow> Some (ch_ready ops ch))"

definition option_fmt :: "('v, 'ch) channel_ops \<Rightarrow> 'ch option_pending_client \<Rightarrow> string" where
  "option_fmt ops p =
     ''Optional pending client connection ('' @
     (case option_done ops p of
        None \<Rightarrow> ''Already taken'' | Some True \<Rightarrow> ''done'' | Some False \<Rightarrow> ''not done'') @ '').''"

text \<open>\<open>take\<close> reads through \<open>as_ref()\<close>: the option keeps the receiver.\<close>

definition option_take ::
    "('v, 'ch) channel_ops \<Rightarrow> type_id \<Rightarrow> 'ch option_pending_client \<Rightarrow>
     ('v client \<times> 'v) res option \<times> 'ch option_pending_client" where
  "option_take ops R p =
     (case option_done ops p of
        None \<Rightarrow> (None, p)
      | Some False \<Rightarrow> (None, p)
      | Some True \<Rightarrow>
          (case opc_channel p of
             None \<Rightarrow> (Some (panics UnwrapNone), p)
           | Some ch \<Rightarrow>
               (case ch_recv ops ch of
                  (r, ch) \<Rightarrow> (Some (take_response R r), p\<lparr>opc_channel := Some ch\<rparr>))))"

definition option_block ::
    "('v, 'ch) channel_ops \<Rightarrow> type_id \<Rightarrow> 'ch option_pending_client \<Rightarrow> ('v client \<times> 'v) res option" where
  "option_block ops R p =
     (case opc_channel p of None \<Rightarrow> None | Some ch \<Rightarrow> Some (take_response R (fst (ch_recv ops ch))))"

section \<open>Properties of pending clients\<close>

text \<open>
  What \<open>crossbeam\<close> documents for the one message of this channel: a receiver that holds it is
  ready and yields it; afterwards, the sender being gone, the receiver is ready (receiving would not
  block) and yields an error.
\<close>

definition holds_result :: "('v, 'ch) channel_ops \<Rightarrow> 'ch \<Rightarrow> 'v connected \<Rightarrow> bool" where
  "holds_result ops ch r \<longleftrightarrow> ch_ready ops ch \<and>
     (\<exists>ch'. ch_recv ops ch = (Some r, ch') \<and> ch_ready ops ch' \<and> fst (ch_recv ops ch') = None)"

text \<open>
  When the connecting thread has finished, \<open>take\<close> yields its client and response once, the
  same as the two \<open>block\<close>s would. \<open>OptionPendingClient::take\<close> then still holds the receiver:
  it never reports that the client was taken, and a second call panics instead of returning
  \<open>None\<close>.
\<close>

lemma option_take_twice_panics:
  assumes "holds_result ops ch (Ok (cl, AnyBox R v))"
  shows "pending_take ops R \<lparr>pc_channel = ch\<rparr> = Inl (Ok (cl, v)) \<and>
    pending_block ops R \<lparr>pc_channel = ch\<rparr> = Ok (cl, v) \<and>
    option_block ops R (pending_option \<lparr>pc_channel = ch\<rparr>) = Some (Ok (cl, v)) \<and>
    (\<exists>p. option_take ops R (pending_option \<lparr>pc_channel = ch\<rparr>) = (Some (Ok (cl, v)), p) \<and>
       option_done ops p = Some True \<and> fst (option_take ops R p) = Some (panics UnwrapFailed))"
  using assms
  by (auto simp: holds_result_def pending_take_def pending_done_def pending_block_def pending_option_def
    option_block_def option_take_def option_done_def take_response_def downcast_def split: prod.splits)

definition demo_channel :: "(nat, nat connected list \<times> bool) channel_ops" where
  "demo_channel = \<lparr>ch_bounded = (\<lambda>n. ([], True)), ch_send = (\<lambda>r ch. (fst ch @ [r], snd ch)),
     ch_drop_sender = (\<lambda>ch. (fst ch, False)), ch_ready = (\<lambda>ch. fst ch \<noteq> [] \<or> \<not> snd ch),
     ch_recv = (\<lambda>ch. case fst ch of [] \<Rightarrow> (None, ch) | r # rs \<Rightarrow> (Some r, (rs, snd ch)))\<rparr>"

text \<open>
  What \<open>crossbeam\<close> documents of a new channel of capacity one: nothing is to be received from it;
  once one message was sent and the sender dropped, it holds that message; once the sender was
  dropped with nothing sent, it is ready and yields an error.
\<close>

definition one_message :: "('v, 'ch) channel_ops \<Rightarrow> bool" where
  "one_message ops \<longleftrightarrow> (let ch = ch_bounded ops 1 in \<not> ch_ready ops ch \<and>
     (\<forall>r. holds_result ops (ch_drop_sender ops (ch_send ops r ch)) r) \<and>
     ch_ready ops (ch_drop_sender ops ch) \<and> fst (ch_recv ops (ch_drop_sender ops ch)) = None)"

lemma holds_resultD:
  "holds_result ops ch r \<Longrightarrow> ch_ready ops ch \<and> fst (ch_recv ops ch) = Some r"
  by (auto simp: holds_result_def)

text \<open>
  C26: \<open>Client::new\<close> gives a pending client that is not done and that \<open>take\<close> hands back; once
  its thread has ended it is done, and \<open>take\<close> and \<open>block\<close> both give what \<open>new_blocking\<close>
  came to: its error, or its client with the response as a value of type \<open>R\<close>. They panic when the
  response is of another type, and also when the thread itself panicked, in which case no result
  was ever sent. The optional form, by \<open>option\<close> or \<open>from\<close>, behaves the same: it is not done and
  yields nothing before the thread has ended, and then it is done and its \<open>block\<close> and first \<open>take\<close>
  yield the same result.
\<close>

theorem pending_yields_result:
  assumes "one_message ops" "client_new ops sys now peer parts config con_msg = (p, thread)"
    and "p' = p\<lparr>pc_channel := thread (pc_channel p)\<rparr>"
  shows "\<not> pending_done ops p \<and> pending_take ops R p = Inr p \<and>
    pending_done ops p' \<and> pending_take ops R p' = Inl (pending_block ops R p') \<and>
    pending_block ops R p' =
      (case client_new_blocking sys now peer parts config con_msg of
         Inr (cl, AnyBox T v) \<Rightarrow> if T = R then Ok (cl, v) else panics DowncastFailed
       | Inl (IoErr e) \<Rightarrow> Inl (IoErr e)
       | Inl (Panic _) \<Rightarrow> panics UnwrapFailed) \<and>
    option_from p = pending_option p \<and> option_done ops (pending_option p) = Some False \<and>
    option_take ops R (pending_option p) = (None, pending_option p) \<and>
    option_done ops (pending_option p') = Some True \<and>
    option_block ops R (pending_option p') = Some (pending_block ops R p') \<and>
    fst (option_take ops R (pending_option p')) = Some (pending_block ops R p')"
proof -
  let ?r = "client_new_blocking sys now peer parts config con_msg"
  have new: "p = \<lparr>pc_channel = ch_bounded ops 1\<rparr>" "thread = client_thread ops sys now peer parts config con_msg"
    using assms(2) by (simp_all add: client_new_def Let_def)
  have ch: "\<not> ch_ready ops (ch_bounded ops (Suc 0))" "ch_ready ops (ch_drop_sender ops (ch_bounded ops (Suc 0)))"
      "fst (ch_recv ops (ch_drop_sender ops (ch_bounded ops (Suc 0)))) = None"
      "\<And>r. ch_ready ops (ch_drop_sender ops (ch_send ops r (ch_bounded ops (Suc 0)))) \<and>
         fst (ch_recv ops (ch_drop_sender ops (ch_send ops r (ch_bounded ops (Suc 0))))) = Some r"
    using assms(1) by (auto simp: one_message_def Let_def dest: holds_resultD)
  have ready: "pending_done ops p'"
    using ch by (auto simp: assms(3) new pending_done_def client_thread_def split: sum.split fail.split)
  have optional: "option_from p = pending_option p" "option_done ops (pending_option p) = Some False"
      "option_take ops R (pending_option p) = (None, pending_option p)"
    using ch(1) by (simp_all add: option_from_def pending_option_def option_done_def option_take_def new)
  have same: "pending_take ops R p' = Inl (pending_block ops R p')" "option_done ops (pending_option p') = Some True"
      "option_block ops R (pending_option p') = Some (pending_block ops R p')"
      "fst (option_take ops R (pending_option p')) = Some (pending_block ops R p')"
    using ready by (simp_all add: pending_take_def pending_block_def pending_done_def pending_option_def option_done_def
      option_block_def option_take_def split: prod.split)
  have "pending_block ops R p' = (case ?r of
         Inr (cl, AnyBox T v) \<Rightarrow> if T = R then Ok (cl, v) else panics DowncastFailed
       | Inl (IoErr e) \<Rightarrow> Inl (IoErr e)
       | Inl (Panic _) \<Rightarrow> panics UnwrapFailed)"
  proof (cases ?r)
    case (Inl e)
    then show ?thesis
      by (cases e) (simp_all add: assms(3) new ch pending_block_def client_thread_def take_response_def)
  next
    case (Inr x)
    obtain cl T v where "x = (cl, AnyBox T v)" by (metis any.exhaust surj_pair)
    with Inr show ?thesis
      by (simp add: assms(3) new ch pending_block_def client_thread_def take_response_def downcast_def)
  qed
  moreover have "\<not> pending_done ops p" "pending_take ops R p = Inr p"
    using ch(1) by (simp_all add: new pending_done_def pending_take_def)
  ultimately show ?thesis using ready same optional by blast
qed

theorem pending_yields_result_witness:
  "\<exists>p thread cl. client_new demo_channel demo_os 0 (SockAddr 1 7777) demo_parts config_default (AnyBox 10 5) =
       (p, thread) \<and>
     pending_block demo_channel 11 (p\<lparr>pc_channel := thread (pc_channel p)\<rparr>) = Ok (cl, 6)"
proof -
  have laws: "one_message demo_channel"
    by (auto simp: one_message_def demo_channel_def holds_result_def Let_def)
  obtain p thread where new: "client_new demo_channel demo_os 0 (SockAddr 1 7777) demo_parts config_default
      (AnyBox 10 5) = (p, thread)" by fastforce
  obtain cl where "client_new_blocking demo_os 0 (SockAddr 1 7777) demo_parts config_default (AnyBox 10 5) =
      Ok (cl, AnyBox 11 6)" using demo_client_connects by blast
  then show ?thesis using pending_yields_result [OF laws new refl, of 11] new by simp
qed

end
