(* ===== verification/Chat.thy ===== *)
theory Chat
  imports Pending Server_Properties "HOL-Library.Sublist"
begin

text \<open>
  The chat room of \<open>src/examples\<close>: \<open>shared.rs\<close>, \<open>server.rs\<close> and \<open>client.rs\<close>. A frame of
  either program is a function on the library's model; what a program prints is a list of lines.
  \<open>String\<close>s are \<open>string\<close>s; \<open>to_lowercase\<close> and \<open>trim\<close>, which go by Unicode tables, are the
  parameters \<open>lower\<close> and \<open>trim\<close>. The four message types have the numbers below for their
  \<open>TypeId\<close>s, of which only their being distinct matters. The loggers, the arguments of the
  programs and their sleeping are left out.
\<close>

section \<open>\<open>shared.rs\<close>\<close>

definition ADDR_LOCAL :: string where
  "ADDR_LOCAL = ''127.0.0.1:7777''"

record msg =
  msg_from :: string
  msg_text :: string

record connection =
  con_user :: string

record discon =
  dis_reason :: string

datatype response = Accepted | Rejected string

text \<open>A value of one of the types.\<close>

datatype chat = VMsg msg | VConnection connection | VDisconnect discon | VResponse response

definition TID_MSG :: type_id where "TID_MSG = 0"
definition TID_CONNECTION :: type_id where "TID_CONNECTION = 1"
definition TID_RESPONSE :: type_id where "TID_RESPONSE = 2"
definition TID_DISCONNECT :: type_id where "TID_DISCONNECT = 3"

lemmas tid_defs = TID_MSG_def TID_CONNECTION_def TID_RESPONSE_def TID_DISCONNECT_def

fun chat_tid :: "chat \<Rightarrow> type_id" where
  "chat_tid (VMsg _) = TID_MSG"
| "chat_tid (VConnection _) = TID_CONNECTION"
| "chat_tid (VDisconnect _) = TID_DISCONNECT"
| "chat_tid (VResponse _) = TID_RESPONSE"

definition chat_any :: "chat \<Rightarrow> chat any" where
  "chat_any v = AnyBox (chat_tid v) v"

text \<open>
  A \<open>NetMsg<Msg>\<close> and a \<open>Connection\<close> out of the untyped values of the model: the other cases
  are what a failing downcast does, which the types of the buffers rule out.
\<close>

fun as_msg :: "chat \<Rightarrow> msg res" where
  "as_msg (VMsg m) = Ok m"
| "as_msg _ = panics DowncastFailed"

text \<open>The table both programs build.\<close>

definition chat_parts :: "chat bincode \<Rightarrow> chat parts res" where
  "chat_parts bc =
     (case register bc TID_MSG UDP table_new of
        (Inl e, table) \<Rightarrow> panics UnwrapFailed
      | (Inr _, table) \<Rightarrow>
          (case build bc TID_CONNECTION TID_RESPONSE TID_DISCONNECT table of
             Inl e \<Rightarrow> panics UnwrapFailed
           | Inr parts \<Rightarrow> Ok parts))"

section \<open>\<open>server.rs\<close>\<close>

datatype server_line = LeftLine cid "chat status" | SaidLine cid string string

definition blacklisted_users :: "string list" where
  "blacklisted_users = [''john'', ''jane'']"

definition chat_start_server :: "os \<Rightarrow> sock_addr \<Rightarrow> chat bincode \<Rightarrow> chat server res" where
  "chat_start_server sys addr bc =
     and_then (chat_parts bc) (\<lambda>parts.
     unwrap_res (server_new sys addr parts config_default))"

definition chat_on_disconnect :: "(chat, server_line list) discon_hook" where
  "chat_on_disconnect cid status out = out @ [LeftLine cid status]"

definition chat_answer :: "(string \<Rightarrow> string) \<Rightarrow> string \<Rightarrow> bool \<times> response" where
  "chat_answer lower user =
     (let blacklisted = lower user \<in> set blacklisted_users
      in if blacklisted then (False, Rejected ''This user is blacklisted'') else (True, Accepted))"

definition chat_on_connect :: "(string \<Rightarrow> string) \<Rightarrow> (chat, server_line list) con_hook" where
  "chat_on_connect lower cid con_msg out =
     (case con_msg of
        VConnection c \<Rightarrow> (case chat_answer lower (con_user c) of (acc, resp) \<Rightarrow> ((acc, VResponse resp), out))
      | _ \<Rightarrow> ((False, con_msg), out))"

text \<open>The loop over \<open>server.recv::<Msg>()\<close>, with \<open>cids_to_disconnect\<close> and the output.\<close>

type_synonym relay_state = "cid list \<times> server_line list \<times> chat server"

fun chat_relay ::
    "((cid \<rightharpoonup> sock_addr) \<Rightarrow> cid list) \<Rightarrow> (cid \<Rightarrow> int) \<Rightarrow> chat net_msg list \<Rightarrow> relay_state \<Rightarrow>
     unit res \<times> relay_state" where
  "chat_relay ko now [] s = (Ok (), s)"
| "chat_relay ko now (m # ms) (cids, out, sv) =
     (case as_msg (nm_m m) of
        Inl e \<Rightarrow> (Inl e, cids, out, sv)
      | Inr msg \<Rightarrow>
          (let out = out @ [SaidLine (nm_cid m) (msg_from msg) (msg_text msg)] in
           if msg_text msg = ''disconnect-me'' then chat_relay ko now ms (cids @ [nm_cid m], out, sv)
           else
             and_then_st
               (case server_send_spec ko now (CIdExcept (nm_cid m)) (chat_any (VMsg msg)) sv of
                  (r, sv) \<Rightarrow> (unwrap_res r, (cids, out, sv)))
               (\<lambda>_ s. chat_relay ko now ms s)))"

fun chat_disconnect_all :: "int \<Rightarrow> cid list \<Rightarrow> chat server \<Rightarrow> unit res \<times> chat server" where
  "chat_disconnect_all now [] sv = (Ok (), sv)"
| "chat_disconnect_all now (cid # cids) sv =
     and_then_st
       (case server_disconnect now (chat_any (VDisconnect \<lparr>dis_reason = ''Disconnect requested.''\<rparr>)) cid sv of
          (r, sv) \<Rightarrow> (unwrap_res r, sv))
       (\<lambda>_ sv. chat_disconnect_all now cids sv)"

text \<open>
  One turn of the loop, in two parts: first \<open>clear_msgs\<close>, \<open>recv_msgs\<close>,
  \<open>handle_disconnects\<close> and \<open>handle_new_cons\<close>, then the two loops above.
\<close>

definition chat_intake ::
    "(string \<Rightarrow> string) \<Rightarrow> ((cid \<rightharpoonup> sock_addr) \<Rightarrow> cid list) \<Rightarrow> bool \<Rightarrow> int \<Rightarrow> (nat \<Rightarrow> nat) \<Rightarrow>
     server_line list \<times> chat server \<Rightarrow> unit res \<times> server_line list \<times> chat server" where
  "chat_intake lower ko oc now clk s =
     (case s of (out, sv) \<Rightarrow>
      case server_recv_msgs ko oc (server_clear_msgs sv) of
        (Inl e, sv) \<Rightarrow> (Inl e, out, sv)
      | (Inr _, sv) \<Rightarrow>
      case server_handle_disconnects chat_on_disconnect out sv of
        (Inl e, out, sv) \<Rightarrow> (Inl e, out, sv)
      | (Inr _, out, sv) \<Rightarrow>
      case server_handle_new_cons oc now clk TID_CONNECTION TID_RESPONSE (chat_on_connect lower) out sv of
        (Inl e, out, sv) \<Rightarrow> (Inl e, out, sv)
      | (Inr _, out, sv) \<Rightarrow> (Ok (), out, sv))"

definition chat_serve ::
    "((cid \<rightharpoonup> sock_addr) \<Rightarrow> cid list) \<Rightarrow> int \<Rightarrow> server_line list \<times> chat server \<Rightarrow>
     unit res \<times> server_line list \<times> chat server" where
  "chat_serve ko now s =
     (case s of (out, sv) \<Rightarrow>
      case server_recv TID_MSG sv of
        Inl e \<Rightarrow> (Inl e, out, sv)
      | Inr msgs \<Rightarrow>
      case chat_relay ko (\<lambda>cid. now) msgs ([], out, sv) of
        (Inl e, cids, out, sv) \<Rightarrow> (Inl e, out, sv)
      | (Inr _, cids, out, sv) \<Rightarrow>
      case chat_disconnect_all now cids sv of
        (r, sv) \<Rightarrow> (r, out, sv))"

definition chat_server_frame ::
    "(string \<Rightarrow> string) \<Rightarrow> ((cid \<rightharpoonup> sock_addr) \<Rightarrow> cid list) \<Rightarrow> bool \<Rightarrow> int \<Rightarrow> (nat \<Rightarrow> nat) \<Rightarrow>
     server_line list \<times> chat server \<Rightarrow> unit res \<times> server_line list \<times> chat server" where
  "chat_server_frame lower ko oc now clk s =
     and_then_st (chat_intake lower ko oc now clk s) (\<lambda>_ s. chat_serve ko now s)"

text \<open>
  The loop, for as many frames as are given: each with what the network did to the sockets before
  it and with the readings of the two clocks.
\<close>

fun chat_server_loop ::
    "(string \<Rightarrow> string) \<Rightarrow> ((cid \<rightharpoonup> sock_addr) \<Rightarrow> cid list) \<Rightarrow> bool \<Rightarrow>
     ((chat server \<Rightarrow> chat server) \<times> int \<times> (nat \<Rightarrow> nat)) list \<Rightarrow>
     server_line list \<times> chat server \<Rightarrow> unit res \<times> server_line list \<times> chat server" where
  "chat_server_loop lower ko oc [] s = (Ok (), s)"
| "chat_server_loop lower ko oc ((world, now, clk) # frames) (out, sv) =
     and_then_st (chat_server_frame lower ko oc now clk (out, world sv)) (\<lambda>_ s. chat_server_loop lower ko oc frames s)"

section \<open>\<open>client.rs\<close>\<close>

definition chat_start_client ::
    "(chat, 'ch) channel_ops \<Rightarrow> os \<Rightarrow> int \<Rightarrow> sock_addr \<Rightarrow> string \<Rightarrow> chat bincode \<Rightarrow>
     (string \<times> chat client option) res" where
  "chat_start_client ops sys now addr username bc =
     and_then (chat_parts bc) (\<lambda>parts.
     let con_msg = \<lparr>con_user = username\<rparr> in
     case client_new ops sys now addr parts config_default (chat_any (VConnection con_msg)) of
       (p, thread) \<Rightarrow>
         and_then (unwrap_res (pending_block ops TID_RESPONSE (p\<lparr>pc_channel := thread (pc_channel p)\<rparr>)))
           (\<lambda>(client, resp).
              case resp of
                VResponse Accepted \<Rightarrow> Ok (''We were accepted!'', Some client)
              | VResponse (Rejected reason) \<Rightarrow>
                  Ok (''We were rejected for reason \"'' @ reason @ ''\"'', None)
              | _ \<Rightarrow> panics DowncastFailed))"

text \<open>The loop over the lines from the console, as many as \<open>try_recv\<close> yields in this frame.\<close>

definition DISCONNECT :: string where "DISCONNECT = ''disconnect''"
definition DISCONNECT_ME :: string where "DISCONNECT_ME = ''disconnect-me''"

fun chat_input ::
    "(string \<Rightarrow> string) \<Rightarrow> int \<Rightarrow> string \<Rightarrow> string list \<Rightarrow> chat client \<Rightarrow> unit res \<times> chat client" where
  "chat_input trim now username [] cl = (Ok (), cl)"
| "chat_input trim now username (line # lines) cl =
     (if line \<noteq> [] then
        and_then_st
          (if \<not> prefix DISCONNECT_ME line \<and> prefix DISCONNECT line
           then (case client_disconnect now
                   (chat_any (VDisconnect \<lparr>dis_reason = trim (drop (length DISCONNECT) line)\<rparr>)) cl of
                   (r, cl) \<Rightarrow> (unwrap_res r, cl))
           else (case client_send now (chat_any (VMsg \<lparr>msg_from = username, msg_text = line\<rparr>)) cl of
                   (r, cl) \<Rightarrow> (unwrap_res r, cl)))
          (\<lambda>_ cl. chat_input trim now username lines cl)
      else chat_input trim now username lines cl)"

text \<open>\<open>println!\<close> of each message received.\<close>

fun chat_print :: "chat net_msg list \<Rightarrow> string list res" where
  "chat_print [] = Ok []"
| "chat_print (m # ms) =
     and_then (as_msg (nm_m m)) (\<lambda>msg.
     and_then (chat_print ms) (\<lambda>out.
     Ok ((msg_from msg @ '': \"'' @ msg_text msg @ ''\"'') # out)))"

text \<open>One turn of the loop: whether it breaks, and what it prints.\<close>

definition chat_client_frame ::
    "(string \<Rightarrow> string) \<Rightarrow> bool \<Rightarrow> int \<Rightarrow> string \<Rightarrow> string list \<Rightarrow> chat client \<Rightarrow>
     (bool \<times> string list) res \<times> chat client" where
  "chat_client_frame trim oc now username lines cl =
     (if \<not> client_open cl then (Ok (True, []), cl)
      else
        case client_recv_msgs oc (client_clear_msgs cl) of
          (Inl e, cl) \<Rightarrow> (Inl e, cl)
        | (Inr _, cl) \<Rightarrow>
        case chat_input trim now username lines cl of
          (Inl e, cl) \<Rightarrow> (Inl e, cl)
        | (Inr _, cl) \<Rightarrow>
        (case disconnected TID_DISCONNECT (client_get_status cl) of
           Inl e \<Rightarrow> Inl e
         | Inr (Some (VDisconnect d)) \<Rightarrow> Ok (True, [''Disconnected for reason '' @ dis_reason d])
         | Inr (Some _) \<Rightarrow> panics DowncastFailed
         | Inr None \<Rightarrow>
             and_then (client_recv TID_MSG cl) (\<lambda>msgs.
             and_then (chat_print msgs) (\<lambda>out. Ok (False, out))), cl))"

text \<open>
  The loop, for as many turns as are given: each with what the network did to the sockets before it,
  the clock's reading and the lines the console has. The result says whether the loop broke.
\<close>

fun chat_client_loop ::
    "(string \<Rightarrow> string) \<Rightarrow> bool \<Rightarrow> string \<Rightarrow> ((chat client \<Rightarrow> chat client) \<times> int \<times> string list) list \<Rightarrow>
     string list \<times> chat client \<Rightarrow> bool res \<times> string list \<times> chat client" where
  "chat_client_loop trim oc username [] (out, cl) = (Ok False, out, cl)"
| "chat_client_loop trim oc username ((world, now, lines) # turns) (out, cl) =
     (case chat_client_frame trim oc now username lines (world cl) of
        (Inl e, cl) \<Rightarrow> (Inl e, out, cl)
      | (Inr (stop, lines'), cl) \<Rightarrow>
          if stop then (Ok True, out @ lines', cl)
          else chat_client_loop trim oc username turns (out @ lines', cl))"

text \<open>
  The thread of \<open>spawn_stdin_thread\<close>: for each result of \<open>read_line\<close>, with whether the receiver
  is still there, what it sends. It ends with the first failure of either.
\<close>

fun stdin_thread :: "(string \<Rightarrow> string) \<Rightarrow> (string res \<times> bool) list \<Rightarrow> string list" where
  "stdin_thread trim [] = []"
| "stdin_thread trim ((Inl e, _) # reads) = []"
| "stdin_thread trim ((Inr buff, open) # reads) =
     (if open then trim buff # stdin_thread trim reads else [])"

end
