(* ===== verification/Chat_Properties.thy ===== *)
theory Chat_Properties
  imports Chat
begin

text \<open>
  What the frames of the chat programs do: whom the server relays a message to, what ends it, and
  what its users see.
\<close>

section \<open>The table\<close>

lemma chat_parts_ok:
  assumes "chat_parts bc = Ok p"
  shows "wf_parts p" "wf_numbering p" "codec_of bc p" "transports p = [TCP, TCP, TCP, UDP]"
    "tid_map p TID_CONNECTION = Some CONNECTION_TYPE_MID" "tid_map p TID_RESPONSE = Some RESPONSE_TYPE_MID"
    "tid_map p TID_DISCONNECT = Some DISCONNECT_TYPE_MID" "tid_map p TID_MSG = Some 3"
proof -
  let ?t = "[(TID_MSG, UDP, ser_closure bc TID_MSG, deser_closure bc TID_MSG)]"
  have reg: "register bc TID_MSG UDP table_new = (Inr (), ?t)" by (simp add: register_cases table_new_def)
  have d: "distinct ([TID_CONNECTION, TID_RESPONSE, TID_DISCONNECT] @ map fst ?t)" by (simp add: tid_defs)
  have w: "wf_table bc ?t" by (simp add: wf_table_def entry_of_def)
  obtain q where q: "build bc TID_CONNECTION TID_RESPONSE TID_DISCONNECT ?t = Inr q" "wf_parts q" "wf_numbering q"
      "codec_of bc q" "numbers ([(TID_CONNECTION, TCP, ser_closure bc TID_CONNECTION, deser_closure bc TID_CONNECTION),
        (TID_RESPONSE, TCP, ser_closure bc TID_RESPONSE, deser_closure bc TID_RESPONSE),
        (TID_DISCONNECT, TCP, ser_closure bc TID_DISCONNECT, deser_closure bc TID_DISCONNECT)] @ ?t) q"
    using build_numbers [OF d w] .
  have "p = q" using assms q(1) reg by (simp add: chat_parts_def)
  then show "wf_parts p" "wf_numbering p" "codec_of bc p" "transports p = [TCP, TCP, TCP, UDP]"
    "tid_map p TID_CONNECTION = Some CONNECTION_TYPE_MID" "tid_map p TID_RESPONSE = Some RESPONSE_TYPE_MID"
    "tid_map p TID_DISCONNECT = Some DISCONNECT_TYPE_MID" "tid_map p TID_MSG = Some 3"
    using q(2-5) by (simp_all add: numbers_def mid_defs nth_Cons')
qed

lemma chat_parts_builds: "\<exists>p. chat_parts bc = Ok p"
  by (simp add: chat_parts_def register_cases table_new_def build_cases tid_defs)

section \<open>Relaying\<close>

definition wants_out :: "chat net_msg \<Rightarrow> bool" where
  "wants_out m \<longleftrightarrow> (\<exists>x. nm_m m = VMsg x \<and> msg_text x = ''disconnect-me'')"

lemma server_send_to_udp_Ok:
  assumes "wf_parts (sv_parts sv)" "codec_of bc (sv_parts sv)" "tid_map (sv_parts sv) T = Some mid"
    and "transports (sv_parts sv) ! mid = UDP" "server_send_to now cid (AnyBox T v) sv = (Ok (), sv')"
  shows "\<exists>b addr. bc_serialize bc T v = Inr b \<and> sv_cid_addr sv cid = Some addr \<and>
    sv' = sv\<lparr>sv_udp := (sv_udp sv)\<lparr>uc_udp := (uc_udp (sv_udp sv))\<lparr>utx := utx (uc_udp (sv_udp sv)) @
      [(addr, datagram mid (stamp now) b)]\<rparr>\<rparr>\<rparr> \<and> length b + 4 \<le> length (uc_buff (sv_udp sv))"
proof -
  obtain b where b: "bc_serialize bc T v = Inr b"
    using assms(5) lookup_codec [OF assms(1-4), of "\<lambda>r. r" v] assms(3)
    by (cases "bc_serialize bc T v") (simp_all add: server_send_to_def server_valid_tid_def valid_tid_def domI Let_def)
  then have udp: "server_send_udp now cid mid b sv = (Ok (), sv')"
    using assms(5) lookup_codec [OF assms(1-4), of "\<lambda>r. r" v] assms(3)
    by (simp add: server_send_to_def server_valid_tid_def valid_tid_def domI Let_def)
  then show ?thesis using b
    by (auto simp: server_send_udp_def udp_con_send_to_def udp_send_shared_eq socket_send_to_def res_simps
        udp_buff_size_def split: option.splits sum.splits if_splits)
qed

text \<open>A message that can go out on a socket with a buffer of \<open>n\<close> bytes.\<close>

definition sendable :: "'v bincode \<Rightarrow> nat \<Rightarrow> 'v any \<Rightarrow> bool" where
  "sendable bc n m \<longleftrightarrow> (\<exists>b. bc_serialize bc (any_tid m) (any_val m) = Inr b \<and> length b + 4 \<le> n)"

definition dgram_to :: "'v bincode \<Rightarrow> 'v server \<Rightarrow> mid \<Rightarrow> int \<Rightarrow> 'v any \<Rightarrow> cid \<Rightarrow> sock_addr \<times> byte list" where
  "dgram_to bc sv mid now m cid = (the (sv_cid_addr sv cid),
     datagram mid (stamp now) (case bc_serialize bc (any_tid m) (any_val m) of Inr b \<Rightarrow> b | Inl e \<Rightarrow> []))"

lemma server_send_each_udp:
  assumes "wf_parts parts" "codec_of bc parts" "tid_map parts (any_tid m) = Some mid" "transports parts ! mid = UDP"
  shows "server_send_each now cids m sv = (Ok (), sv') \<Longrightarrow> sv_parts sv = parts \<Longrightarrow>
    \<exists>u. sv' = sv\<lparr>sv_udp := u\<rparr> \<and> length (uc_buff u) = length (uc_buff (sv_udp sv)) \<and>
      (cids \<noteq> [] \<longrightarrow> sendable bc (length (uc_buff (sv_udp sv))) m) \<and>
      utx (uc_udp u) = utx (uc_udp (sv_udp sv)) @ map (\<lambda>c. dgram_to bc sv mid (now c) m c) cids"
proof (induction cids arbitrary: sv)
  case Nil
  then show ?case by (intro exI [of _ "sv_udp sv"]) simp
next
  case (Cons c cids)
  obtain T v where m: "m = AnyBox T v" by (cases m)
  obtain q sv1 where s1: "server_send_to (now c) c m sv = (q, sv1)" by fastforce
  then have q: "q = Ok ()" "server_send_each now cids m sv1 = (Ok (), sv')"
    using Cons.prems(1) by (cases q; simp)+
  obtain b addr where b: "bc_serialize bc T v = Inr b" "sv_cid_addr sv c = Some addr"
      "sv1 = sv\<lparr>sv_udp := (sv_udp sv)\<lparr>uc_udp := (uc_udp (sv_udp sv))\<lparr>utx := utx (uc_udp (sv_udp sv)) @
        [(addr, datagram mid (stamp (now c)) b)]\<rparr>\<rparr>\<rparr>" "length b + 4 \<le> length (uc_buff (sv_udp sv))"
    using server_send_to_udp_Ok [of sv bc T mid "now c" c v sv1] assms s1 q(1) Cons.prems(2) by (auto simp: m)
  have "sv_parts sv1 = parts" using b(3) Cons.prems(2) by simp
  from Cons.IH [OF q(2) this] obtain u where u: "sv' = sv1\<lparr>sv_udp := u\<rparr>" "length (uc_buff u) = length (uc_buff (sv_udp sv1))"
      "utx (uc_udp u) = utx (uc_udp (sv_udp sv1)) @ map (\<lambda>c. dgram_to bc sv1 mid (now c) m c) cids" by blast
  have "dgram_to bc sv1 mid (now d) m d = dgram_to bc sv mid (now d) m d" for d by (simp add: dgram_to_def b(3))
  then show ?case using u b by (intro exI [of _ u]) (simp add: dgram_to_def m sendable_def)
qed

text \<open>The relay writes only to the socket, so nothing but the socket changes from message to message.\<close>

lemma chat_relay_steps:
  assumes "chat_parts bc = Ok parts" "\<forall>m \<in> set ms. \<exists>x. nm_m m = VMsg x"
  shows "chat_relay ko now ms (cids, out, sv) = (Ok (), cids', out', sv') \<Longrightarrow> sv_parts sv = parts \<Longrightarrow>
    cids' = cids @ map nm_cid (filter wants_out ms) \<and>
    (\<exists>u. sv' = sv\<lparr>sv_udp := u\<rparr> \<and> length (uc_buff u) = length (uc_buff (sv_udp sv)) \<and>
      (\<forall>m \<in> set ms. \<not> wants_out m \<and> (\<exists>c \<in> set (server_cids ko sv). c \<noteq> nm_cid m) \<longrightarrow>
         sendable bc (length (uc_buff (sv_udp sv))) (chat_any (nm_m m))) \<and>
      utx (uc_udp u) = utx (uc_udp (sv_udp sv)) @
      concat (map (\<lambda>m. map (\<lambda>c. dgram_to bc sv 3 (now c) (chat_any (nm_m m)) c)
        (filter (\<lambda>c. c \<noteq> nm_cid m) (server_cids ko sv))) (filter (\<lambda>m. \<not> wants_out m) ms)))"
  using assms(2)
proof (induction ms arbitrary: cids out sv)
  case Nil
  then show ?case by (auto intro: exI [of _ "sv_udp sv"])
next
  case (Cons m ms)
  obtain x where x: "nm_m m = VMsg x" using Cons.prems(3) by auto
  let ?out = "out @ [SaidLine (nm_cid m) (msg_from x) (msg_text x)]"
  show ?case
  proof (cases "wants_out m")
    case True
    then have "chat_relay ko now ms (cids @ [nm_cid m], ?out, sv) = (Ok (), cids', out', sv')"
      using Cons.prems(1) x by (simp add: wants_out_def Let_def)
    from Cons.IH [OF this Cons.prems(2)] show ?thesis using True Cons.prems(3) by simp
  next
    case False
    obtain q sv1 where s: "server_send_spec ko now (CIdExcept (nm_cid m)) (chat_any (VMsg x)) sv = (q, sv1)" by fastforce
    then have q: "q = Ok ()" "chat_relay ko now ms (cids, ?out, sv1) = (Ok (), cids', out', sv')"
      using Cons.prems(1) x False
      by (cases q rule: unwrap_res.cases; simp add: wants_out_def Let_def)+
    note p = chat_parts_ok [OF assms(1)]
    have "cid_matches (CIdExcept (nm_cid m)) = (\<lambda>c. c \<noteq> nm_cid m)" by (simp add: fun_eq_iff)
    then have "server_send_each now (filter (\<lambda>c. c \<noteq> nm_cid m) (server_cids ko sv)) (chat_any (VMsg x)) sv = (Ok (), sv1)"
      using s q(1) by (simp add: server_send_spec_def)
    from server_send_each_udp [OF p(1,3) _ _ this Cons.prems(2), of 3] p(4,8)
    obtain u where u: "sv1 = sv\<lparr>sv_udp := u\<rparr>" "length (uc_buff u) = length (uc_buff (sv_udp sv))"
        "(\<exists>c \<in> set (server_cids ko sv). c \<noteq> nm_cid m) \<longrightarrow>
           sendable bc (length (uc_buff (sv_udp sv))) (chat_any (VMsg x))"
        "utx (uc_udp u) = utx (uc_udp (sv_udp sv)) @
        map (\<lambda>c. dgram_to bc sv 3 (now c) (chat_any (VMsg x)) c) (filter (\<lambda>c. c \<noteq> nm_cid m) (server_cids ko sv))"
      by (auto simp: chat_any_def filter_empty_conv)
    have same: "dgram_to bc sv1 = dgram_to bc sv" "server_cids ko sv1 = server_cids ko sv" "sv_parts sv1 = parts"
      using Cons.prems(2) by (simp_all add: u(1) dgram_to_def server_cids_def fun_eq_iff)
    from Cons.IH [OF q(2) same(3)] Cons.prems(3) obtain u' where
      "cids' = cids @ map nm_cid (filter wants_out ms)" "sv' = sv1\<lparr>sv_udp := u'\<rparr>"
      "length (uc_buff u') = length (uc_buff u)"
      "\<forall>m \<in> set ms. \<not> wants_out m \<and> (\<exists>c \<in> set (server_cids ko sv). c \<noteq> nm_cid m) \<longrightarrow>
         sendable bc (length (uc_buff u)) (chat_any (nm_m m))"
      "utx (uc_udp u') = utx (uc_udp u) @ concat (map (\<lambda>m. map (\<lambda>c. dgram_to bc sv 3 (now c) (chat_any (nm_m m)) c)
        (filter (\<lambda>c. c \<noteq> nm_cid m) (server_cids ko sv))) (filter (\<lambda>m. \<not> wants_out m) ms))"
      unfolding same(1,2) by (auto simp: u(1))
    then show ?thesis using False u x by (intro conjI exI [of _ u']) simp_all
  qed
qed

lemma chat_relay_returns:
  "chat_relay ko now ms s = (q, s') \<Longrightarrow> \<forall>m \<in> set ms. \<exists>x. nm_m m = VMsg x \<Longrightarrow> q = Ok () \<or> (\<exists>p. q = panics p)"
proof (induction ms arbitrary: s)
  case Nil
  then show ?case by simp
next
  case (Cons m ms)
  obtain cids out sv where s: "s = (cids, out, sv)" by (cases s)
  obtain x where x: "nm_m m = VMsg x" using Cons.prems(2) by auto
  obtain r sv1 where send: "server_send_spec ko now (CIdExcept (nm_cid m)) (chat_any (VMsg x)) sv = (r, sv1)" by fastforce
  have "chat_relay ko now ms s1 = (q, s') \<Longrightarrow> q = Ok () \<or> (\<exists>p. q = panics p)" for s1
    using Cons.IH Cons.prems(2) by simp
  then show ?case
    using Cons.prems(1) x send
    by (cases r rule: unwrap_res.cases) (auto simp: s Let_def split: if_splits)
qed

section \<open>Disconnecting\<close>

definition shut_cids :: "'v server \<Rightarrow> cid set" where
  "shut_cids sv = {c. \<exists>con. sv_tcp sv c = Some con \<and> is_shut (tc_tcp con)}"

lemma server_send_tcp_shut:
  assumes "server_send_tcp cid mid b sv = (Ok (), sv')"
  shows "cid \<notin> shut_cids sv \<and> shut_cids sv' = shut_cids sv \<and> sv_cid_addr sv' = sv_cid_addr sv \<and>
    sv_parts sv' = sv_parts sv"
proof -
  obtain con con' where c: "sv_tcp sv cid = Some con" "tcp_con_send mid b con = (Ok (), con')"
      "sv' = sv\<lparr>sv_tcp := (sv_tcp sv)(cid \<mapsto> con')\<rparr>"
    using assms by (auto simp: server_send_tcp_def split: option.splits prod.splits)
  then have "\<not> is_shut (tc_tcp con)" "is_shut (tc_tcp con') = is_shut (tc_tcp con)"
    by (auto simp: tcp_con_send_Ok)
  then show ?thesis using c(1,3) by (auto simp: shut_cids_def)
qed

lemma chat_disconnect_one:
  assumes "chat_parts bc = Ok (sv_parts sv)"
    and "server_disconnect now (chat_any (VDisconnect d)) cid sv = (Ok (), sv')"
  shows "server_alive sv cid \<and> cid \<notin> shut_cids sv \<and> shut_cids sv' = insert cid (shut_cids sv) \<and>
    sv_cid_addr sv' = sv_cid_addr sv \<and> sv_parts sv' = sv_parts sv"
proof -
  note p = chat_parts_ok [OF assms(1)]
  have alive: "server_alive sv cid" using assms(2) by (auto simp: server_disconnect_def split: if_splits)
  have tr: "transports (sv_parts sv) ! DISCONNECT_TYPE_MID = TCP" by (simp add: p(4) mid_defs)
  obtain q sv1 where s: "server_send_to now cid (chat_any (VDisconnect d)) sv = (q, sv1)" by fastforce
  then have q: "q = Ok ()" using assms(2) alive by (cases q) (simp_all add: server_disconnect_def)
  then obtain b where "bc_serialize bc TID_DISCONNECT (VDisconnect d) = Inr b"
    using s lookup_codec [OF p(1,3,7) tr, of "\<lambda>r. r" "VDisconnect d"] p(7)
    by (cases "bc_serialize bc TID_DISCONNECT (VDisconnect d)")
      (simp_all add: server_send_to_def server_valid_tid_def valid_tid_def domI Let_def chat_any_def)
  then have "server_send_tcp cid DISCONNECT_TYPE_MID b sv = (Ok (), sv1)"
    using s q lookup_codec [OF p(1,3,7) tr, of "\<lambda>r. r" "VDisconnect d"] p(7)
    by (simp add: server_send_to_def server_valid_tid_def valid_tid_def domI Let_def chat_any_def)
  note one = server_send_tcp_shut [OF this]
  obtain con where con: "sv_tcp sv1 cid = Some con"
    using assms(2) s q alive by (auto simp: server_disconnect_def split: option.splits)
  obtain r con' where close: "tcp_con_close con = (r, con')" by fastforce
  have sv': "sv' = sv1\<lparr>sv_tcp := (sv_tcp sv1)(cid \<mapsto> con'), sv_disconnected := sv_disconnected sv1 @ [(cid, Closed)]\<rparr>"
    and r: "r = Ok ()" using assms(2) s q alive con close by (cases r; simp add: server_disconnect_def)+
  have "is_shut (tc_tcp con')"
    using close r by (auto simp: tcp_con_close_def stream_flush_def stream_shutdown_def split: option.splits)
  then show ?thesis using one alive con by (auto simp: sv' shut_cids_def)
qed

lemma chat_disconnect_all_cases:
  "chat_disconnect_all now cids sv = (r, sv') \<Longrightarrow> chat_parts bc = Ok (sv_parts sv) \<Longrightarrow>
   (\<exists>p. r = panics p) \<or> r = Ok () \<and> distinct cids \<and> set cids \<inter> shut_cids sv = {} \<and>
     (\<forall>c \<in> set cids. server_alive sv c)"
proof (induction cids arbitrary: sv)
  case Nil
  then show ?case by simp
next
  case (Cons c cids)
  let ?d = "\<lparr>dis_reason = ''Disconnect requested.''\<rparr>"
  obtain q sv1 where d: "server_disconnect now (chat_any (VDisconnect ?d)) c sv = (q, sv1)" by fastforce
  show ?case
  proof (cases "q = Ok ()")
    case False
    then have "\<exists>p. r = panics p" using Cons.prems(1) d by (cases q rule: unwrap_res.cases) auto
    then show ?thesis by blast
  next
    case True
    note one = chat_disconnect_one [OF Cons.prems(2) d [unfolded True]]
    have "chat_disconnect_all now cids sv1 = (r, sv')" using Cons.prems(1) d True by simp
    from Cons.IH [OF this] one Cons.prems(2) show ?thesis by (auto simp: server_alive_def)
  qed
qed

section \<open>Properties of the chat server\<close>

text \<open>
  One client can stop the chat server. If in one frame it reads two messages \<open>disconnect-me\<close> from
  the same client, or one from a client that is not connected any more, the frame panics: the
  second \<open>disconnect\<close> fails, its stream being shut down or its id unknown, and the error is
  unwrapped.
\<close>

lemma chat_disconnect_me_panics:
  assumes "chat_parts bc = Ok (sv_parts sv)" "server_recv TID_MSG sv = Ok msgs" "\<forall>m \<in> set msgs. \<exists>x. nm_m m = VMsg x"
    and "\<not> distinct (map nm_cid (filter wants_out msgs)) \<or>
      (\<exists>m \<in> set msgs. wants_out m \<and> \<not> server_alive sv (nm_cid m))"
  shows "\<exists>p. fst (chat_serve ko now (out, sv)) = panics p"
proof -
  obtain q cids out1 sv1 where r: "chat_relay ko (\<lambda>cid. now) msgs ([], out, sv) = (q, cids, out1, sv1)"
    by (metis prod_cases4)
  show ?thesis
  proof (cases "q = Ok ()")
    case True
    from chat_relay_steps [OF assms(1,3) r [unfolded True] refl]
    have c: "cids = map nm_cid (filter wants_out msgs)" "sv_parts sv1 = sv_parts sv" "sv_cid_addr sv1 = sv_cid_addr sv"
      by auto
    obtain r' sv2 where d: "chat_disconnect_all now cids sv1 = (r', sv2)" by fastforce
    have "\<not> (distinct cids \<and> (\<forall>x \<in> set cids. server_alive sv1 x))"
      using assms(4) c by (auto simp: server_alive_def)
    then have "\<exists>p. r' = panics p" using chat_disconnect_all_cases [OF d] assms(1) c(2) by auto
    then show ?thesis using assms(2) r d True by (simp add: chat_serve_def)
  next
    case False
    have "q = Ok () \<or> (\<exists>p. q = panics p)" using chat_relay_returns [OF r assms(3)] .
    then show ?thesis using assms(2) r False by (auto simp: chat_serve_def)
  qed
qed

text \<open>A chat of two, to try them on.\<close>

definition demo_hi :: chat where
  "demo_hi = VMsg \<lparr>msg_from = ''bob'', msg_text = ''hi''\<rparr>"

definition demo_chat_bincode :: "chat bincode" where
  "demo_chat_bincode = \<lparr>bc_serialize = (\<lambda>T v. if v = demo_hi then Inr [7] else Inl ''not said here''),
     bc_deserialize = (\<lambda>T bytes. if bytes = [7] then Inr demo_hi else Inl ''not said here'')\<rparr>"

definition demo_said :: "cid \<Rightarrow> string \<Rightarrow> chat net_msg" where
  "demo_said cid line = \<lparr>nm_cid = cid, nm_time = None, nm_m = VMsg \<lparr>msg_from = ''bob'', msg_text = line\<rparr>\<rparr>"

definition demo_chat :: "chat parts \<Rightarrow> chat net_msg list \<Rightarrow> chat server" where
  "demo_chat p ms = \<lparr>sv_current_cid = 2, sv_config = config_default,
     sv_msg_buff = [[], [], [], map (\<lambda>m. \<lparr>em_cid = nm_cid m, em_time = nm_time m, em_msg = chat_any (nm_m m)\<rparr>) ms],
     sv_new_cons = [], sv_disconnected = [],
     sv_listener = \<lparr>backlog = [], l_nonblocking = True, l_local = Some (SockAddr 1 7777)\<rparr>,
     sv_tcp = [1 \<mapsto> demo_accepted (SockAddr 2 9) [], 2 \<mapsto> demo_accepted (SockAddr 3 9) []],
     sv_udp = demo_ucon, sv_cid_addr = [1 \<mapsto> SockAddr 2 9, 2 \<mapsto> SockAddr 3 9],
     sv_addr_cid = [SockAddr 2 9 \<mapsto> 1, SockAddr 3 9 \<mapsto> 2], sv_parts = p\<rparr>"

lemma demo_chat_simps [simp]:
  "sv_parts (demo_chat p ms) = p" "sv_cid_addr (demo_chat p ms) = [1 \<mapsto> SockAddr 2 9, 2 \<mapsto> SockAddr 3 9]"
  "sv_udp (demo_chat p ms) = demo_ucon" "server_cids demo_ko (demo_chat p ms) = [1, 2]"
  by (simp_all add: demo_chat_def server_cids_def demo_ko_def word_le_nat_alt)

lemma demo_chat_relays:
  assumes "chat_parts demo_chat_bincode = Ok p"
  shows "\<exists>sv'. chat_relay demo_ko (\<lambda>cid. 0) [demo_said 1 ''hi'', demo_said 2 ''disconnect-me''] ([], [], demo_chat p []) =
       (Ok (), [2], [SaidLine 1 ''bob'' ''hi'', SaidLine 2 ''bob'' ''disconnect-me''], sv')"
proof -
  note t = chat_parts_ok [OF assms]
  let ?sv = "demo_chat p []" and ?x = "\<lparr>msg_from = ''bob'', msg_text = ''hi''\<rparr>"
  have "server_send_to 0 2 (chat_any (VMsg ?x)) ?sv = server_send_udp 0 2 3 [7] ?sv"
    using lookup_codec [OF t(1,3,8), of UDP "\<lambda>r. r" "VMsg ?x"] t(4,8)
    by (simp add: server_send_to_def server_valid_tid_def valid_tid_def domI Let_def chat_any_def demo_chat_bincode_def
        demo_hi_def)
  also have "fst \<dots> = Ok ()"
    by (simp add: server_send_udp_def udp_con_send_to_def udp_send_shared_eq socket_send_to_def demo_ucon_def
      demo_socket_def udp_buff_size_def)
  finally obtain sv' where "server_send_to 0 2 (chat_any (VMsg ?x)) ?sv = (Ok (), sv')"
    by (metis prod.collapse)
  then show ?thesis by (simp add: demo_said_def server_send_spec_def)
qed

section \<open>From one client's message to the other clients' screens\<close>

definition said_line :: "chat net_msg \<Rightarrow> string" where
  "said_line m = (case nm_m m of VMsg x \<Rightarrow> msg_from x @ '': \"'' @ msg_text x @ ''\"'' | _ \<Rightarrow> [])"

lemma chat_print_lines:
  "\<forall>m \<in> set ms. \<exists>x. nm_m m = VMsg x \<Longrightarrow> chat_print ms = Ok (map said_line ms)"
  by (induction ms) (auto simp: said_line_def)

text \<open>What the relay writes to one address: one datagram for each message of the others.\<close>

lemma filter_the_one: "distinct xs \<Longrightarrow> c \<in> set xs \<Longrightarrow> filter (\<lambda>d. d = c) xs = [c]"
  by (induction xs) (auto simp: filter_empty_conv)

lemma addressed_to:
  assumes "distinct cids" "c \<in> set cids" "\<And>d m. d \<in> set cids \<Longrightarrow> fst (g m d) = a \<longleftrightarrow> d = c"
  shows "filter (\<lambda>d. fst d = a) (concat (map (\<lambda>m. map (g m) (filter (\<lambda>d. d \<noteq> sender m) cids)) ms)) =
    map (\<lambda>m. g m c) (filter (\<lambda>m. sender m \<noteq> c) ms)"
proof (induction ms)
  case Nil
  then show ?case by simp
next
  case (Cons m ms)
  have "filter (\<lambda>d. d \<noteq> sender m \<and> fst (g m d) = a) cids = filter (\<lambda>d. d = c \<and> d \<noteq> sender m) cids"
    by (rule filter_cong) (use assms(3) in auto)
  then have "filter (\<lambda>d. fst d = a) (map (g m) (filter (\<lambda>d. d \<noteq> sender m) cids)) =
      map (g m) (filter (\<lambda>d. d = c \<and> d \<noteq> sender m) cids)"
    by (simp add: filter_map comp_def)
  also have "filter (\<lambda>d. d = c \<and> d \<noteq> sender m) cids = filter (\<lambda>d. d \<noteq> sender m) (filter (\<lambda>d. d = c) cids)"
    by (simp add: conj_commute)
  also have "\<dots> = (if sender m = c then [] else [c])" using filter_the_one [OF assms(1,2)] by auto
  finally show ?case using Cons.IH by simp
qed

lemma chat_datagram_arrives:
  assumes "chat_parts bc = Ok (cl_parts cl)" "sendable bc n (chat_any (VMsg x))" "n \<le> k"
    and "\<forall>b. bc_serialize bc TID_MSG (VMsg x) = Inr b \<longrightarrow> bc_deserialize bc TID_MSG b = Inr (VMsg x)"
    and "fresh oc at (stamp now)"
  shows "\<exists>d. event_of oc k (Datagram src (snd (dgram_to bc sv 3 now (chat_any (VMsg x)) c)) at) d \<and>
    decoded_udp (cl_parts cl) 0 d (3, \<lparr>em_cid = 0, em_time = Some (stamp now), em_msg = chat_any (VMsg x)\<rparr>)"
proof -
  note p = chat_parts_ok [OF assms(1)]
  obtain b where b: "bc_serialize bc TID_MSG (VMsg x) = Inr b" "length b + 4 \<le> n"
    using assms(2) by (auto simp: sendable_def chat_any_def)
  have "3 < mid_count (cl_parts cl)" "length (deser (cl_parts cl)) = mid_count (cl_parts cl)"
      "deser (cl_parts cl) ! 3 = deser_closure bc TID_MSG"
    using p(1,3,8) by (auto simp: wf_parts_def codec_of_def)
  then have "decode_msg (cl_parts cl) 0 (Some (stamp now)) 3 b =
      Ok (3, \<lparr>em_cid = 0, em_time = Some (stamp now), em_msg = chat_any (VMsg x)\<rparr>)"
    using assms(4) b(1)
    by (simp add: decode_msg_def decode_any_def valid_mid_def index_def deser_closure_def chat_any_def)
  then have "decoded_udp (cl_parts cl) 0 (src, 3, stamp now, b)
      (3, \<lparr>em_cid = 0, em_time = Some (stamp now), em_msg = chat_any (VMsg x)\<rparr>)"
    by (simp add: decoded_udp_def)
  moreover have "event_of oc k (Datagram src (snd (dgram_to bc sv 3 now (chat_any (VMsg x)) c)) at) (src, 3, stamp now, b)"
    using b assms(3,5) by (auto simp: event_of_def dgram_to_def chat_any_def)
  ultimately show ?thesis by blast
qed

text \<open>A frame of the client in which the messages \<open>ms\<close> are waiting, with nothing typed, prints them.\<close>

lemma chat_client_hears:
  assumes "chat_parts bc = Ok (cl_parts cl)"
    and "wf_client cl" "cl_status cl = Connected" "rx (tc_tcp (cl_tcp cl)) = []" "rx_state (tc_tcp (cl_tcp cl)) = RxOpen"
    and "\<forall>m \<in> set ms. \<exists>x. nm_m m = VMsg x"
    and "client_holds_udp oc (0, cl)
      (map (\<lambda>m. (3, \<lparr>em_cid = 0, em_time = Some (stamp now), em_msg = chat_any (nm_m m)\<rparr>)) ms)"
  shows "\<exists>cl'. chat_client_frame trim oc now' username [] cl = (Ok (False, map said_line ms), cl')"
proof -
  let ?got = "\<lambda>m. (3, \<lparr>em_cid = 0, em_time = Some (stamp now), em_msg = chat_any (nm_m m)\<rparr>)"
  note p = chat_parts_ok [OF assms(1)]
  have tcp: "client_holds (0, cl) []"
    using assms(2,4,5) by (simp add: offers_frames_def wf_client_def)
  have quiet: "outcome (Tail [] RxOpen) ([] :: (mid \<times> chat erased_net_msg) list) = Connected"
      "heard (Tail [] RxOpen) ([] :: (mid \<times> chat erased_net_msg) list) us = us" for us :: "(mid \<times> chat erased_net_msg) list"
    by (simp_all add: outcome_def heard_def)
  obtain cl' where cl': "client_recv_msgs oc (client_clear_msgs cl) = (Ok (word_of_nat (length ms)), cl')"
      "cl_status cl' = Connected"
      "client_recv TID_MSG cl' = Ok (map (\<lambda>m. \<lparr>nm_cid = em_cid m, nm_time = em_time m, nm_m = any_val (em_msg m)\<rparr>)
        (msgs_for 3 (map ?got ms)))"
    using client_round_recv [OF assms(2,3) tcp assms(7), of bc TID_MSG 3, unfolded quiet] p(3,8) by auto
  have "client_recv TID_MSG cl' = Ok (map (\<lambda>m. \<lparr>nm_cid = 0, nm_time = Some (stamp now), nm_m = nm_m m\<rparr>) ms)"
    using cl'(3) by (simp add: msgs_for_def comp_def chat_any_def)
  moreover have "chat_print (map (\<lambda>m. \<lparr>nm_cid = 0, nm_time = Some (stamp now), nm_m = nm_m m\<rparr>) ms) = Ok (map said_line ms)"
    by (subst chat_print_lines) (use assms(6) in \<open>auto simp: said_line_def\<close>)
  ultimately show ?thesis
    using cl'(1,2) assms(3)
    by (simp add: chat_client_frame_def client_open_def client_get_status_def disconnected_def)
qed

text \<open>
  C27: The chat works. If the server's frame relays the messages \<open>ms\<close> and the datagrams it wrote to a
  client's address arrive there in order and in time, then that client's next frame, with nothing
  typed, prints exactly what the others said, in order: not what it said itself, and not the
  requests to be disconnected.
\<close>

theorem chat_reaches_the_others:
  assumes "chat_parts bc = Ok (sv_parts sv)" "cl_parts cl = sv_parts sv"
    and "\<forall>x b. bc_serialize bc TID_MSG (VMsg x) = Inr b \<longrightarrow> bc_deserialize bc TID_MSG b = Inr (VMsg x)"
    and "\<forall>m \<in> set ms. \<exists>x. nm_m m = VMsg x" "utx (uc_udp (sv_udp sv)) = []"
    and "chat_relay ko (\<lambda>c. now) ms ([], out, sv) = (Ok (), cids, out', sv')"
    and "distinct (server_cids ko sv)" "c \<in> set (server_cids ko sv)"
    and "\<forall>d \<in> set (server_cids ko sv). the (sv_cid_addr sv d) = a \<longleftrightarrow> d = c"
    and "wf_client cl" "cl_status cl = Connected" "rx (tc_tcp (cl_tcp cl)) = []" "rx_state (tc_tcp (cl_tcp cl)) = RxOpen"
    and "length (uc_buff (sv_udp sv)) \<le> length (uc_buff (cl_udp cl))" "fresh oc at (stamp now)"
    and "urx (uc_udp (cl_udp cl)) =
      map (\<lambda>d. Datagram src (snd d) at) (filter (\<lambda>d. fst d = a) (utx (uc_udp (sv_udp sv'))))"
  shows "\<exists>cl'. chat_client_frame trim oc now' username [] cl =
    (Ok (False, map said_line (filter (\<lambda>m. nm_cid m \<noteq> c \<and> \<not> wants_out m) ms)), cl')"
proof -
  let ?ms = "filter (\<lambda>m. nm_cid m \<noteq> c) (filter (\<lambda>m. \<not> wants_out m) ms)"
  let ?g = "\<lambda>m d. dgram_to bc sv 3 now (chat_any (nm_m m)) d"
  let ?got = "\<lambda>m. (3, \<lparr>em_cid = 0, em_time = Some (stamp now), em_msg = chat_any (nm_m m)\<rparr>)"
  note p = chat_parts_ok [OF assms(1)]
  have pc: "chat_parts bc = Ok (cl_parts cl)" using assms(1,2) by simp
  from chat_relay_steps [OF assms(1,4,6) refl] assms(5)
  have sent: "\<forall>m \<in> set ms. \<not> wants_out m \<and> (\<exists>d \<in> set (server_cids ko sv). d \<noteq> nm_cid m) \<longrightarrow>
        sendable bc (length (uc_buff (sv_udp sv))) (chat_any (nm_m m))"
    "utx (uc_udp (sv_udp sv')) =
      concat (map (\<lambda>m. map (?g m) (filter (\<lambda>d. d \<noteq> nm_cid m) (server_cids ko sv))) (filter (\<lambda>m. \<not> wants_out m) ms))"
    by auto
  have "filter (\<lambda>d. fst d = a) (utx (uc_udp (sv_udp sv'))) = map (\<lambda>m. ?g m c) ?ms"
    unfolding sent(2) by (rule addressed_to [OF assms(7,8)]) (use assms(9) in \<open>simp add: dgram_to_def\<close>)
  then have urx: "urx (uc_udp (cl_udp cl)) = map (\<lambda>m. Datagram src (snd (?g m c)) at) ?ms"
    using assms(16) by simp
  have "\<exists>d. event_of oc (length (uc_buff (cl_udp cl))) (Datagram src (snd (?g m c)) at) d \<and> decoded_udp (cl_parts cl) 0 d (?got m)"
    if "m \<in> set ?ms" for m
  proof -
    obtain x where x: "nm_m m = VMsg x" using assms(4) \<open>m \<in> set ?ms\<close> by auto
    have "\<exists>d \<in> set (server_cids ko sv). d \<noteq> nm_cid m" using assms(8) that by (intro bexI [of _ c]) auto
    then have "sendable bc (length (uc_buff (sv_udp sv))) (chat_any (VMsg x))" using sent(1) that x by auto
    from chat_datagram_arrives [OF pc this assms(14) spec [OF assms(3), of x] assms(15)] show ?thesis by (simp only: x)
  qed
  then obtain d where d: "\<And>m. m \<in> set ?ms \<Longrightarrow>
      event_of oc (length (uc_buff (cl_udp cl))) (Datagram src (snd (?g m c)) at) (d m) \<and> decoded_udp (cl_parts cl) 0 (d m) (?got m)"
    by metis
  have "list_all2 (event_of oc (length (uc_buff (cl_udp cl)))) (urx (uc_udp (cl_udp cl))) (map d ?ms)"
    "list_all2 (decoded_udp (cl_parts cl) 0) (map d ?ms) (map ?got ?ms)"
    unfolding urx list_all2_map1 list_all2_map2 list_all2_same using d by blast+
  then have udp: "client_holds_udp oc (0, cl) (map ?got ?ms)"
    using assms(10) by (auto simp: holds_datagrams_def wf_client_def)
  from chat_client_hears [OF pc assms(10-13) _ udp] assms(4) show ?thesis by (simp add: conj_commute)
qed

theorem chat_reaches_the_others_witness:
  "\<exists>p sv' cl'. chat_relay demo_ko (\<lambda>cid. 0) [demo_said 1 ''hi'', demo_said 2 ''disconnect-me''] ([], [], demo_chat p []) =
       (Ok (), [2], [SaidLine 1 ''bob'' ''hi'', SaidLine 2 ''bob'' ''disconnect-me''], sv') \<and>
     chat_client_frame id True 0 ''ann'' [] \<lparr>cl_config = config_default, cl_status = Connected,
       cl_msg_buff = replicate 4 [], cl_tcp = demo_con, cl_udp = demo_ucon\<lparr>uc_udp := demo_socket\<lparr>
         urx := [Datagram (SockAddr 1 7777) (datagram 3 (stamp 0) [7]) 0]\<rparr>\<rparr>, cl_parts = p\<rparr> =
     (Ok (False, [''bob: \"hi\"'']), cl')"
proof -
  obtain p sv' where p: "chat_parts demo_chat_bincode = Ok p" and run:
      "chat_relay demo_ko (\<lambda>cid. 0) [demo_said 1 ''hi'', demo_said 2 ''disconnect-me''] ([], [], demo_chat p []) =
       (Ok (), [2], [SaidLine 1 ''bob'' ''hi'', SaidLine 2 ''bob'' ''disconnect-me''], sv')"
    using chat_parts_builds demo_chat_relays by blast
  note t = chat_parts_ok [OF p]
  have msgs: "\<forall>m \<in> set [demo_said 1 ''hi'', demo_said 2 ''disconnect-me'']. \<exists>x. nm_m m = VMsg x"
    by (simp add: demo_said_def)
  let ?cl = "\<lparr>cl_config = config_default, cl_status = Connected, cl_msg_buff = replicate 4 [], cl_tcp = demo_con,
       cl_udp = demo_ucon\<lparr>uc_udp := demo_socket\<lparr>urx := [Datagram (SockAddr 1 7777) (datagram 3 (stamp 0) [7]) 0]\<rparr>\<rparr>,
       cl_parts = p\<rparr>"
  have utx: "utx (uc_udp (sv_udp sv')) = [(SockAddr 3 9, datagram 3 (stamp 0) [7])]"
    using chat_relay_steps [OF p msgs run]
    by (auto simp: wants_out_def demo_said_def dgram_to_def chat_any_def demo_chat_bincode_def demo_hi_def demo_ucon_def
      demo_socket_def)
  have codec: "\<forall>x b. bc_serialize demo_chat_bincode TID_MSG (VMsg x) = Inr b \<longrightarrow>
      bc_deserialize demo_chat_bincode TID_MSG b = Inr (VMsg x)"
    by (simp add: demo_chat_bincode_def)
  have cl: "wf_client ?cl" "cl_status ?cl = Connected" "rx (tc_tcp (cl_tcp ?cl)) = []" "rx_state (tc_tcp (cl_tcp ?cl)) = RxOpen"
    using t(1,4) by (simp_all add: wf_client_def wf_con_def wf_ucon_def mid_count_def demo_con_def tcp_from_stream_def
      demo_stream_def demo_ucon_def)
  have server: "utx (uc_udp (sv_udp (demo_chat p []))) = []" "distinct (server_cids demo_ko (demo_chat p []))"
      "2 \<in> set (server_cids demo_ko (demo_chat p []))"
      "\<forall>d \<in> set (server_cids demo_ko (demo_chat p [])). the (sv_cid_addr (demo_chat p []) d) = SockAddr 3 9 \<longleftrightarrow> d = 2"
    by (simp_all add: demo_ucon_def demo_socket_def)
  have "urx (uc_udp (cl_udp ?cl)) = map (\<lambda>d. Datagram (SockAddr 1 7777) (snd d) 0)
      (filter (\<lambda>d. fst d = SockAddr 3 9) (utx (uc_udp (sv_udp sv'))))"
    by (simp add: utx)
  from chat_reaches_the_others [OF _ _ codec msgs server(1) run server(2-4) cl _ _ this, of True id 0 "''ann''"] p
  show ?thesis using run
    by (auto simp: fresh_def said_line_def demo_said_def wants_out_def demo_ucon_def)
qed

end
