(* ===== verification/Chat_Room.thy ===== *)
theory Chat_Room
  imports Chat_Properties Settling
begin

text \<open>
  What a frame of the chat server (\<open>src/examples/server.rs\<close>) does, as a function on a chat room:
  who is at its door and who is in, what is printed and what is sent to whom. The sockets, buffers
  and maps of the library are not in it. A frame of the program that does not panic is a frame of
  the room.
\<close>

section \<open>The room\<close>

text \<open>
  What a connection at the door has said so far: nothing that makes a message, its name, another
  value than a \<open>Connection\<close>, or something that ends it.
\<close>

datatype greeting = Silent | Hello string | Garbled | Broken

text \<open>
  The street is the listener's queue, with \<open>None\<close> for a failing \<open>accept\<close>; those at the door have
  an id, their address if it is known and the time of their coming.
\<close>

record room =
  rm_street :: "(greeting \<times> sock_addr option \<times> nat) option list"
  rm_issued :: cid
  rm_door :: "(cid \<times> sock_addr option \<times> nat) list"
  rm_greetings :: "greeting list"
  rm_guests :: "cid \<rightharpoonup> sock_addr"
  rm_leaving :: "(cid \<times> chat status) list"
  rm_heard :: "chat net_msg list"
  rm_lines :: "server_line list"
  rm_sent :: "(sock_addr \<times> byte list) list"

text \<open>The door is opened to the street until it is full, the street is empty or \<open>accept\<close> fails.\<close>

fun opens ::
    "nat \<Rightarrow> (greeting \<times> sock_addr option \<times> nat) option list \<Rightarrow> cid \<times> (cid \<times> sock_addr option \<times> nat) list \<times> greeting list \<Rightarrow>
     (greeting \<times> sock_addr option \<times> nat) option list \<times> cid \<times> (cid \<times> sock_addr option \<times> nat) list \<times> greeting list" where
  "opens limit [] s = ([], s)"
| "opens limit (None # street) s = (if length (fst (snd s)) < limit then street else None # street, s)"
| "opens limit (Some (g, addr, t) # street) (c, door, gs) =
     (if length door < limit then opens limit street (c + 1, door @ [(c + 1, addr, t)], gs @ [g])
      else (Some (g, addr, t) # street, c, door, gs))"

text \<open>What the server thinks of one at the door, by its greeting and how long it has been there.\<close>

definition judge :: "(string \<Rightarrow> string) \<Rightarrow> nat \<Rightarrow> nat \<Rightarrow> greeting \<Rightarrow> unit verdict" where
  "judge lower timeout age g =
     (if timeout < age then Dies
      else case g of
        Silent \<Rightarrow> Waits
      | Hello user \<Rightarrow> if lower user \<in> {''john'', ''jane''} then Refused () else Welcomed ()
      | Garbled \<Rightarrow> Refused ()
      | Broken \<Rightarrow> Dies)"

fun judge_all ::
    "(string \<Rightarrow> string) \<Rightarrow> nat \<Rightarrow> (nat \<Rightarrow> nat) \<Rightarrow> nat \<Rightarrow> (cid \<times> sock_addr option \<times> nat) list \<Rightarrow> greeting list \<Rightarrow>
     unit verdict list" where
  "judge_all lower timeout clk i ((c, addr, t) # door) (g # gs) =
     judge lower timeout (clk i - t) g # judge_all lower timeout clk (Suc i) door gs"
| "judge_all lower timeout clk i door gs = []"

text \<open>Those welcome come in, by their positions.\<close>

fun invite ::
    "nat list \<Rightarrow> (cid \<times> sock_addr option \<times> nat) list \<Rightarrow> (cid \<rightharpoonup> sock_addr) \<Rightarrow>
     ((cid \<times> sock_addr option \<times> nat) list \<times> (cid \<rightharpoonup> sock_addr)) option" where
  "invite [] door guests = Some (door, guests)"
| "invite (i # is) door guests =
     (if i < length door then
        (case door ! i of
           (c, Some addr, t) \<Rightarrow> invite is (take i door @ drop (Suc i) door) (guests(c \<mapsto> addr))
         | _ \<Rightarrow> None)
      else None)"

definition answers ::
    "unit verdict list \<Rightarrow> (cid \<times> sock_addr option \<times> nat) list \<Rightarrow> (cid \<rightharpoonup> sock_addr) \<Rightarrow>
     ((cid \<times> sock_addr option \<times> nat) list \<times> (cid \<rightharpoonup> sock_addr)) option" where
  "answers vs door guests =
     Option.bind (invite (map fst (welcomes 0 vs)) door guests) (\<lambda>(door, guests).
     map_option (\<lambda>door. (door, guests)) (pluck (map fst (refusals 0 vs) @ deaths 0 vs) door))"

text \<open>The server prints each message, and sends each but the requests to leave to all others.\<close>

definition says :: "chat net_msg \<Rightarrow> server_line" where
  "says m = (case nm_m m of VMsg x \<Rightarrow> SaidLine (nm_cid m) (msg_from x) (msg_text x) | _ \<Rightarrow> LeftLine (nm_cid m) Closed)"

definition passes_on ::
    "chat bincode \<Rightarrow> int \<Rightarrow> cid list \<Rightarrow> (cid \<rightharpoonup> sock_addr) \<Rightarrow> chat net_msg \<Rightarrow> (sock_addr \<times> byte list) list" where
  "passes_on bc now cids guests m =
     (if wants_out m then []
      else map (\<lambda>c. (the (guests c), datagram 3 (stamp now) (case bc_serialize bc TID_MSG (nm_m m) of Inr b \<Rightarrow> b | Inl e \<Rightarrow> [])))
        (filter (\<lambda>c. c \<noteq> nm_cid m) cids))"

text \<open>
  A frame in which the connections \<open>lost\<close> end and the messages \<open>ms\<close> arrive. The ones who were
  leaving and the ones lost leave; the door is opened; those at the door are answered; the
  messages are printed and passed on; the ones who asked for it will leave in the next frame.
\<close>

definition room_frame ::
    "(string \<Rightarrow> string) \<Rightarrow> chat bincode \<Rightarrow> ((cid \<rightharpoonup> sock_addr) \<Rightarrow> cid list) \<Rightarrow> net_config \<Rightarrow> int \<Rightarrow> (nat \<Rightarrow> nat) \<Rightarrow>
     (cid \<times> chat status) list \<Rightarrow> chat net_msg list \<Rightarrow> room \<Rightarrow> room option" where
  "room_frame lower bc ko config now clk lost ms r =
     (let queue = rm_leaving r @ lost;
          lines = rm_lines r @ map (\<lambda>(c, st). LeftLine c st) (first_live (dom (rm_guests r)) queue);
          guests = rm_guests r |` (- fst ` set queue)
      in case opens (cfg_max_con_handle config) (rm_street r) (rm_issued r, rm_door r, rm_greetings r) of
        (street, issued, door, gs) \<Rightarrow>
          (case answers (judge_all lower (cfg_timeout config) clk 0 door gs) door guests of
             None \<Rightarrow> None
           | Some (door, guests) \<Rightarrow>
               (let out = map nm_cid (filter wants_out ms)
                in if distinct out \<and> list_all (\<lambda>c. guests c \<noteq> None) out
                   then Some \<lparr>rm_street = street, rm_issued = issued, rm_door = door, rm_greetings = [],
                     rm_guests = guests, rm_leaving = map (\<lambda>c. (c, Closed)) out, rm_heard = ms,
                     rm_lines = lines @ map says ms,
                     rm_sent = rm_sent r @ concat (map (passes_on bc now (ko guests) guests) ms)\<rparr>
                   else None)))"

section \<open>The room of a server\<close>

definition greeting_of :: "chat parts \<Rightarrow> tcp_con \<Rightarrow> greeting" where
  "greeting_of parts con =
     (case fst (handle_con_helper (deser parts ! CONNECTION_TYPE_MID) TID_CONNECTION 0 0 con) of
        Inr (VConnection c) \<Rightarrow> Hello (con_user c)
      | Inr _ \<Rightarrow> Garbled
      | Inl (IoErr e) \<Rightarrow> if err_kind e = WouldBlock then Silent else Broken
      | Inl (Panic p) \<Rightarrow> Broken)"

fun stands_at :: "pending_con \<Rightarrow> cid \<times> sock_addr option \<times> nat" where
  "stands_at (con, cid, t) = (cid, peer_name (tc_tcp con), t)"

fun comes_to :: "chat parts \<Rightarrow> nat \<Rightarrow> accept_event \<Rightarrow> (greeting \<times> sock_addr option \<times> nat) option" where
  "comes_to parts n (Incoming s t) = Some (greeting_of parts (tcp_from_stream (s\<lparr>is_nonblocking := True\<rparr>) n), peer_name s, t)"
| "comes_to parts n (AcceptFault e) = None"

definition room_of :: "server_line list \<times> chat server \<Rightarrow> room" where
  "room_of s = (case s of (out, sv) \<Rightarrow>
     \<lparr>rm_street = map (comes_to (sv_parts sv) (cfg_max_msg_size (sv_config sv))) (backlog (sv_listener sv)),
      rm_issued = sv_current_cid sv, rm_door = map stands_at (sv_new_cons sv),
      rm_greetings = map (greeting_of (sv_parts sv) \<circ> fst) (sv_new_cons sv),
      rm_guests = sv_cid_addr sv, rm_leaving = sv_disconnected sv,
      rm_heard = (case server_recv TID_MSG sv of Inr ms \<Rightarrow> ms | Inl e \<Rightarrow> []), rm_lines = out,
      rm_sent = utx (uc_udp (sv_udp sv))\<rparr>)"

lemma room_of_simps [simp]:
  "rm_street (room_of (out, sv)) = map (comes_to (sv_parts sv) (cfg_max_msg_size (sv_config sv))) (backlog (sv_listener sv))"
  "rm_issued (room_of (out, sv)) = sv_current_cid sv" "rm_door (room_of (out, sv)) = map stands_at (sv_new_cons sv)"
  "rm_greetings (room_of (out, sv)) = map (greeting_of (sv_parts sv) \<circ> fst) (sv_new_cons sv)"
  "rm_guests (room_of (out, sv)) = sv_cid_addr sv" "rm_leaving (room_of (out, sv)) = sv_disconnected sv"
  "rm_heard (room_of (out, sv)) = (case server_recv TID_MSG sv of Inr ms \<Rightarrow> ms | Inl e \<Rightarrow> [])"
  "rm_lines (room_of (out, sv)) = out" "rm_sent (room_of (out, sv)) = utx (uc_udp (sv_udp sv))"
  by (simp_all add: room_of_def)

section \<open>Receiving, and the farewells\<close>

text \<open>What a call of \<open>recv_msgs\<close> leaves as it was, and what it queues.\<close>

definition only_hears :: "'v server \<Rightarrow> 'v server \<Rightarrow> bool" where
  "only_hears sv sv' \<longleftrightarrow> sv_current_cid sv' = sv_current_cid sv \<and> sv_config sv' = sv_config sv \<and>
     sv_new_cons sv' = sv_new_cons sv \<and> sv_listener sv' = sv_listener sv \<and> sv_cid_addr sv' = sv_cid_addr sv \<and>
     sv_parts sv' = sv_parts sv \<and> utx (uc_udp (sv_udp sv')) = utx (uc_udp (sv_udp sv)) \<and>
     (\<exists>lost. sv_disconnected sv' = sv_disconnected sv @ lost \<and>
        (\<forall>(c, st) \<in> set lost. c \<in> dom (sv_cid_addr sv) \<and> st \<noteq> Closed))"

lemma recv_msgs_only_hears:
  assumes "key_order ko" "wf_server sv" "server_recv_msgs ko oc sv = (r, sv')"
  shows "only_hears sv sv'"
proof -
  have "recv_keeps (set (server_cids ko sv)) {oc} (only_hears sv)"
  proof (rule recv_keeps_any)
    fix cid r and s s' :: "'a server"
    assume "only_hears sv s" "server_recv_tcp cid s = (r, s')"
    then show "only_hears sv s'" using server_recv_tcp_frame(1) [of cid s r s'] by (simp add: only_hears_def)
  next
    fix u r and s s' :: "'a server"
    assume "only_hears sv s" "server_recv_udp u s = (r, s')"
    then show "only_hears sv s'"
      using server_recv_udp_frame(1) [of u s r s'] udp_con_recv_from_frame(2) [of u "sv_udp s"]
      by (cases "udp_con_recv_from u (sv_udp s)") (simp add: only_hears_def)
  next
    fix cid and st :: "'a status" and s :: "'a server"
    assume s: "cid \<in> set (server_cids ko sv)" "only_hears sv s" "st \<noteq> Closed"
    then have "cid \<in> dom (sv_cid_addr sv)" using key_order_cids(2) [OF assms(1,2)] by simp
    then show "only_hears sv (s\<lparr>sv_disconnected := sv_disconnected s @ [(cid, st)]\<rparr>)"
      using s(2,3) by (fastforce simp: only_hears_def)
  qed (simp add: only_hears_def)
  moreover have "only_hears sv sv" by (simp add: only_hears_def)
  ultimately show ?thesis using server_recv_msgs_inv assms(3) by blast
qed

lemma restrict_gone: "c \<notin> dom m \<Longrightarrow> m |` (- insert c A) = m |` (- A)"
  by (auto simp: restrict_map_def fun_eq_iff domIff)

lemma disconnect_loop_fields:
  "server_disconnect_loop hook h (i, sv) = (Ok (), h', i', sv') \<Longrightarrow>
   sv_cid_addr sv' = sv_cid_addr sv |` (- fst ` set (sv_disconnected sv)) \<and> sv_current_cid sv' = sv_current_cid sv \<and>
   sv_config sv' = sv_config sv \<and> sv_new_cons sv' = sv_new_cons sv \<and> sv_listener sv' = sv_listener sv \<and>
   sv_parts sv' = sv_parts sv \<and> sv_udp sv' = sv_udp sv \<and> sv_msg_buff sv' = sv_msg_buff sv \<and> sv_disconnected sv' = []"
proof (induction hook h "(i, sv)" arbitrary: i sv rule: server_disconnect_loop.induct)
  case (1 hook h i sv)
  show ?case
  proof (cases "sv_disconnected sv")
    case Nil
    then show ?thesis using "1.prems" by (auto simp: disconnect_loop_nil restrict_map_def)
  next
    case (Cons p q)
    obtain c st where p: "p = (c, st)" by (cases p)
    show ?thesis
    proof (cases "server_alive sv c")
      case False
      then have c: "c \<notin> dom (sv_cid_addr sv)" by (simp add: server_alive_def)
      have "server_disconnect_loop hook h (i, sv\<lparr>sv_disconnected := q\<rparr>) = (Ok (), h', i', sv')"
        using "1.prems" unfolding disconnect_loop_dead [OF Cons [unfolded p] c] .
      from "1.hyps"(1) [OF Cons p [symmetric] refl _ this] False show ?thesis
        using c by (simp add: Cons p server_alive_def restrict_gone)
    next
      case True
      obtain r sv1 where rm: "server_rm_tcp_con c (sv\<lparr>sv_disconnected := q\<rparr>) = (r, sv1)" by fastforce
      have r: "r = Ok ()" using "1.prems" Cons p True rm
        by (cases r; rename_tac e, case_tac e) (auto simp: server_disconnect_loop.simps [of hook h i sv] Let_def server_alive_def)
      have "server_disconnect_loop hook (hook c st h) (i + 1, sv1) = (Ok (), h', i', sv')"
        using "1.prems" True unfolding server_alive_def
        by (subst (asm) disconnect_loop_live [OF Cons [unfolded p] _ rm [unfolded r]]) simp_all
      from "1.hyps"(2) [OF Cons p [symmetric] refl _ refl rm [symmetric] r this] show ?thesis
        using True rm r Cons p
        by (auto simp: server_alive_def server_rm_tcp_con_def Let_def restrict_map_def fun_eq_iff split: option.splits if_splits)
    qed
  qed
qed

lemma lines_of_farewells: "fold (\<lambda>(c, st). chat_on_disconnect c st) q out = out @ map (\<lambda>(c, st). LeftLine c st) q"
  by (induction q arbitrary: out) (auto simp: chat_on_disconnect_def)

lemma chat_farewells:
  assumes "wf_server sv" "server_handle_disconnects chat_on_disconnect out sv = (r, out', sv')"
  shows "out' = out @ map (\<lambda>(c, st). LeftLine c st) (first_live (dom (sv_cid_addr sv)) (sv_disconnected sv))"
    "sv_cid_addr sv' = sv_cid_addr sv |` (- fst ` set (sv_disconnected sv))" "sv_current_cid sv' = sv_current_cid sv"
    "sv_config sv' = sv_config sv" "sv_new_cons sv' = sv_new_cons sv" "sv_listener sv' = sv_listener sv"
    "sv_parts sv' = sv_parts sv" "sv_udp sv' = sv_udp sv" "sv_msg_buff sv' = sv_msg_buff sv" "sv_disconnected sv' = []"
    "wf_server sv'"
proof -
  have spec: "r = Ok (word_of_nat (length (first_live (dom (sv_cid_addr sv)) (sv_disconnected sv))))"
      "out' = fold (\<lambda>(c, st). chat_on_disconnect c st) (first_live (dom (sv_cid_addr sv)) (sv_disconnected sv)) out"
      "wf_server sv'"
    using server_handle_disconnects_spec [OF assms(1), of chat_on_disconnect out] assms(2) by auto
  then show "out' = out @ map (\<lambda>(c, st). LeftLine c st) (first_live (dom (sv_cid_addr sv)) (sv_disconnected sv))"
    "wf_server sv'" by (simp_all add: lines_of_farewells)
  obtain q i where q: "server_disconnect_loop chat_on_disconnect out (0, sv) = (q, out', i, sv')"
    using assms(2) by (auto simp: server_handle_disconnects_def split: prod.splits sum.splits)
  have "q = Ok ()" using assms(2) q spec(1) by (cases q) (auto simp: server_handle_disconnects_def)
  from disconnect_loop_fields [OF q [unfolded this]] show
    "sv_cid_addr sv' = sv_cid_addr sv |` (- fst ` set (sv_disconnected sv))" "sv_current_cid sv' = sv_current_cid sv"
    "sv_config sv' = sv_config sv" "sv_new_cons sv' = sv_new_cons sv" "sv_listener sv' = sv_listener sv"
    "sv_parts sv' = sv_parts sv" "sv_udp sv' = sv_udp sv" "sv_msg_buff sv' = sv_msg_buff sv" "sv_disconnected sv' = []"
    by simp_all
qed

section \<open>The door\<close>

lemma opens_full: "\<not> length door < limit \<Longrightarrow> opens limit street (c, door, gs) = (street, c, door, gs)"
  by (induction limit street "(c, door, gs)" rule: opens.induct) auto

lemma chat_opens:
  "server_start_incoming oc sv = (Ok (), sv') \<Longrightarrow>
   opens (cfg_max_con_handle (sv_config sv)) (rm_street (room_of (out, sv)))
       (sv_current_cid sv, rm_door (room_of (out, sv)), rm_greetings (room_of (out, sv))) =
     (rm_street (room_of (out, sv')), sv_current_cid sv', rm_door (room_of (out, sv')), rm_greetings (room_of (out, sv'))) \<and>
   sv_config sv' = sv_config sv \<and> sv_cid_addr sv' = sv_cid_addr sv \<and> sv_parts sv' = sv_parts sv \<and>
   sv_udp sv' = sv_udp sv \<and> sv_msg_buff sv' = sv_msg_buff sv \<and> sv_disconnected sv' = sv_disconnected sv"
proof (induction oc sv rule: server_start_incoming.induct)
  case (1 oc sv)
  note eq = server_start_incoming.simps [of oc sv]
  show ?case
  proof (cases "length (sv_new_cons sv) < cfg_max_con_handle (sv_config sv)")
    case False
    then have "sv' = sv" using "1.prems" by (simp add: eq)
    then show ?thesis using False by (simp add: opens_full)
  next
    case True
    show ?thesis
    proof (cases "backlog (sv_listener sv)")
      case Nil
      then show ?thesis using "1.prems" True by (auto simp: eq listener_accept_def)
    next
      case (Cons e es)
      show ?thesis
      proof (cases e)
        case (AcceptFault x)
        then show ?thesis using "1.prems" True Cons by (auto simp: eq listener_accept_def)
      next
        case (Incoming stream at)
        let ?l = "(sv_listener sv)\<lparr>backlog := es\<rparr>" and ?s = "stream\<lparr>is_nonblocking := True\<rparr>"
        have l: "listener_accept (sv_listener sv) = (Inr (stream, at), ?l)"
          by (simp add: listener_accept_def Cons Incoming)
        have block: "stream_set_nonblocking True stream = (Inr (), ?s)" by (simp add: stream_set_nonblocking_def)
        let ?sv1 = "sv\<lparr>sv_listener := ?l, sv_current_cid := sv_current_cid sv + 1\<rparr>"
        let ?con = "tcp_from_stream ?s (cfg_max_msg_size (sv_config sv))"
        let ?sv2 = "?sv1\<lparr>sv_new_cons := sv_new_cons ?sv1 @ [(?con, sv_current_cid sv + 1, at)]\<rparr>"
        have cid: "server_new_cid oc (sv\<lparr>sv_listener := ?l\<rparr>) = (Inr (sv_current_cid sv + 1), ?sv1)"
          using "1.prems" True
          by (auto simp: eq l block server_new_cid_def add_u32_def split: if_splits)
        have "server_start_incoming oc ?sv2 = (Ok (), sv')" using "1.prems" True by (simp add: eq l block cid)
        from "1.IH" [OF True l [symmetric] refl refl block [symmetric] refl refl cid [symmetric] refl this]
        show ?thesis using True by (simp add: Cons Incoming tcp_from_stream_def)
      qed
    qed
  qed
qed

text \<open>The loop over those at the door finds what is thought of them.\<close>

abbreviation plain :: "'v verdict \<Rightarrow> unit verdict" where
  "plain \<equiv> map_verdict (\<lambda>_. ())"

lemma plain_kinds:
  "map fst (welcomes i (map plain vs)) = map fst (welcomes i vs)"
  "map fst (refusals i (map plain vs)) = map fst (refusals i vs)" "deaths i (map plain vs) = deaths i vs"
proof -
  show "map fst (welcomes i (map plain vs)) = map fst (welcomes i vs)" by (induction i vs rule: welcomes.induct) simp_all
  show "map fst (refusals i (map plain vs)) = map fst (refusals i vs)" by (induction i vs rule: refusals.induct) simp_all
  show "deaths i (map plain vs) = deaths i vs" by (induction i vs rule: deaths.induct) simp_all
qed

lemma con_loop_has_verdicts:
  "con_loop one d C timeout clk hook idx cons (as, rs, ds) h = (Ok ls, cons', h') \<Longrightarrow>
   verdicts one d C timeout clk hook idx cons h \<noteq> None"
proof (induction cons arbitrary: idx as rs ds h cons')
  case Nil
  then show ?case by simp
next
  case (Cons p cons)
  obtain con cid time where p: "p = (con, cid, time)" by (cases p)
  obtain q con1 where q: "handle_con_helper d C timeout (clk idx - time) con = (q, con1)" by fastforce
  have rest: "verdicts one d C timeout clk hook (Suc idx) cons h0 \<noteq> None"
    if "con_loop one d C timeout clk hook (Suc idx) cons ls0 h0 = (Ok ls, c2, h')" for ls0 h0 c2
    using Cons.IH [of "Suc idx" "fst ls0" "fst (snd ls0)" "snd (snd ls0)" h0 c2] that by simp
  show ?case
  proof (cases q)
    case (Inl e)
    then show ?thesis using Cons.prems q rest
      by (cases e) (auto simp: p Let_def split: prod.splits if_splits)
  next
    case (Inr c)
    obtain acc resp h2 where hook: "hook cid c h = ((acc, resp), h2)" by (metis surj_pair)
    show ?thesis using Cons.prems q Inr hook rest
      by (cases one) (auto simp: p Let_def split: prod.splits)
  qed
qed

lemma helper_age:
  "fst (handle_con_helper d C timeout age con) =
   (if timeout < age then Err TimedOut NoConnectionInTime else fst (handle_con_helper d C 0 0 con))"
  by (auto simp: handle_con_helper_def split: prod.splits sum.splits)

lemma chat_on_connect_welcomes:
  "\<exists>resp. chat_on_connect lower cid x out =
     (((case x of VConnection c \<Rightarrow> lower (con_user c) \<notin> {''john'', ''jane''} | _ \<Rightarrow> False), resp), out)"
  by (cases x) (auto simp: chat_on_connect_def chat_answer_def blacklisted_users_def Let_def)

lemma chat_verdicts:
  "verdicts False (deser parts ! CONNECTION_TYPE_MID) TID_CONNECTION timeout clk (chat_on_connect lower) idx cons out =
     Some (vs, out') \<Longrightarrow>
   out' = out \<and> map plain vs =
     judge_all lower timeout clk idx (map stands_at cons) (map (greeting_of parts \<circ> fst) cons)"
proof (induction cons arbitrary: idx vs out')
  case Nil
  then show ?case by auto
next
  case (Cons p cons)
  obtain con cid time where p: "p = (con, cid, time)" by (cases p)
  note age = helper_age [of "deser parts ! CONNECTION_TYPE_MID" TID_CONNECTION timeout "clk idx - time" con]
  let ?now = "fst (handle_con_helper (deser parts ! CONNECTION_TYPE_MID) TID_CONNECTION 0 0 con)"
  obtain v vs' where v: "vs = v # vs'" "plain v = judge lower timeout (clk idx - time) (greeting_of parts con)"
    "verdicts False (deser parts ! CONNECTION_TYPE_MID) TID_CONNECTION timeout clk (chat_on_connect lower) (Suc idx) cons out =
     Some (vs', out')"
  proof (cases "timeout < clk idx - time")
    case True
    then show thesis using Cons.prems age that by (auto simp: p judge_def)
  next
    case False
    show thesis
    proof (cases ?now)
      case (Inl e)
      then show thesis using Cons.prems age False that
        by (cases e) (auto simp: p judge_def greeting_of_def split: if_splits)
    next
      case (Inr x)
      obtain resp where hook: "chat_on_connect lower cid x out =
          (((case x of VConnection c \<Rightarrow> lower (con_user c) \<notin> {''john'', ''jane''} | _ \<Rightarrow> False), resp), out)"
        using chat_on_connect_welcomes by blast
      obtain vs2 where v2: "verdicts False (deser parts ! CONNECTION_TYPE_MID) TID_CONNECTION timeout clk (chat_on_connect lower)
          (Suc idx) cons out = Some (vs2, out')"
        "vs = (if case x of VConnection c \<Rightarrow> lower (con_user c) \<notin> {''john'', ''jane''} | _ \<Rightarrow> False
          then Welcomed resp else Refused resp) # vs2"
        using Cons.prems age False Inr hook by (auto simp: p)
      then show thesis using that False Inr by (cases x) (auto simp: judge_def greeting_of_def)
    qed
  qed
  from Cons.IH [OF v(3)] v(1,2) show ?case by (simp add: p)
qed

text \<open>Settling answers them. What it leaves as it was:\<close>

definition indoors :: "'v server \<Rightarrow> 'v server \<Rightarrow> bool" where
  "indoors sv sv' \<longleftrightarrow> sv_current_cid sv' = sv_current_cid sv \<and> sv_config sv' = sv_config sv \<and>
     sv_listener sv' = sv_listener sv \<and> sv_msg_buff sv' = sv_msg_buff sv \<and> sv_disconnected sv' = sv_disconnected sv \<and>
     sv_parts sv' = sv_parts sv \<and> sv_udp sv' = sv_udp sv"

lemma indoors_refl: "indoors sv sv"
  by (simp add: indoors_def)

lemma indoors_trans: "indoors a b \<Longrightarrow> indoors b c \<Longrightarrow> indoors a c"
  by (simp add: indoors_def)

lemma server_send_to_tcp_indoors:
  assumes "tid_map (sv_parts sv) (any_tid m) = Some mid" "transports (sv_parts sv) ! mid = TCP"
    and "server_send_to now cid m sv = (r, sv')"
  shows "indoors sv sv'"
proof -
  have "sv_udp sv' = sv_udp sv"
    using assms
    by (auto simp: server_send_to_def server_valid_tid_def valid_tid_def domI Let_def hash_index_def index_def
        server_send_tcp_def res_simps split: sum.splits option.splits prod.splits if_splits)
  then show ?thesis using socks_only_fields [OF server_send_socks [OF assms(3)]] by (simp add: indoors_def)
qed

lemma accept_incoming_invites:
  assumes "server_accept_incoming now cid con (AnyBox R resp) sv = (Ok (), sv')"
    and "tid_map (sv_parts sv) R = Some mid" "transports (sv_parts sv) ! mid = TCP"
  shows "\<exists>addr. peer_name (tc_tcp con) = Some addr \<and> sv_cid_addr sv' = (sv_cid_addr sv)(cid \<mapsto> addr) \<and>
    sv_new_cons sv' = sv_new_cons sv \<and> indoors sv sv'"
proof -
  obtain addr where addr: "peer_name (tc_tcp con) = Some addr"
    using assms(1) by (cases "peer_name (tc_tcp con)")
      (auto simp: server_accept_incoming_def tcp_con_peer_addr_def name_res_def)
  let ?sv1 = "sv\<lparr>sv_tcp := (sv_tcp sv)(cid \<mapsto> con), sv_addr_cid := (sv_addr_cid sv)(addr \<mapsto> cid),
    sv_cid_addr := (sv_cid_addr sv)(cid \<mapsto> addr)\<rparr>"
  have a: "server_add_tcp_con_cid cid con sv = (Ok (), ?sv1)" "unwrap_res (tcp_con_peer_addr con) = Ok addr"
    using addr by (simp_all add: server_add_tcp_con_cid_def tcp_con_peer_addr_def name_res_def)
  obtain q sv2 where q: "server_send_to now cid (AnyBox R resp) ?sv1 = (q, sv2)" by fastforce
  have "sv' = sv2" using assms(1) a q by (auto simp: server_accept_incoming_def split: sum.splits fail.splits)
  moreover have "indoors ?sv1 sv2" using server_send_to_tcp_indoors [OF _ _ q] assms(2,3) by simp
  ultimately show ?thesis
    using addr socks_only_fields(4,7) [OF server_send_socks [OF q]] by (simp add: indoors_def)
qed

lemma accept_all_invites:
  "server_accept_all now R as sv = (Ok (), sv') \<Longrightarrow> tid_map (sv_parts sv) R = Some mid \<Longrightarrow> transports (sv_parts sv) ! mid = TCP \<Longrightarrow>
   invite (map fst as) (map stands_at (sv_new_cons sv)) (sv_cid_addr sv) =
     Some (map stands_at (sv_new_cons sv'), sv_cid_addr sv') \<and> indoors sv sv'"
proof (induction as arbitrary: sv)
  case Nil
  then show ?case by (simp add: indoors_refl)
next
  case (Cons a as)
  obtain idx resp where a: "a = (idx, resp)" by (cases a)
  have idx: "idx < length (sv_new_cons sv)" using Cons.prems(1) by (auto simp: a vec_remove_def split: if_splits)
  obtain con cid time where p: "sv_new_cons sv ! idx = (con, cid, time)" by (metis surj_pair)
  let ?sv = "sv\<lparr>sv_new_cons := take idx (sv_new_cons sv) @ drop (Suc idx) (sv_new_cons sv)\<rparr>"
  obtain q sv1 where q: "server_accept_incoming now cid con (AnyBox R resp) ?sv = (q, sv1)" by fastforce
  then have ok: "q = Ok ()" "server_accept_all now R as sv1 = (Ok (), sv')"
    using Cons.prems(1) p idx by (cases q; simp add: a vec_remove_def)+
  obtain addr where addr: "peer_name (tc_tcp con) = Some addr" "sv_cid_addr sv1 = (sv_cid_addr sv)(cid \<mapsto> addr)"
      "sv_new_cons sv1 = sv_new_cons ?sv" "indoors ?sv sv1"
    using accept_incoming_invites [OF q [unfolded ok(1)]] Cons.prems(2,3) by auto
  have in1: "indoors sv sv1" using addr(4) by (simp add: indoors_def)
  then have "tid_map (sv_parts sv1) R = Some mid" "transports (sv_parts sv1) ! mid = TCP"
    using Cons.prems(2,3) by (simp_all add: indoors_def)
  from Cons.IH [OF ok(2) this] have "invite (map fst as) (map stands_at (sv_new_cons ?sv)) ((sv_cid_addr sv)(cid \<mapsto> addr)) =
      Some (map stands_at (sv_new_cons sv'), sv_cid_addr sv')" "indoors sv1 sv'"
    unfolding addr(2,3) by blast+
  then show ?case
    using addr(1) idx p indoors_trans [OF in1] by (simp add: a take_map drop_map)
qed

lemma reject_all_indoors: "server_reject_all R rs sv = (Ok (), sv') \<Longrightarrow> indoors sv sv'"
proof (induction rs arbitrary: sv)
  case Nil
  then show ?case by (simp add: indoors_refl)
next
  case (Cons a rs)
  obtain idx resp where a: "a = (idx, resp)" by (cases a)
  obtain con cid time cons where v: "vec_remove idx (sv_new_cons sv) = Inr ((con, cid, time), cons)"
    using Cons.prems by (cases "vec_remove idx (sv_new_cons sv)") (auto simp: a)
  let ?sv = "sv\<lparr>sv_new_cons := cons\<rparr>"
  have "server_reject_all R rs ?sv = (Ok (), sv')"
    using Cons.prems v by (cases "fst (server_reject_incoming con (AnyBox R resp) ?sv)") (simp_all add: a Let_def)
  from Cons.IH [OF this] show ?case by (simp add: indoors_def)
qed

lemma settle_answers:
  assumes "server_settle now R (as, rs, ds) sv = (Ok (), sv')"
    and "tid_map (sv_parts sv) R = Some mid" "transports (sv_parts sv) ! mid = TCP"
  shows "Option.bind (invite (map fst as) (map stands_at (sv_new_cons sv)) (sv_cid_addr sv)) (\<lambda>(door, guests).
      map_option (\<lambda>door. (door, guests)) (pluck (map fst rs @ ds) door)) =
    Some (map stands_at (sv_new_cons sv'), sv_cid_addr sv') \<and> indoors sv sv'"
proof -
  obtain q1 sv1 where 1: "server_accept_all now R as sv = (q1, sv1)" by fastforce
  then have q1: "q1 = Ok ()" using assms(1) by (cases q1) (simp_all add: server_settle_def)
  obtain q2 sv2 where 2: "server_reject_all R rs sv1 = (q2, sv2)" by fastforce
  then have q2: "q2 = Ok ()" using assms(1) 1 q1 by (cases q2) (simp_all add: server_settle_def)
  have "server_remove_dead ds sv2 = (Ok (), sv')" using assms(1) 1 2 q1 q2 by (simp add: server_settle_def)
  then obtain cons where cons: "pluck ds (sv_new_cons sv2) = Some cons" "sv' = sv2\<lparr>sv_new_cons := cons\<rparr>"
    by (auto simp: remove_dead_plucks)
  note i = accept_all_invites [OF 1 [unfolded q1] assms(2,3)]
  note r = reject_all_plucks [OF 2 [unfolded q2]]
  have "pluck (map fst rs @ ds) (sv_new_cons sv1) = Some cons" using r cons(1) by (simp add: pluck_append)
  then have "pluck (map fst rs @ ds) (map stands_at (sv_new_cons sv1)) = Some (map stands_at cons)"
    by (simp add: pluck_map)
  moreover have "indoors sv sv'"
    using i reject_all_indoors [OF 2 [unfolded q2]] by (simp add: indoors_def cons(2))
  ultimately show ?thesis using i r by (simp add: cons(2))
qed

lemma same_stands:
  "list_all2 same_pending ps qs \<Longrightarrow> \<forall>p \<in> set ps. wf_con (fst p) \<Longrightarrow> map stands_at qs = map stands_at ps"
  by (induction rule: list_all2_induct) (auto simp: same_pending_def)

text \<open>Together: what \<open>handle_new_cons\<close> does for the chat server.\<close>

lemma chat_door:
  assumes "chat_parts bc = Ok (sv_parts sv)" "wf_server sv"
    and "server_handle_new_cons True now clk TID_CONNECTION TID_RESPONSE (chat_on_connect lower) out sv = (Ok n, out', sv')"
  shows "\<exists>street issued door gs. opens (cfg_max_con_handle (sv_config sv)) (rm_street (room_of (out, sv)))
       (sv_current_cid sv, rm_door (room_of (out, sv)), rm_greetings (room_of (out, sv))) = (street, issued, door, gs) \<and>
    answers (judge_all lower (cfg_timeout (sv_config sv)) clk 0 door gs) door (sv_cid_addr sv) =
      Some (rm_door (room_of (out, sv')), sv_cid_addr sv') \<and>
    rm_street (room_of (out, sv')) = street \<and> sv_current_cid sv' = issued \<and> out' = out \<and>
    sv_config sv' = sv_config sv \<and> sv_parts sv' = sv_parts sv \<and> sv_udp sv' = sv_udp sv \<and>
    sv_msg_buff sv' = sv_msg_buff sv \<and> sv_disconnected sv' = sv_disconnected sv"
proof -
  obtain q sv1 where s: "server_start_incoming True sv = (q, sv1)" by fastforce
  then have q: "q = Ok ()" using assms(3) by (cases q) (simp_all add: server_handle_new_cons_def)
  note o = chat_opens [OF s [unfolded q], of out]
  have wf1: "wf_server sv1" using wf_start_incoming [OF assms(2) s] .
  have parts: "chat_parts bc = Ok (sv_parts sv1)" using o assms(1) by simp
  note p = chat_parts_ok [OF parts]
  let ?d = "deser (sv_parts sv1) ! CONNECTION_TYPE_MID"
  have d: "index (deser (sv_parts sv1)) CONNECTION_TYPE_MID = Ok ?d"
    using p(1,5) by (auto simp: wf_parts_def index_def)
  show ?thesis
  proof (cases "sv_new_cons sv1 = []")
    case True
    then have "out' = out" "sv' = sv1" using assms(3) s q by (simp_all add: server_handle_new_cons_def)
    then show ?thesis using o True by (simp add: answers_def)
  next
    case False
    obtain r cons' h2 where l: "con_loop False ?d TID_CONNECTION (cfg_timeout (sv_config sv1)) clk (chat_on_connect lower) 0
        (sv_new_cons sv1) ([], [], []) out = (r, cons', h2)" by (metis prod_cases3)
    obtain ls where r: "r = Ok ls"
      using assms(3) s q False d l by (cases r) (simp_all add: server_handle_new_cons_def)
    from con_loop_has_verdicts [OF l [unfolded r]] obtain vs h1 where
      v: "verdicts False ?d TID_CONNECTION (cfg_timeout (sv_config sv1)) clk (chat_on_connect lower) 0 (sv_new_cons sv1) out =
        Some (vs, h1)" by auto
    from con_loop_verdicts [OF l v] r have ls: "ls = (welcomes 0 vs, refusals 0 vs, deaths 0 vs)" "h2 = h1" by simp_all
    note judged = chat_verdicts [OF v]
    obtain q3 sv3 where st: "server_settle now TID_RESPONSE (welcomes 0 vs, refusals 0 vs, deaths 0 vs)
        (sv1\<lparr>sv_new_cons := cons'\<rparr>) = (q3, sv3)" by fastforce
    have q3: "q3 = Ok ()" "sv' = sv3" "out' = out"
      using assms(3) s q False d l r ls judged st
      by (cases q3; simp add: server_handle_new_cons_def Let_def)+
    have tr: "transports (sv_parts sv1) ! RESPONSE_TYPE_MID = TCP" using p(4) by (simp add: mid_defs)
    have "\<forall>p \<in> set (sv_new_cons sv1). wf_con (fst p)" using wf1 by (simp add: wf_server_defs)
    then have same: "map stands_at cons' = map stands_at (sv_new_cons sv1)"
      using same_stands con_loop_keeps [OF l] by blast
    from settle_answers [OF st [unfolded q3(1)], of RESPONSE_TYPE_MID] p(6) tr
    have a: "answers (map plain vs) (map stands_at (sv_new_cons sv1)) (sv_cid_addr sv1) =
        Some (map stands_at (sv_new_cons sv3), sv_cid_addr sv3)" "indoors (sv1\<lparr>sv_new_cons := cons'\<rparr>) sv3"
      by (simp_all add: answers_def plain_kinds same)
    then show ?thesis using o judged q3 by (simp add: indoors_def)
  qed
qed

section \<open>Serving\<close>

lemma chat_relay_says:
  "chat_relay ko now ms (cids, out, sv) = (Ok (), cids', out', sv') \<Longrightarrow>
   out' = out @ map says ms \<and> (\<forall>m \<in> set ms. \<exists>x. nm_m m = VMsg x)"
proof (induction ms arbitrary: cids out sv)
  case Nil
  then show ?case by simp
next
  case (Cons m ms)
  obtain x where x: "nm_m m = VMsg x" using Cons.prems by (cases "nm_m m") auto
  let ?out = "out @ [SaidLine (nm_cid m) (msg_from x) (msg_text x)]"
  obtain q sv1 where s: "server_send_spec ko now (CIdExcept (nm_cid m)) (chat_any (VMsg x)) sv = (q, sv1)" by fastforce
  have "\<exists>cids sv. chat_relay ko now ms (cids, ?out, sv) = (Ok (), cids', out', sv')"
    using Cons.prems x s by (cases q rule: unwrap_res.cases) (auto simp: Let_def split: if_splits)
  then show ?case using Cons.IH x by (fastforce simp: says_def)
qed

lemma concat_if: "concat (map f (filter P ms)) = concat (map (\<lambda>m. if P m then f m else []) ms)"
  by (induction ms) auto

lemma chat_relay_passes_on:
  assumes "chat_parts bc = Ok (sv_parts sv)" "chat_relay ko (\<lambda>c. now) ms ([], out, sv) = (Ok (), cids, out', sv')"
  shows "cids = map nm_cid (filter wants_out ms) \<and> out' = out @ map says ms \<and>
    (\<exists>u. sv' = sv\<lparr>sv_udp := u\<rparr> \<and> utx (uc_udp u) = utx (uc_udp (sv_udp sv)) @
      concat (map (passes_on bc now (ko (sv_cid_addr sv)) (sv_cid_addr sv)) ms))"
proof -
  note s = chat_relay_says [OF assms(2)]
  then have msgs: "\<forall>m \<in> set ms. \<exists>x. nm_m m = VMsg x" by simp
  let ?to = "\<lambda>m. map (\<lambda>c. dgram_to bc sv 3 now (chat_any (nm_m m)) c) (filter (\<lambda>c. c \<noteq> nm_cid m) (server_cids ko sv))"
  have "concat (map ?to (filter (\<lambda>m. \<not> wants_out m) ms)) =
      concat (map (passes_on bc now (ko (sv_cid_addr sv)) (sv_cid_addr sv)) ms)"
    unfolding concat_if
    by (intro arg_cong [of _ _ concat] map_cong)
      (use msgs in \<open>auto simp: passes_on_def dgram_to_def chat_any_def server_cids_def\<close>)
  then show ?thesis using chat_relay_steps [OF assms(1) msgs assms(2) refl] s by auto
qed

lemma chat_disconnect_queues:
  assumes "chat_parts bc = Ok (sv_parts sv)" "server_disconnect now (chat_any (VDisconnect d)) cid sv = (Ok (), sv')"
  shows "sv_disconnected sv' = sv_disconnected sv @ [(cid, Closed)] \<and> sv_cid_addr sv' = sv_cid_addr sv \<and>
    sv_new_cons sv' = sv_new_cons sv \<and> indoors sv (sv'\<lparr>sv_disconnected := sv_disconnected sv\<rparr>)"
proof -
  note p = chat_parts_ok [OF assms(1)]
  have alive: "server_alive sv cid" using assms(2) by (auto simp: server_disconnect_def split: if_splits)
  obtain q sv1 where s: "server_send_to now cid (chat_any (VDisconnect d)) sv = (q, sv1)" by fastforce
  then have q: "q = Ok ()" using assms(2) alive by (cases q) (simp_all add: server_disconnect_def)
  have "indoors sv sv1"
    using server_send_to_tcp_indoors [OF _ _ s, of DISCONNECT_TYPE_MID] p(4,7) by (simp add: chat_any_def mid_defs)
  moreover obtain con where con: "sv_tcp sv1 cid = Some con"
    using assms(2) s q alive by (auto simp: server_disconnect_def split: option.splits)
  moreover obtain r con' where close: "tcp_con_close con = (r, con')" by fastforce
  moreover have "sv' = sv1\<lparr>sv_tcp := (sv_tcp sv1)(cid \<mapsto> con'), sv_disconnected := sv_disconnected sv1 @ [(cid, Closed)]\<rparr>"
    using assms(2) s q alive con close by (cases r) (simp_all add: server_disconnect_def)
  ultimately show ?thesis
    using socks_only_fields(4,7) [OF server_send_socks [OF s]] by (simp add: indoors_def)
qed

lemma chat_disconnect_all_queues:
  "chat_disconnect_all now cids sv = (Ok (), sv') \<Longrightarrow> chat_parts bc = Ok (sv_parts sv) \<Longrightarrow>
   sv_disconnected sv' = sv_disconnected sv @ map (\<lambda>c. (c, Closed)) cids \<and> sv_cid_addr sv' = sv_cid_addr sv \<and>
   sv_new_cons sv' = sv_new_cons sv \<and> indoors sv (sv'\<lparr>sv_disconnected := sv_disconnected sv\<rparr>)"
proof (induction cids arbitrary: sv)
  case Nil
  then show ?case by (simp add: indoors_def)
next
  case (Cons c cids)
  let ?d = "\<lparr>dis_reason = ''Disconnect requested.''\<rparr>"
  obtain q sv1 where d: "server_disconnect now (chat_any (VDisconnect ?d)) c sv = (q, sv1)" by fastforce
  then have q: "q = Ok ()" "chat_disconnect_all now cids sv1 = (Ok (), sv')"
    using Cons.prems(1) by (cases q rule: unwrap_res.cases; simp)+
  note one = chat_disconnect_queues [OF Cons.prems(2) d [unfolded q(1)]]
  have "chat_parts bc = Ok (sv_parts sv1)" using one Cons.prems(2) by (simp add: indoors_def)
  from Cons.IH [OF q(2) this] one show ?case by (simp add: indoors_def)
qed

lemma chat_serve_room:
  assumes "chat_parts bc = Ok (sv_parts sv)" "sv_disconnected sv = []" "chat_serve ko now (out, sv) = (Ok (), out', sv')"
  shows "\<exists>ms. server_recv TID_MSG sv = Ok ms \<and> out' = out @ map says ms \<and>
    (let out = map nm_cid (filter wants_out ms)
     in distinct out \<and> (\<forall>c \<in> set out. sv_cid_addr sv c \<noteq> None) \<and> sv_disconnected sv' = map (\<lambda>c. (c, Closed)) out) \<and>
    utx (uc_udp (sv_udp sv')) = utx (uc_udp (sv_udp sv)) @
      concat (map (passes_on bc now (ko (sv_cid_addr sv)) (sv_cid_addr sv)) ms) \<and>
    sv_cid_addr sv' = sv_cid_addr sv \<and> sv_new_cons sv' = sv_new_cons sv \<and> sv_current_cid sv' = sv_current_cid sv \<and>
    sv_config sv' = sv_config sv \<and> sv_listener sv' = sv_listener sv \<and> sv_msg_buff sv' = sv_msg_buff sv \<and>
    sv_parts sv' = sv_parts sv"
proof -
  obtain ms where ms: "server_recv TID_MSG sv = Ok ms"
    using assms(3) by (cases "server_recv TID_MSG sv") (auto simp: chat_serve_def)
  obtain q cids out1 sv1 where relay: "chat_relay ko (\<lambda>c. now) ms ([], out, sv) = (q, cids, out1, sv1)"
    by (metis prod_cases4)
  then have q: "q = Ok ()" using assms(3) ms by (cases q) (simp_all add: chat_serve_def)
  have d: "chat_disconnect_all now cids sv1 = (Ok (), sv')" and out1: "out1 = out'"
    using assms(3) ms relay q by (simp_all add: chat_serve_def split: prod.splits)
  from chat_relay_passes_on [OF assms(1) relay [unfolded q]] obtain u where
    u: "cids = map nm_cid (filter wants_out ms)" "out1 = out @ map says ms" "sv1 = sv\<lparr>sv_udp := u\<rparr>"
      "utx (uc_udp u) = utx (uc_udp (sv_udp sv)) @ concat (map (passes_on bc now (ko (sv_cid_addr sv)) (sv_cid_addr sv)) ms)"
    by blast
  have parts: "chat_parts bc = Ok (sv_parts sv1)" using assms(1) by (simp add: u(3))
  have "distinct cids" "\<forall>c \<in> set cids. sv_cid_addr sv c \<noteq> None"
    using chat_disconnect_all_cases [OF d parts] by (auto simp: u(3) server_alive_def)
  then show ?thesis
    using ms chat_disconnect_all_queues [OF d parts] assms(2) u out1 by (simp add: indoors_def Let_def)
qed

text \<open>
  The connections that a frame's call of \<open>recv_msgs\<close> finds to have ended, with how they ended: by a
  disconnect message, or by an error of the stream. The messages it finds are in the buffers.
\<close>

definition lost_in :: "((cid \<rightharpoonup> sock_addr) \<Rightarrow> cid list) \<Rightarrow> chat server \<Rightarrow> (cid \<times> chat status) list" where
  "lost_in ko sv =
     drop (length (sv_disconnected sv)) (sv_disconnected (snd (server_recv_msgs ko True (server_clear_msgs sv))))"

text \<open>
  A frame that returns is a turn of the room: its frame, in which these guests are lost and the
  messages in the buffers arrive. What those left at the door have said by then is not fixed, as the
  helper has read from their streams.
\<close>

definition room_turn ::
    "(string \<Rightarrow> string) \<Rightarrow> chat bincode \<Rightarrow> ((cid \<rightharpoonup> sock_addr) \<Rightarrow> cid list) \<Rightarrow> net_config \<Rightarrow> int \<Rightarrow> (nat \<Rightarrow> nat) \<Rightarrow>
     (cid \<times> chat status) list \<Rightarrow> room \<Rightarrow> room \<Rightarrow> bool" where
  "room_turn lower bc ko config now clk lost r r' \<longleftrightarrow>
     (\<forall>(c, st) \<in> set lost. c \<in> dom (rm_guests r) \<and> st \<noteq> Closed) \<and>
     (\<exists>q. room_frame lower bc ko config now clk lost (rm_heard r') r = Some q \<and>
        r' = q\<lparr>rm_greetings := rm_greetings r'\<rparr>)"

lemma chat_frame_room:
  assumes "chat_parts bc = Ok (sv_parts sv)" "wf_server sv" "key_order ko"
    and "chat_server_frame lower ko True now clk (out, sv) = (Ok (), out', sv')"
  shows "room_turn lower bc ko (sv_config sv) now clk (lost_in ko sv) (room_of (out, sv)) (room_of (out', sv'))"
proof -
  let ?sv0 = "server_clear_msgs sv"
  have wf0: "wf_server ?sv0" using assms(2) by (simp add: server_clear_msgs_def wf_server_defs)
  obtain q1 sv1 where r1: "server_recv_msgs ko True ?sv0 = (q1, sv1)" by fastforce
  obtain n1 where q1: "q1 = Ok n1"
    using assms(4) r1 by (cases q1) (simp_all add: chat_server_frame_def chat_intake_def)
  have wf1: "wf_server sv1" using server_recv_msgs_inv [OF wf_recv_keeps wf0 r1] by simp
  have "only_hears ?sv0 sv1" using recv_msgs_only_hears [OF assms(3) wf0 r1] .
  then obtain lost where h: "sv_current_cid sv1 = sv_current_cid sv" "sv_config sv1 = sv_config sv"
      "sv_new_cons sv1 = sv_new_cons sv" "sv_listener sv1 = sv_listener sv" "sv_cid_addr sv1 = sv_cid_addr sv"
      "sv_parts sv1 = sv_parts sv" "utx (uc_udp (sv_udp sv1)) = utx (uc_udp (sv_udp sv))"
      "sv_disconnected sv1 = sv_disconnected sv @ lost"
      "\<forall>(c, st) \<in> set lost. c \<in> dom (sv_cid_addr sv) \<and> st \<noteq> Closed"
    by (auto simp: only_hears_def server_clear_msgs_def)
  have lost: "lost_in ko sv = lost" using r1 h(8) by (simp add: lost_in_def)
  obtain q2 out2 sv2 where r2: "server_handle_disconnects chat_on_disconnect out sv1 = (q2, out2, sv2)"
    by (metis prod_cases3)
  obtain n2 where q2: "q2 = Ok n2"
    using assms(4) r1 q1 r2 by (cases q2) (simp_all add: chat_server_frame_def chat_intake_def)
  note f = chat_farewells [OF wf1 r2]
  obtain q3 out3 sv3 where r3: "server_handle_new_cons True now clk TID_CONNECTION TID_RESPONSE (chat_on_connect lower)
      out2 sv2 = (q3, out3, sv3)" by (metis prod_cases3)
  obtain n3 where q3: "q3 = Ok n3"
    using assms(4) r1 q1 r2 q2 r3 by (cases q3) (simp_all add: chat_server_frame_def chat_intake_def)
  have parts2: "chat_parts bc = Ok (sv_parts sv2)" using assms(1) f h by simp
  from chat_door [OF parts2 f(11) r3 [unfolded q3]] obtain street issued door gs where
    d: "opens (cfg_max_con_handle (sv_config sv2)) (rm_street (room_of (out2, sv2)))
       (sv_current_cid sv2, rm_door (room_of (out2, sv2)), rm_greetings (room_of (out2, sv2))) = (street, issued, door, gs)"
    "answers (judge_all lower (cfg_timeout (sv_config sv2)) clk 0 door gs) door (sv_cid_addr sv2) =
      Some (rm_door (room_of (out2, sv3)), sv_cid_addr sv3)"
    "rm_street (room_of (out2, sv3)) = street" "sv_current_cid sv3 = issued" "out3 = out2"
    "sv_config sv3 = sv_config sv2" "sv_parts sv3 = sv_parts sv2" "sv_udp sv3 = sv_udp sv2"
    "sv_msg_buff sv3 = sv_msg_buff sv2" "sv_disconnected sv3 = sv_disconnected sv2"
    by blast
  have serve: "chat_serve ko now (out3, sv3) = (Ok (), out', sv')"
    using assms(4) r1 q1 r2 q2 r3 q3 by (simp add: chat_server_frame_def chat_intake_def)
  have parts3: "chat_parts bc = Ok (sv_parts sv3)" "sv_disconnected sv3 = []" using parts2 d f by simp_all
  from chat_serve_room [OF parts3 serve] obtain ms where
    s: "server_recv TID_MSG sv3 = Ok ms" "out' = out3 @ map says ms" "distinct (map nm_cid (filter wants_out ms))"
      "\<forall>c \<in> set (map nm_cid (filter wants_out ms)). sv_cid_addr sv3 c \<noteq> None"
      "sv_disconnected sv' = map (\<lambda>c. (c, Closed)) (map nm_cid (filter wants_out ms))"
      "utx (uc_udp (sv_udp sv')) = utx (uc_udp (sv_udp sv3)) @
        concat (map (passes_on bc now (ko (sv_cid_addr sv3)) (sv_cid_addr sv3)) ms)"
      "sv_cid_addr sv' = sv_cid_addr sv3" "sv_new_cons sv' = sv_new_cons sv3" "sv_current_cid sv' = sv_current_cid sv3"
      "sv_config sv' = sv_config sv3" "sv_listener sv' = sv_listener sv3" "sv_msg_buff sv' = sv_msg_buff sv3"
      "sv_parts sv' = sv_parts sv3"
    unfolding Let_def by blast
  let ?r = "\<lparr>rm_street = street, rm_issued = issued, rm_door = rm_door (room_of (out2, sv3)), rm_greetings = [],
     rm_guests = sv_cid_addr sv3, rm_leaving = map (\<lambda>c. (c, Closed)) (map nm_cid (filter wants_out ms)), rm_heard = ms,
     rm_lines = out2 @ map says ms,
     rm_sent = utx (uc_udp (sv_udp sv)) @ concat (map (passes_on bc now (ko (sv_cid_addr sv3)) (sv_cid_addr sv3)) ms)\<rparr>"
  have frame: "room_frame lower bc ko (sv_config sv) now clk lost ms (room_of (out, sv)) = Some ?r"
    using d(1,2) s(3,4) f h unfolding room_frame_def
    by (simp add: list_all_iff)
  have heard: "server_recv TID_MSG sv' = Ok ms" using s(1) by (simp add: server_recv_def s(12,13) split: if_splits)
  from this have "room_of (out', sv') = ?r\<lparr>rm_greetings := rm_greetings (room_of (out', sv'))\<rparr>"
    using s(2,5-13) d(3-8) f h by (simp add: room_of_def)
  moreover have "rm_heard (room_of (out', sv')) = ms" using heard by simp
  ultimately show ?thesis using frame h(9) unfolding room_turn_def lost by (intro conjI exI [of _ ?r]) simp_all
qed

end
