(* ===== verification/Chat_Run.thy ===== *)
theory Chat_Run
  imports Chat_Room Typed
begin

text \<open>
  Whole runs of the chat server of \<open>src/examples/server.rs\<close>, frame after frame, whatever the network
  does between them: every frame that returns is one of the room of \<open>Chat_Room\<close>, and the library's
  invariants hold throughout, even after a frame that panics.
\<close>

section \<open>What a frame keeps\<close>

text \<open>A server of the chat in a good state, and a state that it can have come to from another.\<close>

definition chat_ok :: "chat bincode \<Rightarrow> chat server \<Rightarrow> bool" where
  "chat_ok bc sv \<longleftrightarrow> typed_server bc sv \<and> chat_parts bc = Ok (sv_parts sv) \<and> sv_config sv = config_default"

definition keeps :: "chat bincode \<Rightarrow> chat server \<Rightarrow> chat server \<Rightarrow> bool" where
  "keeps bc sv sv' \<longleftrightarrow> chat_ok bc sv' \<and> lobby_step\<^sup>*\<^sup>* (lobby_of sv) (lobby_of sv')"

lemma keeps_refl: "chat_ok bc sv \<Longrightarrow> keeps bc sv sv"
  by (simp add: keeps_def)

lemma keeps_trans: "keeps bc a b \<Longrightarrow> (chat_ok bc b \<Longrightarrow> keeps bc b c) \<Longrightarrow> keeps bc a c"
  by (auto simp: keeps_def)

lemma chat_ok_wf: "chat_ok bc sv \<Longrightarrow> wf_server sv"
  by (simp add: chat_ok_def typed_server_def)

lemma keeps_advances:
  assumes "chat_ok bc sv" "advances sv sv'" "wf_server sv'"
  shows "keeps bc sv sv'"
  using assms typed_advances [OF assms(2,3)] by (auto simp: keeps_def chat_ok_def advances_def follows_def)

lemma keeps_socks:
  assumes "chat_ok bc sv" "socks_only sv sv'"
  shows "keeps bc sv sv'"
  using keeps_advances [OF assms(1) advances_socks [OF assms(2)]] wf_socks [OF assms(2)] chat_ok_wf [OF assms(1)] by blast

lemma keeps_step:
  assumes "chat_ok bc sv" "server_step sv sv'"
  shows "keeps bc sv sv'"
  using assms typed_server_step [OF assms(2)] server_step_follows [OF assms(2) chat_ok_wf [OF assms(1)]]
  by (auto simp: keeps_def chat_ok_def follows_def)

lemma chat_intake_keeps:
  assumes "chat_ok bc sv" "key_order ko" "chat_intake lower ko True now clk (out, sv) = (r, out', sv')"
  shows "keeps bc sv sv'"
proof -
  let ?sv1 = "server_clear_msgs sv"
  have k1: "keeps bc sv ?sv1" using keeps_step [OF assms(1) step_clear_msgs] .
  obtain q2 sv2 where r2: "server_recv_msgs ko True ?sv1 = (q2, sv2)" by fastforce
  have "keeps bc ?sv1 sv2" if "chat_ok bc ?sv1" using keeps_step [OF that step_recv_msgs [OF assms(2) r2]] .
  from keeps_trans [OF k1 this] have k2: "keeps bc sv sv2" .
  obtain q3 out3 sv3 where r3: "server_handle_disconnects chat_on_disconnect out sv2 = (q3, out3, sv3)"
    by (metis prod_cases3)
  have "keeps bc sv2 sv3" if "chat_ok bc sv2"
    using keeps_advances [OF that advances_handle_disconnects [OF chat_ok_wf [OF that] r3]]
      server_handle_disconnects_spec [OF chat_ok_wf [OF that], of chat_on_disconnect out] r3 by auto
  from keeps_trans [OF k2 this] have k3: "keeps bc sv sv3" .
  obtain q4 out4 sv4 where r4: "server_handle_new_cons True now clk TID_CONNECTION TID_RESPONSE (chat_on_connect lower)
      out3 sv3 = (q4, out4, sv4)" by (metis prod_cases3)
  have "keeps bc sv3 sv4" if "chat_ok bc sv3"
    using keeps_advances [OF that advances_handle_new_cons [OF r4] wf_handle_new_cons [OF chat_ok_wf [OF that] r4]] .
  from keeps_trans [OF k3 this] have k4: "keeps bc sv sv4" .
  show ?thesis using assms(3) k2 k3 k4 r2 r3 r4
    by (cases q2; cases q3; cases q4) (auto simp: chat_intake_def)
qed

lemma chat_relay_socks:
  "chat_relay ko now ms s = (r, s') \<Longrightarrow> socks_only (snd (snd s)) (snd (snd s'))"
proof (induction ms arbitrary: s)
  case Nil
  then show ?case by auto
next
  case (Cons m ms)
  obtain cids out sv where s: "s = (cids, out, sv)" by (cases s)
  have send: "socks_only sv sv1" if "server_send_spec ko now spec x sv = (q, sv1)" for spec x q sv1
    using server_send_each_socks that unfolding server_send_spec_def by blast
  show ?case
  proof (cases "as_msg (nm_m m)")
    case (Inl e)
    then show ?thesis using Cons.prems by (auto simp: s)
  next
    case (Inr x)
    obtain q sv1 where q: "server_send_spec ko now (CIdExcept (nm_cid m)) (chat_any (VMsg x)) sv = (q, sv1)" by fastforce
    show ?thesis
      using Cons.prems Cons.IH Inr q send [OF q] socks_only_trans
      by (cases q rule: unwrap_res.cases) (fastforce simp: s Let_def split: if_splits)+
  qed
qed

lemma chat_disconnect_all_keeps:
  "chat_disconnect_all now cids sv = (r, sv') \<Longrightarrow> chat_ok bc sv \<Longrightarrow> keeps bc sv sv'"
proof (induction cids arbitrary: sv)
  case Nil
  then show ?case by (simp add: keeps_refl)
next
  case (Cons c cids)
  let ?m = "chat_any (VDisconnect \<lparr>dis_reason = ''Disconnect requested.''\<rparr>)"
  obtain q sv1 where d: "server_disconnect now ?m c sv = (q, sv1)" by fastforce
  have one: "keeps bc sv sv1" using keeps_step [OF Cons.prems(2) step_disconnect [OF d]] .
  show ?case
  proof (cases "unwrap_res q")
    case (Inl e)
    then show ?thesis using Cons.prems(1) d one by simp
  next
    case (Inr x)
    then have "chat_disconnect_all now cids sv1 = (r, sv')" using Cons.prems(1) d by simp
    from keeps_trans [OF one Cons.IH [OF this]] show ?thesis .
  qed
qed

lemma chat_serve_keeps:
  assumes "chat_ok bc sv" "chat_serve ko now (out, sv) = (r, out', sv')"
  shows "keeps bc sv sv'"
proof (cases "server_recv TID_MSG sv")
  case (Inl e)
  then show ?thesis using assms keeps_refl by (auto simp: chat_serve_def)
next
  case (Inr msgs)
  obtain q cids out1 sv1 where relay: "chat_relay ko (\<lambda>cid. now) msgs ([], out, sv) = (q, cids, out1, sv1)"
    by (metis prod_cases4)
  have one: "keeps bc sv sv1" using keeps_socks [OF assms(1)] chat_relay_socks [OF relay] by simp
  obtain q2 sv2 where d: "chat_disconnect_all now cids sv1 = (q2, sv2)" by fastforce
  show ?thesis
    using assms(2) Inr relay d one keeps_trans [OF one chat_disconnect_all_keeps [OF d]]
    by (cases q) (auto simp: chat_serve_def)
qed

lemma chat_frame_keeps:
  assumes "chat_ok bc sv" "key_order ko" "chat_server_frame lower ko True now clk (out, sv) = (r, out', sv')"
  shows "keeps bc sv sv'"
proof -
  obtain q out1 sv1 where i: "chat_intake lower ko True now clk (out, sv) = (q, out1, sv1)" by (metis prod_cases3)
  note one = chat_intake_keeps [OF assms(1,2) i]
  show ?thesis
    using assms(3) i one keeps_trans [OF one chat_serve_keeps]
    by (cases q) (auto simp: chat_server_frame_def)
qed

section \<open>Runs\<close>

text \<open>What the network may do between two frames.\<close>

inductive world_step :: "'v server \<Rightarrow> 'v server \<Rightarrow> bool" where
  world_listener: "world_step sv (sv\<lparr>sv_listener := l\<rparr>)"
| world_pending: "list_all2 same_pending (sv_new_cons sv) cons \<Longrightarrow> world_step sv (sv\<lparr>sv_new_cons := cons\<rparr>)"
| world_sockets: "socks_only sv sv' \<Longrightarrow> world_step sv sv'"

lemma world_step_server: "world_step sv sv' \<Longrightarrow> server_step sv sv'"
  by (cases rule: world_step.cases) (auto intro: step_listener step_pending step_sockets)

lemma world_keeps: "world_step\<^sup>*\<^sup>* sv sv' \<Longrightarrow> chat_ok bc sv \<Longrightarrow> keeps bc sv sv'"
  by (induction rule: rtranclp_induct) (auto intro: keeps_refl keeps_trans keeps_step world_step_server)

lemma chat_loop_keeps:
  assumes "key_order ko"
  shows "chat_server_loop lower ko True frames (out, sv) = (r, out', sv') \<Longrightarrow> chat_ok bc sv \<Longrightarrow>
    \<forall>(world, now, clk) \<in> set frames. \<forall>s. world_step\<^sup>*\<^sup>* s (world s) \<Longrightarrow> keeps bc sv sv'"
proof (induction frames arbitrary: out sv)
  case Nil
  then show ?case by (simp add: keeps_refl)
next
  case (Cons f frames)
  obtain world now clk where f: "f = (world, now, clk)" by (cases f)
  have w: "keeps bc sv (world sv)" using world_keeps [of sv "world sv" bc] Cons.prems(2,3) by (simp add: f)
  obtain q out1 sv1 where q: "chat_server_frame lower ko True now clk (out, world sv) = (q, out1, sv1)"
    by (metis prod_cases3)
  have one: "keeps bc sv sv1" using keeps_trans [OF w chat_frame_keeps [OF _ assms q]] .
  show ?case
  proof (cases q)
    case (Inl e)
    then show ?thesis using Cons.prems(1) q one by (simp add: f)
  next
    case (Inr x)
    then have "chat_server_loop lower ko True frames (out1, sv1) = (r, out', sv')" using Cons.prems(1) q by (simp add: f)
    from keeps_trans [OF one Cons.IH [OF this]] Cons.prems(3) show ?thesis by simp
  qed
qed

text \<open>The frames of a run that return, up to the first that does not, are turns of the room.\<close>

fun turns_of_the_room ::
    "(string \<Rightarrow> string) \<Rightarrow> chat bincode \<Rightarrow> ((cid \<rightharpoonup> sock_addr) \<Rightarrow> cid list) \<Rightarrow>
     ((chat server \<Rightarrow> chat server) \<times> int \<times> (nat \<Rightarrow> nat)) list \<Rightarrow> server_line list \<times> chat server \<Rightarrow> bool" where
  "turns_of_the_room lower bc ko [] s = True"
| "turns_of_the_room lower bc ko ((world, now, clk) # frames) (out, sv) =
     (case chat_server_frame lower ko True now clk (out, world sv) of
        (Inl e, s) \<Rightarrow> True
      | (Inr _, s) \<Rightarrow> room_turn lower bc ko config_default now clk (lost_in ko (world sv)) (room_of (out, world sv)) (room_of s) \<and>
          turns_of_the_room lower bc ko frames s)"

lemma chat_loop_turns:
  assumes "key_order ko"
  shows "chat_ok bc sv \<Longrightarrow> \<forall>(world, now, clk) \<in> set frames. \<forall>s. world_step\<^sup>*\<^sup>* s (world s) \<Longrightarrow>
    turns_of_the_room lower bc ko frames (out, sv)"
proof (induction frames arbitrary: out sv)
  case Nil
  then show ?case by simp
next
  case (Cons f frames)
  obtain world now clk where f: "f = (world, now, clk)" by (cases f)
  have w: "chat_ok bc (world sv)"
    using world_keeps [of sv "world sv" bc] Cons.prems by (simp add: f keeps_def)
  obtain q out1 sv1 where q: "chat_server_frame lower ko True now clk (out, world sv) = (q, out1, sv1)"
    by (metis prod_cases3)
  show ?case
  proof (cases q)
    case (Inl e)
    then show ?thesis using q by (simp add: f)
  next
    case (Inr x)
    have "room_turn lower bc ko config_default now clk (lost_in ko (world sv)) (room_of (out, world sv)) (room_of (out1, sv1))"
      using chat_frame_room [OF _ chat_ok_wf [OF w] assms, of bc lower now clk out out1 sv1] w q Inr
      by (simp add: chat_ok_def)
    moreover have "chat_ok bc sv1" using chat_frame_keeps [OF w assms q] by (simp add: keeps_def)
    ultimately show ?thesis using Cons.IH Cons.prems(2) q Inr by (simp add: f)
  qed
qed

text \<open>
  C28: The chat server runs as a chat room, and keeps the library's invariants for as long as it
  runs. It is built with overflow checks. Take any number of frames, with whatever the network does
  before each of them. Every frame that returns does to the room just what \<open>room_frame\<close> says. Those
  queued as leaving, and those \<open>recv_msgs\<close> finds to have disconnected or to be cut off, leave, each
  printed once with its status. The
  door is opened to the next in the listener's queue while there is space. Those at the door whose
  name is not on the blacklist come in, those on it and those too late are turned away, by the
  positions the library removes. Every message is printed and passed on, in order, to all guests but
  its sender, in one datagram each; those who said \<open>disconnect-me\<close>, and only they, are queued to
  leave as \<open>Closed\<close>. And after all frames, also if the last one panicked, the server's tables are
  well formed, its history is one of the lobby's, and reading the chat messages gives the ones
  filed, each a \<open>Msg\<close> by type and from a client it has given an id.
\<close>

theorem chat_server_runs:
  assumes "chat_start_server sys addr bc = Ok sv" "key_order ko"
    and "\<forall>(world, now, clk) \<in> set frames. \<forall>s. world_step\<^sup>*\<^sup>* s (world s)"
    and "chat_server_loop lower ko True frames ([], sv) = (r, out, sv')"
  shows "turns_of_the_room lower bc ko frames ([], sv) \<and>
    wf_server sv' \<and> lobby_step\<^sup>*\<^sup>* empty_lobby (lobby_of sv') \<and>
    server_recv TID_MSG sv' = Ok (map net_msg_of (sv_msg_buff sv' ! 3)) \<and>
    (\<forall>m \<in> set (sv_msg_buff sv' ! 3). any_tid (em_msg m) = TID_MSG \<and> 0 < em_cid m \<and> em_cid m \<le> sv_current_cid sv')"
proof -
  obtain parts where parts: "chat_parts bc = Ok parts" "server_new sys addr parts config_default = Ok sv"
    using assms(1) by (auto simp: chat_start_server_def res_simps)
  note t = chat_parts_ok [OF parts(1)]
  note new = server_new_lobby [OF parts(2)]
  have "sv_config sv = config_default" using parts(2)
    by (auto simp: server_new_def res_simps listener_set_nonblocking_def)
  then have ok: "chat_ok bc sv" using typed_server_new [OF parts(2) t(1-3)] parts(1) new by (simp add: chat_ok_def)
  from chat_loop_keeps [OF assms(2,4) ok assms(3)]
  have k: "typed_server bc sv'" "chat_parts bc = Ok (sv_parts sv')" "lobby_step\<^sup>*\<^sup>* empty_lobby (lobby_of sv')"
    using new by (simp_all add: keeps_def chat_ok_def)
  note T = chat_parts_ok(8) [OF k(2)]
  have wf: "wf_server sv'" and wfp: "wf_parts (sv_parts sv')" using k(1) chat_parts_ok(1) [OF k(2)]
    by (simp_all add: typed_server_def)
  have "server_recv TID_MSG sv' = Ok (map net_msg_of (sv_msg_buff sv' ! 3))"
    using server_box.buffer_index [OF k(1) T] server_box.buffer_typed [OF k(1) T, of "\<lambda>_. True"] T
    by (simp add: server_recv_def valid_tid_def domI hash_index_def)
  moreover have "\<forall>m \<in> set (sv_msg_buff sv' ! 3). any_tid (em_msg m) = TID_MSG \<and> 0 < em_cid m \<and> em_cid m \<le> sv_current_cid sv'"
    using well_filed_at [OF server_box.inv_filed [OF k(1)] wfp T] by blast
  ultimately show ?thesis using wf k(3) chat_loop_turns [OF assms(2) ok assms(3)] by blast
qed

text \<open>A frame before which somebody connects, who has not said anything yet.\<close>

definition demo_knock :: "chat server \<Rightarrow> chat server" where
  "demo_knock sv = sv\<lparr>sv_listener := (sv_listener sv)\<lparr>backlog := [Incoming (tc_tcp (demo_accepted (SockAddr 2 9) [])) 0]\<rparr>\<rparr>"

lemma quiet_recv_msgs:
  assumes "server_cids ko sv = []" "urx (uc_udp (sv_udp sv)) = []"
  shows "server_recv_msgs ko oc sv = (Ok 0, sv)"
  using assms
  by (simp add: server_recv_msgs_def server_udp_loop.simps [of oc 0 sv] server_recv_udp_def recv_from_empty)

text \<open>A frame of an empty room with one silent connection in the street.\<close>

lemma quiet_frame:
  assumes "chat_parts bc = Ok (sv_parts sv)" "server_cids ko sv = []" "urx (uc_udp (sv_udp sv)) = []"
    and "sv_msg_buff sv = replicate n []" "3 < n" "sv_new_cons sv = []" "sv_disconnected sv = []"
    and "sv_config sv = config_default" "backlog (sv_listener sv) = [Incoming s 0]" "sv_current_cid sv = 0"
    and "rx s = []" "rx_state s = RxOpen"
  shows "\<exists>sv'. chat_server_frame lower ko True now (\<lambda>i. 0) (out, sv) = (Ok (), out, sv') \<and>
    map pending_cid (sv_new_cons sv') = [1]"
proof -
  note p = chat_parts_ok [OF assms(1)]
  let ?con = "tcp_from_stream (s\<lparr>is_nonblocking := True\<rparr>) (cfg_max_msg_size config_default)"
  let ?sv1 = "sv\<lparr>sv_listener := (sv_listener sv)\<lparr>backlog := []\<rparr>, sv_current_cid := 1, sv_new_cons := [(?con, 1, 0)]\<rparr>"
  have "server_clear_msgs sv = sv" using assms(4) by (simp add: server_clear_msgs_def)
  then have r: "server_recv_msgs ko True (server_clear_msgs sv) = (Ok 0, sv)"
    using quiet_recv_msgs assms(2,3) by simp
  have d: "server_handle_disconnects chat_on_disconnect out sv = (Ok 0, out, sv)"
    using assms(7) by (simp add: server_handle_disconnects_def disconnect_loop_nil)
  have s1: "server_start_incoming True ?sv1 = (Ok (), ?sv1)"
    using assms(8) by (subst server_start_incoming.simps) (simp add: config_default_def listener_accept_def)
  have s: "server_start_incoming True sv = (Ok (), ?sv1)"
    using assms(6,8-10) s1
    by (subst server_start_incoming.simps)
      (simp add: config_default_def listener_accept_def stream_set_nonblocking_def server_new_cid_def add_u32_def)
  have h: "handle_con_helper deser_fn TID_CONNECTION (cfg_timeout config_default) 0 ?con = (Err WouldBlock OsMessage, ?con)"
    for deser_fn :: "chat deser_fn"
    using assms(11,12) by (simp add: handle_con_helper_def recv_nothing tcp_from_stream_def)
  have deser: "index (deser (sv_parts sv)) CONNECTION_TYPE_MID = Ok (deser (sv_parts sv) ! CONNECTION_TYPE_MID)"
    using p(1,5) by (auto simp: wf_parts_def index_def)
  have c: "server_handle_new_cons True now (\<lambda>i. 0) TID_CONNECTION TID_RESPONSE (chat_on_connect lower) out sv =
      (Ok 0, out, ?sv1)"
    using assms(8) s h deser by (simp add: server_handle_new_cons_def server_settle_def)
  have "server_recv TID_MSG ?sv1 = Ok []"
    using assms(4,5) p(8) by (simp add: server_recv_def valid_tid_def domI hash_index_def index_def)
  then have "chat_serve ko now (out, ?sv1) = (Ok (), out, ?sv1)" by (simp add: chat_serve_def)
  then have "chat_server_frame lower ko True now (\<lambda>i. 0) (out, sv) = (Ok (), out, ?sv1)"
    using r d c by (simp add: chat_server_frame_def chat_intake_def)
  then show ?thesis by simp
qed

theorem chat_server_runs_witness:
  "\<exists>sv out sv'. chat_start_server demo_srv_os (SockAddr 1 7777) demo_chat_bincode = Ok sv \<and>
     chat_server_loop id demo_ko True [(demo_knock, 0, \<lambda>i. 0)] ([], sv) = (Ok (), out, sv') \<and>
     turns_of_the_room id demo_chat_bincode demo_ko [(demo_knock, 0, \<lambda>i. 0)] ([], sv) \<and>
     wf_server sv' \<and> map pending_cid (sv_new_cons sv') = [1]"
proof -
  obtain p where p: "chat_parts demo_chat_bincode = Ok p" using chat_parts_builds by blast
  note t = chat_parts_ok [OF p]
  obtain sv where sv: "chat_start_server demo_srv_os (SockAddr 1 7777) demo_chat_bincode = Ok sv"
    using p by (simp add: chat_start_server_def server_new_def demo_srv_os_def name_res_def listener_set_nonblocking_def
      udp_con_new_def socket_set_nonblocking_def)
  have "card (dom (tid_map p)) = mid_count p"
    using t(2) bij_betw_same_card by (fastforce simp: wf_numbering_def)
  moreover have "3 < mid_count p" using t(1,8) by (auto simp: wf_parts_def)
  ultimately have quiet: "chat_parts demo_chat_bincode = Ok (sv_parts (demo_knock sv))" "server_cids demo_ko (demo_knock sv) = []"
    "urx (uc_udp (sv_udp (demo_knock sv))) = []" "sv_msg_buff (demo_knock sv) = replicate (mid_count p) []" "3 < mid_count p"
    "sv_new_cons (demo_knock sv) = []" "sv_disconnected (demo_knock sv) = []" "sv_config (demo_knock sv) = config_default"
    "backlog (sv_listener (demo_knock sv)) = [Incoming (tc_tcp (demo_accepted (SockAddr 2 9) [])) 0]"
    "sv_current_cid (demo_knock sv) = 0"
    using sv p by (auto simp: chat_start_server_def server_new_def demo_srv_os_def name_res_def listener_set_nonblocking_def
      udp_con_new_def socket_set_nonblocking_def demo_knock_def demo_socket_def server_cids_def demo_ko_def)
  obtain sv' where run: "chat_server_frame id demo_ko True 0 (\<lambda>i. 0) ([], demo_knock sv) = (Ok (), [], sv')"
      "map pending_cid (sv_new_cons sv') = [1]"
    using quiet_frame [OF quiet, of id 0 "[]"] by (auto simp: demo_accepted_def demo_stream_def)
  let ?frames = "[(demo_knock, 0 :: int, \<lambda>i :: nat. 0 :: nat)]"
  have worlds: "\<forall>(world, now, clk) \<in> set ?frames. \<forall>s. world_step\<^sup>*\<^sup>* s (world s)"
    by (auto simp: demo_knock_def intro!: r_into_rtranclp world_listener)
  have loop: "chat_server_loop id demo_ko True ?frames ([], sv) = (Ok (), [], sv')" using run(1) by simp
  note all = chat_server_runs [OF sv demo_ko_order worlds loop]
  show ?thesis
    by (rule exI [of _ sv], rule exI [of _ "[]"], rule exI [of _ sv'])
      (intro conjI sv loop run(2) conjunct1 [OF all] conjunct1 [OF conjunct2 [OF all]])
qed

end
