(* ===== verification/Chat_Client.thy ===== *)
theory Chat_Client
  imports Chat_Run
begin

text \<open>
  The chat client of \<open>src/examples/client.rs\<close>: what the lines of the console do to it, what its
  turns keep, and how its user leaves.
\<close>

section \<open>What the lines do\<close>

definition goodbye :: "string \<Rightarrow> bool" where
  "goodbye line \<longleftrightarrow> \<not> prefix DISCONNECT_ME line \<and> prefix DISCONNECT line"

lemma goodbye_nonempty: "goodbye line \<Longrightarrow> line \<noteq> []"
  by (auto simp: goodbye_def DISCONNECT_def)

definition cl_shut :: "'v client \<Rightarrow> bool" where
  "cl_shut cl \<longleftrightarrow> is_shut (tc_tcp (cl_tcp cl))"

text \<open>A line of the chat goes out as a datagram, which leaves status and stream alone.\<close>

lemma chat_says:
  assumes "chat_parts bc = Ok (cl_parts cl)" "client_send now (chat_any (VMsg m)) cl = (r, cl')"
  shows "cl_status cl' = cl_status cl \<and> cl_tcp cl' = cl_tcp cl"
proof -
  note p = chat_parts_ok [OF assms(1)]
  have tr: "transports (cl_parts cl) ! 3 = UDP" by (simp add: p(4))
  show ?thesis
    using assms(2) lookup_codec [OF p(1,3,8) tr, of map_ser_error "VMsg m"] p(8)
    by (cases "bc_serialize bc TID_MSG (VMsg m)")
      (auto simp: client_send_def valid_tid_def domI Let_def chat_any_def client_send_udp_def split: prod.splits)
qed

text \<open>A goodbye succeeds once, on a stream that is not shut down yet.\<close>

lemma chat_goodbye:
  assumes "chat_parts bc = Ok (cl_parts cl)" "client_disconnect now (chat_any (VDisconnect d)) cl = (Ok (), cl')"
  shows "\<not> cl_shut cl \<and> cl_shut cl' \<and> cl_status cl' = Closed"
proof -
  have "transports (cl_parts cl) ! DISCONNECT_TYPE_MID = TCP"
    using chat_parts_ok(4) [OF assms(1)] by (simp add: mid_defs)
  from client_disconnect_closes [OF assms(2) this] show ?thesis by (simp add: cl_shut_def)
qed

text \<open>One line that is not empty, and what follows when it succeeds.\<close>

lemma chat_input_line:
  assumes "line \<noteq> []"
  shows "chat_input trim now username (line # lines) cl =
    and_then_st
      (if goodbye line
       then (case client_disconnect now (chat_any (VDisconnect \<lparr>dis_reason = trim (drop (length DISCONNECT) line)\<rparr>)) cl of
               (r, cl) \<Rightarrow> (unwrap_res r, cl))
       else (case client_send now (chat_any (VMsg \<lparr>msg_from = username, msg_text = line\<rparr>)) cl of
               (r, cl) \<Rightarrow> (unwrap_res r, cl)))
      (\<lambda>_ cl. chat_input trim now username lines cl)"
  using assms by (simp add: goodbye_def)

lemma unwrapped_Ok:
  "and_then_st (unwrap_res q, s) f = (Ok x, s') \<Longrightarrow> \<exists>y. q = Ok y \<and> f y s = (Ok x, s')"
  by (cases q rule: unwrap_res.cases) simp_all

text \<open>All the lines of a turn: none fails only if there is at most one goodbye.\<close>

lemma chat_input_Ok:
  "chat_input trim now username lines cl = (Ok (), cl') \<Longrightarrow> chat_parts bc = Ok (cl_parts cl) \<Longrightarrow>
   length (filter goodbye lines) \<le> (if cl_shut cl then 0 else 1) \<and>
   cl_shut cl' = (cl_shut cl \<or> (\<exists>line \<in> set lines. goodbye line)) \<and>
   cl_status cl' = (if \<exists>line \<in> set lines. goodbye line then Closed else cl_status cl)"
proof (induction lines arbitrary: cl)
  case Nil
  then show ?case by simp
next
  case (Cons line lines)
  consider "line = []" | "line \<noteq> []" "goodbye line" | "line \<noteq> []" "\<not> goodbye line" by blast
  then show ?case
  proof cases
    case 1
    then have "\<not> goodbye line" "chat_input trim now username lines cl = (Ok (), cl')"
      using Cons.prems(1) goodbye_nonempty by auto
    then show ?thesis using Cons.IH Cons.prems(2) by simp
  next
    case 2
    let ?m = "chat_any (VDisconnect \<lparr>dis_reason = trim (drop (length DISCONNECT) line)\<rparr>)"
    obtain q c1 where d: "client_disconnect now ?m cl = (q, c1)" by fastforce
    then have "and_then_st (unwrap_res q, c1) (\<lambda>_ cl. chat_input trim now username lines cl) = (Ok (), cl')"
      using Cons.prems(1) 2 by (simp add: chat_input_line del: chat_input.simps)
    from unwrapped_Ok [OF this] have ok: "q = Ok ()" and rest: "chat_input trim now username lines c1 = (Ok (), cl')" by simp_all
    have "cl_parts c1 = cl_parts cl" using client_step_parts [OF client_step.step_disconnect [OF d]] .
    then have "chat_parts bc = Ok (cl_parts c1)" using Cons.prems(2) by simp
    from Cons.IH [OF rest this] chat_goodbye [OF Cons.prems(2) d [unfolded ok]] 2(2) show ?thesis by simp
  next
    case 3
    let ?m = "chat_any (VMsg \<lparr>msg_from = username, msg_text = line\<rparr>)"
    obtain q c1 where s: "client_send now ?m cl = (q, c1)" by fastforce
    then have "and_then_st (unwrap_res q, c1) (\<lambda>_ cl. chat_input trim now username lines cl) = (Ok (), cl')"
      using Cons.prems(1) 3 by (simp add: chat_input_line del: chat_input.simps)
    from unwrapped_Ok [OF this] have rest: "chat_input trim now username lines c1 = (Ok (), cl')" by simp
    have "cl_parts c1 = cl_parts cl" using client_step_parts [OF client_step.step_send [OF s]] .
    then have "chat_parts bc = Ok (cl_parts c1)" using Cons.prems(2) by simp
    from Cons.IH [OF rest this] chat_says [OF Cons.prems(2) s] 3(2) show ?thesis by (simp add: cl_shut_def)
  qed
qed

lemma chat_input_cases:
  "chat_input trim now username lines cl = (r, cl') \<Longrightarrow> r = Ok () \<or> is_panic r"
proof (induction lines arbitrary: cl)
  case (Cons line lines)
  let ?d = "chat_any (VDisconnect \<lparr>dis_reason = trim (drop (length DISCONNECT) line)\<rparr>)"
  let ?m = "chat_any (VMsg \<lparr>msg_from = username, msg_text = line\<rparr>)"
  obtain q1 c1 q2 c2 where c: "client_disconnect now ?d cl = (q1, c1)" "client_send now ?m cl = (q2, c2)" by fastforce
  show ?case using Cons c
    by (cases q1 rule: unwrap_res.cases; cases q2 rule: unwrap_res.cases) (auto split: if_splits)
qed simp

section \<open>What a turn keeps\<close>

lemma chat_input_steps: "chat_input trim now username lines cl = (r, cl') \<Longrightarrow> client_step\<^sup>*\<^sup>* cl cl'"
proof (induction lines arbitrary: cl)
  case (Cons line lines)
  let ?d = "chat_any (VDisconnect \<lparr>dis_reason = trim (drop (length DISCONNECT) line)\<rparr>)"
  let ?m = "chat_any (VMsg \<lparr>msg_from = username, msg_text = line\<rparr>)"
  obtain q1 c1 q2 c2 where c: "client_disconnect now ?d cl = (q1, c1)" "client_send now ?m cl = (q2, c2)" by fastforce
  have s: "client_step cl c1" "client_step cl c2" using c by (blast intro: client_step.step_disconnect client_step.step_send)+
  show ?case using Cons c s
    by (cases q1 rule: unwrap_res.cases; cases q2 rule: unwrap_res.cases)
      (auto split: if_splits intro: converse_rtranclp_into_rtranclp)
qed simp

lemma chat_client_frame_steps:
  assumes "chat_client_frame trim oc now username lines cl = (r, cl')"
  shows "client_step\<^sup>*\<^sup>* cl cl'"
proof -
  obtain q cl1 where r: "client_recv_msgs oc (client_clear_msgs cl) = (q, cl1)" by fastforce
  have 1: "client_step\<^sup>*\<^sup>* cl cl1"
    by (rule rtranclp_trans [OF r_into_rtranclp r_into_rtranclp]) (rule client_step.step_clear_msgs, rule client_step.step_recv_msgs [OF r])
  obtain q2 cl2 where i: "chat_input trim now username lines cl1 = (q2, cl2)" by fastforce
  show ?thesis using assms r i rtranclp_trans [OF 1 chat_input_steps [OF i]] 1
    by (cases q; cases q2) (auto simp: chat_client_frame_def split: if_splits)
qed

text \<open>What the network may do before a turn: anything to the two sockets.\<close>

definition net_only :: "('v client \<Rightarrow> 'v client) \<Rightarrow> bool" where
  "net_only world \<longleftrightarrow> (\<forall>c. \<exists>s u. world c = client_net c s u)"

lemma net_onlyD:
  assumes "net_only world"
  shows "client_step cl (world cl)" "cl_status (world cl) = cl_status cl" "cl_parts (world cl) = cl_parts cl"
proof -
  obtain s u where w: "world cl = client_net cl s u" using assms unfolding net_only_def by blast
  show "client_step cl (world cl)" unfolding w client_net_def by (rule step_network)
  show "cl_status (world cl) = cl_status cl" "cl_parts (world cl) = cl_parts cl" by (simp_all add: w)
qed

lemma chat_client_loop_steps:
  "chat_client_loop trim oc username turns (out, cl) = (r, out', cl') \<Longrightarrow>
   \<forall>(world, now, lines) \<in> set turns. net_only world \<Longrightarrow> client_step\<^sup>*\<^sup>* cl cl'"
proof (induction turns arbitrary: out cl)
  case Nil
  then show ?case by simp
next
  case (Cons t turns)
  obtain world now lines where t: "t = (world, now, lines)" by (cases t)
  obtain q c1 where f: "chat_client_frame trim oc now username lines (world cl) = (q, c1)" by fastforce
  have "client_step cl (world cl)" using net_onlyD(1) [of world cl] Cons.prems(2) by (simp add: t)
  then have 1: "client_step\<^sup>*\<^sup>* cl c1" using chat_client_frame_steps [OF f] by (rule converse_rtranclp_into_rtranclp)
  show ?case
  proof (cases "\<exists>ls. q = Inr (False, ls)")
    case True
    then show ?thesis using Cons.prems f t rtranclp_trans [OF 1 Cons.IH] by auto
  next
    case False
    then show ?thesis using Cons.prems(1) f t 1 by (cases q) (auto split: if_splits)
  qed
qed

text \<open>
  A client of the chat that connected is typed after any number of turns: reading its messages never
  meets a value of another type.
\<close>

lemma chat_client_runs:
  assumes "chat_parts bc = Ok parts"
    and "client_new_blocking sys now peer parts config_default (chat_any (VConnection con_msg)) = Ok (cl, resp)"
    and "chat_client_loop trim oc username turns ([], cl) = (r, out, cl')"
    and "\<forall>(world, now, lines) \<in> set turns. net_only world"
  shows "typed_client bc cl' \<and> client_recv TID_MSG cl' = Ok (map net_msg_of (cl_msg_buff cl' ! 3))"
proof -
  note p = chat_parts_ok [OF assms(1)]
  note cl = new_blocking_result [OF assms(2) p(1,3,6)]
  note steps = chat_client_loop_steps [OF assms(3,4)]
  have typed: "typed_client bc cl" using cl p(3) well_filed_empty by (simp add: typed_client_def)
  from typed_client_steps [OF steps typed] have inv: "typed_client bc cl'" .
  have T: "tid_map (cl_parts cl') TID_MSG = Some 3" using client_steps_parts [OF steps] cl p(8) by simp
  show ?thesis
    using inv client_box.buffer_index [OF inv T] client_box.buffer_typed [OF inv T, of "\<lambda>_. True"] T
    by (simp add: client_recv_def valid_tid_def domI hash_index_def)
qed

section \<open>Leaving\<close>

lemma reading_panics:
  "client_recv T cl = Inl e \<Longrightarrow> \<exists>p. e = Panic p" "chat_print ms = Inl e \<Longrightarrow> \<exists>p. e = Panic p"
proof -
  have "typed_msgs T ns = Inl e \<Longrightarrow> \<exists>p. e = Panic p" for ns :: "'a erased_net_msg list" and e
    by (induction ns) (auto simp: res_simps split: option.splits sum.splits elim!: unwrap_opt.elims)
  then show "client_recv T cl = Inl e \<Longrightarrow> \<exists>p. e = Panic p"
    by (auto simp: client_recv_def hash_index_def index_def split: if_splits option.splits)
  have "as_msg v = Inl e \<Longrightarrow> \<exists>p. e = Panic p" for v e by (cases v) auto
  then show "chat_print ms = Inl e \<Longrightarrow> \<exists>p. e = Panic p"
    by (induction ms) (auto simp: res_simps)
qed

lemma chat_frame_goodbye:
  assumes "chat_parts bc = Ok (cl_parts cl)" "client_open cl" "\<exists>line \<in> set lines. goodbye line"
    and "chat_client_frame trim oc now username lines cl = (q, cl')"
  shows "is_panic q \<or> (\<exists>out. q = Ok (False, out)) \<and> cl_status cl' = Closed \<and> length (filter goodbye lines) = 1"
proof -
  obtain q1 c1 where r: "client_recv_msgs oc (client_clear_msgs cl) = (q1, c1)" by fastforce
  have q1: "(\<exists>n. q1 = Ok n) \<or> is_panic q1" using client_recv_msgs_inv [of "\<lambda>_. True", OF _ _ _ _ _ _ r] by blast
  have "client_step (client_clear_msgs cl) c1" using client_step.step_recv_msgs [OF r] .
  then have "cl_parts c1 = cl_parts cl" using client_step_parts by (fastforce simp: client_clear_msgs_def)
  then have parts: "chat_parts bc = Ok (cl_parts c1)" using assms(1) by simp
  obtain q2 c2 where i: "chat_input trim now username lines c1 = (q2, c2)" by fastforce
  consider "is_panic q1" | n where "q1 = Ok n" "is_panic q2" | n where "q1 = Ok n" "q2 = Ok ()"
    using q1 chat_input_cases [OF i] by blast
  then show ?thesis
  proof cases
    case 1
    then show ?thesis using assms(2,4) r by (auto simp: chat_client_frame_def is_panic_def split: sum.splits)
  next
    case 2
    then show ?thesis using assms(2,4) r i by (auto simp: chat_client_frame_def is_panic_def split: sum.splits)
  next
    case 3
    have c2: "cl_status c2 = Closed" "length (filter goodbye lines) \<le> 1"
      using chat_input_Ok [OF i [unfolded 3] parts] assms(3) by (auto split: if_splits)
    have "filter goodbye lines \<noteq> []" using assms(3) by (auto simp: filter_empty_conv)
    with c2(2) have "length (filter goodbye lines) = 1" by (cases "filter goodbye lines") auto
    moreover have "cl' = c2" "q = and_then (client_recv TID_MSG c2) (\<lambda>msgs. and_then (chat_print msgs) (\<lambda>out. Ok (False, out)))"
      using assms(2,4) r i 3 c2(1) by (auto simp: chat_client_frame_def client_get_status_def disconnected_def)
    moreover have "is_panic (client_recv TID_MSG c2) \<or> (\<exists>ms. client_recv TID_MSG c2 = Ok ms)"
      "is_panic (chat_print ms) \<or> (\<exists>out. chat_print ms = Ok out)" for ms
      using reading_panics(1) [of TID_MSG c2] reading_panics(2) [of ms]
      by (cases "client_recv TID_MSG c2"; cases "chat_print ms"; simp)+
    ultimately show ?thesis using c2(1) by (simp add: res_simps) blast
  qed
qed

text \<open>
  C29: A user who says goodbye gets out. If a line of the console starts with \<open>disconnect\<close> (and not
  with \<open>disconnect-me\<close>), then whatever the network does, at the latest the next turn of the loop is
  the last: it ends by its \<open>break\<close>, with the client closed, or by a panic. It can only end well when
  there was one such line: with a second one in the same turn the client program panics.
\<close>

theorem chat_client_leaves:
  assumes "chat_parts bc = Ok (cl_parts cl)" "client_open cl" "\<exists>line \<in> set lines. goodbye line"
    and "net_only w1" "net_only w2"
  shows "\<exists>r out' cl'. chat_client_loop trim oc username ((w1, now1, lines) # (w2, now2, lines2) # turns) (out, cl) =
      (r, out', cl') \<and>
    (is_panic r \<or> r = Ok True \<and> cl_status cl' = Closed \<and> length (filter goodbye lines) = 1)"
proof -
  obtain q c1 where f: "chat_client_frame trim oc now1 username lines (w1 cl) = (q, c1)" by fastforce
  have "chat_parts bc = Ok (cl_parts (w1 cl))" "client_open (w1 cl)"
    using assms(1,2) net_onlyD(2,3) [OF assms(4)] by (simp_all add: client_open_def client_get_status_def)
  from chat_frame_goodbye [OF this assms(3) f]
  consider "is_panic q" | ls where "q = Ok (False, ls)" "cl_status c1 = Closed" "length (filter goodbye lines) = 1"
    by blast
  then show ?thesis
  proof cases
    case 1
    then show ?thesis using f by (auto simp: is_panic_def split: sum.splits fail.splits)
  next
    case 2
    then have "\<not> client_open (w2 c1)" "cl_status (w2 c1) = Closed"
      using net_onlyD(2) [OF assms(5), of c1] by (simp_all add: client_open_def client_get_status_def)
    then show ?thesis using f 2 by (simp add: chat_client_frame_def)
  qed
qed

text \<open>Two goodbyes in one turn.\<close>

theorem chat_client_leaves_witness:
  "\<exists>p r out cl'. chat_parts demo_chat_bincode = Ok p \<and>
     chat_client_loop id True ''ann'' [(id, 0, [''disconnect'', ''disconnect now'']), (id, 0, [])]
       ([], \<lparr>cl_config = config_default, cl_status = Connected, cl_msg_buff = replicate 4 [], cl_tcp = demo_con,
          cl_udp = demo_ucon, cl_parts = p\<rparr>) = (r, out, cl') \<and> is_panic r"
proof -
  obtain p where p: "chat_parts demo_chat_bincode = Ok p" using chat_parts_builds by blast
  let ?cl = "\<lparr>cl_config = config_default, cl_status = Connected, cl_msg_buff = replicate 4 [], cl_tcp = demo_con,
    cl_udp = demo_ucon, cl_parts = p\<rparr>"
  let ?lines = "[''disconnect'', ''disconnect now'']"
  have g: "goodbye ''disconnect''" "goodbye ''disconnect now''"
    by (simp_all add: goodbye_def DISCONNECT_def DISCONNECT_ME_def)
  have "net_only id" unfolding net_only_def using client_net_same by (metis id_apply)
  from chat_client_leaves [OF _ _ _ this this, of demo_chat_bincode ?cl ?lines id True "''ann''" 0 0 "[]" "[]" "[]"] p g
  show ?thesis by (auto simp: client_open_def client_get_status_def)
qed

end
