(* ===== verification/Unit_Tests.thy ===== *)
theory Unit_Tests
  imports Clock Header
begin

text \<open>
  The unit tests in \<open>src/header.rs\<close> and \<open>src/time.rs\<close>, as functions that say whether every
  assertion of their loop holds, and that they pass. What they try on a few points is proved for all
  values in \<open>Header\<close> and \<open>Clock\<close>.
\<close>

fun test_points :: "('p \<Rightarrow> bool) \<Rightarrow> 'p list \<Rightarrow> bool" where
  "test_points assertion [] = True"
| "test_points assertion (point # points) = (assertion point \<and> test_points assertion points)"

definition tcp_to_from_bytes :: bool where
  "tcp_to_from_bytes =
     (let points = [(0, 0), (2, 2), (100, 34), (65530, 982)]
      in test_points (\<lambda>point.
           let header = tcp_header_new (fst point) (snd point);
               bytes = tcp_to_be_bytes header
           in tcp_from_be_bytes bytes = Ok header) points)"

definition test_reconstruction :: "bool \<Rightarrow> bool" where
  "test_reconstruction oc =
     (let points = [(0x89F98103, 0x89F98103), (0x3F117904, 0x3F119035),
                    (0x23AC9723, 0x23AD1039), (0x18398183, 0x183A4039)]
      in test_points (\<lambda>point :: u32 \<times> u32.
           let lsb = ucast (fst point AND 0xFFFF)
           in reconstruct_millis_inner oc (snd point) lsb = Ok (fst point)) points)"

lemma tcp_to_from_bytes_passes: "tcp_to_from_bytes"
  by (simp add: tcp_to_from_bytes_def Let_def) (simp add: tcp_header_new_def)

lemma test_reconstruction_passes: "test_reconstruction oc"
  by (simp add: test_reconstruction_def stamp_in_window_iff low_half Let_def)

end
