(* ===== verification/Tests.thy ===== *)
theory Tests
  imports Unit_Tests Pending
begin

text \<open>
  The tests in \<open>src/tests\<close> that need no network between two programs: \<open>cid_spec.rs\<close>,
  \<open>message_table.rs\<close> and \<open>fail.rs\<close>, with the message types of \<open>helper/test_messages.rs\<close>. Each test
  is a function that says whether all its assertions hold (an \<open>unwrap\<close> that fails makes it false),
  and each passes. For the types only their being distinct matters.
\<close>

section \<open>\<open>helper/test_messages.rs\<close>\<close>

datatype test_response = RAccepted | RRejected string

datatype test_value = VTcpMsg string | VUdpMsg string | VCon string | VDiscon string | VResp test_response

definition TEST_TCP_MSG :: type_id where "TEST_TCP_MSG = 0"
definition TEST_UDP_MSG :: type_id where "TEST_UDP_MSG = 1"
definition TEST_CONNECTION :: type_id where "TEST_CONNECTION = 2"
definition TEST_DISCONNECT :: type_id where "TEST_DISCONNECT = 3"
definition TEST_RESPONSE :: type_id where "TEST_RESPONSE = 4"

lemmas test_tids = TEST_TCP_MSG_def TEST_UDP_MSG_def TEST_CONNECTION_def TEST_DISCONNECT_def TEST_RESPONSE_def

definition get_table_parts :: "'v bincode \<Rightarrow> 'v parts res" where
  "get_table_parts bc =
     (case register bc TEST_TCP_MSG TCP table_new of
        (Inl e, table) \<Rightarrow> panics UnwrapFailed
      | (Inr _, table) \<Rightarrow>
     (case register bc TEST_UDP_MSG UDP table of
        (Inl e, table) \<Rightarrow> panics UnwrapFailed
      | (Inr _, table) \<Rightarrow>
     (case build bc TEST_CONNECTION TEST_RESPONSE TEST_DISCONNECT table of
        Inl e \<Rightarrow> panics UnwrapFailed
      | Inr parts \<Rightarrow> Ok parts)))"

section \<open>\<open>cid_spec.rs\<close>\<close>

text \<open>The loop over \<open>cid_vec.into_iter().zip(expected_vec)\<close>.\<close>

definition matches_as :: "cid_spec \<Rightarrow> cid list \<Rightarrow> bool list \<Rightarrow> bool" where
  "matches_as spec cid_vec expected_vec =
     test_points (\<lambda>(cid, expected). cid_matches spec cid = expected) (zip cid_vec expected_vec)"

definition test_all :: bool where
  "test_all =
     (let spec = CIdAll; cid_vec = [0, 1, 2, 3, 10, 20, 1000, 102901];
          expected_vec = replicate (length cid_vec - 1) True
      in matches_as spec cid_vec expected_vec)"

definition test_none :: bool where
  "test_none =
     (let spec = CIdNone; cid_vec = [0, 1, 2, 3, 10, 20, 1000, 102901];
          expected_vec = replicate (length cid_vec - 1) False
      in matches_as spec cid_vec expected_vec)"

definition test_only :: bool where
  "test_only =
     (let spec = CIdOnly 12; cid_vec = [0, 1, 2, 3, 10, 12, 20, 1000, 102901];
          expected_vec = (replicate (length cid_vec - 1) False)[5 := True]
      in matches_as spec cid_vec expected_vec)"

definition test_except :: bool where
  "test_except =
     (let spec = CIdExcept 12; cid_vec = [0, 1, 2, 3, 10, 12, 20, 1000, 102901];
          expected_vec = (replicate (length cid_vec - 1) True)[5 := False]
      in matches_as spec cid_vec expected_vec)"

definition test_overlaps :: bool where
  "test_overlaps =
     (let cases =
       [(CIdNone, CIdNone, False), (CIdNone, CIdAll, False), (CIdAll, CIdNone, False),
        (CIdNone, CIdOnly 1, False), (CIdOnly 1, CIdNone, False), (CIdNone, CIdExcept 1, False),
        (CIdExcept 1, CIdNone, False),
        (CIdAll, CIdAll, True), (CIdAll, CIdOnly 1, True), (CIdOnly 1, CIdAll, True),
        (CIdAll, CIdExcept 2, True), (CIdExcept 2, CIdAll, True),
        (CIdOnly 1, CIdOnly 1, True), (CIdOnly 1, CIdOnly 2, False),
        (CIdExcept 1, CIdExcept 1, True), (CIdExcept 1, CIdExcept 2, True),
        (CIdExcept 1, CIdOnly 1, False), (CIdOnly 1, CIdExcept 1, False),
        (CIdExcept 1, CIdOnly 2, True), (CIdOnly 1, CIdExcept 2, True)]
      in test_points (\<lambda>(first, second, expected).
           overlaps first second = expected \<and> overlaps second first = expected) cases)"

lemma cid_spec_tests_pass: "test_all" "test_none" "test_only" "test_except" "test_overlaps"
  by code_simp+

section \<open>\<open>message_table.rs\<close>\<close>

text \<open>\<open>unwrap\<close> of what \<open>register\<close> and \<open>join\<close> return, in a test: it fails, or goes on with the table.\<close>

fun unwrapping :: "(msg_reg_error + unit) \<times> 't \<Rightarrow> ('t \<Rightarrow> bool) \<Rightarrow> bool" where
  "unwrapping (Inl e, table) rest = False"
| "unwrapping (Inr _, table) rest = rest table"

definition test_errors :: "'v bincode \<Rightarrow> bool" where
  "test_errors bc =
     (unwrapping (register bc TEST_TCP_MSG TCP table_new) (\<lambda>table.
        fst (register bc TEST_TCP_MSG TCP table) = Inl TypeAlreadyRegistered) \<and>
      unwrapping (sorted_register bc TEST_TCP_MSG TCP ''test::TcpMsg'' sorted_table_new) (\<lambda>table.
        fst (sorted_register bc TEST_TCP_MSG TCP ''test::TcpMsg2'' table) = Inl TypeAlreadyRegistered) \<and>
      unwrapping (sorted_register bc TEST_TCP_MSG TCP ''test::TcpMsg'' sorted_table_new) (\<lambda>table.
        fst (sorted_register bc TEST_UDP_MSG TCP ''test::TcpMsg'' table) = Inl NonUniqueIdentifier))"

text \<open>The assertions that four of the tests share.\<close>

definition as_expected :: "msg_reg_error + 'v parts \<Rightarrow> bool" where
  "as_expected r =
     (case r of
        Inl e \<Rightarrow> False
      | Inr parts \<Rightarrow>
          tid_map parts = [TEST_CONNECTION \<mapsto> 0, TEST_RESPONSE \<mapsto> 1, TEST_DISCONNECT \<mapsto> 2, TEST_TCP_MSG \<mapsto> 3,
            TEST_UDP_MSG \<mapsto> 4] \<and>
          transports parts = [TCP, TCP, TCP, TCP, UDP] \<and> length (ser parts) = 5 \<and> length (deser parts) = 5)"

definition test_parts_gen :: "'v bincode \<Rightarrow> bool" where
  "test_parts_gen bc =
     unwrapping (register bc TEST_TCP_MSG TCP table_new) (\<lambda>table.
     unwrapping (register bc TEST_UDP_MSG UDP table) (\<lambda>table.
     as_expected (build bc TEST_CONNECTION TEST_RESPONSE TEST_DISCONNECT table)))"

definition test_parts_gen_sorted :: "'v bincode \<Rightarrow> bool" where
  "test_parts_gen_sorted bc =
     unwrapping (sorted_register bc TEST_TCP_MSG TCP ''tests::TcpMsg'' sorted_table_new) (\<lambda>table1.
     unwrapping (sorted_register bc TEST_UDP_MSG UDP ''tests::UdpMsg'' table1) (\<lambda>table1.
     unwrapping (sorted_register bc TEST_UDP_MSG UDP ''tests::UdpMsg'' sorted_table_new) (\<lambda>table2.
     unwrapping (sorted_register bc TEST_TCP_MSG TCP ''tests::TcpMsg'' table2) (\<lambda>table2.
       let parts = sorted_build bc TEST_CONNECTION TEST_RESPONSE TEST_DISCONNECT table1;
           parts2 = sorted_build bc TEST_CONNECTION TEST_RESPONSE TEST_DISCONNECT table2
       in as_expected parts \<and>
          (case (parts, parts2) of
             (Inr parts, Inr parts2) \<Rightarrow> tid_map parts = tid_map parts2 \<and> transports parts = transports parts2
           | _ \<Rightarrow> False)))))"

definition test_join :: "'v bincode \<Rightarrow> bool" where
  "test_join bc =
     unwrapping (register bc TEST_TCP_MSG TCP table_new) (\<lambda>table1.
     unwrapping (register bc TEST_UDP_MSG UDP table_new) (\<lambda>table2.
     unwrapping (join table1 table2) (\<lambda>table1.
     as_expected (build bc TEST_CONNECTION TEST_RESPONSE TEST_DISCONNECT table1))))"

definition test_join_sorted :: "'v bincode \<Rightarrow> bool" where
  "test_join_sorted bc =
     unwrapping (sorted_register bc TEST_TCP_MSG TCP ''tests::TcpMsg'' sorted_table_new) (\<lambda>table1.
     unwrapping (sorted_register bc TEST_UDP_MSG UDP ''tests::UdpMsg'' sorted_table_new) (\<lambda>table2.
     unwrapping (sorted_join table1 table2) (\<lambda>table1.
     as_expected (sorted_build bc TEST_CONNECTION TEST_RESPONSE TEST_DISCONNECT table1))))"

definition test_join_error :: "'v bincode \<Rightarrow> bool" where
  "test_join_error bc =
     (unwrapping (register bc TEST_TCP_MSG TCP table_new) (\<lambda>table1.
      unwrapping (register bc TEST_TCP_MSG UDP table_new) (\<lambda>table2.
        fst (join table1 table2) = Inl TypeAlreadyRegistered)) \<and>
      unwrapping (sorted_register bc TEST_TCP_MSG TCP ''tests::TcpMsg'' sorted_table_new) (\<lambda>table1.
      unwrapping (sorted_register bc TEST_TCP_MSG UDP ''tests::OtherTcpMsg'' sorted_table_new) (\<lambda>table2.
        fst (sorted_join table1 table2) = Inl TypeAlreadyRegistered)) \<and>
      unwrapping (sorted_register bc TEST_TCP_MSG TCP ''tests::TcpMsg'' sorted_table_new) (\<lambda>table1.
      unwrapping (sorted_register bc TEST_UDP_MSG UDP ''tests::TcpMsg'' sorted_table_new) (\<lambda>table2.
        fst (sorted_join table1 table2) = Inl NonUniqueIdentifier)))"

lemma as_expected_build:
  "as_expected (build bc TEST_CONNECTION TEST_RESPONSE TEST_DISCONNECT
     [(TEST_TCP_MSG, TCP, s1, d1), (TEST_UDP_MSG, UDP, s2, d2)])"
  by (simp add: as_expected_def build_cases test_tids empty_parts_def eval_nat_numeral)


lemma as_expected_sorted_build:
  "as_expected (sorted_build bc TEST_CONNECTION TEST_RESPONSE TEST_DISCONNECT
     [(''tests::TcpMsg'', TEST_TCP_MSG, TCP, s1, d1), (''tests::UdpMsg'', TEST_UDP_MSG, UDP, s2, d2)])"
  by (simp add: as_expected_def sorted_build_def sorted_get_registration_def registered_iffs test_tids empty_parts_def
      eval_nat_numeral)

lemma message_table_tests_pass:
  "test_errors bc" "test_parts_gen bc" "test_join bc" "test_join_sorted bc" "test_join_error bc"
  by (simp_all add: test_errors_def test_parts_gen_def test_join_def test_join_sorted_def test_join_error_def
      register_cases sorted_register_cases join_cases sorted_join_cases table_new_def sorted_table_new_def
      as_expected_build as_expected_sorted_build)
    (simp_all add: test_tids as_expected_build [unfolded test_tids] as_expected_sorted_build [unfolded test_tids])

lemma test_parts_gen_sorted_passes: "test_parts_gen_sorted bc"
proof -
  let ?t = "(''tests::TcpMsg'', TEST_TCP_MSG, TCP, ser_closure bc TEST_TCP_MSG, deser_closure bc TEST_TCP_MSG)"
    and ?u = "(''tests::UdpMsg'', TEST_UDP_MSG, UDP, ser_closure bc TEST_UDP_MSG, deser_closure bc TEST_UDP_MSG)"
  have same: "sorted_build bc TEST_CONNECTION TEST_RESPONSE TEST_DISCONNECT [?u, ?t] =
      sorted_build bc TEST_CONNECTION TEST_RESPONSE TEST_DISCONNECT [?t, ?u]"
    by (simp add: sorted_build_def sorted_get_registration_def registered_iffs test_tids)
  have good: "as_expected (sorted_build bc TEST_CONNECTION TEST_RESPONSE TEST_DISCONNECT [?t, ?u])"
    by (rule as_expected_sorted_build)
  then obtain parts where built: "sorted_build bc TEST_CONNECTION TEST_RESPONSE TEST_DISCONNECT [?t, ?u] = Inr parts"
    by (auto simp: as_expected_def split: sum.splits)
  have "TEST_TCP_MSG \<noteq> TEST_UDP_MSG" by (simp add: test_tids)
  then have "test_parts_gen_sorted bc \<longleftrightarrow> as_expected (Inr parts :: msg_reg_error + 'a parts)"
    by (simp add: test_parts_gen_sorted_def sorted_register_cases sorted_table_new_def Let_def same built)
  then show ?thesis using good built by simp
qed

section \<open>\<open>fail.rs\<close>\<close>

text \<open>
  \<open>client_fail\<close> connects to an address on which nobody listens. \<open>block\<close> receives from the channel
  what the connecting thread has sent when it has run; what the test prints is left out.
\<close>

definition client_fail ::
    "(test_value, 'ch) channel_ops \<Rightarrow> os \<Rightarrow> int \<Rightarrow> sock_addr \<Rightarrow> test_value bincode \<Rightarrow> bool" where
  "client_fail ops sys now peer bc =
     (case get_table_parts bc of
        Inl e \<Rightarrow> False
      | Inr parts \<Rightarrow>
          (case client_new ops sys now peer parts config_default (AnyBox TEST_CONNECTION (VCon ''John Smith'')) of
             (client, thread) \<Rightarrow>
               (case pending_block ops TEST_RESPONSE \<lparr>pc_channel = thread (pc_channel client)\<rparr> of
                  Inl (IoErr e) \<Rightarrow> err_kind e = ConnectionRefused
                | _ \<Rightarrow> False)))"

lemma get_table_parts_builds: "\<exists>parts. get_table_parts bc = Ok parts"
  by (simp add: get_table_parts_def register_cases table_new_def build_cases test_tids)

lemma client_fail_passes:
  assumes "one_message ops" "os_connect sys peer = Err ConnectionRefused o1"
  shows "client_fail ops sys now peer bc"
proof -
  obtain parts where p: "get_table_parts bc = Ok parts" using get_table_parts_builds by blast
  have "holds_result ops (ch_drop_sender ops (ch_send ops (Err ConnectionRefused o1) (ch_bounded ops 1)))
      (Err ConnectionRefused o1)" using assms(1) by (simp add: one_message_def Let_def)
  from holds_resultD [OF this] show ?thesis
    using assms(2)
    by (simp add: client_fail_def p client_new_def client_thread_def client_new_blocking_def pending_block_def
        take_response_def Let_def)
qed

end
