(* ===== verification/Spec2Isabelle.thy ===== *)
theory Spec2Isabelle
  imports Typed Datagrams Joining Settling Round_Bounds Chat_Client Tests
begin

text \<open>
  \<^bold>\<open>The program.\<close> carrier-pigeon is a networking library for games. A \<open>Server\<close> and its
  \<open>Client\<close>s exchange Rust values of registered types. Every type is registered in a table that
  gives it a number (its message id) and a transport; the table of both ends must agree. A value is
  encoded with bincode, gets a 4-byte header in front and is written to a TCP stream or sent as
  one UDP datagram. Once per frame the application calls \<open>clear_msgs\<close> and \<open>recv_msgs\<close>, which
  files what has arrived in one buffer per message id, and then reads the buffers with
  \<open>recv::<T>\<close>. A server in addition accepts connections (a client must first send its connection
  message, which the application accepts or rejects in a hook) and queues the clients that left
  until \<open>handle_disconnects\<close> removes them.

  \<^bold>\<open>The theories.\<close> Each function of the program is one definition, under its own name with the
  name of its component in front where several components have it.

  \<^item> \<open>Prelude\<close>: machine integers, \<open>io::Error\<close> and panics as values (\<open>'a res\<close>), indexing and
    slicing that panic out of range, the operator \<open>?\<close> with and without state, overflow checks.
  \<^item> \<open>Clock\<close> (\<open>src/src/time.rs\<close>): \<open>unix_millis\<close>, \<open>reconstruct_millis\<close>.
  \<^item> \<open>Header\<close> (\<open>src/src/header.rs\<close>): both headers and their big-endian bytes.
  \<^item> \<open>Net\<close> (\<open>src/src/net.rs\<close>): \<open>Transport\<close>, \<open>Status\<close>, \<open>CIdSpec\<close>, \<open>Config\<close>, the typed and the
    erased message, boxed values of any type (a type id and a value) and the message buffers.
  \<^item> \<open>Message_Table\<close> (\<open>src/src/message_table.rs\<close>): \<open>MsgTable\<close>, \<open>SortedMsgTable\<close>, what they build.
  \<^item> \<open>Sockets\<close>: the streams, sockets and listeners of the standard library, as the state the
    operating system keeps, with the calls the program makes.
  \<^item> \<open>Sources\<close>: the interface between a connection and the loop that empties it.
  \<^item> \<open>Tcp\<close>, \<open>Udp\<close> (\<open>src/src/tcp.rs\<close>, \<open>src/src/udp.rs\<close>): the two connections.
  \<^item> \<open>Decode\<close>: the part of \<open>recv_tcp\<close> and \<open>recv_udp\<close> that client and server have in common.
  \<^item> \<open>Client\<close>, \<open>Pending\<close> (\<open>src/src/client.rs\<close>): the client; \<open>Client::new\<close> with its thread, and the
    two handles of a client that connects on it.
  \<^item> \<open>Server\<close> (\<open>src/src/server.rs\<close>): the server's state and operations. \<open>Server_Invariant\<close>: what every
    operation keeps. \<open>Server_Rounds\<close>: what one call of \<open>recv_msgs\<close> files. \<open>Server_Connect\<close>: new
    connections, one at a time. \<open>Settling\<close>: exactly when they are settled as meant.
    \<open>Mirror\<close>: when the two maps of addresses are mirrors of each other.
    \<open>Server_Properties\<close>: everything else.
  \<^item> \<open>Lobby\<close>: the abstract specification of who is connected, and the server's refinement of it.
  \<^item> \<open>Typed\<close>: the types of the messages in the buffers of either end.
  \<^item> \<open>Round_Bounds\<close>: how often the receive loops of either end turn.
  \<^item> \<open>Link\<close>, \<open>Handshake\<close>, \<open>Datagrams\<close>, \<open>Leaving\<close>: a client and a server joined by a network:
    values over TCP, the connection being made, values over UDP, and how a connection ends.
  \<^item> \<open>Chat\<close> (\<open>src/examples\<close>): the chat server and the chat client, frame by frame, on the library's
    model. \<open>Chat_Properties\<close>: what one frame does for its users. \<open>Chat_Room\<close>: the abstract
    specification of the server's frame, a function on a chat room, and its refinement.
    \<open>Chat_Run\<close>, \<open>Chat_Client\<close>: whole runs of both.
  \<^item> \<open>Session\<close>: a server and its clients over any number of rounds, with a network that moves bytes in
    pieces and loses, repeats and reorders datagrams. \<open>Delivery\<close>: what is under way can be delivered.
    \<open>Joining\<close>: sessions from the start of the server, to which clients connect at any time.
  \<^item> \<open>Unit_Tests\<close>: the unit tests inside \<open>header.rs\<close> and \<open>time.rs\<close>. \<open>Tests\<close>: those in
    \<open>src/tests\<close> that need no network.

  \<^bold>\<open>State and effects.\<close> A struct is a record with the struct's fields. A method that changes
  its object, or a socket inside it, returns the new object; a method that can fail returns
  \<open>Inl (IoErr e)\<close> for an \<open>Err\<close> and \<open>Inl (Panic p)\<close> for a panic. Message ids and lengths
  (\<open>usize\<close>) are natural numbers, connection ids, counts and stamps 32-bit words; casts to \<open>u16\<close>
  are written out. \<open>oc\<close> says whether the crate is built with overflow checks. \<open>now\<close> and \<open>clk\<close>
  are the readings of the system and the monotonic clock. The iteration order of a hash map is the
  argument \<open>ko\<close>, of which only \<open>key_order\<close> is assumed. bincode is a record of an encoder and a
  decoder per type; theorems about values that cross the network assume that it decodes what it
  encoded. The channel of a pending client is a record of its five operations
  (create, send, drop the sender, is ready, receive).

  \<^bold>\<open>Interfaces.\<close> \<open>type_registry\<close> (both tables), \<open>message_prefix\<close> (a connection that
  yields the messages in front of whatever is behind them) and its extension \<open>message_source\<close> (one that
  then waits), \<open>drain_prefix\<close> and \<open>drain_loop\<close> (the four receive loops of \<open>recv_msgs\<close> over such
  connections), \<open>con_table\<close> (the server's tables of connections), \<open>typed_buffers\<close> (the buffers of
  both ends, towards the code that reads them); each is interpreted on the definitions of the model,
  and the properties of whole rounds rest on these interpretations. \<open>client_step\<close> and \<open>server_step\<close> are the step relations of
  an end: any operation of the application, and any change the network makes to its sockets;
  \<open>link_step\<close> is that of a server and its clients together, \<open>session_step\<close> adds the handshakes;
  \<open>network_step\<close> is what the network alone does, \<open>server_runs\<close> and \<open>client_runs\<close> are one round of
  an end in it.

  \<^bold>\<open>What the properties show.\<close>

  \<^item> Whole sessions (\<open>session_is_fifo\<close>, \<open>session_can_deliver\<close>): from the server's start, however clients
    connecting, sending, the arrival of bytes and datagrams and the rounds of both ends are interleaved,
    each direction of each TCP connection is a queue from which nothing is lost, repeated or reordered,
    and everything in it can be delivered by one round at each end; what is read over UDP was sent. The
    conditions are in the step relation: a handshake is one step, with no other connection pending; a
    send over TCP that fails has written none of its frame's bytes; no round falls inside a payload; a
    datagram arrives less than 65536 milliseconds after it was sent. \<open>tcp_recv_loses_partial_payload\<close>
    and the lemma \<open>partial_send_forges\<close> show what happens without the third and the second.
  \<^item> Values (\<open>Link\<close>, \<open>Datagrams\<close>, \<open>server_round_delivers\<close>, \<open>client_round_delivers\<close>): what one
    application sends over TCP is what the other one reads, type by type, once and in order, whatever
    the other clients do and whatever becomes of the stream behind it; of what it sends over UDP,
    exactly what arrives; a round files exactly the messages that have arrived.
  \<^item> Connecting (\<open>handshake_completes\<close>, \<open>pending_yields_result\<close>): a connection the hook accepts is
    made at both ends; the pending client yields what the connecting thread came to.
  \<^item> Leaving (\<open>client_disconnect_reaches_server\<close>, \<open>server_disconnect_reaches_client\<close>,
    and the lemma \<open>departures_reported\<close>): a disconnect comes after everything sent before it and is reported once with
    its value; a stream that ends or fails is reported once as dropped.
  \<^item> Refinement (\<open>server_refines_lobby\<close>): every operation of the server is a sequence of steps of
    the lobby, in which clients knock, are admitted or refused, are queued and dismissed. From it,
    \<open>client_id_unique_for_session\<close>: an id is never given to a second client.
  \<^item> Types (\<open>server_reads_typed\<close>, \<open>client_reads_typed\<close>): in every reachable state the buffer of a type
    holds messages of that type only, so that reading it never fails.
  \<^item> Tables (\<open>server_tables_agree\<close>, \<open>handle_disconnects_once_each\<close>, \<open>handle_new_con_first_ready\<close>,
    \<open>send_spec_reaches_matching\<close>): the server's maps agree in every
    reachable state, and mirror each other while no two live clients share an address; each client that leaves is reported once; connections are accepted one by one.
    \<open>handle_new_cons_settles_iff\<close>, \<open>handle_new_con_settles_iff\<close>: when the removals by index, of which
    all but the first may be stale, leave exactly the connections that wait.
  \<^item> The client's life (\<open>client_connects\<close>, \<open>client_stays_down\<close>).
  \<^item> Framing (\<open>tcp_delivers_in_order\<close>, \<open>tcp_recv_safe\<close>, \<open>reconstruct_recovers\<close> and the lemmas on
    headers and stamps): what \<open>send\<close> writes, \<open>recv\<close> reads, in pieces or at once; UDP stamps are
    recovered from their low 16 bits.
  \<^item> Numbering (\<open>build_assigns_ids\<close>, \<open>sorted_build_order_irrelevant\<close> and those on registration):
    both ends agree on the ids.
  \<^item> Where the code fails, the exact condition (\<open>tcp_recv_loses_partial_payload\<close>,
    \<open>stranger_crashes_server\<close>, \<open>udp_recv_panics_iff\<close>, \<open>client_crashes_on_mid_count\<close>,
    \<open>half_header_never_reported\<close>, \<open>reconnect_breaks_mirror\<close>, \<open>tcp_send_truncates_length\<close>), and beside
    them the lemmas \<open>partial_send_forges\<close>, \<open>handle_new_cons_panics\<close>,
    \<open>late_connections_drop_wrong_one\<close>, \<open>unknown_sender_ends_round\<close>, \<open>option_take_twice_panics\<close>,
    \<open>unheard_connection_accepted\<close> and \<open>build_accepts_equal_types\<close>.
  \<^item> The chat (\<open>chat_reaches_the_others\<close>, \<open>chat_server_runs\<close>, \<open>chat_client_leaves\<close>
    and the lemma \<open>chat_disconnect_me_panics\<close>): what one user says, the others read; every
    frame of the server that returns does to the room of its users what the specification says, and the
    library's invariants hold through any number of frames; a user can leave; one user can stop the server.

  \<^bold>\<open>Termination.\<close> No loop has fuel; \<open>server_round_returns\<close> bounds the turns of the server's receive
  loops, followed one by one by the relation \<open>round_turns\<close>, by the clients and the bytes and datagrams
  that wait. Each receive loop ends because the bytes, the datagrams or
  the events its socket holds at the call become fewer, the loop of \<open>start_incoming\<close> because the
  backlog does, those of the disconnects because the queue does; the model gives a call the events
  that arrive while it runs as part of the state it starts with.

  \<^bold>\<open>Simplified.\<close> The \<open>u32\<close> counts that \<open>recv_msgs\<close> of both ends and \<open>handle_disconnects\<close> return
  (the variable \<open>i\<close> or \<open>count\<close> of the source, in \<open>client_tcp_loop\<close>, \<open>client_udp_loop\<close>,
  \<open>server_handle_tcp_msg\<close>, \<open>server_handle_udp_msg\<close> and \<open>server_disconnect_loop\<close>) wrap in either
  build; with overflow checks the source panics instead, after \<open>2 ^ 32\<close> messages or clients in a
  single call. \<open>client_new_blocking\<close> waits for the response once, by the parameter \<open>os_await\<close>; on a real blocking
  stream each read waits, so the parameter stands for a wait until the response has arrived.

  \<^bold>\<open>Not modelled.\<close> Logging and the derived \<open>Debug\<close> formats; the lock around the TCP stream; what dropping a
  connection does to its socket; the partial iterators behind \<open>recv\<close> (they are the lists they
  yield). Of the examples, the logger, the arguments of the programs and their sleeping; the Unicode
  tables behind \<open>to_lowercase\<close> and \<open>trim\<close> are parameters, and the two endless loops are runs of any
  number of turns. \<open>lib.rs\<close> only declares modules. The benchmarks
  measure time. Of the tests, \<open>send_recv.rs\<close> and \<open>disconnect.rs\<close> run a server and a client over the
  loopback interface and are not modelled; what they assert are instances of the properties above.
\<close>

end
